(* ===== verification/Dedup_Prelude.thy ===== *)
theory Dedup_Prelude
  imports Main "HOL-Library.Word"
begin

text \<open>
  Shared vocabulary of the development: machine integers, raw memory, little-endian
  integers, C strings, error results, and the list lemmas the components share.

  \<^item> \<open>byte\<close>, \<open>u32\<close>, \<open>u64\<close> are \<open>uint8_t\<close>, \<open>uint32_t\<close> (also \<open>unsigned int\<close>) and
    \<open>size_t\<close> of the x86-64 System V ABI the build targets.
  \<^item> A heap block (\<open>malloc\<close>) is a \<open>mem\<close>, a total map from offsets to bytes. The bytes a
    program has not written yet are whatever the map holds there, so a model that starts
    from an arbitrary \<open>mem\<close> covers every content of uninitialised memory. The size of a
    block is not part of the map: the operations check their bounds and return a crash
    value where the C++ code would leave the block.
  \<^item> A computation that can crash (undefined behaviour, \<open>exit\<close>) or wait returns \<open>crash + 'a\<close>,
    and \<open>bindR\<close> sequences such computations.
\<close>

unbundle bit_operations_syntax

type_synonym byte = "8 word"
type_synonym u16 = "16 word"
type_synonym u32 = "32 word"
type_synonym u64 = "64 word"
type_synonym mem = "nat \<Rightarrow> byte"

named_theorems mem_simps \<open>reading back what was written to a block\<close>
named_theorems codec_simps \<open>decoding what was encoded\<close>

section \<open>Results\<close>

text \<open>
  Every way a modelled call can end other than by returning: undefined behaviour, process exit, or
  (\<open>Waits\<close>) a wait on a condition variable that only another thread can end.
\<close>

datatype crash =
    BufferOverflow        \<comment> \<open>a write outside a heap block or array\<close>
  | BufferOverread        \<comment> \<open>a read outside a heap block or array\<close>
  | EmptyFront            \<comment> \<open>\<open>front()\<close> or \<open>pop()\<close> of an empty \<open>std::queue\<close>\<close>
  | UseAfterFree          \<comment> \<open>an object is used after \<open>delete\<close>\<close>
  | NullDeref             \<comment> \<open>a null pointer is dereferenced\<close>
  | ErrExit string        \<comment> \<open>\<open>Util::errExit\<close> or \<open>exit(EXIT_FAILURE)\<close>\<close>
  | DivByZero             \<comment> \<open>integer division or remainder by zero\<close>
  | Waits                 \<comment> \<open>the caller sleeps on a condition variable\<close>

definition bindR :: "'e + 'a \<Rightarrow> ('a \<Rightarrow> 'e + 'b) \<Rightarrow> 'e + 'b" where
  "bindR m f = (case m of Inl e \<Rightarrow> Inl e | Inr x \<Rightarrow> f x)"

lemma bindR_simps [simp]:
  "bindR (Inl e) f = Inl e"
  "bindR (Inr x) f = f x"
  by (simp_all add: bindR_def)

lemma bindR_eq_Inr_iff: "bindR m f = Inr y \<longleftrightarrow> (\<exists>x. m = Inr x \<and> f x = Inr y)"
  by (cases m) auto

lemma bindR_assoc: "bindR (bindR m f) g = bindR m (\<lambda>x. bindR (f x) g)"
  by (cases m) auto

definition guardR :: "'e \<Rightarrow> bool \<Rightarrow> 'e + unit" where
  "guardR e b = (if b then Inr () else Inl e)"

lemma guardR_simps [simp]:
  "b \<Longrightarrow> guardR e b = Inr ()"
  "\<not> b \<Longrightarrow> guardR e b = Inl e"
  by (simp_all add: guardR_def)

lemma guardR_eq_Inr_iff: "guardR e b = Inr u \<longleftrightarrow> b"
  by (simp add: guardR_def)

section \<open>Raw memory\<close>

definition mem_write :: "mem \<Rightarrow> nat \<Rightarrow> byte list \<Rightarrow> mem" where
  "mem_write m off bs = (\<lambda>i. if off \<le> i \<and> i < off + length bs then bs ! (i - off) else m i)"

definition mem_read :: "mem \<Rightarrow> nat \<Rightarrow> nat \<Rightarrow> byte list" where
  "mem_read m off n = map (\<lambda>i. m (off + i)) [0..<n]"

lemma length_mem_read [simp]: "length (mem_read m off n) = n"
  by (simp add: mem_read_def)

lemma mem_read_0 [simp]: "mem_read m off 0 = []"
  by (simp add: mem_read_def)

lemma mem_write_Nil [simp]: "mem_write m off [] = m"
  by (rule ext) (auto simp: mem_write_def)

lemma nth_mem_read [simp]: "i < n \<Longrightarrow> mem_read m off n ! i = m (off + i)"
  by (simp add: mem_read_def)

lemma mem_read_write_same [mem_simps]: "mem_read (mem_write m off bs) off (length bs) = bs"
  by (rule nth_equalityI) (auto simp: mem_write_def)

lemma mem_read_write_eq: "length bs = n \<Longrightarrow> mem_read (mem_write m off bs) off n = bs"
  using mem_read_write_same by blast

lemma mem_read_write_within [mem_simps]:
  "off \<le> a \<Longrightarrow> a + n \<le> off + length bs \<Longrightarrow>
   mem_read (mem_write m off bs) a n = take n (drop (a - off) bs)"
  by (rule nth_equalityI) (auto simp: mem_write_def)

lemma mem_read_write_disjoint [mem_simps]:
  "a + n \<le> off \<or> off + length bs \<le> a \<Longrightarrow> mem_read (mem_write m off bs) a n = mem_read m a n"
  by (rule nth_equalityI) (auto simp: mem_write_def)

lemma mem_read_append: "mem_read m off (a + b) = mem_read m off a @ mem_read m (off + a) b"
  by (rule nth_equalityI) (auto simp: nth_append)

lemma mem_read_snoc_write:
  "mem_read (mem_write m n bs) 0 (n + length bs) = mem_read m 0 n @ bs"
  by (simp add: mem_read_append mem_simps)

lemma take_drop_mem_read:
  "a + k \<le> n \<Longrightarrow> take k (drop a (mem_read m off n)) = mem_read m (off + a) k"
  by (rule nth_equalityI) (auto simp: add.assoc)

lemma mem_write_append:
  "mem_write (mem_write m off xs) (off + length xs) ys = mem_write m off (xs @ ys)"
  by (rule ext) (auto simp: mem_write_def nth_append)

lemma mem_write_overwrite:
  "length xs \<le> length ys \<Longrightarrow> mem_write (mem_write m off xs) off ys = mem_write m off ys"
  by (rule ext) (auto simp: mem_write_def)

section \<open>Lists\<close>

lemma take_drop_append_drop: "take n (drop t xs) @ drop (t + n) xs = drop t xs"
  using append_take_drop_id [of n "drop t xs"] by (simp add: add.commute)

section \<open>Little-endian integers\<close>

primrec le_bytes :: "nat \<Rightarrow> nat \<Rightarrow> byte list" where
  "le_bytes 0 n = []"
| "le_bytes (Suc k) n = of_nat n # le_bytes k (n div 256)"

primrec le_nat :: "byte list \<Rightarrow> nat" where
  "le_nat [] = 0"
| "le_nat (b # bs) = unat b + 256 * le_nat bs"

lemma length_le_bytes [simp]: "length (le_bytes k n) = k"
  by (induction k arbitrary: n) auto

lemma le_nat_le_bytes: "le_nat (le_bytes k n) = n mod 256 ^ k"
proof (induction k arbitrary: n)
  case 0
  then show ?case by simp
next
  case (Suc k)
  have "le_nat (le_bytes (Suc k) n) = n mod 256 + 256 * (n div 256 mod 256 ^ k)"
    by (simp add: Suc unat_of_nat)
  also have "\<dots> = n mod (256 * 256 ^ k)"
    by (simp add: mod_mult2_eq)
  finally show ?case by simp
qed

lemma le_nat_bound: "le_nat bs < 256 ^ length bs"
proof (induction bs)
  case Nil
  then show ?case by simp
next
  case (Cons b bs)
  have "unat b < 256" using unsigned_less [of b] by simp
  with Cons show ?case by simp
qed

definition u64_bytes :: "u64 \<Rightarrow> byte list" where
  "u64_bytes w = le_bytes 8 (unat w)"

definition u32_bytes :: "u32 \<Rightarrow> byte list" where
  "u32_bytes w = le_bytes 4 (unat w)"

lemma length_word_bytes [simp]:
  "length (u64_bytes w) = 8"
  "length (u32_bytes v) = 4"
  by (simp_all add: u64_bytes_def u32_bytes_def)

lemma of_nat_le_nat_bytes [codec_simps]:
  "of_nat (le_nat (u64_bytes w)) = w"
  "of_nat (le_nat (u32_bytes v)) = v"
proof -
  have "unat w < 256 ^ 8" using unsigned_less [of w] by simp
  then show "of_nat (le_nat (u64_bytes w)) = w"
    by (simp add: u64_bytes_def le_nat_le_bytes)
  have "unat v < 256 ^ 4" using unsigned_less [of v] by simp
  then show "of_nat (le_nat (u32_bytes v)) = v"
    by (simp add: u32_bytes_def le_nat_le_bytes)
qed

lemma unat_of_nat_small:
  "n < 2 ^ 32 \<Longrightarrow> unat (of_nat n :: u32) = n"
  "n < 2 ^ 64 \<Longrightarrow> unat (of_nat n :: u64) = n"
  by (simp_all add: unat_of_nat)

lemma u64_of_nat_eq_0: "n < 2 ^ 64 \<Longrightarrow> (of_nat n :: u64) = 0 \<longleftrightarrow> n = 0"
  using unat_of_nat_small(2) [of n] unat_eq_zero [of "of_nat n :: u64"] by simp

lemma u32_of_nat_nonzero: "0 < n \<Longrightarrow> n < 2 ^ 32 \<Longrightarrow> (of_nat n :: u32) \<noteq> 0"
  by (simp add: word_of_nat_eq_0_iff nat_dvd_not_less)

section \<open>C strings\<close>

definition str_bytes :: "string \<Rightarrow> byte list" where
  "str_bytes s = map (\<lambda>c. of_nat (of_char c)) s"

definition bytes_str :: "byte list \<Rightarrow> string" where
  "bytes_str bs = map (\<lambda>b. char_of (unat b)) bs"

definition no_nul :: "string \<Rightarrow> bool" where
  "no_nul s \<longleftrightarrow> CHR 0x00 \<notin> set s"

text \<open>\<open>std::string((char*)p)\<close>: the bytes up to the first NUL.\<close>

definition c_string :: "byte list \<Rightarrow> string" where
  "c_string bs = bytes_str (takeWhile (\<lambda>b. b \<noteq> 0) bs)"

lemma length_str_bytes [simp]: "length (str_bytes s) = length s"
  by (simp add: str_bytes_def)

lemma unat_of_char: "unat (of_nat (of_char c) :: byte) = of_char c"
proof -
  have "(of_char c :: nat) < 256" by simp
  then show ?thesis by (simp add: unat_of_nat)
qed

lemma bytes_str_str_bytes [codec_simps]: "bytes_str (str_bytes s) = s"
  by (simp add: bytes_str_def str_bytes_def comp_def unat_of_char)

lemma str_bytes_bytes_str [codec_simps]: "str_bytes (bytes_str bs) = bs"
proof (induction bs)
  case Nil
  then show ?case by (simp add: str_bytes_def bytes_str_def)
next
  case (Cons b bs)
  have "unat b < 256" using unsigned_less [of b] by simp
  with Cons show ?case by (simp add: str_bytes_def bytes_str_def)
qed

lemma inj_str_bytes: "str_bytes s = str_bytes t \<longleftrightarrow> s = t"
  by (metis bytes_str_str_bytes)

lemma inj_bytes_str: "bytes_str s = bytes_str t \<longleftrightarrow> s = t"
  by (metis str_bytes_bytes_str)

lemma of_char_eq_0: "(of_char c :: nat) = 0 \<longleftrightarrow> c = CHR 0x00"
proof -
  have "(of_char c :: nat) = of_char (CHR 0x00) \<longleftrightarrow> c = CHR 0x00"
    by (rule of_char_eq_iff)
  then show ?thesis by simp
qed

lemma byte_of_char_eq_0: "(of_nat (of_char c) :: byte) = 0 \<longleftrightarrow> c = CHR 0x00"
proof -
  have "(of_nat (of_char c) :: byte) = 0 \<longleftrightarrow> unat (of_nat (of_char c) :: byte) = 0"
    by (simp only: unat_eq_zero)
  then show ?thesis by (simp only: unat_of_char of_char_eq_0)
qed

lemma c_string_terminated:
  assumes "no_nul s"
  shows "c_string (str_bytes s @ 0 # rest) = s"
proof -
  have "\<forall>b \<in> set (str_bytes s). b \<noteq> 0"
    using assms by (auto simp: str_bytes_def no_nul_def byte_of_char_eq_0)
  then have "takeWhile (\<lambda>b. b \<noteq> 0) (str_bytes s @ 0 # rest) = str_bytes s"
    by (simp add: takeWhile_append)
  then show ?thesis by (simp add: c_string_def codec_simps)
qed

section \<open>Decimal numbers\<close>

text \<open>\<open>std::to_string(int)\<close> and the conversion \<open>%d\<close> of \<open>sprintf\<close>.\<close>

fun dec_digits :: "nat \<Rightarrow> string" where
  "dec_digits n =
     (if n < 10 then [char_of (48 + n)] else dec_digits (n div 10) @ [char_of (48 + n mod 10)])"

declare dec_digits.simps [simp del]

definition to_string :: "int \<Rightarrow> string" where
  "to_string i = (if i < 0 then CHR ''-'' # dec_digits (nat (- i)) else dec_digits (nat i))"

lemma length_dec_digits: "n < 10 ^ k \<Longrightarrow> 0 < k \<Longrightarrow> length (dec_digits n) \<le> k"
proof (induction n arbitrary: k rule: dec_digits.induct)
  case (1 n)
  show ?case
  proof (cases "n < 10")
    case True
    then show ?thesis using 1 by (simp add: dec_digits.simps)
  next
    case False
    then obtain j where k: "k = Suc j" "0 < j"
      using "1.prems" by (cases k; cases "k - 1") auto
    then have "n div 10 < 10 ^ j" using "1.prems" by simp
    then have "length (dec_digits (n div 10)) \<le> j" using "1.IH" False k by simp
    then show ?thesis using False k by (simp add: dec_digits.simps [of n])
  qed
qed

text \<open>Decimal text is made of digits and determines the number.\<close>

definition dec_value :: "string \<Rightarrow> nat" where
  "dec_value s = foldl (\<lambda>a c. 10 * a + (of_char c - 48)) 0 s"

lemma dec_value_digits: "dec_value (dec_digits n) = n"
proof (induction n rule: dec_digits.induct)
  case (1 n)
  show ?case
  proof (cases "n < 10")
    case True
    then show ?thesis by (simp add: dec_digits.simps dec_value_def)
  next
    case False
    have "dec_value (dec_digits n) = 10 * dec_value (dec_digits (n div 10)) + n mod 10"
      using False by (simp add: dec_digits.simps [of n] dec_value_def)
    then show ?thesis using "1.IH" [OF False] by simp
  qed
qed

lemma digit_char: "d < 10 \<Longrightarrow> c = char_of (48 + d :: nat) \<Longrightarrow> 48 \<le> (of_char c :: nat) \<and> of_char c < (58 :: nat)"
  by simp

lemma dec_digits_chars: "c \<in> set (dec_digits n) \<Longrightarrow> 48 \<le> (of_char c :: nat) \<and> of_char c < (58 :: nat)"
proof (induction n rule: dec_digits.induct)
  case (1 n)
  show ?case
  proof (cases "n < 10")
    case True
    then have "c = char_of (48 + n)" using "1.prems" by (simp add: dec_digits.simps [of n])
    then show ?thesis using True digit_char [of n c] by blast
  next
    case False
    then consider "c \<in> set (dec_digits (n div 10))" | "c = char_of (48 + n mod 10)"
      using "1.prems" by (auto simp: dec_digits.simps [of n])
    then show ?thesis
    proof cases
      case 1
      then show ?thesis using "1.IH" False by simp
    next
      case 2
      then show ?thesis using digit_char [of "n mod 10" c] by simp
    qed
  qed
qed

lemma dec_digits_not_Nil: "dec_digits n \<noteq> []"
  by (simp add: dec_digits.simps)

lemma to_string_chars: "c \<in> set (to_string i) \<Longrightarrow> c = CHR ''-'' \<or> 48 \<le> (of_char c :: nat)"
  by (auto simp: to_string_def dec_digits_chars split: if_splits)

lemma to_string_not_Nil: "to_string i \<noteq> []"
  by (auto simp: to_string_def dec_digits_not_Nil)

lemma dec_digits_inj: "dec_digits m = dec_digits n \<longleftrightarrow> m = n"
  by (metis dec_value_digits)

lemma inj_to_string: "to_string i = to_string j \<longleftrightarrow> i = j"
proof -
  have minus: "dec_digits n \<noteq> CHR ''-'' # s" for n s
    using dec_digits_chars [of "CHR ''-''" n] by auto
  show ?thesis
    using minus [of "nat i" "dec_digits (nat (- j))"] minus [of "nat j" "dec_digits (nat (- i))"]
    by (cases "i < 0"; cases "j < 0") (auto simp: to_string_def dec_digits_inj)
qed

end
