(* ===== verification/Define.thy ===== *)
theory Define
  imports Dedup_Prelude
begin

text \<open>
  The data of \<^verbatim>\<open>include/define.h\<close> and the constants of \<^verbatim>\<open>include/Config.h\<close>.

  Structs are records and enums are datatypes with the source's enumerators. The structs
  that travel over the socket or into a recipe file are written as raw memory by the code,
  so each of them has an encoder and a decoder for its x86-64 layout (little endian, natural
  alignment): \<open>ControlMsg_t\<close> is 8 bytes and its data, \<open>DataMsgHeader_t\<close> 40 bytes (4 bytes
  of padding after the enum), \<open>ChunkAddr_t\<close> 56 bytes, \<open>LoginInfo_t\<close> 4 bytes. Padding bytes
  are written as zero; no decoder reads them. Counters whose guards keep them far below
  their width (\<open>occupied\<close>, \<open>capacity\<close>, \<open>num\<close>) are \<open>nat\<close>; fields that arrive from the
  network keep their width. The lemmas are the round trips of the encodings.
\<close>

section \<open>Constants (Config.h)\<close>

definition CHUNKSIZE :: nat where "CHUNKSIZE = push_bit 10 4"
definition BATCHSIZE :: nat where "BATCHSIZE = 1024"
definition HASHSIZE :: nat where "HASHSIZE = 32"
definition CONTAINERSIZE :: nat where "CONTAINERSIZE = push_bit 20 4"
definition CLOSELOG :: bool where "CLOSELOG = False"
definition LOGLINES :: nat where "LOGLINES = 1000"

lemma config_values:
  "CHUNKSIZE = 4096" "BATCHSIZE = 1024" "HASHSIZE = 32" "CONTAINERSIZE = 4194304"
  by (simp_all add: CHUNKSIZE_def BATCHSIZE_def HASHSIZE_def CONTAINERSIZE_def push_bit_eq_mult)

section \<open>Enumerations\<close>

datatype Order_t = UPLOAD | UPLOADREP | DOWNLOAD | DOWNLOADREP | QUIT | QUITREP

datatype RepStatus_t = NONE | DUPLICATE | UNIQUE | EXIST | NOTEXIST

datatype HashType = SHA256 | MD5 | SHA1

datatype DataMsgType = UPLOADBODY | UPLOADBODYREP | DOWNLOADBODY | FILEEND | LOGIN

definition HASHTYPE :: HashType where "HASHTYPE = SHA256"

text \<open>The enumerators' underlying integers, as they are stored in a message.\<close>

primrec order_val :: "Order_t \<Rightarrow> u32" where
  "order_val UPLOAD = 0"
| "order_val UPLOADREP = 1"
| "order_val DOWNLOAD = 2"
| "order_val DOWNLOADREP = 3"
| "order_val QUIT = 4"
| "order_val QUITREP = 5"

primrec status_val :: "RepStatus_t \<Rightarrow> u32" where
  "status_val NONE = 0"
| "status_val DUPLICATE = 1"
| "status_val UNIQUE = 2"
| "status_val EXIST = 3"
| "status_val NOTEXIST = 4"

primrec dataMsgType_val :: "DataMsgType \<Rightarrow> u32" where
  "dataMsgType_val UPLOADBODY = 0"
| "dataMsgType_val UPLOADBODYREP = 1"
| "dataMsgType_val DOWNLOADBODY = 2"
| "dataMsgType_val FILEEND = 3"
| "dataMsgType_val LOGIN = 4"

text \<open>
  Reading an enumerator back: a value that names none of them matches no \<open>case\<close> of a
  \<open>switch\<close>, which is the result \<open>None\<close>.
\<close>

definition order_of :: "u32 \<Rightarrow> Order_t option" where
  "order_of w =
     (if w = 0 then Some UPLOAD else if w = 1 then Some UPLOADREP
      else if w = 2 then Some DOWNLOAD else if w = 3 then Some DOWNLOADREP
      else if w = 4 then Some QUIT else if w = 5 then Some QUITREP else None)"

definition status_of :: "u32 \<Rightarrow> RepStatus_t option" where
  "status_of w =
     (if w = 0 then Some NONE else if w = 1 then Some DUPLICATE
      else if w = 2 then Some UNIQUE else if w = 3 then Some EXIST
      else if w = 4 then Some NOTEXIST else None)"

lemma enum_of_val [codec_simps]:
  "order_of (order_val ord) = Some ord"
  "status_of (status_val st) = Some st"
  by (cases ord; simp add: order_of_def) (cases st; simp add: status_of_def)

lemma order_of_Some: "order_of w = Some ord \<longleftrightarrow> w = order_val ord"
  by (cases ord) (auto simp: order_of_def)

lemma dataMsgType_val_inj [simp]: "dataMsgType_val a = dataMsgType_val b \<longleftrightarrow> a = b"
  by (cases a; cases b) auto

section \<open>Message headers\<close>

definition sizeof_ControlMsg :: nat where "sizeof_ControlMsg = 8"
definition sizeof_DataMsg :: nat where "sizeof_DataMsg = 40"
definition sizeof_ChunkAddr :: nat where "sizeof_ChunkAddr = 56"
definition sizeof_LoginInfo :: nat where "sizeof_LoginInfo = 4"

lemmas sizeofs = sizeof_ControlMsg_def sizeof_DataMsg_def sizeof_ChunkAddr_def sizeof_LoginInfo_def

record DataMsgHeader_t =
  dataMsgType :: u32
  hdr_start :: u64      \<comment> \<open>start position of chunk hashes\<close>
  queryNum :: u64       \<comment> \<open>number of chunk hashes in the later part of the data\<close>
  hdr_chunkNum :: u64   \<comment> \<open>number of chunks\<close>
  hdr_size :: u64       \<comment> \<open>size of header and data\<close>

record DataMsg_t =
  header :: DataMsgHeader_t
  msg_data :: mem

definition enc_header :: "DataMsgHeader_t \<Rightarrow> byte list" where
  "enc_header h = u32_bytes (dataMsgType h) @ replicate 4 0 @ u64_bytes (hdr_start h) @
     u64_bytes (queryNum h) @ u64_bytes (hdr_chunkNum h) @ u64_bytes (hdr_size h)"

definition dec_header :: "byte list \<Rightarrow> DataMsgHeader_t" where
  "dec_header bs =
     \<lparr>dataMsgType = of_nat (le_nat (take 4 bs)),
      hdr_start = of_nat (le_nat (take 8 (drop 8 bs))),
      queryNum = of_nat (le_nat (take 8 (drop 16 bs))),
      hdr_chunkNum = of_nat (le_nat (take 8 (drop 24 bs))),
      hdr_size = of_nat (le_nat (take 8 (drop 32 bs)))\<rparr>"

lemma length_enc_header [simp]: "length (enc_header h) = 40"
  by (simp add: enc_header_def)

lemma dec_enc_header [codec_simps]: "dec_header (enc_header h @ rest) = h"
  by (simp add: dec_header_def enc_header_def codec_simps)

text \<open>
  The bytes of a message of \<open>n\<close> bytes in a buffer of type \<open>DataMsg_t\<close>, and a buffer after
  \<open>n\<close> received bytes were stored at its start: bytes beyond the received ones keep what
  the buffer held.
\<close>

definition msg_bytes :: "DataMsg_t \<Rightarrow> nat \<Rightarrow> byte list" where
  "msg_bytes m n = take n (enc_header (header m) @ mem_read (msg_data m) 0 (n - sizeof_DataMsg))"

definition load_msg :: "DataMsg_t \<Rightarrow> byte list \<Rightarrow> DataMsg_t" where
  "load_msg m bs =
     \<lparr>header = dec_header (take sizeof_DataMsg bs @ drop (length bs) (enc_header (header m))),
      msg_data = mem_write (msg_data m) 0 (drop sizeof_DataMsg bs)\<rparr>"

lemma length_msg_bytes [simp]: "length (msg_bytes m n) = n"
  by (simp add: msg_bytes_def sizeof_DataMsg_def)

lemma header_load_msg [codec_simps]:
  "sizeof_DataMsg \<le> n \<Longrightarrow> header (load_msg b (msg_bytes m n)) = header m"
  using dec_enc_header [of "header m" "[]"]
  by (simp add: load_msg_def msg_bytes_def sizeof_DataMsg_def)

lemma data_load_msg [codec_simps]:
  "sizeof_DataMsg \<le> n \<Longrightarrow>
   msg_data (load_msg b (msg_bytes m n)) =
   mem_write (msg_data b) 0 (mem_read (msg_data m) 0 (n - sizeof_DataMsg))"
  by (simp add: load_msg_def msg_bytes_def sizeof_DataMsg_def)

section \<open>Chunk addresses\<close>

record ChunkAddr_t =
  ca_containerID :: string   \<comment> \<open>the C string in \<open>char containerID[40]\<close>\<close>
  ca_offset :: u64
  ca_size :: u64

text \<open>The constructor copies \<open>strlen(containerID_) + 1\<close> bytes into the 40-byte array.\<close>

definition mk_ChunkAddr :: "string \<Rightarrow> u64 \<Rightarrow> u64 \<Rightarrow> crash + ChunkAddr_t" where
  "mk_ChunkAddr cid off sz =
     bindR (guardR BufferOverflow (length cid + 1 \<le> 40)) (\<lambda>_.
     Inr \<lparr>ca_containerID = cid, ca_offset = off, ca_size = sz\<rparr>)"

definition enc_addr :: "ChunkAddr_t \<Rightarrow> byte list" where
  "enc_addr a = take 40 (str_bytes (ca_containerID a) @ replicate 40 0) @
     u64_bytes (ca_offset a) @ u64_bytes (ca_size a)"

definition dec_addr :: "byte list \<Rightarrow> ChunkAddr_t" where
  "dec_addr bs =
     \<lparr>ca_containerID = c_string (take 40 bs),
      ca_offset = of_nat (le_nat (take 8 (drop 40 bs))),
      ca_size = of_nat (le_nat (take 8 (drop 48 bs)))\<rparr>"

definition addr_ok :: "ChunkAddr_t \<Rightarrow> bool" where
  "addr_ok a \<longleftrightarrow> no_nul (ca_containerID a) \<and> length (ca_containerID a) < 40"

lemma length_enc_addr [simp]: "length (enc_addr a) = 56"
  by (simp add: enc_addr_def)

lemma dec_enc_addr [codec_simps]:
  assumes "addr_ok a"
  shows "dec_addr (enc_addr a) = a"
proof -
  define s where "s = ca_containerID a"
  obtain k where k: "40 - length s = Suc k"
    using assms by (cases "40 - length s") (auto simp: addr_ok_def s_def)
  from k have "k \<le> 39" by linarith
  then have "take 40 (str_bytes s @ replicate 40 0) = str_bytes s @ 0 # replicate k 0"
    using k by simp
  then have "c_string (take 40 (str_bytes s @ replicate 40 0)) = s"
    using assms by (simp add: c_string_terminated addr_ok_def s_def)
  moreover have "min (length s) 40 = length s"
    using assms by (simp add: addr_ok_def s_def)
  ultimately show ?thesis
    by (simp add: dec_addr_def enc_addr_def codec_simps s_def)
qed

lemma mk_ChunkAddr_Inr:
  "mk_ChunkAddr cid off sz = Inr a \<longleftrightarrow>
   length cid < 40 \<and> a = \<lparr>ca_containerID = cid, ca_offset = off, ca_size = sz\<rparr>"
  by (auto simp: mk_ChunkAddr_def bindR_eq_Inr_iff guardR_eq_Inr_iff)

section \<open>The remaining structs\<close>

record ReadBuffer_t =
  dataBuffer :: mem
  hashBuffer :: mem
  rb_chunkNum :: nat
  rb_dataSize :: nat

record HashList_t =
  hl_num :: nat
  hl_data :: mem

record Container_t =
  containerID :: string
  occupied :: nat
  capacity :: nat
  c_data :: mem

record RecipeEntryContainer_t =
  rec_num :: nat     \<comment> \<open>number of entries\<close>
  rec_data :: mem

record ClientInfo_t =
  client_id :: u32
  ci_ip :: string
  ci_port :: u16

definition ClientInfo_new :: "u32 \<Rightarrow> string \<Rightarrow> u16 \<Rightarrow> ClientInfo_t" where
  "ClientInfo_new uninit_id ip port = \<lparr>client_id = uninit_id, ci_ip = ip, ci_port = port\<rparr>"

end
