(* ===== verification/Util.thy ===== *)
theory Util
  imports Define
begin

text \<open>
  The static helpers of \<^verbatim>\<open>include/Util.h\<close>: framing on a stream socket, control messages,
  file names, digests and their hexadecimal form.

  A socket is what its system calls return: a \<open>write\<close> gives an \<open>ssize_t\<close>, a \<open>read\<close> the
  bytes it delivered or an error. The framing loops take the results of their successive
  system calls as a list and return \<open>None\<close> while the loop is still running when the list
  ends, so a loop that never ends is one that gives \<open>None\<close> for every list. The framing
  theorems hold for every way the kernel splits the bytes, so the components above treat
  one framed message as a unit.
\<close>

section \<open>send_data and receive_data\<close>

text \<open>
  The loop of \<open>send_data\<close>. \<open>write\<close> returns the number of bytes it took, or \<open>-1\<close>; the result
  is stored in a \<open>size_t\<close>, so \<open>-1\<close> becomes \<open>2 ^ 64 - 1\<close> and the sum wraps around. The value
  is the bytes that went into the socket.
\<close>

fun send_loop :: "int list \<Rightarrow> byte list \<Rightarrow> u64 \<Rightarrow> u64 \<Rightarrow> byte list option" where
  "send_loop rs bytes dataSize totalSentSize =
     (if totalSentSize < dataSize then
        (case rs of
           [] \<Rightarrow> None
         | r # rs' \<Rightarrow>
             map_option (\<lambda>out. take (nat r) (drop (unat totalSentSize) bytes) @ out)
               (send_loop rs' bytes dataSize (totalSentSize + of_int r)))
      else Some [])"

declare send_loop.simps [simp del]

text \<open>The length prefix is written first; its result is ignored (\<open>r0\<close> bytes of it are taken).\<close>

definition send_data :: "nat \<Rightarrow> int list \<Rightarrow> byte list \<Rightarrow> byte list option" where
  "send_data r0 rs bytes =
     (let dataSize = of_nat (length bytes) :: u64
      in map_option (\<lambda>out. take r0 (u64_bytes dataSize) @ out)
           (send_loop rs bytes dataSize 0))"

text \<open>What one \<open>read\<close> returned: the bytes delivered (none at end of file), or an error.\<close>

datatype read_result = Got "byte list" | ReadError

fun read_count :: "read_result \<Rightarrow> u64" where
  "read_count (Got bs) = of_nat (length bs)"
| "read_count ReadError = -1"

fun read_bytes :: "read_result \<Rightarrow> byte list" where
  "read_bytes (Got bs) = bs"
| "read_bytes ReadError = []"

text \<open>
  The loop of \<open>receive_data\<close>: the block it fills and the final \<open>receivedSize\<close>. A count that
  wrapped below zero addresses memory before the block; the model keeps the offset \<open>unat\<close>
  of it.
\<close>

fun receive_loop :: "read_result list \<Rightarrow> mem \<Rightarrow> u64 \<Rightarrow> u64 \<Rightarrow> (mem \<times> u64) option" where
  "receive_loop rs blk len receivedSize =
     (if receivedSize < len then
        (case rs of
           [] \<Rightarrow> None
         | r # rs' \<Rightarrow>
             receive_loop rs' (mem_write blk (unat receivedSize) (read_bytes r)) len
               (receivedSize + read_count r))
      else Some (blk, receivedSize))"

declare receive_loop.simps [simp del]

text \<open>
  The length is read with a single \<open>read\<close> whose result is ignored: bytes of \<open>len\<close> that did
  not arrive keep the uninitialised value of the variable.
\<close>

definition receive_len :: "byte list \<Rightarrow> read_result \<Rightarrow> u64" where
  "receive_len uninit r =
     of_nat (le_nat (take 8 (read_bytes r @ drop (length (read_bytes r)) uninit)))"

definition receive_data ::
    "byte list \<Rightarrow> read_result \<Rightarrow> read_result list \<Rightarrow> mem \<Rightarrow> (mem \<times> u64) option" where
  "receive_data uninit r0 rs blk = receive_loop rs blk (receive_len uninit r0) 0"

subsection \<open>Correctness of the framing loops\<close>

text \<open>
  What POSIX documents for a blocking stream socket without errors: each \<open>write\<close> takes at
  least one and at most the offered number of bytes, each \<open>read\<close> delivers at least one and
  at most the requested number of them, in order.
\<close>

fun writes_ok :: "int list \<Rightarrow> nat \<Rightarrow> bool" where
  "writes_ok [] n = (n = 0)"
| "writes_ok (r # rs) n = (1 \<le> r \<and> r \<le> int n \<and> writes_ok rs (n - nat r))"

fun reads_ok :: "read_result list \<Rightarrow> byte list \<Rightarrow> bool" where
  "reads_ok [] bs = (bs = [])"
| "reads_ok (ReadError # rs) bs = False"
| "reads_ok (Got d # rs) bs =
     (d \<noteq> [] \<and> take (length d) bs = d \<and> reads_ok rs (drop (length d) bs))"

lemma of_nat_less_u64: "n < 2 ^ 64 \<Longrightarrow> t \<le> n \<Longrightarrow> (of_nat t :: u64) < of_nat n \<longleftrightarrow> t < n"
  by (simp add: word_less_nat_alt unat_of_nat)

lemma not_top_less: "\<not> (-1 :: u64) < w"
  using word_order.extremum [of w] by (simp add: not_less)

lemma send_loop_step:
  "totalSentSize < dataSize \<Longrightarrow>
   send_loop (r # rs) bytes dataSize totalSentSize =
   map_option (\<lambda>out. take (nat r) (drop (unat totalSentSize) bytes) @ out)
     (send_loop rs bytes dataSize (totalSentSize + of_int r))"
  by (subst send_loop.simps) simp

lemma send_loop_done:
  "\<not> totalSentSize < dataSize \<Longrightarrow> send_loop rs bytes dataSize totalSentSize = Some []"
  by (subst send_loop.simps) simp

lemma send_loop_correct:
  assumes "writes_ok rs (length bytes - t)" "t \<le> length bytes" "length bytes < 2 ^ 64"
  shows "send_loop rs bytes (of_nat (length bytes)) (of_nat t) = Some (drop t bytes)"
  using assms
proof (induction rs arbitrary: t)
  case Nil
  then show ?case by (simp add: send_loop_done)
next
  case (Cons r rs)
  let ?n = "length bytes"
  from Cons.prems(1) have r: "1 \<le> r" "r \<le> int (?n - t)" and ok: "writes_ok rs (?n - t - nat r)"
    by auto
  then have "t < ?n" by simp
  then have lt: "(of_nat t :: u64) < of_nat ?n"
    using Cons.prems by (simp add: of_nat_less_u64)
  have "(of_nat t :: u64) + of_int r = of_nat (t + nat r)"
    using r by simp
  moreover have "send_loop rs bytes (of_nat ?n) (of_nat (t + nat r)) = Some (drop (t + nat r) bytes)"
    using Cons.IH [of "t + nat r"] r ok Cons.prems by simp
  moreover have "unat (of_nat t :: u64) = t"
    using Cons.prems by (simp add: unat_of_nat)
  ultimately show ?case
    using lt by (simp add: send_loop_step take_drop_append_drop)
qed

lemma receive_loop_step:
  "receivedSize < len \<Longrightarrow>
   receive_loop (r # rs) blk len receivedSize =
   receive_loop rs (mem_write blk (unat receivedSize) (read_bytes r)) len (receivedSize + read_count r)"
  by (subst receive_loop.simps) simp

lemma receive_loop_done:
  "\<not> receivedSize < len \<Longrightarrow> receive_loop rs blk len receivedSize = Some (blk, receivedSize)"
  by (subst receive_loop.simps) simp

text \<open>
  Reading \<open>bs\<close> in any pieces stores it at the current offset, and the loop continues from
  there.
\<close>

lemma receive_loop_pieces:
  assumes "reads_ok rs bs" "t + length bs \<le> n" "n < 2 ^ 64"
  shows "receive_loop (rs @ rs') blk (of_nat n) (of_nat t) =
         receive_loop rs' (mem_write blk t bs) (of_nat n) (of_nat (t + length bs))"
  using assms
proof (induction rs bs arbitrary: t blk rule: reads_ok.induct)
  case (3 d rs bs)
  let ?bs = "drop (length d) bs"
  have split: "bs = d @ ?bs"
    using "3.prems"(1) by (metis append_take_drop_id reads_ok.simps(3))
  have len: "length d \<le> length bs" "d \<noteq> []"
    using "3.prems"(1) by (auto dest: arg_cong [of _ _ length])
  then have "t < n" using "3.prems"(2) by (cases d) auto
  then have lt: "(of_nat t :: u64) < of_nat n" and "unat (of_nat t :: u64) = t"
    using "3.prems" by (simp_all add: of_nat_less_u64 unat_of_nat)
  then have "receive_loop ((Got d # rs) @ rs') blk (of_nat n) (of_nat t) =
        receive_loop (rs @ rs') (mem_write blk t d) (of_nat n) (of_nat (t + length d))"
    by (simp add: receive_loop_step)
  also have "\<dots> = receive_loop rs' (mem_write (mem_write blk t d) (t + length d) ?bs)
                  (of_nat n) (of_nat (t + length d + length ?bs))"
    using "3.prems" len by (intro "3.IH") auto
  finally show ?case
    using split len by (simp add: mem_write_append)
qed simp_all

lemma receive_loop_correct:
  assumes "reads_ok rs bs" "length bs < 2 ^ 64"
  shows "receive_loop rs blk (of_nat (length bs)) 0 =
         Some (mem_write blk 0 bs, of_nat (length bs))"
  using receive_loop_pieces [OF assms(1), of 0 "length bs" "[]" blk] assms(2)
  by (simp add: receive_loop_done)

lemma receive_loop_eof:
  "receivedSize < len \<Longrightarrow> receive_loop (replicate k (Got [])) blk len receivedSize = None"
  by (induction k) (simp_all add: receive_loop_step receive_loop.simps [of "[]"])

text \<open>
  C11: framing is transparent. However the kernel splits the bytes of a message, on the
  sending and on the receiving side, \<open>send_data\<close> returns, and \<open>receive_data\<close> on the bytes it
  produced returns with exactly the message at the start of the block and its length.
\<close>

theorem send_receive_roundtrip:
  assumes "writes_ok ws (length bytes)" "length bytes < 2 ^ 64"
  shows "\<exists>wire. send_data 8 ws bytes = Some wire \<and>
           (\<forall>uninit rds blk. reads_ok rds (drop 8 wire) \<longrightarrow>
              receive_data uninit (Got (take 8 wire)) rds blk =
              Some (mem_write blk 0 bytes, of_nat (length bytes)))"
proof -
  have "send_data 8 ws bytes = Some (u64_bytes (of_nat (length bytes)) @ bytes)"
    using send_loop_correct [of ws bytes 0] assms by (simp add: send_data_def)
  moreover have "receive_data uninit (Got (u64_bytes (of_nat (length bytes)))) rds blk =
      Some (mem_write blk 0 bytes, of_nat (length bytes))" if "reads_ok rds bytes" for uninit rds blk
    using receive_loop_correct [OF that assms(2)]
    by (simp add: receive_data_def receive_len_def codec_simps)
  ultimately show ?thesis by auto
qed

theorem send_receive_roundtrip_witness:
  "\<exists>wire. send_data 8 [1, 2] [7, 8, 9] = Some wire \<and>
     (\<forall>uninit rds blk. reads_ok rds (drop 8 wire) \<longrightarrow>
        receive_data uninit (Got (take 8 wire)) rds blk =
        Some (mem_write blk 0 [7, 8, 9], of_nat (length [7, 8, 9 :: byte])))"
  by (rule send_receive_roundtrip) simp_all

text \<open>
  C40: a peer that closes the connection inside a message makes \<open>receive_data\<close> spin: after any
  part of the announced bytes, however many further \<open>read\<close> calls return end of file, the
  loop has not returned.
\<close>

theorem receive_data_eof_spins:
  assumes "reads_ok rds part" "length part < len" "len < 2 ^ 64"
  shows "receive_data uninit (Got (u64_bytes (of_nat len))) (rds @ replicate k (Got [])) blk = None"
proof -
  have "(of_nat (length part) :: u64) < of_nat len"
    using assms by (simp add: of_nat_less_u64)
  then show ?thesis
    using receive_loop_pieces [OF assms(1), of 0 len "replicate k (Got [])" blk] assms(2,3)
    by (simp add: receive_data_def receive_len_def codec_simps receive_loop_eof)
qed

theorem receive_data_eof_spins_witness:
  "receive_data [] (Got (u64_bytes (of_nat 3))) ([Got [7]] @ replicate 1000 (Got [])) (\<lambda>_. 0) = None"
  by (rule receive_data_eof_spins [of _ "[7]"]) simp_all

text \<open>
  A \<open>read\<close> error at the start of the body ends the loop at once: nothing is stored and
  \<open>receivedSize\<close> wraps to \<open>2 ^ 64 - 1\<close>, and a \<open>write\<close> error at the start makes \<open>send_data\<close>
  return with only the length prefix sent.
\<close>

theorem io_error_is_silent:
  "receive_data uninit (Got (u64_bytes len)) (ReadError # rds) blk =
     Some (if len = 0 then (blk, 0) else (blk, -1)) \<and>
   send_data 8 (-1 # ws) bytes = Some (u64_bytes (of_nat (length bytes)))"
proof
  show "receive_data uninit (Got (u64_bytes len)) (ReadError # rds) blk =
     Some (if len = 0 then (blk, 0) else (blk, -1))"
    by (simp add: receive_data_def receive_len_def codec_simps receive_loop_step receive_loop_done
          not_top_less word_neq_0_conv)
next
  show "send_data 8 (-1 # ws) bytes = Some (u64_bytes (of_nat (length bytes)))"
    by (cases "(of_nat (length bytes) :: u64) = 0")
       (simp_all add: send_data_def Let_def send_loop_step send_loop_done not_top_less word_neq_0_conv)
qed

section \<open>File names\<close>

text \<open>\<open>filePath[i]\<close> for \<open>i \<le> size()\<close>: the terminating NUL at \<open>i = size()\<close>.\<close>

definition char_at :: "string \<Rightarrow> nat \<Rightarrow> char" where
  "char_at s i = (if i < length s then s ! i else CHR 0x00)"

text \<open>The downward loop: the index where it stops, \<open>None\<close> for \<open>i = -1\<close>.\<close>

fun slash_loop :: "string \<Rightarrow> nat \<Rightarrow> nat option" where
  "slash_loop p 0 = (if char_at p 0 = CHR ''/'' then Some 0 else None)"
| "slash_loop p (Suc i) = (if char_at p (Suc i) = CHR ''/'' then Some (Suc i) else slash_loop p i)"

definition get_file_name :: "string \<Rightarrow> string" where
  "get_file_name filePath =
     (case slash_loop filePath (length filePath) of
        None \<Rightarrow> filePath
      | Some i \<Rightarrow> drop (i + 1) filePath)"

lemma slash_loop_None: "slash_loop p i = None \<longleftrightarrow> (\<forall>j\<le>i. char_at p j \<noteq> CHR ''/'')"
  by (induction i) (auto simp: le_Suc_eq)

lemma slash_loop_Some:
  "slash_loop p i = Some k \<Longrightarrow>
   k \<le> i \<and> char_at p k = CHR ''/'' \<and> (\<forall>j. k < j \<and> j \<le> i \<longrightarrow> char_at p j \<noteq> CHR ''/'')"
  by (induction i) (auto simp: le_Suc_eq split: if_splits)

lemma slash_loop_append:
  assumes "CHR ''/'' \<notin> set name"
  shows "slash_loop (dir @ CHR ''/'' # name) (length (dir @ CHR ''/'' # name)) = Some (length dir)"
proof -
  let ?p = "dir @ CHR ''/'' # name"
  have after: "char_at ?p j \<noteq> CHR ''/''" if "length dir < j" for j
  proof (cases "j < length ?p")
    case True
    then have "?p ! j \<in> set name"
      using that by (auto simp: nth_append nth_Cons split: nat.splits)
    then show ?thesis using assms True by (auto simp: char_at_def)
  qed (simp add: char_at_def)
  have here: "char_at ?p (length dir) = CHR ''/''" by (simp add: char_at_def)
  then obtain k where k: "slash_loop ?p (length ?p) = Some k"
    using slash_loop_None [of ?p "length ?p"] by (cases "slash_loop ?p (length ?p)") auto
  have "\<not> length dir < k" using slash_loop_Some [OF k] after by auto
  moreover have "\<not> k < length dir" using slash_loop_Some [OF k] here by auto
  ultimately show ?thesis using k by simp
qed

lemma get_file_name_no_slash:
  assumes "CHR ''/'' \<notin> set p"
  shows "get_file_name p = p"
proof -
  have "char_at p j \<noteq> CHR ''/''" for j
    using assms by (auto simp: char_at_def in_set_conv_nth)
  then show ?thesis
    using slash_loop_None [of p "length p"] by (simp add: get_file_name_def)
qed

lemma get_file_name_append:
  "CHR ''/'' \<notin> set name \<Longrightarrow> get_file_name (dir @ CHR ''/'' # name) = name"
  using slash_loop_append [of name dir] by (simp add: get_file_name_def)

text \<open>
  \<open>get_file_name\<close> returns the last component of a path: it has no slash, and the path is
  either the name itself or a directory prefix, a slash and the name.
\<close>

theorem get_file_name_last_component:
  "CHR ''/'' \<notin> set (get_file_name p) \<and>
   (p = get_file_name p \<or> (\<exists>dir. p = dir @ CHR ''/'' # get_file_name p))"
proof (cases "CHR ''/'' \<in> set p")
  case True
  then obtain dir name where "p = dir @ CHR ''/'' # name" "CHR ''/'' \<notin> set name"
    by (auto dest: split_list_last)
  then show ?thesis by (auto simp: get_file_name_append)
next
  case False
  then show ?thesis by (simp add: get_file_name_no_slash)
qed

section \<open>Control messages\<close>

text \<open>
  \<open>send_control_message\<close> fills a fresh heap block (\<open>uninit\<close>) and sends its first \<open>msgSize\<close>
  bytes. For \<open>UPLOAD\<close> and \<open>DOWNLOAD\<close> the block has room for a terminating NUL, but only the
  characters of the name are copied.
\<close>

definition send_control_message :: "mem \<Rightarrow> Order_t \<Rightarrow> string \<Rightarrow> RepStatus_t \<Rightarrow> byte list" where
  "send_control_message uninit ord fileName st =
     (let (msgSize, msg) =
        (case ord of
           UPLOAD \<Rightarrow> (sizeof_ControlMsg + length fileName + 1,
                       mem_write uninit sizeof_ControlMsg (str_bytes fileName))
         | DOWNLOAD \<Rightarrow> (sizeof_ControlMsg + length fileName + 1,
                         mem_write uninit sizeof_ControlMsg (str_bytes fileName))
         | UPLOADREP \<Rightarrow> (sizeof_ControlMsg, mem_write uninit 4 (u32_bytes (status_val st)))
         | DOWNLOADREP \<Rightarrow> (sizeof_ControlMsg, mem_write uninit 4 (u32_bytes (status_val st)))
         | QUIT \<Rightarrow> (sizeof_ControlMsg, uninit)
         | QUITREP \<Rightarrow> (sizeof_ControlMsg, uninit))
      in mem_read (mem_write msg 0 (u32_bytes (order_val ord))) 0 msgSize)"

text \<open>
  \<open>receive_control_msg\<close> stores the message in a block of \<open>sizeof(ControlMsg_t) + 200\<close> bytes.
  \<open>fileName\<close> and \<open>status\<close> are reference parameters that keep their value when the order does
  not set them.
\<close>

definition receive_control_msg ::
    "mem \<Rightarrow> byte list \<Rightarrow> string \<Rightarrow> u32 \<Rightarrow> crash + (u32 \<times> string \<times> u32)" where
  "receive_control_msg uninit frame fileName st =
     bindR (guardR BufferOverflow (length frame \<le> sizeof_ControlMsg + 200)) (\<lambda>_.
     (let msg = mem_write uninit 0 frame;
          ord = of_nat (le_nat (mem_read msg 0 4)) :: u32;
          bytes = mem_read msg sizeof_ControlMsg 200;
          name = (if 0 \<in> set bytes then Inr (ord, c_string bytes, st) else Inl BufferOverread);
          rep = Inr (ord, fileName, of_nat (le_nat (mem_read msg 4 4)))
      in case order_of ord of
           Some UPLOAD \<Rightarrow> name
         | Some DOWNLOAD \<Rightarrow> name
         | Some UPLOADREP \<Rightarrow> rep
         | Some DOWNLOADREP \<Rightarrow> rep
         | Some QUIT \<Rightarrow> Inr (ord, fileName, st)
         | Some QUITREP \<Rightarrow> Inr (ord, fileName, st)
         | None \<Rightarrow> Inr (ord, fileName, st)))"

definition is_request :: "Order_t \<Rightarrow> bool" where
  "is_request ord \<longleftrightarrow> ord = UPLOAD \<or> ord = DOWNLOAD"

definition is_reply :: "Order_t \<Rightarrow> bool" where
  "is_reply ord \<longleftrightarrow> ord = UPLOADREP \<or> ord = DOWNLOADREP"

lemma request_frame:
  assumes "is_request ord"
  shows "send_control_message uninit ord name st =
         u32_bytes (order_val ord) @ mem_read uninit 4 4 @ str_bytes name @ [uninit (8 + length name)]"
proof -
  let ?m = "mem_write (mem_write uninit 8 (str_bytes name)) 0 (u32_bytes (order_val ord))"
  have "mem_read ?m 0 (4 + (4 + (length name + 1))) =
        mem_read ?m 0 4 @ mem_read ?m 4 4 @ mem_read ?m 8 (length name) @ mem_read ?m (8 + length name) 1"
    by (simp only: mem_read_append append_assoc) simp
  moreover have "mem_read ?m 0 4 = u32_bytes (order_val ord)"
    using mem_read_write_same [of _ 0 "u32_bytes (order_val ord)"] by simp
  moreover have "mem_read ?m 4 4 = mem_read uninit 4 4"
    by (simp add: mem_simps)
  moreover have "mem_read ?m 8 (length name) = str_bytes name"
    using mem_read_write_same [of uninit 8 "str_bytes name"] by (simp add: mem_simps)
  moreover have "mem_read ?m (8 + length name) 1 = [uninit (8 + length name)]"
    by (simp add: mem_simps) (simp add: mem_read_def)
  ultimately show ?thesis
    using assms by (auto simp: is_request_def send_control_message_def sizeofs)
qed

lemma receive_control_msg_request:
  assumes "is_request ord" "length frame \<le> 208"
    and "mem_read (mem_write blk 0 frame) 0 4 = u32_bytes (order_val ord)"
    and "mem_read (mem_write blk 0 frame) 8 200 = bytes"
  shows "receive_control_msg blk frame fn st =
         (if 0 \<in> set bytes then Inr (order_val ord, c_string bytes, st) else Inl BufferOverread)"
  using assms
  by (auto simp: receive_control_msg_def Let_def sizeofs is_request_def codec_simps order_of_def)

lemma receive_request_frame:
  assumes "is_request ord" "length name \<le> 199" "length pre = 4"
  shows "receive_control_msg blk (u32_bytes (order_val ord) @ pre @ str_bytes name @ [c]) fn st =
         (let bytes = str_bytes name @ c # mem_read blk (9 + length name) (199 - length name)
          in if 0 \<in> set bytes then Inr (order_val ord, c_string bytes, st) else Inl BufferOverread)"
proof -
  let ?f = "u32_bytes (order_val ord) @ pre @ str_bytes name @ [c]"
  let ?m = "mem_write blk 0 ?f"
  have ord: "mem_read ?m 0 4 = u32_bytes (order_val ord)"
    by (simp add: mem_simps)
  have "mem_read ?m 8 ((length name + 1) + (199 - length name)) =
        mem_read ?m 8 (length name + 1) @ mem_read ?m (8 + (length name + 1)) (199 - length name)"
    by (rule mem_read_append)
  also have "mem_read ?m 8 (length name + 1) = str_bytes name @ [c]"
    using assms(3) by (simp add: mem_simps)
  also have "mem_read ?m (8 + (length name + 1)) (199 - length name) =
             mem_read blk (9 + length name) (199 - length name)"
    using assms(3) by (simp add: mem_simps)
  finally have bytes: "mem_read ?m 8 200 =
      str_bytes name @ c # mem_read blk (9 + length name) (199 - length name)"
    using assms(2) by simp
  have "length ?f \<le> 208" using assms by simp
  from receive_control_msg_request [OF assms(1) this ord bytes] show ?thesis
    by (simp only: Let_def)
qed

lemma request_decoded:
  assumes "is_request ord" "no_nul name" "length name \<le> 199" "uninit (8 + length name) = 0"
  shows "receive_control_msg blk (send_control_message uninit ord name st) fn st' =
         Inr (order_val ord, name, st')"
  using assms
  by (simp add: request_frame receive_request_frame c_string_terminated)

text \<open>
  C23: a request survives the wire when the byte after the name in the sender's fresh block
  happens to be zero: the server sees the order and the file name that were sent.
\<close>

theorem request_roundtrip:
  assumes "is_request ord" "no_nul name" "length name \<le> 199" "uninit (8 + length name) = 0"
  shows "receive_control_msg blk (send_control_message uninit ord name st) fn st' =
         Inr (order_val ord, name, st')"
  using assms by (rule request_decoded)

theorem request_roundtrip_witness:
  "receive_control_msg (\<lambda>_. 7) (send_control_message (\<lambda>_. 0) UPLOAD ''test-1G'' NONE) [] 0 =
   Inr (order_val UPLOAD, ''test-1G'', 0)"
  by (rule request_roundtrip) (simp_all add: is_request_def no_nul_def)

lemma quit_answered:
  assumes "ord = QUIT \<or> ord = QUITREP"
  shows "receive_control_msg blk (send_control_message malloc ord [] NONE) fn st = Inr (order_val ord, fn, st)"
proof -
  define f where "f = send_control_message malloc ord [] NONE"
  have "f = mem_read (mem_write malloc 0 (u32_bytes (order_val ord))) 0 8"
    using assms by (auto simp: f_def send_control_message_def sizeofs)
  then have "length f = 8" "take 4 f = u32_bytes (order_val ord)"
    using mem_read_append [of _ 0 4 4] mem_read_write_eq [of "u32_bytes (order_val ord)" 4 malloc 0] by simp_all
  then have "length f \<le> 208" "mem_read (mem_write blk 0 f) 0 4 = u32_bytes (order_val ord)"
    by (simp_all add: mem_simps)
  then show ?thesis
    using assms unfolding f_def [symmetric]
    by (auto simp: receive_control_msg_def Let_def sizeofs codec_simps order_of_def)
qed

text \<open>
  \<open>send_control_message\<close> does not copy the terminating NUL. When the byte after the name in
  the sender's block is not zero, the server never sees the name that was sent.
\<close>

theorem request_missing_terminator:
  assumes "is_request ord" "no_nul name" "length name \<le> 199" "uninit (8 + length name) \<noteq> 0"
  shows "receive_control_msg blk (send_control_message uninit ord name st) fn st' \<noteq>
         Inr (order_val ord, name, st')"
proof -
  let ?c = "uninit (8 + length name)"
  let ?rest = "mem_read blk (9 + length name) (199 - length name)"
  have nz: "\<forall>b \<in> set (str_bytes name). b \<noteq> 0"
    using assms(2) by (auto simp: str_bytes_def no_nul_def byte_of_char_eq_0)
  have "takeWhile (\<lambda>b. b \<noteq> 0) (str_bytes name @ ?c # ?rest) =
        str_bytes name @ ?c # takeWhile (\<lambda>b. b \<noteq> 0) ?rest"
    using nz assms(4) by (simp add: takeWhile_append)
  then have "length (c_string (str_bytes name @ ?c # ?rest)) > length name"
    by (simp add: c_string_def bytes_str_def)
  then have "c_string (str_bytes name @ ?c # ?rest) \<noteq> name" by auto
  then show ?thesis
    using assms by (simp add: request_frame receive_request_frame Let_def)
qed

theorem request_missing_terminator_witness:
  "receive_control_msg (\<lambda>_. 0) (send_control_message (\<lambda>_. 120) UPLOAD ''a'' NONE) [] 0 \<noteq>
   Inr (order_val UPLOAD, ''a'', 0)"
  by (rule request_missing_terminator) (simp_all add: is_request_def no_nul_def)

text \<open>
  C38: the receiver's block holds 200 bytes of data and its bound is not checked: a request with
  a file name of 200 or more characters writes past the block.
\<close>

theorem request_name_overflow:
  assumes "is_request ord" "200 \<le> length name"
  shows "receive_control_msg blk (send_control_message uninit ord name st) fn st' = Inl BufferOverflow"
  using assms
  by (simp add: request_frame receive_control_msg_def sizeofs)

theorem request_name_overflow_witness:
  "receive_control_msg (\<lambda>_. 0)
     (send_control_message (\<lambda>_. 0) DOWNLOAD (replicate 200 CHR ''x'') NONE) [] 0 = Inl BufferOverflow"
  by (rule request_name_overflow) (simp_all add: is_request_def)

lemma reply_frame:
  assumes "is_reply ord"
  shows "send_control_message uninit ord name st =
         u32_bytes (order_val ord) @ u32_bytes (status_val st)"
proof -
  let ?m = "mem_write (mem_write uninit 4 (u32_bytes (status_val st))) 0 (u32_bytes (order_val ord))"
  have "mem_read ?m 0 (4 + 4) = mem_read ?m 0 4 @ mem_read ?m 4 4"
    by (simp only: mem_read_append) simp
  also have "mem_read ?m 0 4 = u32_bytes (order_val ord)" by (simp add: mem_simps)
  also have "mem_read ?m 4 4 = u32_bytes (status_val st)" by (simp add: mem_simps)
  finally show ?thesis
    using assms by (auto simp: is_reply_def send_control_message_def sizeofs)
qed

text \<open>The replies and the quit messages survive the wire for every content of the blocks.\<close>

lemma reply_roundtrip:
  assumes "is_reply ord"
  shows "receive_control_msg blk (send_control_message uninit ord name st) fn st' =
         Inr (order_val ord, fn, status_val st)"
proof -
  let ?f = "u32_bytes (order_val ord) @ u32_bytes (status_val st)"
  have "mem_read (mem_write blk 0 ?f) 0 4 = u32_bytes (order_val ord)"
       "mem_read (mem_write blk 0 ?f) 4 4 = u32_bytes (status_val st)"
    by (simp_all add: mem_simps)
  then show ?thesis
    using assms
    by (auto simp: reply_frame receive_control_msg_def Let_def sizeofs is_reply_def codec_simps
          order_of_def)
qed

lemma quit_roundtrip:
  assumes "ord = QUIT \<or> ord = QUITREP"
  shows "receive_control_msg blk (send_control_message uninit ord name st) fn st' =
         Inr (order_val ord, fn, st')"
proof -
  let ?m = "mem_write uninit 0 (u32_bytes (order_val ord))"
  have "mem_read (mem_write blk 0 (mem_read ?m 0 8)) 0 4 = mem_read ?m 0 4"
    by (rule nth_equalityI) (simp_all add: mem_write_def)
  also have "\<dots> = u32_bytes (order_val ord)" by (simp add: mem_simps)
  finally show ?thesis
    using assms
    by (auto simp: send_control_message_def receive_control_msg_def Let_def sizeofs codec_simps
          order_of_def)
qed

section \<open>Digests\<close>

text \<open>
  \<open>EVP_Digest\<close> of OpenSSL is a parameter: the digest of the bytes under a hash algorithm, or
  failure. \<open>generate_hash\<close> selects the algorithm by the constant \<open>HASHTYPE\<close>.
\<close>

type_synonym evp = "HashType \<Rightarrow> byte list \<Rightarrow> byte list option"

text \<open>\<open>errExit\<close> prints its message and ends the process.\<close>

definition errExit :: "string \<Rightarrow> crash + 'a" where
  "errExit msg = Inl (ErrExit msg)"

declare errExit_def [simp]

definition generate_hash :: "evp \<Rightarrow> byte list \<Rightarrow> crash + byte list" where
  "generate_hash evp bytes =
     (case HASHTYPE of
        SHA1 \<Rightarrow> (case evp SHA1 bytes of None \<Rightarrow> errExit ''hash failed'' | Some h \<Rightarrow> Inr h)
      | SHA256 \<Rightarrow> (case evp SHA256 bytes of None \<Rightarrow> errExit ''hash failed'' | Some h \<Rightarrow> Inr h)
      | MD5 \<Rightarrow> (case evp MD5 bytes of None \<Rightarrow> errExit ''hash failed'' | Some h \<Rightarrow> Inr h))"

text \<open>The documented behaviour the code relies on: a SHA-256 digest exists and has 32 bytes.\<close>

definition evp_total :: "evp \<Rightarrow> bool" where
  "evp_total evp \<longleftrightarrow> (\<forall>bytes. \<exists>h. evp SHA256 bytes = Some h \<and> length h = 32)"

definition digest :: "evp \<Rightarrow> byte list \<Rightarrow> byte list" where
  "digest evp bytes = the (evp SHA256 bytes)"

lemma generate_hash_total:
  assumes "evp_total evp"
  shows "generate_hash evp bytes = Inr (digest evp bytes)" "length (digest evp bytes) = 32"
proof -
  obtain h where "evp SHA256 bytes = Some h" "length h = 32"
    using assms by (auto simp: evp_total_def)
  then show "generate_hash evp bytes = Inr (digest evp bytes)" "length (digest evp bytes) = 32"
    by (simp_all add: generate_hash_def HASHTYPE_def digest_def)
qed

definition nibble_char :: "byte \<Rightarrow> char" where
  "nibble_char tmp =
     (if tmp \<le> 9 then char_of (unat tmp + 48) else char_of (unat tmp - 10 + 97))"

definition convert_array_hash_to_string :: "byte list \<Rightarrow> string" where
  "convert_array_hash_to_string hash =
     concat (map (\<lambda>b. [nibble_char (drop_bit 4 (b AND 0xf0)), nibble_char (b AND 0x0f)])
       (take 32 hash))"

lemma unat_low_nibble: "unat (b AND 0x0f :: byte) = unat b mod 16"
proof -
  have "b AND 0x0f = take_bit 4 b"
    by (simp add: take_bit_eq_mask mask_eq_exp_minus_1)
  then show ?thesis by (simp add: take_bit_eq_mod unat_mod_distrib)
qed

lemma unat_high_nibble: "unat (drop_bit 4 (b AND 0xf0) :: byte) = unat b div 16"
proof -
  have mask: "bit (0xf0 :: byte) n \<longleftrightarrow> 4 \<le> n \<and> n < 8" for n
  proof (cases "n < 8")
    case True
    then have "n \<in> {0, 1, 2, 3, 4, 5, 6, 7}" by auto
    then show ?thesis by (auto simp: bit_numeral_rec)
  next
    case False
    then show ?thesis using bit_imp_le_length [of "0xf0 :: byte" n] by auto
  qed
  have "bit (drop_bit 4 (b AND 0xf0)) n \<longleftrightarrow> bit (drop_bit 4 b) n" for n
    using bit_imp_le_length [of b "4 + n"]
    by (simp only: bit_drop_bit_eq o_apply bit_and_iff mask) auto
  then have "drop_bit 4 (b AND 0xf0) = drop_bit 4 b"
    by (intro bit_word_eqI) simp
  then show ?thesis by (simp add: drop_bit_eq_div unat_div_distrib)
qed

lemma nibble_char_inj:
  assumes "nibble_char a = nibble_char b" "unat a < 16" "unat b < 16"
  shows "a = b"
proof -
  have code: "of_char (nibble_char x) = (if unat x \<le> 9 then unat x + 48 else unat x + 87)"
    if "unat x < 16" for x
    using that by (auto simp: nibble_char_def word_le_nat_alt)
  have "(of_char (nibble_char a) :: nat) = of_char (nibble_char b)" using assms(1) by simp
  then have "unat a = unat b"
    using assms(2,3) by (auto simp: code split: if_splits)
  then show ?thesis by (rule unsigned_word_eqI)
qed

lemma nibbles_inj:
  assumes "nibble_char (drop_bit 4 (a AND 0xf0)) = nibble_char (drop_bit 4 (b AND 0xf0))"
    and "nibble_char (a AND 0x0f) = nibble_char (b AND 0x0f)"
  shows "a = b"
proof -
  have lt: "unat x < 256" for x :: byte
    using unsigned_less [of x] by simp
  have hi: "unat (drop_bit 4 (x AND 0xf0)) < 16" for x :: byte
    using lt [of x] by (subst unat_high_nibble) simp
  have lo: "unat (x AND 0x0f) < 16" for x :: byte
    by (subst unat_low_nibble) simp
  have "unat a div 16 = unat b div 16"
    using nibble_char_inj [OF assms(1) hi hi] by (metis unat_high_nibble)
  moreover have "unat a mod 16 = unat b mod 16"
    using nibble_char_inj [OF assms(2) lo lo] by (metis unat_low_nibble)
  ultimately have "unat a = unat b" by (metis div_mult_mod_eq)
  then show ?thesis by (rule unsigned_word_eqI)
qed

lemma length_convert: "length (convert_array_hash_to_string h) = 2 * min 32 (length h)"
proof -
  have "length (concat (map (\<lambda>b. [f b, g b]) xs)) = 2 * length xs" for f g :: "byte \<Rightarrow> char" and xs
    by (induction xs) auto
  then show ?thesis by (simp add: convert_array_hash_to_string_def)
qed

lemma hex_inj_aux:
  "length xs = length ys \<Longrightarrow>
   concat (map (\<lambda>b. [nibble_char (drop_bit 4 (b AND 0xf0)), nibble_char (b AND 0x0f)]) xs) =
   concat (map (\<lambda>b. [nibble_char (drop_bit 4 (b AND 0xf0)), nibble_char (b AND 0x0f)]) ys) \<Longrightarrow>
   xs = ys"
  by (induction xs ys rule: list_induct2) (auto intro: nibbles_inj)

lemma convert_eq_iff:
  "length h = 32 \<Longrightarrow> length h' = 32 \<Longrightarrow>
   convert_array_hash_to_string h = convert_array_hash_to_string h' \<longleftrightarrow> h = h'"
  using hex_inj_aux [of h h'] by (auto simp: convert_array_hash_to_string_def)

text \<open>
  The hexadecimal key under which a chunk is indexed identifies its 32-byte digest: it has 64
  characters, and two digests with the same key are equal.
\<close>

theorem convert_hash_injective:
  assumes "length h = 32" "length h' = 32"
  shows "length (convert_array_hash_to_string h) = 64 \<and>
         (convert_array_hash_to_string h = convert_array_hash_to_string h' \<longleftrightarrow> h = h')"
  using assms by (simp add: length_convert convert_eq_iff)

theorem convert_hash_injective_witness:
  "length (convert_array_hash_to_string (replicate 32 0xa5)) = 64 \<and>
   (convert_array_hash_to_string (replicate 32 0xa5) = convert_array_hash_to_string (replicate 32 0x5a)
      \<longleftrightarrow> replicate 32 0xa5 = replicate 32 (0x5a :: byte))"
  by (rule convert_hash_injective) simp_all

section \<open>Event registration\<close>

text \<open>The interest list of an \<open>epoll\<close> instance: registered descriptors and their event masks.\<close>

type_synonym epoll = "int \<rightharpoonup> u32"

definition EPOLLIN :: u32 where "EPOLLIN = 0x001"
definition EPOLLRDHUP :: u32 where "EPOLLRDHUP = 0x2000"

text \<open>\<open>EPOLL_CTL_ADD\<close> of a registered descriptor fails (\<open>EEXIST\<close>) and changes nothing.\<close>

definition epoll_ctl_add :: "epoll \<Rightarrow> int \<Rightarrow> u32 \<Rightarrow> epoll" where
  "epoll_ctl_add ep fd ev = (case ep fd of None \<Rightarrow> ep(fd \<mapsto> ev) | Some _ \<Rightarrow> ep)"

definition addfd :: "epoll \<Rightarrow> int \<Rightarrow> epoll" where
  "addfd ep sock_fd = epoll_ctl_add ep sock_fd EPOLLRDHUP"

definition delfd :: "epoll \<Rightarrow> int \<Rightarrow> epoll" where
  "delfd ep sock_fd = ep(sock_fd := None)"

end
