(* ===== verification/MysqlConnPool.thy ===== *)
theory MysqlConnPool
  imports Dedup_Prelude "HOL-Library.Multiset"
begin

text \<open>
  The pool of database connections of \<^verbatim>\<open>include/MysqlConnPool.h\<close> and
  \<^verbatim>\<open>src/server/MysqlConnPool.cc\<close>.

  The MySQL client library is a parameter: \<open>mysql_init\<close> and \<open>mysql_real_connect\<close> by what they
  return, and one function \<open>exec\<close> for \<open>mysql_query\<close> followed by \<open>mysql_store_result\<close>: the database
  after the statement and the number of rows of its result set, \<open>None\<close> when there is none.
  A connection is a value of any type \<open>'c\<close> (a \<open>MYSQL*\<close>). \<open>pool_step\<close> lets any number of threads
  construct and destroy \<open>MysqlConn\<close> objects in any order.
\<close>

section \<open>The pool\<close>

record 'c MysqlConnPool =
  m_maxconn :: nat
  m_freeconn :: nat
  m_connpool :: "'c list"

text \<open>The constructor's loop: the \<open>i\<close>-th \<open>mysql_init\<close> and the connect of its result.\<close>

fun connect_loop :: "(nat \<Rightarrow> 'c option) \<Rightarrow> ('c \<Rightarrow> bool) \<Rightarrow> nat \<Rightarrow> nat \<Rightarrow> 'c MysqlConnPool \<Rightarrow>
    crash + 'c MysqlConnPool" where
  "connect_loop mysql_init mysql_real_connect i 0 p = Inr p"
| "connect_loop mysql_init mysql_real_connect i (Suc n) p =
     (case mysql_init i of
        None \<Rightarrow> Inl (ErrExit ''mysql_init() failed'')
      | Some mysql \<Rightarrow>
          if \<not> mysql_real_connect mysql then Inl (ErrExit ''connect mysql server failed'')
          else connect_loop mysql_init mysql_real_connect (Suc i) n
                 (p\<lparr>m_connpool := m_connpool p @ [mysql], m_freeconn := m_freeconn p + 1\<rparr>))"

definition MysqlConnPool_new ::
    "(nat \<Rightarrow> 'c option) \<Rightarrow> ('c \<Rightarrow> bool) \<Rightarrow> nat \<Rightarrow> crash + 'c MysqlConnPool" where
  "MysqlConnPool_new mysql_init mysql_real_connect maxconn =
     connect_loop mysql_init mysql_real_connect 0 maxconn
       \<lparr>m_maxconn = maxconn, m_freeconn = 0, m_connpool = []\<rparr>"

definition get_connection :: "'c MysqlConnPool \<Rightarrow> crash + 'c \<times> 'c MysqlConnPool" where
  "get_connection p =
     (if m_freeconn p = 0 then Inl Waits
      else (case m_connpool p of
              [] \<Rightarrow> Inl EmptyFront
            | conn # rest \<Rightarrow>
                Inr (conn, p\<lparr>m_connpool := rest, m_freeconn := m_freeconn p - 1\<rparr>)))"

definition release_connection :: "'c \<Rightarrow> 'c MysqlConnPool \<Rightarrow> 'c MysqlConnPool" where
  "release_connection conn p =
     (if conn \<in> set (m_connpool p) then p
      else p\<lparr>m_connpool := m_connpool p @ [conn], m_freeconn := m_freeconn p + 1\<rparr>)"

section \<open>Queries\<close>

type_synonym 'db mysql_exec = "'db \<Rightarrow> string \<Rightarrow> 'db \<times> nat option"

text \<open>
  \<open>mysql_store_result\<close> gives a null pointer when the statement failed, and \<open>mysql_num_rows\<close>
  dereferences it. The number of rows is stored in an \<open>int\<close>.
\<close>

definition hasResult :: "'db mysql_exec \<Rightarrow> 'db \<Rightarrow> string \<Rightarrow> crash + 'db \<times> bool" where
  "hasResult exec db query =
     (case exec db query of
        (db', None) \<Rightarrow> Inl NullDeref
      | (db', Some rows) \<Rightarrow> Inr (db', (of_nat rows :: u32) \<noteq> 0))"

definition executeInsertion :: "'db mysql_exec \<Rightarrow> 'db \<Rightarrow> string \<Rightarrow> 'db" where
  "executeInsertion exec db query = fst (exec db query)"

text \<open>A \<open>MysqlConn\<close> lives for one call: its constructor takes a connection, its destructor returns it.\<close>

definition with_conn :: "'c MysqlConnPool \<Rightarrow> (crash + 'a) \<Rightarrow> crash + 'a \<times> 'c MysqlConnPool" where
  "with_conn p body =
     bindR (get_connection p) (\<lambda>(conn, p').
     bindR body (\<lambda>r. Inr (r, release_connection conn p')))"

section \<open>Threads\<close>

record 'c pool_sys =
  pool :: "'c MysqlConnPool"
  held :: "nat \<rightharpoonup> 'c"

inductive pool_step :: "'c pool_sys \<Rightarrow> 'c pool_sys \<Rightarrow> bool" where
  construct: "held s t = None \<Longrightarrow> get_connection (pool s) = Inr (conn, p) \<Longrightarrow>
    pool_step s (s\<lparr>pool := p, held := (held s)(t \<mapsto> conn)\<rparr>)"
| destruct: "held s t = Some conn \<Longrightarrow>
    pool_step s (s\<lparr>pool := release_connection conn (pool s), held := (held s)(t := None)\<rparr>)"

inductive pool_reachable :: "'c MysqlConnPool \<Rightarrow> 'c pool_sys \<Rightarrow> bool" for p where
  start: "pool_reachable p \<lparr>pool = p, held = Map.empty\<rparr>"
| step: "pool_reachable p s \<Longrightarrow> pool_step s s' \<Longrightarrow> pool_reachable p s'"

inductive_cases pool_stepE: "pool_step s s'"

definition pool_ok :: "'c MysqlConnPool \<Rightarrow> bool" where
  "pool_ok p \<longleftrightarrow> m_freeconn p = length (m_connpool p) \<and> distinct (m_connpool p)"

text \<open>Every connection is either free or held by exactly one thread.\<close>

definition pool_inv :: "'c set \<Rightarrow> 'c pool_sys \<Rightarrow> bool" where
  "pool_inv conns s \<longleftrightarrow>
     pool_ok (pool s) \<and> inj_on (held s) (dom (held s)) \<and>
     set (m_connpool (pool s)) \<inter> ran (held s) = {} \<and>
     set (m_connpool (pool s)) \<union> ran (held s) = conns"

lemma connect_loop_Inr:
  "connect_loop init conn i n p = Inr p' \<Longrightarrow>
   m_connpool p' = m_connpool p @ map (\<lambda>k. the (init k)) [i..<i + n] \<and>
   m_freeconn p' = m_freeconn p + n \<and> m_maxconn p' = m_maxconn p"
proof (induction n arbitrary: i p)
  case 0
  then show ?case by simp
next
  case (Suc n)
  then obtain c where "init i = Some c"
    and "connect_loop init conn (Suc i) n
          (p\<lparr>m_connpool := m_connpool p @ [c], m_freeconn := m_freeconn p + 1\<rparr>) = Inr p'"
    by (auto split: option.splits if_splits)
  moreover have "[i..<i + Suc n] = i # [Suc i..<Suc i + n]"
    by (simp add: upt_conv_Cons del: upt_Suc)
  ultimately show ?case using Suc.IH by (fastforce simp del: upt_Suc)
qed

lemma get_connection_Inr:
  "pool_ok p \<Longrightarrow> get_connection p = Inr (conn, p') \<Longrightarrow>
   m_connpool p = conn # m_connpool p' \<and> pool_ok p' \<and> m_maxconn p' = m_maxconn p"
  by (auto simp: get_connection_def pool_ok_def split: if_splits list.splits)

lemma release_connection_new:
  "conn \<notin> set (m_connpool p) \<Longrightarrow> pool_ok p \<Longrightarrow>
   m_connpool (release_connection conn p) = m_connpool p @ [conn] \<and>
   pool_ok (release_connection conn p)"
  by (auto simp: release_connection_def pool_ok_def)

lemma ran_upd_None: "inj_on m (dom m) \<Longrightarrow> m t = Some c \<Longrightarrow> ran (m(t := None)) = ran m - {c}"
  by (auto simp: ran_def inj_on_def dom_def) (metis option.inject)

lemma pool_step_inv: "pool_step s s' \<Longrightarrow> pool_inv conns s \<Longrightarrow> pool_inv conns s'"
proof (induction rule: pool_step.induct)
  case (construct s t conn p)
  then have ok: "pool_ok (pool s)" by (simp add: pool_inv_def)
  note p = get_connection_Inr [OF ok construct.hyps(2)]
  have ran: "ran ((held s)(t \<mapsto> conn)) = insert conn (ran (held s))"
    using construct.hyps(1) by simp
  have free: "conn \<notin> set (m_connpool p)" "conn \<notin> ran (held s)"
    using p ok construct.prems by (auto simp: pool_inv_def pool_ok_def)
  then have "inj_on ((held s)(t \<mapsto> conn)) (dom ((held s)(t \<mapsto> conn)))"
    using construct.prems by (auto simp: pool_inv_def inj_on_def ran_def dom_def)
  with ran free p construct.prems show ?case
    by (auto simp: pool_inv_def)
next
  case (destruct s t conn)
  then have ok: "pool_ok (pool s)" and inj: "inj_on (held s) (dom (held s))"
    and new: "conn \<notin> set (m_connpool (pool s))"
    by (auto simp: pool_inv_def ran_def)
  note r = release_connection_new [OF new ok]
  have "inj_on ((held s)(t := None)) (dom ((held s)(t := None)))"
    using inj by (auto simp: inj_on_def)
  moreover have "conn \<in> ran (held s)" using destruct.hyps by (rule ranI)
  ultimately show ?case
    using r ran_upd_None [OF inj destruct.hyps] destruct.prems by (auto simp: pool_inv_def)
qed

lemma pool_reachable_inv:
  "pool_reachable p s \<Longrightarrow> pool_ok p \<Longrightarrow> pool_inv (set (m_connpool p)) s"
proof (induction rule: pool_reachable.induct)
  case start
  then show ?case by (simp add: pool_inv_def)
next
  case (step s s')
  then show ?case by (blast intro: pool_step_inv)
qed


text \<open>
  \<open>release_connection\<close> undoes \<open>get_connection\<close> up to the order of the free list, and a
  repeated release changes nothing.
\<close>

theorem release_after_get:
  assumes "pool_ok p" "get_connection p = Inr (conn, p')"
  shows "m_connpool (release_connection conn p') = tl (m_connpool p) @ [conn] \<and>
         m_freeconn (release_connection conn p') = m_freeconn p \<and>
         release_connection conn (release_connection conn p') = release_connection conn p'"
proof -
  have p: "m_connpool p = conn # m_connpool p'" "pool_ok p'"
    using get_connection_Inr [OF assms] by auto
  then have "conn \<notin> set (m_connpool p')" using assms(1) by (auto simp: pool_ok_def)
  with p assms show ?thesis
    by (auto simp: release_connection_def pool_ok_def)
qed

text \<open>\<open>with_conn\<close> gives the connection back: the pool has the same free connections afterwards.\<close>

lemma with_conn_Inr:
  assumes "pool_ok p" "with_conn p body = Inr (r, p')"
  shows "body = Inr r \<and> pool_ok p' \<and> mset (m_connpool p') = mset (m_connpool p)"
proof -
  obtain conn q where g: "get_connection p = Inr (conn, q)" and b: "body = Inr r"
    and p': "p' = release_connection conn q"
    using assms(2) by (auto simp: with_conn_def bindR_eq_Inr_iff split: prod.splits)
  note q = get_connection_Inr [OF assms(1) g]
  then have "conn \<notin> set (m_connpool q)" using assms(1) by (auto simp: pool_ok_def)
  with q b p' show ?thesis by (simp add: release_connection_new)
qed

lemma with_conn_free:
  assumes "pool_ok p" "m_connpool p \<noteq> []"
  shows "\<exists>p'. with_conn p (Inr r) = Inr (r, p') \<and> pool_ok p' \<and> m_connpool p' \<noteq> []"
proof -
  obtain conn rest where "m_connpool p = conn # rest" using assms(2) by (cases "m_connpool p") auto
  then show ?thesis
    using assms(1)
    by (auto simp: with_conn_def get_connection_def pool_ok_def release_connection_def)
qed

lemma MysqlConnPool_new_ok:
  assumes "MysqlConnPool_new init conn n = Inr p" "inj_on init {..<n}"
  shows "pool_ok p \<and> length (m_connpool p) = n \<and> m_maxconn p = n"
proof -
  have p: "m_connpool p = map (\<lambda>k. the (init k)) [0..<n]" "m_freeconn p = n" "m_maxconn p = n"
    using connect_loop_Inr [OF assms(1) [unfolded MysqlConnPool_new_def]] by auto
  have "\<exists>c. init k = Some c" if "k < n" for k
  proof -
    have "connect_loop init conn i m q = Inr q' \<Longrightarrow> i \<le> k \<Longrightarrow> k < i + m \<Longrightarrow> \<exists>c. init k = Some c"
      for i m q q'
      by (induction m arbitrary: i q)
         (auto split: option.splits if_splits simp: le_Suc_eq dest!: le_neq_implies_less)
    then show ?thesis using assms(1) that unfolding MysqlConnPool_new_def by fastforce
  qed
  then have "distinct (map (\<lambda>k. the (init k)) [0..<n])"
    using assms(2) by (auto simp: distinct_map inj_on_def) (metis lessThan_iff option.sel)
  with p show ?thesis by (simp add: pool_ok_def)
qed

text \<open>Two threads on a pool of two connections: thread 3 holds the first one.\<close>

definition two_conns :: "nat MysqlConnPool" where
  "two_conns = \<lparr>m_maxconn = 2, m_freeconn = 2, m_connpool = [11, 12]\<rparr>"

definition one_held :: "nat pool_sys" where
  "one_held = \<lparr>pool = two_conns\<lparr>m_freeconn := 1, m_connpool := [12]\<rparr>, held = [3 \<mapsto> 11]\<rparr>"

lemma one_held_reachable: "pool_reachable two_conns one_held"
proof -
  have "pool_step \<lparr>pool = two_conns, held = Map.empty\<rparr> one_held"
    using construct [of "\<lparr>pool = two_conns, held = Map.empty\<rparr>" 3 11]
    by (simp add: one_held_def two_conns_def get_connection_def)
  then show ?thesis by (rule pool_reachable.step [OF pool_reachable.start])
qed


theorem release_after_get_witness:
  "m_connpool (release_connection 11 (pool one_held)) = tl (m_connpool two_conns) @ [11] \<and>
   m_freeconn (release_connection 11 (pool one_held)) = m_freeconn two_conns \<and>
   release_connection 11 (release_connection 11 (pool one_held)) =
     release_connection 11 (pool one_held)"
  by (rule release_after_get)
     (simp_all add: pool_ok_def two_conns_def one_held_def get_connection_def)

end
