(* ===== verification/DedupServer.thy ===== *)
theory DedupServer
  imports Util MysqlConnPool
begin

text \<open>
  The server object of \<^verbatim>\<open>include/DedupServer.h\<close> and \<^verbatim>\<open>src/server/DedupServer.cc\<close>: the chunk
  index, the table of uploaded files and the registry of client connections.

  The \<open>server\<close> record holds what all connections share. Beside the members of the class it
  has the parts of the outside world the server writes: the database behind the MySQL
  connections, the directories \<^verbatim>\<open>containers/\<close> and \<^verbatim>\<open>recipes/\<close> (file name to content) and how many
  random UUIDs have been drawn. The libraries the server calls are the parameter \<open>ext\<close>: OpenSSL's
  digest, the sequence of UUIDs, the MySQL interpreter and the content of fresh heap memory.
\<close>

section \<open>State and parameters\<close>

record 'db ext =
  x_evp :: evp
  x_uuid :: "nat \<Rightarrow> string"
  x_exec :: "'db mysql_exec"
  x_malloc :: mem

record 'db server =
  m_all_chunks :: "string \<rightharpoonup> ChunkAddr_t"
  m_mysqlPool :: "nat MysqlConnPool"
  m_db :: 'db
  containers_dir :: "string \<rightharpoonup> byte list"
  recipes_dir :: "string \<rightharpoonup> byte list"
  uuid_count :: nat

section \<open>The chunk index\<close>

text \<open>\<open>std::map::insert\<close> keeps an entry that is already there.\<close>

definition addChunk :: "string \<times> ChunkAddr_t \<Rightarrow> 'db server \<Rightarrow> 'db server" where
  "addChunk chunk srv =
     (case m_all_chunks srv (fst chunk) of
        None \<Rightarrow> srv\<lparr>m_all_chunks := (m_all_chunks srv)(fst chunk \<mapsto> snd chunk)\<rparr>
      | Some _ \<Rightarrow> srv)"

text \<open>\<open>isChunkStored\<close> assigns its reference parameter only when it returns \<open>true\<close>.\<close>

definition isChunkStored :: "string \<Rightarrow> ChunkAddr_t \<Rightarrow> 'db server \<Rightarrow> bool \<times> ChunkAddr_t" where
  "isChunkStored strChunkHash chunkAddr srv =
     (case m_all_chunks srv strChunkHash of
        None \<Rightarrow> (False, chunkAddr)
      | Some a \<Rightarrow> (True, a))"

lemma addChunk_index:
  "m_all_chunks (addChunk (h, a) srv) =
   (if h \<in> dom (m_all_chunks srv) then m_all_chunks srv else (m_all_chunks srv)(h \<mapsto> a))"
  by (auto simp: addChunk_def split: option.splits)

lemma addChunk_frame [simp]:
  "m_mysqlPool (addChunk c srv) = m_mysqlPool srv" "m_db (addChunk c srv) = m_db srv"
  "containers_dir (addChunk c srv) = containers_dir srv"
  "recipes_dir (addChunk c srv) = recipes_dir srv" "uuid_count (addChunk c srv) = uuid_count srv"
  by (simp_all add: addChunk_def split: option.splits)

text \<open>
  The index remembers the first address of a chunk. After \<open>addChunk\<close> the chunk is stored, its
  address is the earlier one if there was one and the given one otherwise, and no other entry
  changes.
\<close>

theorem chunk_index_first_wins:
  "isChunkStored k d (addChunk (h, a) srv) =
     (if k = h \<and> \<not> fst (isChunkStored h d srv) then (True, a) else isChunkStored k d srv)"
  by (auto simp: isChunkStored_def addChunk_index split: option.splits)

section \<open>The file table\<close>

text \<open>The statements are formatted with \<open>sprintf\<close> into an array of 256 characters.\<close>

definition select_query :: "u32 \<Rightarrow> string \<Rightarrow> string" where
  "select_query cid file_name =
     ''select * from FILES where ID = '' @ to_string (sint cid) @
     '' and FileName = '' @ [CHR 0x27] @ file_name @ [CHR 0x27]"

definition insert_query :: "u32 \<Rightarrow> string \<Rightarrow> string" where
  "insert_query cid file_name =
     ''insert into FILES(ID, FileName) values('' @ to_string (sint cid) @
     '','' @ [CHR 0x27] @ file_name @ [CHR 0x27] @ '')''"

definition sprintf_query :: "string \<Rightarrow> crash + string" where
  "sprintf_query query = (if length query + 1 \<le> 256 then Inr query else Inl BufferOverflow)"

definition isFileUnique :: "'db ext \<Rightarrow> u32 \<Rightarrow> string \<Rightarrow> 'db server \<Rightarrow> crash + bool \<times> 'db server" where
  "isFileUnique ext cid file_name srv =
     bindR (with_conn (m_mysqlPool srv)
        (bindR (sprintf_query (select_query cid file_name)) (\<lambda>query.
         hasResult (x_exec ext) (m_db srv) query))) (\<lambda>((db, found), p).
     Inr (\<not> found, srv\<lparr>m_db := db, m_mysqlPool := p\<rparr>))"

definition isFileExist :: "'db ext \<Rightarrow> u32 \<Rightarrow> string \<Rightarrow> 'db server \<Rightarrow> crash + bool \<times> 'db server" where
  "isFileExist ext cid file_name srv =
     bindR (isFileUnique ext cid file_name srv) (\<lambda>(b, srv'). Inr (\<not> b, srv'))"

definition addFile :: "'db ext \<Rightarrow> u32 \<Rightarrow> string \<Rightarrow> 'db server \<Rightarrow> crash + 'db server" where
  "addFile ext cid file_name srv =
     bindR (with_conn (m_mysqlPool srv)
        (bindR (sprintf_query (insert_query cid file_name)) (\<lambda>query.
         Inr (executeInsertion (x_exec ext) (m_db srv) query)))) (\<lambda>(db, p).
     Inr (srv\<lparr>m_db := db, m_mysqlPool := p\<rparr>))"

text \<open>
  What the server relies on of MySQL for a table \<^verbatim>\<open>FILES(ID int, FileName VARCHAR(256))\<close>: for a name
  without quotes and backslashes a \<open>select\<close> changes nothing and returns the rows with that ID whose
  name the collation considers equal, and an \<open>insert\<close> adds one row. \<open>rows db i n\<close> is the number of
  such rows, \<open>same\<close> the collation (reflexive; by default it ignores case).
\<close>

definition plain_name :: "string \<Rightarrow> bool" where
  "plain_name name \<longleftrightarrow> CHR 0x27 \<notin> set name \<and> CHR 0x5C \<notin> set name"

definition mysql_files ::
    "'db mysql_exec \<Rightarrow> ('db \<Rightarrow> int \<Rightarrow> string \<Rightarrow> nat) \<Rightarrow> (string \<Rightarrow> string \<Rightarrow> bool) \<Rightarrow> bool" where
  "mysql_files exec rows same \<longleftrightarrow>
     (\<forall>name. same name name) \<and>
     (\<forall>db cid name. plain_name name \<longrightarrow>
        exec db (select_query cid name) = (db, Some (rows db (sint cid) name)) \<and>
        (\<forall>i n. rows (fst (exec db (insert_query cid name))) i n =
           rows db i n + (if i = sint cid \<and> same n name then 1 else 0)))"

lemma to_string_length_u32: "length (to_string (sint (cid :: u32))) \<le> 11"
proof -
  have bound: "- (2 ^ 31) \<le> sint cid" "sint cid < 2 ^ 31"
    using sint_ge [of cid] sint_lt [of cid] by simp_all
  then have "nat (sint cid) < 10 ^ 10" "nat (- sint cid) < 10 ^ 10" by simp_all
  then have "length (dec_digits (nat (sint cid))) \<le> 10" "length (dec_digits (nat (- sint cid))) \<le> 10"
    by (intro length_dec_digits; simp)+
  then show ?thesis by (simp add: to_string_def)
qed

lemma query_fits:
  assumes "length name \<le> 190"
  shows "sprintf_query (select_query cid name) = Inr (select_query cid name)"
    and "sprintf_query (insert_query cid name) = Inr (insert_query cid name)"
  using assms to_string_length_u32 [of cid]
  by (simp_all add: sprintf_query_def select_query_def insert_query_def)

lemma isFileUnique_Inr:
  assumes mysql: "mysql_files (x_exec ext) rows same" and name: "plain_name name" "length name \<le> 190"
    and pool: "pool_ok (m_mysqlPool srv)" "m_connpool (m_mysqlPool srv) \<noteq> []"
  shows "\<exists>p. isFileUnique ext cid name srv =
           Inr ((of_nat (rows (m_db srv) (sint cid) name) :: u32) = 0, srv\<lparr>m_mysqlPool := p\<rparr>) \<and>
         pool_ok p \<and> m_connpool p \<noteq> []"
proof -
  let ?r = "(m_db srv, (of_nat (rows (m_db srv) (sint cid) name) :: u32) \<noteq> 0)"
  have "hasResult (x_exec ext) (m_db srv) (select_query cid name) = Inr ?r"
    using mysql name by (simp add: hasResult_def mysql_files_def)
  moreover obtain p where "with_conn (m_mysqlPool srv) (Inr ?r) = Inr (?r, p)"
    "pool_ok p" "m_connpool p \<noteq> []"
    using with_conn_free [OF pool, of ?r] by auto
  ultimately show ?thesis
    using name(2) by (intro exI [of _ p]) (simp add: isFileUnique_def query_fits)
qed

lemma addFile_Inr:
  assumes name: "length name \<le> 190"
    and pool: "pool_ok (m_mysqlPool srv)" "m_connpool (m_mysqlPool srv) \<noteq> []"
  shows "\<exists>p. addFile ext cid name srv =
           Inr (srv\<lparr>m_db := fst (x_exec ext (m_db srv) (insert_query cid name)), m_mysqlPool := p\<rparr>) \<and>
         pool_ok p \<and> m_connpool p \<noteq> []"
proof -
  let ?r = "fst (x_exec ext (m_db srv) (insert_query cid name))"
  obtain p where "with_conn (m_mysqlPool srv) (Inr ?r) = Inr (?r, p)"
    "pool_ok p" "m_connpool p \<noteq> []"
    using with_conn_free [OF pool, of ?r] by auto
  then show ?thesis
    using name by (intro exI [of _ p]) (simp add: addFile_def query_fits executeInsertion_def)
qed

text \<open>
  An uploaded file is found again. For a name without quotes that fits the query buffer, after
  \<open>addFile\<close> the file exists for that client, and whether any other client has a file of its own
  does not change.
\<close>

theorem added_file_exists:
  assumes mysql: "mysql_files (x_exec ext) rows same" and name: "plain_name name" "length name \<le> 190"
    and pool: "pool_ok (m_mysqlPool srv)" "m_connpool (m_mysqlPool srv) \<noteq> []"
    and count: "rows (m_db srv) (sint cid) name < 2 ^ 32 - 1"
  shows "\<exists>srv' srv''. addFile ext cid name srv = Inr srv' \<and>
           isFileExist ext cid name srv' = Inr (True, srv'') \<and>
           (\<forall>i n. i \<noteq> sint cid \<longrightarrow> rows (m_db srv'') i n = rows (m_db srv) i n)"
proof -
  let ?db = "fst (x_exec ext (m_db srv) (insert_query cid name))"
  obtain p where add: "addFile ext cid name srv = Inr (srv\<lparr>m_db := ?db, m_mysqlPool := p\<rparr>)"
    and p: "pool_ok p" "m_connpool p \<noteq> []"
    using addFile_Inr [OF name(2) pool, of ext cid] by auto
  let ?srv = "srv\<lparr>m_db := ?db, m_mysqlPool := p\<rparr>"
  have rows: "rows ?db i n = rows (m_db srv) i n + (if i = sint cid \<and> same n name then 1 else 0)"
    for i n using mysql name(1) by (simp add: mysql_files_def)
  moreover have "same name name" using mysql by (simp add: mysql_files_def)
  ultimately have "rows ?db (sint cid) name = Suc (rows (m_db srv) (sint cid) name)" by simp
  then have nz: "(of_nat (rows ?db (sint cid) name) :: u32) \<noteq> 0"
    using count by (intro u32_of_nat_nonzero) auto
  obtain p' where "isFileUnique ext cid name ?srv =
      Inr ((of_nat (rows ?db (sint cid) name) :: u32) = 0, ?srv\<lparr>m_mysqlPool := p'\<rparr>)"
    using isFileUnique_Inr [OF mysql name, of ?srv cid] p by auto
  then have "isFileExist ext cid name ?srv = Inr (True, ?srv\<lparr>m_mysqlPool := p'\<rparr>)"
    using nz by (simp add: isFileExist_def)
  with add rows show ?thesis by fastforce
qed

text \<open>
  The query buffer is too small for the names the protocol lets through. With a free database
  connection, a file name of 207 or more characters overflows \<open>query[256]\<close> for every client.
\<close>

theorem query_buffer_overflow:
  assumes "pool_ok (m_mysqlPool srv)" "m_connpool (m_mysqlPool srv) \<noteq> []" "207 \<le> length name"
  shows "isFileUnique ext cid name srv = Inl BufferOverflow"
proof -
  have "dec_digits n \<noteq> []" for n by (simp add: dec_digits.simps)
  then have "1 \<le> length (to_string (sint cid))"
    by (cases "to_string (sint cid)") (auto simp: to_string_def split: if_splits)
  then have "sprintf_query (select_query cid name) = Inl BufferOverflow"
    using assms(3) by (simp add: sprintf_query_def select_query_def)
  moreover obtain c q where "get_connection (m_mysqlPool srv) = Inr (c, q)"
    using assms(1,2)
    by (cases "m_connpool (m_mysqlPool srv)") (auto simp: get_connection_def pool_ok_def)
  ultimately show ?thesis by (simp add: isFileUnique_def with_conn_def)
qed

subsection \<open>A database that behaves as assumed\<close>

text \<open>
  An interpreter of the two statements over a list of rows, with binary comparison of names. It
  satisfies \<open>mysql_files\<close>, so the assumption on MySQL can hold.
\<close>

definition sql_demo :: "(string \<times> string) list mysql_exec" where
  "sql_demo db q =
     (if take 31 q = ''select * from FILES where ID = '' then
        (let r = drop 31 q;
             i = takeWhile (\<lambda>c. c \<noteq> CHR '' '') r;
             n = butlast (drop (length i + 17) r)
         in (db, Some (length (filter (\<lambda>row. row = (i, n)) db))))
      else if take 39 q = ''insert into FILES(ID, FileName) values('' then
        (let r = drop 39 q;
             i = takeWhile (\<lambda>c. c \<noteq> CHR '','') r;
             n = butlast (butlast (drop (length i + 2) r))
         in (db @ [(i, n)], None))
      else (db, None))"

definition sql_demo_rows :: "(string \<times> string) list \<Rightarrow> int \<Rightarrow> string \<Rightarrow> nat" where
  "sql_demo_rows db i n = length (filter (\<lambda>row. row = (to_string i, n)) db)"

lemma sql_demo_rows_Nil [simp]: "sql_demo_rows [] i n = 0"
  by (simp add: sql_demo_rows_def)

lemma to_string_takeWhile:
  assumes "of_char c < (45 :: nat)"
  shows "takeWhile (\<lambda>d. d \<noteq> c) (to_string i @ c # rest) = to_string i"
proof -
  have "\<forall>d \<in> set (to_string i). d \<noteq> c"
    using assms to_string_chars [of _ i] by fastforce
  then show ?thesis by (simp add: takeWhile_append)
qed

lemma sql_demo_select:
  "sql_demo db (select_query cid name) = (db, Some (sql_demo_rows db (sint cid) name))"
  using to_string_takeWhile [of "CHR '' ''" "sint cid"]
  by (simp add: sql_demo_def select_query_def sql_demo_rows_def)

lemma sql_demo_insert:
  "sql_demo db (insert_query cid name) = (db @ [(to_string (sint cid), name)], None)"
  using to_string_takeWhile [of "CHR '',''" "sint cid"]
  by (simp add: sql_demo_def insert_query_def butlast_append)

lemma sql_demo_files: "mysql_files sql_demo sql_demo_rows (=)"
  by (auto simp: mysql_files_def sql_demo_select sql_demo_insert sql_demo_rows_def inj_to_string)

definition demo_ext :: "(string \<times> string) list ext" where
  "demo_ext =
     \<lparr>x_evp = (\<lambda>_ bs. Some (take 32 (bs @ replicate 32 0))),
      x_uuid = (\<lambda>k. replicate 35 CHR ''0'' @ [char_of (65 + k)]),
      x_exec = sql_demo, x_malloc = (\<lambda>_. 0)\<rparr>"

definition demo_server :: "(string \<times> string) list server" where
  "demo_server =
     \<lparr>m_all_chunks = Map.empty, m_mysqlPool = two_conns, m_db = [],
      containers_dir = Map.empty, recipes_dir = Map.empty, uuid_count = 0\<rparr>"

theorem added_file_exists_witness:
  "\<exists>srv' srv''. addFile demo_ext 1 ''test-1G'' demo_server = Inr srv' \<and>
     isFileExist demo_ext 1 ''test-1G'' srv' = Inr (True, srv'') \<and>
     (\<forall>i n. i \<noteq> sint (1 :: u32) \<longrightarrow>
        sql_demo_rows (m_db srv'') i n = sql_demo_rows (m_db demo_server) i n)"
  by (rule added_file_exists [where same = "(=)"])
     (simp_all add: demo_ext_def demo_server_def sql_demo_files plain_name_def two_conns_def
        pool_ok_def)

theorem query_buffer_overflow_witness:
  "isFileUnique demo_ext 1 (replicate 207 CHR ''x'') demo_server = Inl BufferOverflow"
  by (rule query_buffer_overflow) (simp_all add: demo_server_def two_conns_def pool_ok_def)

end
