(* ===== verification/BlockQueue.thy ===== *)
theory BlockQueue
  imports Dedup_Prelude
begin

text \<open>
  The bounded blocking queue of \<^verbatim>\<open>include/BlockQueue.h\<close>.

  The operations are functions on the state the mutex protects; an operation that would wait
  on a condition variable returns a value that says so. \<open>bq_step\<close> is the monitor around
  them: any number of threads that call \<open>push\<close> and \<open>pop\<close>, wait on the two condition
  variables, are woken by \<open>notify_one\<close>, by the one second timeout of \<open>wait_for\<close> or
  spuriously, and interleave in any order. Every critical section is one step. The ghost
  fields record what was pushed and popped.

  The locale \<open>fifo_channel\<close> is the contract the clients of the queue rely on (thread pool,
  writer threads, reader thread, log thread): what \<open>consume\<close>, their common loop
  \<^verbatim>\<open>while(queue->pop(x)) handle(x)\<close>, does, and what any sequence of operations delivers.
\<close>

section \<open>The queue\<close>

record 'a BlockQueue =
  m_queue :: "'a list"
  m_size :: nat
  m_isEmpty :: bool
  m_done :: bool

definition BlockQueue_new :: "nat \<Rightarrow> 'a BlockQueue" where
  "BlockQueue_new sz = \<lparr>m_queue = [], m_size = sz, m_isEmpty = True, m_done = False\<rparr>"

text \<open>\<open>push\<close>: \<open>None\<close> while the caller waits on \<open>m_cond_notFull\<close>.\<close>

definition push :: "'a \<Rightarrow> 'a BlockQueue \<Rightarrow> 'a BlockQueue option" where
  "push e q =
     (if length (m_queue q) = m_size q then None
      else Some (q\<lparr>m_queue := m_queue q @ [e], m_isEmpty := False\<rparr>))"

text \<open>\<open>pop\<close>: the element and \<open>true\<close>, \<open>false\<close>, or a wait on \<open>m_cond_notEmpty\<close>.\<close>

datatype 'a pop_result = Popped 'a "'a BlockQueue" | PopFalse | PopWait

definition pop :: "'a BlockQueue \<Rightarrow> 'a pop_result" where
  "pop q =
     (case m_queue q of
        [] \<Rightarrow> if m_done q then PopFalse else PopWait
      | e # es \<Rightarrow> Popped e (q\<lparr>m_queue := es, m_isEmpty := (if es = [] then True else m_isEmpty q)\<rparr>))"

definition bq_empty :: "'a BlockQueue \<Rightarrow> bool" where
  "bq_empty q = m_isEmpty q"

definition set_done :: "'a BlockQueue \<Rightarrow> 'a BlockQueue" where
  "set_done q = q\<lparr>m_done := True\<rparr>"

definition undone :: "'a BlockQueue \<Rightarrow> 'a BlockQueue" where
  "undone q = q\<lparr>m_done := False\<rparr>"

definition bq_inv :: "'a BlockQueue \<Rightarrow> bool" where
  "bq_inv q \<longleftrightarrow> length (m_queue q) \<le> m_size q \<and> (m_isEmpty q \<longleftrightarrow> m_queue q = [])"

lemma bq_inv_new: "bq_inv (BlockQueue_new n)"
  by (simp add: bq_inv_def BlockQueue_new_def)

lemma push_Some:
  "push e q = Some q' \<Longrightarrow>
   m_queue q' = m_queue q @ [e] \<and> m_size q' = m_size q \<and> m_done q' = m_done q \<and>
   (bq_inv q \<longrightarrow> bq_inv q')"
  by (auto simp: push_def bq_inv_def split: if_splits)

lemma pop_Popped:
  "pop q = Popped e q' \<Longrightarrow>
   m_queue q = e # m_queue q' \<and> m_size q' = m_size q \<and> m_done q' = m_done q \<and>
   (bq_inv q \<longrightarrow> bq_inv q')"
  by (auto simp: pop_def bq_inv_def split: list.splits if_splits)

lemma pop_PopFalse: "pop q = PopFalse \<longleftrightarrow> m_queue q = [] \<and> m_done q"
  by (auto simp: pop_def split: list.splits)

lemma pop_PopWait: "pop q = PopWait \<longleftrightarrow> m_queue q = [] \<and> \<not> m_done q"
  by (auto simp: pop_def split: list.splits)

section \<open>The contract of a channel\<close>

text \<open>
  The calls of a client on a channel, and the outcome of a sequence of them: the elements
  delivered and the channel at the end, or \<open>None\<close> where a call would wait.
\<close>

datatype 'a chan_op = Put 'a | Get

fun run_ops :: "('a \<Rightarrow> 'q \<Rightarrow> 'q option) \<Rightarrow> ('q \<Rightarrow> ('a \<times> 'q) option) \<Rightarrow> 'a chan_op list \<Rightarrow> 'q \<Rightarrow>
    ('a list \<times> 'q) option" where
  "run_ops put get [] q = Some ([], q)"
| "run_ops put get (Put e # ops) q =
     (case put e q of None \<Rightarrow> None | Some q' \<Rightarrow> run_ops put get ops q')"
| "run_ops put get (Get # ops) q =
     (case get q of
        None \<Rightarrow> None
      | Some (e, q') \<Rightarrow> map_option (\<lambda>(got, q''). (e # got, q'')) (run_ops put get ops q'))"

fun puts :: "'a chan_op list \<Rightarrow> 'a list" where
  "puts [] = []"
| "puts (Put e # ops) = e # puts ops"
| "puts (Get # ops) = puts ops"

locale fifo_channel =
  fixes put :: "'a \<Rightarrow> 'q \<Rightarrow> 'q option"
    and get :: "'q \<Rightarrow> ('a \<times> 'q) option"
    and contents :: "'q \<Rightarrow> 'a list"
    and inv :: "'q \<Rightarrow> bool"
  assumes put_law: "inv q \<Longrightarrow> put e q = Some q' \<Longrightarrow> contents q' = contents q @ [e] \<and> inv q'"
    and get_law: "inv q \<Longrightarrow> get q = Some (e, q') \<Longrightarrow> contents q = e # contents q' \<and> inv q'"
    and get_ready: "inv q \<Longrightarrow> contents q \<noteq> [] \<Longrightarrow> get q \<noteq> None"
begin

lemma run_ops_fifo:
  assumes "inv q" "run_ops put get ops q = Some (got, q')"
  shows "got @ contents q' = contents q @ puts ops \<and> inv q'"
  using assms
proof (induction ops arbitrary: q got)
  case Nil
  then show ?case by simp
next
  case (Cons op ops)
  show ?case
  proof (cases op)
    case (Put e)
    with Cons.prems obtain q1 where "put e q = Some q1" "run_ops put get ops q1 = Some (got, q')"
      by (auto split: option.splits)
    then show ?thesis using Cons.IH [of q1 got] put_law [of q e q1] Cons.prems(1) Put by simp
  next
    case Get
    with Cons.prems obtain e q1 got' where
      "get q = Some (e, q1)" "run_ops put get ops q1 = Some (got', q')" "got = e # got'"
      by (auto split: option.splits)
    then show ?thesis using Cons.IH [of q1 got'] get_law [of q e q1] Cons.prems(1) Get by simp
  qed
qed

lemma run_ops_delivers_all:
  assumes "inv q" "contents q = []" "run_ops put get ops q = Some (got, q')" "contents q' = []"
  shows "got = puts ops"
  using run_ops_fifo [OF assms(1,3)] assms(2,4) by simp

end

text \<open>\<open>pop\<close> as the \<open>get\<close> of a channel.\<close>

definition try_pop :: "'a BlockQueue \<Rightarrow> ('a \<times> 'a BlockQueue) option" where
  "try_pop q = (case pop q of Popped e q' \<Rightarrow> Some (e, q') | PopFalse \<Rightarrow> None | PopWait \<Rightarrow> None)"

interpretation bq: fifo_channel push try_pop m_queue bq_inv
proof unfold_locales
  fix q q' :: "'a BlockQueue" and e
  show "bq_inv q \<Longrightarrow> push e q = Some q' \<Longrightarrow> m_queue q' = m_queue q @ [e] \<and> bq_inv q'"
    by (simp add: push_Some)
  show "bq_inv q \<Longrightarrow> try_pop q = Some (e, q') \<Longrightarrow> m_queue q = e # m_queue q' \<and> bq_inv q'"
    by (cases "pop q") (simp_all add: try_pop_def pop_Popped)
  show "bq_inv q \<Longrightarrow> m_queue q \<noteq> [] \<Longrightarrow> try_pop q \<noteq> None"
    by (auto simp: try_pop_def pop_def split: list.splits)
qed

section \<open>The consumer loop\<close>

text \<open>
  \<^verbatim>\<open>while(q->pop(x)) handle(x)\<close> run by one thread until \<open>pop\<close> returns \<open>false\<close> or waits.
\<close>

function consume :: "('a \<Rightarrow> 's \<Rightarrow> 's) \<Rightarrow> 'a BlockQueue \<Rightarrow> 's \<Rightarrow> 'a BlockQueue \<times> 's" where
  "consume handle q s =
     (case pop q of
        Popped e q' \<Rightarrow> consume handle q' (handle e s)
      | PopFalse \<Rightarrow> (q, s)
      | PopWait \<Rightarrow> (q, s))"
  by pat_completeness auto
termination
  by (relation "measure (\<lambda>(h, q, s). length (m_queue q))") (auto dest: pop_Popped)

declare consume.simps [simp del]

lemma consume_Nil: "m_queue q = [] \<Longrightarrow> consume handle q s = (q, s)"
  by (auto simp: consume.simps [of _ q] pop_def)

lemma consume_fold:
  "snd (consume handle q s) = fold handle (m_queue q) s \<and>
   m_queue (fst (consume handle q s)) = [] \<and>
   m_done (fst (consume handle q s)) = m_done q \<and>
   m_size (fst (consume handle q s)) = m_size q \<and>
   (bq_inv q \<longrightarrow> bq_inv (fst (consume handle q s)))"
proof (induction handle q s rule: consume.induct)
  case (1 handle q s)
  show ?case
  proof (cases "pop q")
    case (Popped e q')
    then show ?thesis
      using "1.IH" [OF Popped] pop_Popped [OF Popped]
      by (simp add: consume.simps [of handle q s])
  next
    case PopFalse
    then show ?thesis using consume_Nil [of q handle s] by (simp add: pop_PopFalse)
  next
    case PopWait
    then show ?thesis using consume_Nil [of q handle s] by (simp add: pop_PopWait)
  qed
qed

section \<open>Threads around the queue\<close>

text \<open>
  Where a thread is in the monitor: outside, about to run the body of \<open>push\<close> or \<open>pop\<close> with the
  mutex, or asleep on a condition variable.
\<close>

datatype 'a pc = Idle | Pushing 'a | WaitNotFull 'a | Popping | WaitNotEmpty

record 'a monitor =
  mq :: "'a BlockQueue"
  mpc :: "nat \<Rightarrow> 'a pc"
  pushed :: "'a list"
  popped :: "'a list"

fun sleeps_notFull :: "'a pc \<Rightarrow> bool" where
  "sleeps_notFull (WaitNotFull e) = True"
| "sleeps_notFull _ = False"

fun sleeps_notEmpty :: "'a pc \<Rightarrow> bool" where
  "sleeps_notEmpty WaitNotEmpty = True"
| "sleeps_notEmpty _ = False"

fun woken :: "'a pc \<Rightarrow> 'a pc" where
  "woken (WaitNotFull e) = Pushing e"
| "woken WaitNotEmpty = Popping"
| "woken p = p"

text \<open>\<open>notify_one\<close>: one of the sleepers, if there is any, runs again.\<close>

definition notify_one :: "('a pc \<Rightarrow> bool) \<Rightarrow> (nat \<Rightarrow> 'a pc) \<Rightarrow> (nat \<Rightarrow> 'a pc) \<Rightarrow> bool" where
  "notify_one sleeps pcs pcs' \<longleftrightarrow>
     (if \<exists>t. sleeps (pcs t) then \<exists>t. sleeps (pcs t) \<and> pcs' = pcs(t := woken (pcs t)) else pcs' = pcs)"

definition monitor_init :: "nat \<Rightarrow> 'a monitor" where
  "monitor_init n = \<lparr>mq = BlockQueue_new n, mpc = (\<lambda>_. Idle), pushed = [], popped = []\<rparr>"

inductive bq_step :: "'a monitor \<Rightarrow> 'a monitor \<Rightarrow> bool" where
  call_push: "mpc s t = Idle \<Longrightarrow> bq_step s (s\<lparr>mpc := (mpc s)(t := Pushing e)\<rparr>)"
| push_done: "mpc s t = Pushing e \<Longrightarrow> push e (mq s) = Some q \<Longrightarrow>
    notify_one sleeps_notEmpty ((mpc s)(t := Idle)) pcs \<Longrightarrow>
    bq_step s (s\<lparr>mq := q, mpc := pcs, pushed := pushed s @ [e]\<rparr>)"
| push_wait: "mpc s t = Pushing e \<Longrightarrow> push e (mq s) = None \<Longrightarrow>
    bq_step s (s\<lparr>mpc := (mpc s)(t := WaitNotFull e)\<rparr>)"
| call_pop: "mpc s t = Idle \<Longrightarrow> bq_step s (s\<lparr>mpc := (mpc s)(t := Popping)\<rparr>)"
| pop_true: "mpc s t = Popping \<Longrightarrow> pop (mq s) = Popped e q \<Longrightarrow>
    notify_one sleeps_notFull ((mpc s)(t := Idle)) pcs \<Longrightarrow>
    bq_step s (s\<lparr>mq := q, mpc := pcs, popped := popped s @ [e]\<rparr>)"
| pop_false: "mpc s t = Popping \<Longrightarrow> pop (mq s) = PopFalse \<Longrightarrow>
    bq_step s (s\<lparr>mpc := (mpc s)(t := Idle)\<rparr>)"
| pop_wait: "mpc s t = Popping \<Longrightarrow> pop (mq s) = PopWait \<Longrightarrow>
    bq_step s (s\<lparr>mpc := (mpc s)(t := WaitNotEmpty)\<rparr>)"
| wake_up: "bq_step s (s\<lparr>mpc := (mpc s)(t := woken (mpc s t))\<rparr>)"
| set_done: "bq_step s (s\<lparr>mq := set_done (mq s)\<rparr>)"
| undone: "bq_step s (s\<lparr>mq := undone (mq s)\<rparr>)"

inductive bq_reachable :: "nat \<Rightarrow> 'a monitor \<Rightarrow> bool" for n where
  start: "bq_reachable n (monitor_init n)"
| step: "bq_reachable n s \<Longrightarrow> bq_step s s' \<Longrightarrow> bq_reachable n s'"

inductive_cases bq_stepE: "bq_step s s'"

definition producers :: "(nat \<Rightarrow> 'a pc) \<Rightarrow> nat set" where
  "producers pcs = {t. \<exists>e. pcs t = Pushing e}"

text \<open>
  Beside the queue's own invariant and the record of what went through it, the invariant counts
  the producers that are awake: while some producer sleeps on \<open>m_cond_notFull\<close>, the awake ones
  are at least as many as the free places.
\<close>

definition monitor_inv :: "'a monitor \<Rightarrow> bool" where
  "monitor_inv s \<longleftrightarrow>
     bq_inv (mq s) \<and> popped s @ m_queue (mq s) = pushed s \<and> finite (producers (mpc s)) \<and>
     ((\<exists>t. sleeps_notFull (mpc s t)) \<longrightarrow>
        m_size (mq s) \<le> length (m_queue (mq s)) + card (producers (mpc s)))"

lemma producers_upd:
  "producers (pcs(t := p)) =
   (case p of Pushing e \<Rightarrow> insert t (producers pcs) | _ \<Rightarrow> producers pcs - {t})"
  by (auto simp: producers_def split: pc.splits)

lemma sleeps_notFull_iff: "sleeps_notFull p \<longleftrightarrow> (\<exists>e. p = WaitNotFull e)"
  by (cases p) auto

lemma sleeps_notEmpty_iff: "sleeps_notEmpty p \<longleftrightarrow> p = WaitNotEmpty"
  by (cases p) auto

lemma notify_notEmpty:
  "notify_one sleeps_notEmpty pcs pcs' \<Longrightarrow>
   producers pcs' = producers pcs \<and> (\<forall>t. sleeps_notFull (pcs' t) \<longleftrightarrow> sleeps_notFull (pcs t))"
  by (auto simp: notify_one_def sleeps_notEmpty_iff producers_def split: if_splits)

lemma notify_notFull:
  assumes "notify_one sleeps_notFull pcs pcs'" "finite (producers pcs)"
  shows "finite (producers pcs') \<and>
         (if \<exists>t. sleeps_notFull (pcs t) then card (producers pcs') = Suc (card (producers pcs))
          else pcs' = pcs)"
proof (cases "\<exists>t. sleeps_notFull (pcs t)")
  case True
  then obtain t e where "pcs t = WaitNotFull e" "pcs' = pcs(t := Pushing e)"
    using assms(1) by (auto simp: notify_one_def sleeps_notFull_iff)
  moreover from this have "t \<notin> producers pcs" by (simp add: producers_def)
  ultimately show ?thesis using True assms(2) by (simp add: producers_upd)
next
  case False
  then show ?thesis using assms by (simp add: notify_one_def)
qed

lemma producers_pushing: "pcs t = Pushing e \<Longrightarrow> t \<in> producers pcs"
  by (simp add: producers_def)

lemma producers_not_pushing: "(\<And>e. pcs t \<noteq> Pushing e) \<Longrightarrow> t \<notin> producers pcs"
  by (simp add: producers_def)

lemma monitor_inv_init: "monitor_inv (monitor_init n)"
  by (simp add: monitor_inv_def monitor_init_def bq_inv_new producers_def)
     (simp add: BlockQueue_new_def)

lemma push_done_inv:
  assumes inv: "monitor_inv s" and t: "mpc s t = Pushing e" and push: "push e (mq s) = Some q"
    and notify: "notify_one sleeps_notEmpty ((mpc s)(t := Idle)) pcs"
  shows "monitor_inv (s\<lparr>mq := q, mpc := pcs, pushed := pushed s @ [e]\<rparr>)"
proof -
  have prod: "producers pcs = producers (mpc s) - {t}"
    and sleep: "\<And>u. sleeps_notFull (pcs u) \<longleftrightarrow> sleeps_notFull (mpc s u)"
    using notify_notEmpty [OF notify] t by (auto simp: producers_upd)
  have "card (producers (mpc s)) = Suc (card (producers pcs))"
    using prod inv card_Suc_Diff1 [OF _ producers_pushing [of "mpc s", OF t]]
    by (simp add: monitor_inv_def)
  then show ?thesis
    using inv prod sleep push_Some [OF push] by (auto simp: monitor_inv_def)
qed

lemma pop_true_inv:
  assumes inv: "monitor_inv s" and t: "mpc s t = Popping" and pop: "pop (mq s) = Popped e q"
    and notify: "notify_one sleeps_notFull ((mpc s)(t := Idle)) pcs"
  shows "monitor_inv (s\<lparr>mq := q, mpc := pcs, popped := popped s @ [e]\<rparr>)"
proof -
  let ?pcs = "(mpc s)(t := Idle)"
  have prod: "producers ?pcs = producers (mpc s)"
    using t by (auto simp: producers_def)
  have sleep: "sleeps_notFull (?pcs u) \<longleftrightarrow> sleeps_notFull (mpc s u)" for u
    using t by simp
  have fin: "finite (producers ?pcs)"
    using inv prod by (simp add: monitor_inv_def)
  note q = pop_Popped [OF pop]
  have fifo: "bq_inv q \<and> (popped s @ [e]) @ m_queue q = pushed s"
    using inv q by (simp add: monitor_inv_def)
  show ?thesis
  proof (cases "\<exists>u. sleeps_notFull (mpc s u)")
    case True
    then have "card (producers pcs) = Suc (card (producers (mpc s)))" "finite (producers pcs)"
      using notify_notFull [OF notify fin] by (simp_all only: sleep prod if_True)
    then show ?thesis using True inv q fifo by (simp add: monitor_inv_def)
  next
    case False
    then have "pcs = ?pcs"
      using notify_notFull [OF notify fin] by (simp only: sleep if_False)
    then show ?thesis using False fin sleep fifo by (simp add: monitor_inv_def)
  qed
qed

lemma push_wait_inv:
  assumes "monitor_inv s" "mpc s t = Pushing e" "push e (mq s) = None"
  shows "monitor_inv (s\<lparr>mpc := (mpc s)(t := WaitNotFull e)\<rparr>)"
  using assms by (auto simp: monitor_inv_def producers_upd push_def split: if_splits)

lemma wake_up_inv:
  assumes "monitor_inv s"
  shows "monitor_inv (s\<lparr>mpc := (mpc s)(t := woken (mpc s t))\<rparr>)"
proof (cases "mpc s t")
  case (WaitNotFull e)
  moreover from this have "t \<notin> producers (mpc s)" by (intro producers_not_pushing) simp
  ultimately show ?thesis using assms by (auto simp: monitor_inv_def producers_upd)
next
  case WaitNotEmpty
  then have "producers ((mpc s)(t := Popping)) = producers (mpc s)"
    by (auto simp: producers_def)
  with WaitNotEmpty assms show ?thesis by (auto simp: monitor_inv_def split: if_splits)
qed (use assms in \<open>simp_all add: fun_upd_idem\<close>)

lemma idle_pc_inv:
  assumes "monitor_inv s" "\<And>e. mpc s t \<noteq> Pushing e" "\<not> sleeps_notFull (mpc s t)"
    and "\<not> sleeps_notFull p"
  shows "monitor_inv (s\<lparr>mpc := (mpc s)(t := p)\<rparr>)"
proof -
  have "t \<notin> producers (mpc s)" using assms(2) by (rule producers_not_pushing)
  then have "finite (producers ((mpc s)(t := p))) \<and>
        card (producers (mpc s)) \<le> card (producers ((mpc s)(t := p)))"
    using assms(1) by (cases p) (auto simp: monitor_inv_def producers_upd)
  moreover have "(\<exists>u. sleeps_notFull (((mpc s)(t := p)) u)) \<longrightarrow> (\<exists>u. sleeps_notFull (mpc s u))"
    using assms(4) by auto
  ultimately show ?thesis using assms(1) by (auto simp: monitor_inv_def)
qed

lemma bq_step_inv: "bq_step s s' \<Longrightarrow> monitor_inv s \<Longrightarrow> monitor_inv s'"
proof (induction rule: bq_step.induct)
  case (push_done s t e q pcs)
  then show ?case by (intro push_done_inv)
next
  case (push_wait s t e)
  then show ?case by (intro push_wait_inv)
next
  case (pop_true s t e q pcs)
  then show ?case by (intro pop_true_inv)
next
  case (wake_up s t)
  then show ?case by (rule wake_up_inv)
next
  case (set_done s)
  then show ?case by (simp add: monitor_inv_def bq_inv_def set_done_def)
next
  case (undone s)
  then show ?case by (simp add: monitor_inv_def bq_inv_def undone_def)
qed (rule idle_pc_inv; simp)+

lemma bq_step_size: "bq_step s s' \<Longrightarrow> m_size (mq s') = m_size (mq s)"
  by (induction rule: bq_step.induct)
     (auto dest: push_Some pop_Popped simp: set_done_def undone_def)

lemma bq_reachable_inv: "bq_reachable n s \<Longrightarrow> monitor_inv s \<and> m_size (mq s) = n"
proof (induction rule: bq_reachable.induct)
  case start
  then show ?case by (simp add: monitor_inv_init) (simp add: monitor_init_def BlockQueue_new_def)
next
  case (step s s')
  then show ?case by (auto dest: bq_step_inv bq_step_size)
qed

text \<open>
  C14: whatever the threads do, the queue delivers what was pushed, in order, without loss or
  duplication; it never holds more than its capacity; and \<open>empty()\<close> tells the truth.
\<close>

theorem block_queue_fifo:
  assumes "bq_reachable n s"
  shows "popped s @ m_queue (mq s) = pushed s \<and> length (m_queue (mq s)) \<le> n \<and>
         (bq_empty (mq s) \<longleftrightarrow> m_queue (mq s) = [])"
  using bq_reachable_inv [OF assms] by (auto simp: monitor_inv_def bq_inv_def bq_empty_def)

text \<open>
  C15: no wake-up of a producer is lost. While a producer sleeps on \<open>m_cond_notFull\<close>, either the
  queue is full or another producer is awake and about to take the free place.
\<close>

theorem block_queue_no_lost_wakeup:
  assumes "bq_reachable n s" "sleeps_notFull (mpc s t)"
  shows "length (m_queue (mq s)) = n \<or> (\<exists>u e. mpc s u = Pushing e)"
proof -
  from bq_reachable_inv [OF assms(1)] have inv: "monitor_inv s" and n: "m_size (mq s) = n"
    by auto
  then have "n \<le> length (m_queue (mq s)) + card (producers (mpc s))"
    using assms(2) by (auto simp: monitor_inv_def)
  moreover have "length (m_queue (mq s)) \<le> n"
    using inv n by (auto simp: monitor_inv_def bq_inv_def)
  moreover have "producers (mpc s) = {}" if "\<nexists>u e. mpc s u = Pushing e"
    using that by (auto simp: producers_def)
  ultimately show ?thesis by fastforce
qed

text \<open>
  A run with a full queue of capacity 1: thread 0 pushes 5, thread 1 calls \<open>push(6)\<close> and sleeps.
\<close>

definition full_run :: "nat monitor" where
  "full_run =
     \<lparr>mq = \<lparr>m_queue = [5], m_size = 1, m_isEmpty = False, m_done = False\<rparr>,
      mpc = (\<lambda>_. Idle)(1 := WaitNotFull 6), pushed = [5], popped = []\<rparr>"

lemma full_run_reachable: "bq_reachable 1 full_run"
proof -
  let ?q0 = "BlockQueue_new 1 :: nat BlockQueue"
  let ?q1 = "\<lparr>m_queue = [5], m_size = 1, m_isEmpty = False, m_done = False\<rparr> :: nat BlockQueue"
  let ?idle = "\<lambda>_ :: nat. Idle :: nat pc"
  have "bq_reachable 1 (monitor_init 1 :: nat monitor)" by (rule bq_reachable.start)
  then have "bq_reachable 1 ((monitor_init 1 :: nat monitor)\<lparr>mpc := ?idle(0 := Pushing 5)\<rparr>)"
    using call_push [of "monitor_init 1 :: nat monitor" 0 5]
    by (auto intro: bq_reachable.step simp: monitor_init_def)
  then have "bq_reachable 1 \<lparr>mq = ?q0, mpc = ?idle(0 := Pushing 5), pushed = [], popped = []\<rparr>"
    by (simp add: monitor_init_def)
  then have "bq_reachable 1 \<lparr>mq = ?q1, mpc = ?idle, pushed = [5], popped = []\<rparr>"
    using push_done [of "\<lparr>mq = ?q0, mpc = ?idle(0 := Pushing 5), pushed = [], popped = []\<rparr>" 0 5 ?q1 ?idle]
    by (auto intro: bq_reachable.step simp: push_def BlockQueue_new_def notify_one_def fun_upd_idem)
  then have "bq_reachable 1 \<lparr>mq = ?q1, mpc = ?idle(1 := Pushing 6), pushed = [5], popped = []\<rparr>"
    using call_push [of "\<lparr>mq = ?q1, mpc = ?idle, pushed = [5], popped = []\<rparr>" 1 6]
    by (auto intro: bq_reachable.step)
  then show ?thesis
    using push_wait [of "\<lparr>mq = ?q1, mpc = ?idle(1 := Pushing 6), pushed = [5], popped = []\<rparr>" 1 6]
    by (auto intro: bq_reachable.step simp: full_run_def push_def)
qed

theorem block_queue_fifo_witness:
  "popped full_run @ m_queue (mq full_run) = pushed full_run \<and> length (m_queue (mq full_run)) \<le> 1 \<and>
   (bq_empty (mq full_run) \<longleftrightarrow> m_queue (mq full_run) = [])"
  by (rule block_queue_fifo [OF full_run_reachable])

theorem block_queue_no_lost_wakeup_witness:
  "length (m_queue (mq full_run)) = 1 \<or> (\<exists>u e. mpc full_run u = Pushing e)"
  by (rule block_queue_no_lost_wakeup [OF full_run_reachable, of 1]) (simp add: full_run_def)

text \<open>
  A consumer loop \<^verbatim>\<open>while(q->pop(x)) handle(x)\<close> handles every element of the queue in order
  and empties it, and it ends because \<open>pop\<close> returned \<open>false\<close> exactly when \<open>set_done\<close> was called;
  otherwise the thread is left waiting for the next element.
\<close>

theorem consume_drains:
  "snd (consume handle q s) = fold handle (m_queue q) s \<and>
   (pop (fst (consume handle q s)) = PopFalse \<longleftrightarrow> m_done q) \<and>
   (pop (fst (consume handle q s)) = PopWait \<longleftrightarrow> \<not> m_done q)"
  using consume_fold [of handle q s] by (simp add: pop_PopFalse pop_PopWait)

end
