(* ===== verification/ClientConn.thy ===== *)
theory ClientConn
  imports DedupServer BlockQueue
begin

text \<open>
  One client connection of the server: \<^verbatim>\<open>include/ClientConn.h\<close> and \<^verbatim>\<open>src/server/ClientConn.cc\<close>.

  \<open>conn\<close> is the class, \<open>upload_locals\<close> the local variables of \<open>receive_file\<close> that live across
  the iterations of its loops. \<open>receive_file\<close> is split where it reads from the socket:
  \<open>receive_file_begin\<close> is the code before the loop, \<open>receive_file_body\<close> one iteration for one
  received message, \<open>receive_file_end\<close> the code after it. The two writer threads are
  \<open>write_container\<close> and \<open>write_recipe\<close>: \<open>run_writers\<close> lets both empty their queues, and
  \<open>receive_file_end\<close> joins them. A handler that would wait on a full queue returns \<open>Waits\<close>.

  Pushing a container copies the struct and with it the pointer to its data; the buffer is
  only written again after \<open>new_container\<close> allocated a new block, so the copy can be a value.
\<close>

section \<open>State\<close>

record conn =
  m_sockfd :: int
  m_client_info :: ClientInfo_t
  m_inMsgBuffer :: DataMsg_t
  m_outMsgBuffer :: DataMsg_t
  m_hashList :: HashList_t
  m_duplicatedChunkAddr :: "ChunkAddr_t list"
  m_containerQueue :: "Container_t BlockQueue"
  m_containerBuffer :: Container_t
  m_recipeBuffer :: RecipeEntryContainer_t
  m_recipeQueue :: "RecipeEntryContainer_t BlockQueue"
  m_recipeNameHash :: string
  m_chunkAddrs :: mem

record upload_locals =
  received_file_size :: nat
  unique_chunk_num :: nat
  duplicated_chunk_num :: nat
  currentUniqueNum :: nat
  chunkAddr :: ChunkAddr_t
  rw_totalChunkNum :: u32   \<comment> \<open>\<open>totalChunkNum\<close> of the thread \<open>write_recipe\<close>\<close>

definition in_capacity :: nat where "in_capacity = (CHUNKSIZE + HASHSIZE) * BATCHSIZE"
definition out_capacity :: nat where "out_capacity = CHUNKSIZE * BATCHSIZE"

lemma capacities: "in_capacity = 4227072" "out_capacity = 4194304"
  by (simp_all add: in_capacity_def out_capacity_def config_values)

section \<open>Buffers and queues\<close>

definition new_container :: "'db ext \<Rightarrow> 'db server \<times> conn \<Rightarrow> crash + 'db server \<times> conn" where
  "new_container ext = (\<lambda>(srv, c).
     (let cid = x_uuid ext (uuid_count srv)
      in bindR (guardR BufferOverflow (length cid + 1 \<le> 40)) (\<lambda>_.
         Inr (srv\<lparr>uuid_count := uuid_count srv + 1\<rparr>,
              c\<lparr>m_containerBuffer :=
                  \<lparr>containerID = cid, occupied = 0, capacity = CONTAINERSIZE, c_data = x_malloc ext\<rparr>\<rparr>))))"

definition new_recipe :: "'db ext \<Rightarrow> conn \<Rightarrow> conn" where
  "new_recipe ext c = c\<lparr>m_recipeBuffer := \<lparr>rec_num = 0, rec_data = x_malloc ext\<rparr>\<rparr>"

definition insert_container_queue :: "conn \<Rightarrow> crash + conn" where
  "insert_container_queue c =
     (case push (m_containerBuffer c) (m_containerQueue c) of
        None \<Rightarrow> Inl Waits
      | Some q \<Rightarrow> Inr (c\<lparr>m_containerQueue := q\<rparr>))"

definition insert_recipe_queue :: "conn \<Rightarrow> crash + conn" where
  "insert_recipe_queue c =
     (case push (m_recipeBuffer c) (m_recipeQueue c) of
        None \<Rightarrow> Inl Waits
      | Some q \<Rightarrow> Inr (c\<lparr>m_recipeQueue := q\<rparr>))"

text \<open>The constructor; \<open>uninit\<close> stands for the uninitialised members.\<close>

definition uninit_conn :: "'db ext \<Rightarrow> int \<Rightarrow> ClientInfo_t \<Rightarrow> conn" where
  "uninit_conn ext sockfd client_info =
     (let buf = \<lparr>header = dec_header (mem_read (x_malloc ext) 0 40),
                 msg_data = (\<lambda>i. x_malloc ext (40 + i))\<rparr>
      in \<lparr>m_sockfd = sockfd, m_client_info = client_info,
          m_inMsgBuffer = buf, m_outMsgBuffer = buf,
          m_hashList = \<lparr>hl_num = 0, hl_data = x_malloc ext\<rparr>, m_duplicatedChunkAddr = [],
          m_containerQueue = BlockQueue_new 1000,
          m_containerBuffer = \<lparr>containerID = [], occupied = 0, capacity = 0, c_data = x_malloc ext\<rparr>,
          m_recipeBuffer = \<lparr>rec_num = 0, rec_data = x_malloc ext\<rparr>,
          m_recipeQueue = BlockQueue_new 1000, m_recipeNameHash = [], m_chunkAddrs = x_malloc ext\<rparr>)"

definition ClientConn_new ::
    "'db ext \<Rightarrow> int \<Rightarrow> ClientInfo_t \<Rightarrow> 'db server \<Rightarrow> crash + 'db server \<times> conn" where
  "ClientConn_new ext sockfd client_info srv =
     bindR (new_container ext (srv, uninit_conn ext sockfd client_info)) (\<lambda>(srv', c).
     Inr (srv', new_recipe ext c))"

section \<open>Receiving chunks\<close>

text \<open>
  The branch for a unique chunk. \<open>start\<close>, \<open>end\<close> and \<open>chunkSize\<close> are \<open>uint32_t\<close>, so a header whose
  \<open>start\<close> is too small makes \<open>end - start\<close> wrap around.
\<close>

definition chunk_start :: "nat \<Rightarrow> u32" where
  "chunk_start cu = of_nat (cu * CHUNKSIZE)"

definition chunk_end :: "nat \<Rightarrow> u64 \<Rightarrow> u32" where
  "chunk_end cu hstart = of_nat (min ((cu + 1) * CHUNKSIZE) (unat hstart))"

definition make_room :: "'db ext \<Rightarrow> nat \<Rightarrow> 'db server \<times> conn \<Rightarrow> crash + 'db server \<times> conn" where
  "make_room ext n = (\<lambda>(srv, c).
     (if capacity (m_containerBuffer c) < n
      then bindR (insert_container_queue c) (\<lambda>c'. new_container ext (srv, c'))
      else Inr (srv, c)))"

definition store_unique ::
    "'db ext \<Rightarrow> string \<Rightarrow> 'db server \<times> conn \<times> upload_locals \<Rightarrow>
     crash + 'db server \<times> conn \<times> upload_locals" where
  "store_unique ext strChunkHash = (\<lambda>(srv, c, l).
     (let start = chunk_start (currentUniqueNum l);
          chunkSize = chunk_end (currentUniqueNum l) (hdr_start (header (m_inMsgBuffer c))) - start;
          n = unat chunkSize;
          l = l\<lparr>received_file_size := received_file_size l + n\<rparr>
      in bindR (make_room ext n (srv, c)) (\<lambda>(srv, c).
         bindR (guardR BufferOverread (unat start + n \<le> in_capacity)) (\<lambda>_.
         bindR (guardR BufferOverflow (occupied (m_containerBuffer c) + n \<le> CONTAINERSIZE)) (\<lambda>_.
         (let b = m_containerBuffer c;
              chunk = mem_read (msg_data (m_inMsgBuffer c)) (unat start) n;
              b = b\<lparr>c_data := mem_write (c_data b) (occupied b) chunk,
                    occupied := occupied b + n, capacity := capacity b - n\<rparr>;
              c = c\<lparr>m_containerBuffer := b\<rparr>
          in bindR (mk_ChunkAddr (containerID b) (of_nat (occupied b - n)) (of_nat n)) (\<lambda>a.
             Inr (addChunk (strChunkHash, a) srv, c,
                  l\<lparr>chunkAddr := a, currentUniqueNum := currentUniqueNum l + 1\<rparr>))))))))"

text \<open>The branch for a duplicate takes the address that was queued when the query was answered.\<close>

definition take_duplicate :: "conn \<times> upload_locals \<Rightarrow> crash + conn \<times> upload_locals" where
  "take_duplicate = (\<lambda>(c, l).
     (case m_duplicatedChunkAddr c of
        [] \<Rightarrow> Inl EmptyFront
      | a # rest \<Rightarrow> Inr (c\<lparr>m_duplicatedChunkAddr := rest\<rparr>, l\<lparr>chunkAddr := a\<rparr>)))"

definition write_recipe_entry :: "'db ext \<Rightarrow> ChunkAddr_t \<Rightarrow> conn \<Rightarrow> crash + conn" where
  "write_recipe_entry ext a c =
     bindR (if BATCHSIZE \<le> rec_num (m_recipeBuffer c)
            then bindR (insert_recipe_queue c) (\<lambda>c'. Inr (new_recipe ext c'))
            else Inr c) (\<lambda>c.
     (let r = m_recipeBuffer c
      in Inr (c\<lparr>m_recipeBuffer :=
           r\<lparr>rec_data := mem_write (rec_data r) (rec_num r * sizeof_ChunkAddr) (enc_addr a),
             rec_num := rec_num r + 1\<rparr>\<rparr>)))"

text \<open>One iteration \<open>i\<close> of the loop over \<open>m_hashList\<close>, and the loop.\<close>

definition store_chunk ::
    "'db ext \<Rightarrow> nat \<Rightarrow> 'db server \<times> conn \<times> upload_locals \<Rightarrow>
     crash + 'db server \<times> conn \<times> upload_locals" where
  "store_chunk ext i = (\<lambda>(srv, c, l).
     (let strChunkHash = convert_array_hash_to_string (mem_read (hl_data (m_hashList c)) (i * HASHSIZE) 32);
          flag = msg_data (m_outMsgBuffer c) i
      in bindR (if flag = 1 then store_unique ext strChunkHash (srv, c, l)
                else if flag = 0 then
                  bindR (take_duplicate (c, l)) (\<lambda>(c', l'). Inr (srv, c', l'))
                else Inr (srv, c, l)) (\<lambda>(srv, c, l).
         bindR (write_recipe_entry ext (chunkAddr l) c) (\<lambda>c. Inr (srv, c, l)))))"

fun store_loop ::
    "'db ext \<Rightarrow> nat list \<Rightarrow> 'db server \<times> conn \<times> upload_locals \<Rightarrow>
     crash + 'db server \<times> conn \<times> upload_locals" where
  "store_loop ext [] s = Inr s"
| "store_loop ext (i # is) s = bindR (store_chunk ext i s) (store_loop ext is)"

section \<open>Answering a query\<close>

definition set_flag :: "nat \<Rightarrow> byte \<Rightarrow> conn \<Rightarrow> conn" where
  "set_flag i v c = c\<lparr>m_outMsgBuffer :=
     (m_outMsgBuffer c)\<lparr>msg_data := mem_write (msg_data (m_outMsgBuffer c)) i [v]\<rparr>\<rparr>"

definition query_chunk :: "'db server \<Rightarrow> nat \<Rightarrow> conn \<times> upload_locals \<Rightarrow> conn \<times> upload_locals" where
  "query_chunk srv i = (\<lambda>(c, l).
     (let start = unat (hdr_start (header (m_inMsgBuffer c))) + i * HASHSIZE;
          strChunkHash = convert_array_hash_to_string (mem_read (msg_data (m_inMsgBuffer c)) start 32);
          (stored, a) = isChunkStored strChunkHash (chunkAddr l) srv;
          l = l\<lparr>chunkAddr := a\<rparr>
      in if stored
         then ((set_flag i 0 c)\<lparr>m_duplicatedChunkAddr := m_duplicatedChunkAddr c @ [a]\<rparr>, l)
         else (set_flag i 1 c, l)))"

text \<open>
  \<open>queryNum\<close> is checked by nothing: the copy of the hashes leaves \<open>m_hashList\<close> when it is larger
  than \<open>BATCHSIZE\<close>.
\<close>

definition answer_query ::
    "'db server \<Rightarrow> conn \<times> upload_locals \<Rightarrow> crash + conn \<times> upload_locals" where
  "answer_query srv = (\<lambda>(c, l).
     (let h = header (m_inMsgBuffer c);
          n = unat (queryNum h);
          c = c\<lparr>m_hashList := (m_hashList c)\<lparr>hl_num := n\<rparr>,
                m_outMsgBuffer := (m_outMsgBuffer c)
                  \<lparr>header := (header (m_outMsgBuffer c))\<lparr>queryNum := queryNum h\<rparr>\<rparr>\<rparr>
      in bindR
           (if n \<noteq> 0 then
              bindR (guardR BufferOverflow (HASHSIZE * n \<le> HASHSIZE * BATCHSIZE)) (\<lambda>_.
              bindR (guardR BufferOverread (unat (hdr_start h) + HASHSIZE * n \<le> in_capacity)) (\<lambda>_.
              (let c = c\<lparr>m_hashList := (m_hashList c)\<lparr>hl_data :=
                     mem_write (hl_data (m_hashList c)) 0
                       (mem_read (msg_data (m_inMsgBuffer c)) (unat (hdr_start h)) (HASHSIZE * n))\<rparr>\<rparr>
               in Inr (fold (query_chunk srv) [0..<n] (c, l)))))
            else Inr (c, l)) (\<lambda>(c, l).
         Inr (c\<lparr>m_outMsgBuffer := (m_outMsgBuffer c)
                 \<lparr>header := (header (m_outMsgBuffer c))
                    \<lparr>hdr_size := of_nat sizeof_DataMsg + queryNum (header (m_outMsgBuffer c))\<rparr>\<rparr>\<rparr>,
              l\<lparr>duplicated_chunk_num := duplicated_chunk_num l + length (m_duplicatedChunkAddr c)\<rparr>))))"

section \<open>The writer threads\<close>

definition container_bytes :: "Container_t \<Rightarrow> byte list" where
  "container_bytes b = mem_read (c_data b) 0 (occupied b)"

definition recipe_block_bytes :: "RecipeEntryContainer_t \<Rightarrow> byte list" where
  "recipe_block_bytes r = mem_read (rec_data r) 0 (rec_num r * sizeof_ChunkAddr)"

definition save_container :: "Container_t \<Rightarrow> 'db server \<Rightarrow> 'db server" where
  "save_container b srv =
     srv\<lparr>containers_dir := (containers_dir srv)(containerID b \<mapsto> container_bytes b)\<rparr>"

definition write_container ::
    "Container_t BlockQueue \<Rightarrow> 'db server \<Rightarrow> Container_t BlockQueue \<times> 'db server" where
  "write_container q srv = consume save_container q srv"

text \<open>
  \<open>write_recipe\<close> creates the file with a zero count, appends the entries of every block it pops, and
  when \<open>pop\<close> returns \<open>false\<close> writes the count over the first four bytes.
\<close>

definition write_recipe_open :: "string \<Rightarrow> 'db server \<Rightarrow> 'db server" where
  "write_recipe_open name srv = srv\<lparr>recipes_dir := (recipes_dir srv)(name \<mapsto> u32_bytes 0)\<rparr>"

definition write_recipe_block ::
    "string \<Rightarrow> RecipeEntryContainer_t \<Rightarrow> 'db server \<times> u32 \<Rightarrow> 'db server \<times> u32" where
  "write_recipe_block name r = (\<lambda>(srv, totalChunkNum).
     (srv\<lparr>recipes_dir := (recipes_dir srv)
        (name \<mapsto> (case recipes_dir srv name of None \<Rightarrow> [] | Some bs \<Rightarrow> bs) @ recipe_block_bytes r)\<rparr>,
      totalChunkNum + of_nat (rec_num r)))"

definition write_recipe ::
    "string \<Rightarrow> RecipeEntryContainer_t BlockQueue \<Rightarrow> 'db server \<times> u32 \<Rightarrow>
     RecipeEntryContainer_t BlockQueue \<times> 'db server \<times> u32" where
  "write_recipe name q s = consume (write_recipe_block name) q s"

definition write_recipe_close :: "string \<Rightarrow> u32 \<Rightarrow> 'db server \<Rightarrow> 'db server" where
  "write_recipe_close name totalChunkNum srv =
     srv\<lparr>recipes_dir := (recipes_dir srv)
       (name \<mapsto> u32_bytes totalChunkNum @ drop 4 (case recipes_dir srv name of None \<Rightarrow> [] | Some bs \<Rightarrow> bs))\<rparr>"

text \<open>Both threads run until they wait for the next element or end.\<close>

definition run_writers ::
    "'db server \<times> conn \<times> upload_locals \<Rightarrow> 'db server \<times> conn \<times> upload_locals" where
  "run_writers = (\<lambda>(srv, c, l).
     (let (cq, srv) = write_container (m_containerQueue c) srv;
          (rq, srv, totalChunkNum) = write_recipe (m_recipeNameHash c) (m_recipeQueue c) (srv, rw_totalChunkNum l)
      in (srv, c\<lparr>m_containerQueue := cq, m_recipeQueue := rq\<rparr>, l\<lparr>rw_totalChunkNum := totalChunkNum\<rparr>)))"

section \<open>receive_file\<close>

text \<open>The recipe of a file is named after the digest of the client id followed by the file name.\<close>

definition recipe_name :: "u32 \<Rightarrow> string \<Rightarrow> string" where
  "recipe_name cid fileName = to_string (sint cid) @ fileName"

definition recipe_file :: "'db ext \<Rightarrow> u32 \<Rightarrow> string \<Rightarrow> crash + string" where
  "recipe_file ext cid fileName =
     bindR (generate_hash (x_evp ext) (str_bytes (recipe_name cid fileName))) (\<lambda>h.
     Inr (convert_array_hash_to_string h))"

definition set_out_type :: "DataMsgType \<Rightarrow> conn \<Rightarrow> conn" where
  "set_out_type t c = c\<lparr>m_outMsgBuffer := (m_outMsgBuffer c)
     \<lparr>header := (header (m_outMsgBuffer c))\<lparr>dataMsgType := dataMsgType_val t\<rparr>\<rparr>\<rparr>"

definition upload_start :: "ChunkAddr_t \<Rightarrow> upload_locals" where
  "upload_start uninit =
     \<lparr>received_file_size = 0, unique_chunk_num = 0, duplicated_chunk_num = 0,
      currentUniqueNum = 0, chunkAddr = uninit, rw_totalChunkNum = 0\<rparr>"

text \<open>
  Everything before the loop: the reply to the request, and for a new file the row in the file
  table and the two threads, which start by creating the recipe file. \<open>None\<close> ends the request.
\<close>

definition receive_file_begin ::
    "'db ext \<Rightarrow> string \<Rightarrow> 'db server \<times> conn \<Rightarrow>
     crash + ('db server \<times> conn \<times> upload_locals option) \<times> byte list list" where
  "receive_file_begin ext fileName = (\<lambda>(srv, c).
     (let cid = client_id (m_client_info c)
      in bindR (recipe_file ext cid fileName) (\<lambda>name.
         (let c = c\<lparr>m_recipeNameHash := name\<rparr>
          in bindR (isFileUnique ext cid fileName srv) (\<lambda>(unique, srv).
             if \<not> unique
             then Inr ((srv, c, None), [send_control_message (x_malloc ext) UPLOADREP [] DUPLICATE])
             else bindR (addFile ext cid fileName srv) (\<lambda>srv.
               Inr ((write_recipe_open name srv, set_out_type UPLOADBODYREP c,
                     Some (upload_start (dec_addr (mem_read (x_malloc ext) 0 56)))),
                    [send_control_message (x_malloc ext) UPLOADREP [] UNIQUE])))))))"

text \<open>
  One iteration of the loop for one received message: the new state, the messages sent, and whether
  the loop goes on.
\<close>

definition receive_chunks ::
    "'db ext \<Rightarrow> 'db server \<times> conn \<times> upload_locals \<Rightarrow> crash + 'db server \<times> conn \<times> upload_locals" where
  "receive_chunks ext = (\<lambda>(srv, c, l).
     bindR (store_loop ext [0..<hl_num (m_hashList c)] (srv, c, l\<lparr>currentUniqueNum := 0\<rparr>)) (\<lambda>(srv, c, l).
     bindR (answer_query srv
              (c, l\<lparr>unique_chunk_num := unique_chunk_num l + currentUniqueNum l\<rparr>)) (\<lambda>(c, l).
     Inr (srv, c, l))))"

definition receive_fileend :: "conn \<Rightarrow> crash + conn" where
  "receive_fileend c =
     bindR (if occupied (m_containerBuffer c) \<noteq> 0 then insert_container_queue c else Inr c) (\<lambda>c.
     bindR (insert_recipe_queue c) (\<lambda>c.
     Inr (set_out_type FILEEND c)))"

definition receive_file_body ::
    "'db ext \<Rightarrow> byte list \<Rightarrow> 'db server \<times> conn \<times> upload_locals \<Rightarrow>
     crash + ('db server \<times> conn \<times> upload_locals) \<times> byte list list \<times> bool" where
  "receive_file_body ext frame = (\<lambda>(srv, c, l).
     bindR (guardR BufferOverflow (length frame \<le> sizeof_DataMsg + in_capacity)) (\<lambda>_.
     (let c = c\<lparr>m_inMsgBuffer := load_msg (m_inMsgBuffer c) frame\<rparr>
      in bindR
           (if dataMsgType (header (m_inMsgBuffer c)) = dataMsgType_val FILEEND
            then bindR (receive_fileend c) (\<lambda>c. Inr (srv, c, l))
            else receive_chunks ext (srv, c, l)) (\<lambda>(srv, c, l).
         (let out = m_outMsgBuffer c
          in if dataMsgType (header out) = dataMsgType_val UPLOADBODYREP
             then Inr ((srv, c, l),
                       (if queryNum (header out) \<noteq> 0 then [msg_bytes out (unat (hdr_size (header out)))] else []),
                       True)
             else if dataMsgType (header out) = dataMsgType_val FILEEND
             then Inr ((srv, c\<lparr>m_containerQueue := set_done (m_containerQueue c),
                               m_recipeQueue := set_done (m_recipeQueue c)\<rparr>, l), [], False)
             else Inr ((srv, c, l), [], True))))))"

definition reset_upload :: "'db ext \<Rightarrow> 'db server \<times> conn \<Rightarrow> crash + 'db server \<times> conn" where
  "reset_upload ext = (\<lambda>(srv, c).
     (let c = c\<lparr>m_hashList := (m_hashList c)\<lparr>hl_num := 0\<rparr>,
                m_containerQueue := undone (m_containerQueue c),
                m_recipeQueue := undone (m_recipeQueue c),
                m_recipeNameHash := []\<rparr>
      in bindR (new_container ext (srv, c)) (\<lambda>(srv, c). Inr (srv, new_recipe ext c))))"

text \<open>After the loop: both threads are joined, so they empty their queues and finish the recipe.\<close>

definition receive_file_end ::
    "'db ext \<Rightarrow> 'db server \<times> conn \<times> upload_locals \<Rightarrow> crash + 'db server \<times> conn" where
  "receive_file_end ext s =
     (let (srv, c, l) = run_writers s
      in reset_upload ext (write_recipe_close (m_recipeNameHash c) (rw_totalChunkNum l) srv, c))"

section \<open>send_file\<close>

text \<open>
  Reading a chunk from a container file: a missing file or a range past its end delivers fewer
  bytes, and the rest of the output buffer keeps what it held.
\<close>

definition read_container :: "'db server \<Rightarrow> ChunkAddr_t \<Rightarrow> byte list" where
  "read_container srv a =
     (case containers_dir srv (ca_containerID a) of
        None \<Rightarrow> []
      | Some bs \<Rightarrow> take (unat (ca_size a)) (drop (unat (ca_offset a)) bs))"

text \<open>The loop over the addresses of one batch: the output data and \<open>dataOffset\<close>.\<close>

fun read_chunks :: "'db server \<Rightarrow> ChunkAddr_t list \<Rightarrow> mem \<times> nat \<Rightarrow> crash + mem \<times> nat" where
  "read_chunks srv [] s = Inr s"
| "read_chunks srv (a # as) (m, dataOffset) =
     (let chunk = read_container srv a
      in bindR (guardR BufferOverflow (dataOffset + length chunk \<le> out_capacity)) (\<lambda>_.
         read_chunks srv as (mem_write m dataOffset chunk, dataOffset + unat (ca_size a))))"

definition batch_addrs :: "mem \<Rightarrow> nat \<Rightarrow> ChunkAddr_t list" where
  "batch_addrs m n = map (\<lambda>i. dec_addr (mem_read m (i * sizeof_ChunkAddr) sizeof_ChunkAddr)) [0..<n]"

definition send_batch :: "'db server \<Rightarrow> byte list \<Rightarrow> conn \<Rightarrow> crash + conn \<times> byte list" where
  "send_batch srv block c =
     (let c = c\<lparr>m_chunkAddrs := mem_write (m_chunkAddrs c) 0 block\<rparr>;
          currentChunkNum = length block div sizeof_ChunkAddr
      in bindR (read_chunks srv (batch_addrs (m_chunkAddrs c) currentChunkNum)
                  (msg_data (m_outMsgBuffer c), 0)) (\<lambda>(m, dataOffset).
         (let out = (m_outMsgBuffer c)
                \<lparr>msg_data := m,
                 header := (header (m_outMsgBuffer c))
                   \<lparr>hdr_chunkNum := of_nat currentChunkNum,
                    hdr_size := of_nat (sizeof_DataMsg + dataOffset)\<rparr>\<rparr>
          in bindR (guardR BufferOverread (unat (hdr_size (header out)) \<le> sizeof_DataMsg + out_capacity)) (\<lambda>_.
             Inr (c\<lparr>m_outMsgBuffer := out\<rparr>, msg_bytes out (unat (hdr_size (header out))))))))"

function send_batches :: "'db server \<Rightarrow> byte list \<Rightarrow> conn \<Rightarrow> crash + conn \<times> byte list list" where
  "send_batches srv recipe c =
     (let block = take (sizeof_ChunkAddr * BATCHSIZE) recipe
      in if length block = 0 then Inr (c, [])
         else bindR (send_batch srv block c) (\<lambda>(c, frame).
              bindR (send_batches srv (drop (sizeof_ChunkAddr * BATCHSIZE) recipe) c) (\<lambda>(c, frames).
              Inr (c, frame # frames))))"
  by pat_completeness auto
termination
  by (relation "measure (\<lambda>(srv, recipe, c). length recipe)")
     (auto simp: sizeof_ChunkAddr_def BATCHSIZE_def)

declare send_batches.simps [simp del]

definition reset_download :: "conn \<Rightarrow> conn" where
  "reset_download c = c\<lparr>m_recipeNameHash := []\<rparr>"

definition send_file ::
    "'db ext \<Rightarrow> string \<Rightarrow> 'db server \<times> conn \<Rightarrow> crash + ('db server \<times> conn) \<times> byte list list" where
  "send_file ext fileName = (\<lambda>(srv, c).
     (let cid = client_id (m_client_info c)
      in bindR (recipe_file ext cid fileName) (\<lambda>name.
         (let c = c\<lparr>m_recipeNameHash := name\<rparr>
          in bindR (isFileExist ext cid fileName srv) (\<lambda>(exists, srv).
             if \<not> exists
             then Inr ((srv, c), [send_control_message (x_malloc ext) DOWNLOADREP [] NOTEXIST])
             else
               (let recipe = (case recipes_dir srv (m_recipeNameHash c) of None \<Rightarrow> [] | Some bs \<Rightarrow> bs)
                in bindR (send_batches srv (drop 4 recipe) (set_out_type DOWNLOADBODY c)) (\<lambda>(c, frames).
                   (let c = set_out_type FILEEND c
                    in Inr ((srv, reset_download c),
                            send_control_message (x_malloc ext) DOWNLOADREP [] EXIST # frames @
                            [msg_bytes (m_outMsgBuffer c) sizeof_DataMsg])))))))))"

section \<open>run\<close>

text \<open>
  The connection as a state machine over received messages: it waits for the login, then for an
  order, and during an upload for the next part of the file. \<open>run_writers\<close> after every part is one
  possible schedule of the writer threads.
\<close>

datatype mode = AwaitLogin | AwaitOrder | Receiving upload_locals | Closed

definition receive_login :: "mem \<Rightarrow> byte list \<Rightarrow> conn \<Rightarrow> crash + conn" where
  "receive_login uninit frame c =
     bindR (guardR BufferOverflow (length frame \<le> sizeof_DataMsg + sizeof_LoginInfo)) (\<lambda>_.
     (let msg = mem_write uninit 0 frame
      in Inr (c\<lparr>m_client_info := (m_client_info c)
           \<lparr>client_id := of_nat (le_nat (mem_read msg sizeof_DataMsg 4))\<rparr>\<rparr>)))"

definition handle_order ::
    "'db ext \<Rightarrow> byte list \<Rightarrow> 'db server \<times> conn \<Rightarrow> crash + ('db server \<times> conn \<times> mode) \<times> byte list list" where
  "handle_order ext frame = (\<lambda>(srv, c).
     bindR (receive_control_msg (x_malloc ext) frame [] 0) (\<lambda>(ord, fileName, status).
     (case order_of ord of
        Some UPLOAD \<Rightarrow>
          bindR (receive_file_begin ext fileName (srv, c)) (\<lambda>((srv, c, up), out).
          Inr ((srv, c, (case up of None \<Rightarrow> AwaitOrder | Some l \<Rightarrow> Receiving l)), out))
      | Some DOWNLOAD \<Rightarrow>
          bindR (send_file ext fileName (srv, c)) (\<lambda>((srv, c), out). Inr ((srv, c, AwaitOrder), out))
      | Some QUIT \<Rightarrow>
          Inr ((srv, c, Closed), [send_control_message (x_malloc ext) QUITREP [] NONE])
      | _ \<Rightarrow> Inr ((srv, c, AwaitOrder), []))))"

definition conn_receive ::
    "'db ext \<Rightarrow> byte list \<Rightarrow> 'db server \<times> conn \<times> mode \<Rightarrow>
     crash + ('db server \<times> conn \<times> mode) \<times> byte list list" where
  "conn_receive ext frame = (\<lambda>(srv, c, m).
     (case m of
        AwaitLogin \<Rightarrow>
          bindR (receive_login (x_malloc ext) frame c) (\<lambda>c. Inr ((srv, c, AwaitOrder), []))
      | AwaitOrder \<Rightarrow> handle_order ext frame (srv, c)
      | Receiving l \<Rightarrow>
          bindR (receive_file_body ext frame (srv, c, l)) (\<lambda>(s, out, continue).
          if continue
          then (let (srv, c, l) = run_writers s in Inr ((srv, c, Receiving l), out))
          else bindR (receive_file_end ext s) (\<lambda>(srv, c). Inr ((srv, c, AwaitOrder), out)))
      | Closed \<Rightarrow> Inr ((srv, c, Closed), [])))"

end
