(* ===== verification/Protocol.thy ===== *)
theory Protocol
  imports Util
begin

text \<open>
  The data messages client and server exchange (\<^verbatim>\<open>DataMsg_t\<close> of \<^verbatim>\<open>include/define.h\<close>), as predicates on
  the bytes of a frame. Both sides are proved against them: the client builds \<open>part_frame\<close> and
  \<open>end_frame\<close> and understands \<open>flags_frame\<close> and \<open>data_frame\<close>, the server the other way round.
\<close>

section \<open>Chunks of a query\<close>

text \<open>A query is a list of chunks, its answer a flag for each: \<open>True\<close> for a chunk to be sent.\<close>

definition uniques :: "(byte list \<times> bool) list \<Rightarrow> byte list list" where
  "uniques items = map fst (filter snd items)"

definition duplicates :: "(byte list \<times> bool) list \<Rightarrow> byte list list" where
  "duplicates items = map fst (filter (\<lambda>x. \<not> snd x) items)"

lemma split_items_simps [simp]:
  "uniques [] = []" "duplicates [] = []"
  "uniques (x # xs) = (if snd x then fst x # uniques xs else uniques xs)"
  "duplicates (x # xs) = (if snd x then duplicates xs else fst x # duplicates xs)"
  by (simp_all add: uniques_def duplicates_def)

lemma uniques_append [simp]: "uniques (xs @ ys) = uniques xs @ uniques ys"
  by (simp add: uniques_def)

lemma duplicates_snoc [simp]:
  "duplicates (xs @ [x]) = (if snd x then duplicates xs else duplicates xs @ [fst x])"
  by (simp add: duplicates_def)

lemma length_uniques: "length (uniques (zip chs fl)) \<le> length chs"
proof -
  have "length (uniques (zip chs fl)) \<le> length (zip chs fl)"
    unfolding uniques_def length_map by (rule length_filter_le)
  then show ?thesis by simp
qed

lemma uniques_nth:
  "j < length items \<Longrightarrow> snd (items ! j) \<Longrightarrow>
   length (uniques (take j items)) < length (uniques items) \<and>
   uniques items ! length (uniques (take j items)) = fst (items ! j)"
  by (subst (2) id_take_nth_drop [of j items], assumption, subst (3) id_take_nth_drop [of j items], assumption)
     (simp add: nth_append)

lemma duplicates_subset: "set (duplicates (zip chs fl)) \<subseteq> set chs"
  by (auto simp: duplicates_def dest: set_zip_leftD)

lemma uniques_subset: "set (uniques (zip chs fl)) \<subseteq> set chs"
  by (auto simp: uniques_def dest: set_zip_leftD)

definition flag_byte :: "bool \<Rightarrow> byte" where
  "flag_byte f = (if f then 1 else 0)"

text \<open>All chunks of a file but the last one have \<open>CHUNKSIZE\<close> bytes.\<close>

definition full_chunks :: "byte list list \<Rightarrow> bool" where
  "full_chunks chs \<longleftrightarrow> (\<forall>ch \<in> set (butlast chs). length ch = CHUNKSIZE) \<and> (\<forall>ch \<in> set chs. length ch \<le> CHUNKSIZE)"

lemma butlast_uniques: "set (butlast (uniques (zip chs fl))) \<subseteq> set (butlast chs)"
proof (induction chs arbitrary: fl)
  case (Cons ch chs)
  show ?case
  proof (cases fl)
    case (Cons f fs)
    then show ?thesis
      using Cons.IH [of fs] by (cases "chs = []"; cases "uniques (zip chs fs) = []") auto
  qed simp
qed simp

lemma full_chunks_uniques: "full_chunks chs \<Longrightarrow> full_chunks (uniques (zip chs fl))"
  unfolding full_chunks_def using butlast_uniques [of chs fl] uniques_subset [of chs fl] by blast

section \<open>Frames\<close>

definition part_frame :: "evp \<Rightarrow> byte list list \<Rightarrow> byte list list \<Rightarrow> byte list \<Rightarrow> bool" where
  "part_frame evp U next frame \<longleftrightarrow>
     (\<exists>m. frame = msg_bytes m (sizeof_DataMsg + (length (concat U) + HASHSIZE * length next)) \<and>
        dataMsgType (header m) \<noteq> dataMsgType_val FILEEND \<and>
        hdr_start (header m) = of_nat (length (concat U)) \<and> queryNum (header m) = of_nat (length next) \<and>
        mem_read (msg_data m) 0 (length (concat U) + HASHSIZE * length next) =
          concat U @ concat (map (digest evp) next))"

definition flags_frame :: "bool list \<Rightarrow> byte list \<Rightarrow> bool" where
  "flags_frame fl frame \<longleftrightarrow>
     (\<exists>m. frame = msg_bytes m (sizeof_DataMsg + length fl) \<and>
        mem_read (msg_data m) 0 (length fl) = map flag_byte fl)"

definition end_frame :: "byte list \<Rightarrow> bool" where
  "end_frame frame \<longleftrightarrow>
     (\<exists>m. frame = msg_bytes m sizeof_DataMsg \<and> dataMsgType (header m) = dataMsgType_val FILEEND)"

definition data_frame :: "byte list \<Rightarrow> byte list \<Rightarrow> bool" where
  "data_frame dat frame \<longleftrightarrow>
     (\<exists>m. frame = msg_bytes m (sizeof_DataMsg + length dat) \<and>
        dataMsgType (header m) = dataMsgType_val DOWNLOADBODY \<and>
        hdr_size (header m) = of_nat (sizeof_DataMsg + length dat) \<and>
        mem_read (msg_data m) 0 (length dat) = dat)"

section \<open>Lists of blocks of equal length\<close>

lemma concat_slice:
  "(\<forall>x \<in> set xs. length x = k) \<Longrightarrow> i < length xs \<Longrightarrow> take k (drop (i * k) (concat xs)) = xs ! i"
proof (induction xs arbitrary: i)
  case (Cons x xs)
  then show ?case by (cases i) (simp_all add: add.commute)
qed simp

lemma length_concat_const: "(\<forall>x \<in> set xs. length x = k) \<Longrightarrow> length (concat xs) = length xs * k"
  by (induction xs) simp_all

lemma concat_bound:
  "(\<forall>ch \<in> set chs. length ch \<le> CHUNKSIZE) \<Longrightarrow> length (concat chs) \<le> length chs * CHUNKSIZE"
  by (induction chs) auto

lemma length_digests:
  assumes "evp_total evp"
  shows "length (concat (map (digest evp) chs)) = HASHSIZE * length chs"
  using length_concat_const [of "map (digest evp) chs" 32] generate_hash_total(2) [OF assms]
  by (simp add: config_values mult.commute)

section \<open>Splitting a file\<close>

function split_every :: "nat \<Rightarrow> 'a list \<Rightarrow> 'a list list" where
  "split_every n xs = (if n = 0 \<or> xs = [] then [] else take n xs # split_every n (drop n xs))"
  by pat_completeness auto
termination
  by (relation "measure (\<lambda>(n, xs). length xs)") auto

declare split_every.simps [simp del]

definition chunks_of :: "byte list \<Rightarrow> byte list list" where
  "chunks_of bs = split_every CHUNKSIZE bs"

definition blocks_of :: "byte list \<Rightarrow> byte list list" where
  "blocks_of bs = split_every (CHUNKSIZE * BATCHSIZE) bs"

lemma split_every_Nil [simp]: "split_every n [] = []"
  by (simp add: split_every.simps)

lemma split_every_step: "0 < n \<Longrightarrow> xs \<noteq> [] \<Longrightarrow> split_every n xs = take n xs # split_every n (drop n xs)"
  by (subst split_every.simps) simp

lemma concat_split_every: "0 < n \<Longrightarrow> concat (split_every n xs) = xs"
proof (induction n xs rule: split_every.induct)
  case (1 n xs)
  then show ?case by (cases "xs = []") (simp_all add: split_every_step)
qed

lemma split_every_elem: "x \<in> set (split_every n xs) \<Longrightarrow> x \<noteq> [] \<and> length x \<le> n"
proof (induction n xs rule: split_every.induct)
  case (1 n xs)
  then show ?case by (cases "n = 0 \<or> xs = []") (auto simp: split_every.simps [of n xs])
qed

lemma split_every_butlast: "x \<in> set (butlast (split_every n xs)) \<Longrightarrow> length x = n"
proof (induction n xs rule: split_every.induct)
  case (1 n xs)
  show ?case
  proof (cases "n = 0 \<or> xs = [] \<or> drop n xs = []")
    case True
    then show ?thesis using "1.prems" by (auto simp: split_every.simps [of n xs] split: if_splits)
  next
    case False
    then have "split_every n (drop n xs) \<noteq> []" by (subst split_every.simps) simp
    then show ?thesis using False 1 by (auto simp: split_every.simps [of n xs])
  qed
qed

lemma length_split_every: "0 < n \<Longrightarrow> length (split_every n xs) = (length xs + n - 1) div n"
proof (induction n xs rule: split_every.induct)
  case (1 n xs)
  show ?case
  proof (cases "length xs \<le> n")
    case True
    then show ?thesis
      using "1.prems" by (cases xs) (auto simp: split_every_step div_if)
  next
    case False
    then have "xs \<noteq> []" using "1.prems" by auto
    then have "length (split_every n xs) = Suc ((length xs - n + n - 1) div n)"
      using 1 False by (simp add: split_every_step)
    also have "\<dots> = (length xs + n - 1) div n" using False "1.prems" by (simp add: div_if)
    finally show ?thesis .
  qed
qed

lemma split_every_nth: "i < length (split_every n xs) \<Longrightarrow> split_every n xs ! i = take n (drop (i * n) xs)"
proof (induction n xs arbitrary: i rule: split_every.induct)
  case (1 n xs)
  have nz: "\<not> (n = 0 \<or> xs = [])" using "1.prems" by (auto simp: split_every.simps [of n xs] split: if_splits)
  show ?case
  proof (cases i)
    case 0
    then show ?thesis using nz by (simp add: split_every.simps [of n xs])
  next
    case (Suc j)
    then have "j < length (split_every n (drop n xs))" using "1.prems" nz by (simp add: split_every.simps [of n xs])
    then show ?thesis using "1.IH" [OF nz, of j] nz Suc by (simp add: split_every.simps [of n xs] add.commute)
  qed
qed

lemma split_every_take_drop:
  "0 < n \<Longrightarrow> split_every n (take (n * k) xs) @ split_every n (drop (n * k) xs) = split_every n xs"
proof (induction k arbitrary: xs)
  case (Suc k)
  show ?case
  proof (cases "xs = []")
    case False
    then have "split_every n (take (n * Suc k) xs) = take n xs # split_every n (take (n * k) (drop n xs))"
      using Suc.prems by (subst split_every.simps) (simp add: drop_take min_def)
    then show ?thesis
      using Suc.IH [of "drop n xs"] Suc.prems False by (simp add: split_every_step [of n xs] add.commute)
  qed simp
qed simp

lemma chunks_of_blocks: "concat (map chunks_of (blocks_of bs)) = chunks_of bs"
  unfolding chunks_of_def blocks_of_def
proof (induction "CHUNKSIZE * BATCHSIZE" bs rule: split_every.induct)
  case (1 bs)
  have pos: "0 < CHUNKSIZE * BATCHSIZE" "0 < CHUNKSIZE" by (simp_all add: config_values)
  show ?case
  proof (cases "bs = []")
    case False
    then show ?thesis
      using 1 pos split_every_take_drop [OF pos(2), of BATCHSIZE bs] by (simp add: split_every_step [OF pos(1)])
  qed simp
qed

lemma chunks_of_facts:
  "concat (chunks_of bs) = bs" "full_chunks (chunks_of bs)" "[] \<notin> set (chunks_of bs)"
  "length (chunks_of bs) = (length bs + CHUNKSIZE - 1) div CHUNKSIZE"
  using split_every_elem [of _ CHUNKSIZE bs] split_every_butlast [of _ CHUNKSIZE bs]
  by (auto simp: chunks_of_def concat_split_every length_split_every full_chunks_def config_values)

end
