(* ===== verification/ClientConn_Upload.thy ===== *)
theory ClientConn_Upload
  imports ClientConn Protocol
begin

text \<open>
  Correctness of an upload on the server (\<^verbatim>\<open>ClientConn::receive_file\<close>).

  The chunks of a connection live in three places: container files, containers waiting in the
  queue for the writer thread, and the container being filled. \<open>gstore\<close> is their union, the
  store an address refers to, together with the containers \<open>oth\<close> that other connections have
  not written yet. An address \<open>resolves\<close> to a chunk when the bytes it names are that chunk.
  The invariant of an upload says that every indexed address resolves to a chunk with that
  digest and that the recipe, counted from the file through the queue to the buffer, is the
  list of addresses of the chunks received so far.
\<close>

section \<open>The store behind the index\<close>

type_synonym cstore = "string \<rightharpoonup> byte list"

definition resolves :: "cstore \<Rightarrow> ChunkAddr_t \<Rightarrow> byte list \<Rightarrow> bool" where
  "resolves st a ch \<longleftrightarrow> addr_ok a \<and> unat (ca_size a) = length ch \<and>
     (\<exists>bs. st (ca_containerID a) = Some bs \<and> unat (ca_offset a) + length ch \<le> length bs \<and>
        take (length ch) (drop (unat (ca_offset a)) bs) = ch)"

text \<open>A store grows: containers only get longer and none disappears.\<close>

definition store_le :: "cstore \<Rightarrow> cstore \<Rightarrow> bool" where
  "store_le st st' \<longleftrightarrow> (\<forall>k bs. st k = Some bs \<longrightarrow> (\<exists>ext. st' k = Some (bs @ ext)))"

lemma store_le_refl [simp]: "store_le st st"
  by (auto simp: store_le_def intro: exI [of _ "[]"])

lemma store_le_trans: "store_le a b \<Longrightarrow> store_le b c \<Longrightarrow> store_le a c"
  by (fastforce simp: store_le_def)

lemma resolves_mono: "store_le st st' \<Longrightarrow> resolves st a ch \<Longrightarrow> resolves st' a ch"
  by (fastforce simp: resolves_def store_le_def)

lemma resolves_list_mono:
  "store_le st st' \<Longrightarrow> list_all2 (resolves st) as chs \<Longrightarrow> list_all2 (resolves st') as chs"
  by (erule list_all2_mono) (rule resolves_mono)

definition queue_store :: "Container_t list \<Rightarrow> cstore \<Rightarrow> cstore" where
  "queue_store bs st = fold (\<lambda>b m. m(containerID b \<mapsto> container_bytes b)) bs st"

definition gstore :: "cstore \<Rightarrow> 'db server \<Rightarrow> conn \<Rightarrow> cstore" where
  "gstore oth srv c =
     (oth ++ queue_store (m_queue (m_containerQueue c)) (containers_dir srv))
       (containerID (m_containerBuffer c) \<mapsto> container_bytes (m_containerBuffer c))"

lemma queue_store_snoc [simp]:
  "queue_store (bs @ [b]) st = (queue_store bs st)(containerID b \<mapsto> container_bytes b)"
  by (simp add: queue_store_def)

lemma queue_store_Nil [simp]: "queue_store [] st = st"
  by (simp add: queue_store_def)

lemma fold_save_container:
  "fold save_container bs srv = srv\<lparr>containers_dir := queue_store bs (containers_dir srv)\<rparr>"
  by (induction bs arbitrary: srv) (simp_all add: queue_store_def save_container_def)

section \<open>Assumptions on the libraries\<close>

text \<open>
  \<open>env_ok ext N C\<close>: OpenSSL delivers a 32-byte SHA-256 digest, no two of the (non-empty) chunks \<open>C\<close>
  collide, and the first \<open>N\<close> random UUIDs are distinct strings that fit \<open>containerID[40]\<close>.
\<close>

definition env_ok :: "'db ext \<Rightarrow> nat \<Rightarrow> byte list set \<Rightarrow> bool" where
  "env_ok ext N C \<longleftrightarrow> evp_total (x_evp ext) \<and> [] \<notin> C \<and> inj_on (digest (x_evp ext)) C \<and>
     inj_on (x_uuid ext) {..<N} \<and> (\<forall>k<N. length (x_uuid ext k) < 40 \<and> no_nul (x_uuid ext k))"

definition chunk_key :: "'db ext \<Rightarrow> byte list \<Rightarrow> string" where
  "chunk_key ext ch = convert_array_hash_to_string (digest (x_evp ext) ch)"

definition index_sound :: "'db ext \<Rightarrow> byte list set \<Rightarrow> cstore \<Rightarrow> (string \<rightharpoonup> ChunkAddr_t) \<Rightarrow> bool" where
  "index_sound ext C st idx \<longleftrightarrow>
     (\<forall>k a. idx k = Some a \<longrightarrow>
        (\<exists>ch \<in> C. length ch \<le> CHUNKSIZE \<and> k = chunk_key ext ch \<and> resolves st a ch))"

lemma index_sound_mono: "store_le st st' \<Longrightarrow> index_sound ext C st idx \<Longrightarrow> index_sound ext C st' idx"
  by (fastforce simp: index_sound_def intro: resolves_mono)

section \<open>Containers\<close>

definition cont_inv :: "'db ext \<Rightarrow> cstore \<Rightarrow> 'db server \<Rightarrow> conn \<Rightarrow> bool" where
  "cont_inv ext oth srv c \<longleftrightarrow>
     occupied (m_containerBuffer c) + capacity (m_containerBuffer c) = CONTAINERSIZE \<and>
     bq_inv (m_containerQueue c) \<and> m_size (m_containerQueue c) = 1000 \<and>
     length (containerID (m_containerBuffer c)) < 40 \<and> no_nul (containerID (m_containerBuffer c)) \<and>
     dom (gstore oth srv c) \<subseteq> x_uuid ext ` {..<uuid_count srv}"

text \<open>How much has been put into the queue and the buffer since the queue was last empty.\<close>

definition cont_load :: "conn \<Rightarrow> nat" where
  "cont_load c = length (m_queue (m_containerQueue c)) * (CONTAINERSIZE - CHUNKSIZE) +
     occupied (m_containerBuffer c)"

lemma container_bytes_append:
  "container_bytes (b\<lparr>c_data := mem_write (c_data b) (occupied b) chunk,
     occupied := occupied b + length chunk, capacity := k\<rparr>) = container_bytes b @ chunk"
  by (simp add: container_bytes_def mem_read_snoc_write)

lemma uuid_fresh:
  assumes "env_ok ext N C" "dom (gstore oth srv c) \<subseteq> x_uuid ext ` {..<uuid_count srv}" "uuid_count srv < N"
  shows "gstore oth srv c (x_uuid ext (uuid_count srv)) = None"
proof -
  have "x_uuid ext (uuid_count srv) \<notin> x_uuid ext ` {..<uuid_count srv}"
    using assms(1,3) inj_on_image_mem_iff [of "x_uuid ext" "{..<N}" "uuid_count srv" "{..<uuid_count srv}"]
    by (simp add: env_ok_def subset_eq)
  then show ?thesis using assms(2) by (auto simp: domIff)
qed

lemma make_room_ok:
  assumes env: "env_ok ext N C" and inv: "cont_inv ext oth srv c"
    and uuid: "uuid_count srv < N" and load: "cont_load c \<le> 999 * (CONTAINERSIZE - CHUNKSIZE)"
    and n: "n \<le> CHUNKSIZE"
  shows "\<exists>u q b. make_room ext n (srv, c) =
           Inr (srv\<lparr>uuid_count := u\<rparr>, c\<lparr>m_containerQueue := q, m_containerBuffer := b\<rparr>) \<and>
         (let srv' = srv\<lparr>uuid_count := u\<rparr>; c' = c\<lparr>m_containerQueue := q, m_containerBuffer := b\<rparr>
          in cont_inv ext oth srv' c' \<and> n \<le> capacity b \<and> m_done q = m_done (m_containerQueue c) \<and>
             cont_load c' + n \<le> cont_load c + CHUNKSIZE \<and> u \<le> uuid_count srv + 1 \<and>
             store_le (gstore oth srv c) (gstore oth srv' c'))"
proof (cases "capacity (m_containerBuffer c) < n")
  case False
  show ?thesis
    by (rule exI [of _ "uuid_count srv"], rule exI [of _ "m_containerQueue c"],
        rule exI [of _ "m_containerBuffer c"])
       (use False inv n in \<open>simp add: make_room_def Let_def\<close>)
next
  case True
  define u where "u = uuid_count srv"
  define q where "q = (m_containerQueue c)\<lparr>m_queue := m_queue (m_containerQueue c) @ [m_containerBuffer c],
    m_isEmpty := False\<rparr>"
  define b where "b = \<lparr>containerID = x_uuid ext u, occupied = 0, capacity = CONTAINERSIZE, c_data = x_malloc ext\<rparr>"
  define srv' where "srv' = srv\<lparr>uuid_count := u + 1\<rparr>"
  define c' where "c' = c\<lparr>m_containerQueue := q, m_containerBuffer := b\<rparr>"
  have len: "length (m_queue (m_containerQueue c)) \<le> 999"
    using load by (simp add: cont_load_def config_values)
  have id: "length (x_uuid ext u) < 40" "no_nul (x_uuid ext u)"
    using env uuid by (simp_all add: env_ok_def u_def)
  have "push (m_containerBuffer c) (m_containerQueue c) = Some q"
    using len inv by (simp add: push_def q_def cont_inv_def)
  then have run: "make_room ext n (srv, c) = Inr (srv', c')"
    using True id by (simp add: make_room_def insert_container_queue_def new_container_def Let_def
        u_def srv'_def c'_def b_def)
  have st: "gstore oth srv' c' = (gstore oth srv c)(x_uuid ext u \<mapsto> [])"
    by (simp add: gstore_def srv'_def c'_def q_def b_def container_bytes_def)
  have fresh: "gstore oth srv c (x_uuid ext u) = None"
    using uuid_fresh [OF env _ uuid] inv by (simp add: cont_inv_def u_def)
  have le: "store_le (gstore oth srv c) (gstore oth srv' c')"
    using fresh by (auto simp: st store_le_def intro: exI [of _ "[]"])
  have "dom (gstore oth srv' c') \<subseteq> x_uuid ext ` {..<u + 1}"
    using inv by (auto simp: st cont_inv_def u_def lessThan_Suc)
  moreover have "bq_inv q" using inv len by (simp add: cont_inv_def bq_inv_def q_def)
  ultimately have "cont_inv ext oth srv' c'"
    using inv id by (simp add: cont_inv_def c'_def srv'_def b_def q_def)
  moreover have "cont_load c' + n \<le> cont_load c + CHUNKSIZE"
    using True inv n by (simp add: cont_load_def c'_def q_def b_def cont_inv_def config_values)
  moreover have "m_done q = m_done (m_containerQueue c)" by (simp add: q_def)
  ultimately show ?thesis
    using run le n
    by (intro exI [of _ "u + 1"] exI [of _ q] exI [of _ b])
       (simp add: srv'_def c'_def b_def u_def config_values Let_def)
qed

section \<open>The chunk index as an interface\<close>

text \<open>
  What an upload relies on of the index: \<open>add\<close> is a finite map update that never replaces an entry.
  Any property of entries that holds of the new one is kept, and after any sequence of insertions
  a key has its first address.
\<close>

locale chunk_index =
  fixes look :: "'s \<Rightarrow> 'k \<Rightarrow> 'a option"
    and add :: "'k \<times> 'a \<Rightarrow> 's \<Rightarrow> 's"
  assumes add_law: "look (add (k, a) s) j = (case look s j of None \<Rightarrow> if j = k then Some a else None | Some b \<Rightarrow> Some b)"
begin

lemma add_keeps:
  assumes "\<And>j b. look s j = Some b \<Longrightarrow> P j b" "P k a" "look (add (k, a) s) j = Some b"
  shows "P j b"
  using assms by (auto simp: add_law split: option.splits if_splits)

lemma adds_first_wins:
  "look (fold add kas s) j = (case look s j of None \<Rightarrow> map_of kas j | Some b \<Rightarrow> Some b)"
proof (induction kas arbitrary: s)
  case Nil
  then show ?case by (simp split: option.splits)
next
  case (Cons ka kas)
  then show ?case by (cases ka) (auto simp: add_law split: option.splits)
qed

lemma add_stored: "look (add (k, a) s) k \<noteq> None"
  by (simp add: add_law split: option.splits)

end

interpretation chunks: chunk_index m_all_chunks addChunk
  by unfold_locales (auto simp: addChunk_def split: option.splits)

lemma index_sound_addChunk:
  assumes "index_sound ext C st (m_all_chunks srv)" "ch \<in> C" "length ch \<le> CHUNKSIZE" "resolves st a ch"
  shows "index_sound ext C st (m_all_chunks (addChunk (chunk_key ext ch, a) srv))"
  unfolding index_sound_def
  by (intro allI impI, rule chunks.add_keeps [where s = srv and k = "chunk_key ext ch" and a = a])
     (use assms in \<open>auto simp: index_sound_def\<close>)

section \<open>Storing a unique chunk\<close>

text \<open>
  \<open>unique_at c cu ch\<close>: the message in the input buffer carries \<open>ch\<close> as its unique chunk number \<open>cu\<close>,
  at the place and with the length the code computes.
\<close>

definition unique_at :: "conn \<Rightarrow> nat \<Rightarrow> byte list \<Rightarrow> bool" where
  "unique_at c cu ch \<longleftrightarrow>
     unat (chunk_start cu) + length ch \<le> in_capacity \<and>
     unat (chunk_end cu (hdr_start (header (m_inMsgBuffer c))) - chunk_start cu) = length ch \<and>
     mem_read (msg_data (m_inMsgBuffer c)) (unat (chunk_start cu)) (length ch) = ch"

definition append_chunk :: "byte list \<Rightarrow> Container_t \<Rightarrow> Container_t" where
  "append_chunk ch b = b\<lparr>c_data := mem_write (c_data b) (occupied b) ch,
     occupied := occupied b + length ch, capacity := capacity b - length ch\<rparr>"

lemma append_chunk_simps [simp]:
  "containerID (append_chunk ch b) = containerID b"
  "occupied (append_chunk ch b) = occupied b + length ch"
  "capacity (append_chunk ch b) = capacity b - length ch"
  "container_bytes (append_chunk ch b) = container_bytes b @ ch"
  by (simp_all add: append_chunk_def container_bytes_append)

lemma append_chunk_resolves:
  assumes "st (containerID b) = Some (container_bytes b @ ch)"
    "length (containerID b) < 40" "no_nul (containerID b)" "occupied b + length ch \<le> CONTAINERSIZE"
  shows "resolves st \<lparr>ca_containerID = containerID b, ca_offset = of_nat (occupied b), ca_size = of_nat (length ch)\<rparr> ch"
proof -
  have "unat (of_nat (occupied b) :: u64) = occupied b" "unat (of_nat (length ch) :: u64) = length ch"
    using assms(4) by (simp_all add: unat_of_nat config_values)
  then show ?thesis
    using assms(1-3) by (simp add: resolves_def addr_ok_def container_bytes_def)
qed

lemma gstore_append:
  assumes "c' = c\<lparr>m_containerBuffer := append_chunk ch (m_containerBuffer c)\<rparr>"
  shows "gstore oth srv c' = (gstore oth srv c)
           (containerID (m_containerBuffer c) \<mapsto> container_bytes (m_containerBuffer c) @ ch)"
    and "store_le (gstore oth srv c) (gstore oth srv c')"
    and "dom (gstore oth srv c') = dom (gstore oth srv c)"
  by (auto simp: gstore_def assms store_le_def intro: exI [of _ "[]"])

lemma gstore_addChunk [simp]: "gstore oth (addChunk ka srv) c = gstore oth srv c"
  by (simp add: gstore_def)

lemma store_unique_run:
  assumes "unique_at c (currentUniqueNum l) ch"
    and "make_room ext (length ch) (srv, c) = Inr (srv1, c1)"
    and "m_inMsgBuffer c1 = m_inMsgBuffer c"
    and "occupied (m_containerBuffer c1) + length ch \<le> CONTAINERSIZE"
    and "length (containerID (m_containerBuffer c1)) < 40"
  shows "store_unique ext key (srv, c, l) =
    (let b = m_containerBuffer c1;
         a = \<lparr>ca_containerID = containerID b, ca_offset = of_nat (occupied b), ca_size = of_nat (length ch)\<rparr>
     in Inr (addChunk (key, a) srv1, c1\<lparr>m_containerBuffer := append_chunk ch b\<rparr>,
          l\<lparr>received_file_size := received_file_size l + length ch, chunkAddr := a,
            currentUniqueNum := currentUniqueNum l + 1\<rparr>))"
  using assms
  by (simp add: store_unique_def unique_at_def Let_def mk_ChunkAddr_def append_chunk_def del: of_nat_unat)

text \<open>
  The outcome of one step of the store loop: only the containers, the index and the number of
  UUIDs drawn have changed, the store has grown, and the invariants hold.
\<close>

definition cont_step :: "'db ext \<Rightarrow> byte list set \<Rightarrow> cstore \<Rightarrow> 'db server \<times> conn \<Rightarrow> 'db server \<times> conn \<Rightarrow> bool" where
  "cont_step ext C oth = (\<lambda>(srv, c) (srv', c').
     cont_inv ext oth srv' c' \<and> index_sound ext C (gstore oth srv' c') (m_all_chunks srv') \<and>
     store_le (gstore oth srv c) (gstore oth srv' c') \<and>
     cont_load c' \<le> cont_load c + CHUNKSIZE \<and> uuid_count srv' \<le> uuid_count srv + 1 \<and>
     m_done (m_containerQueue c') = m_done (m_containerQueue c) \<and>
     (\<exists>u idx. srv' = srv\<lparr>uuid_count := u, m_all_chunks := idx\<rparr>) \<and>
     (\<exists>q b. c' = c\<lparr>m_containerQueue := q, m_containerBuffer := b\<rparr>))"

lemma store_unique_ok:
  assumes env: "env_ok ext N C" and inv: "cont_inv ext oth srv c"
    and idx: "index_sound ext C (gstore oth srv c) (m_all_chunks srv)"
    and uuid: "uuid_count srv < N" and load: "cont_load c \<le> 999 * (CONTAINERSIZE - CHUNKSIZE)"
    and ch: "ch \<in> C" "length ch \<le> CHUNKSIZE" and at: "unique_at c (currentUniqueNum l) ch"
  shows "\<exists>srv' c' a. store_unique ext (chunk_key ext ch) (srv, c, l) =
           Inr (srv', c', l\<lparr>received_file_size := received_file_size l + length ch, chunkAddr := a,
                            currentUniqueNum := currentUniqueNum l + 1\<rparr>) \<and>
         cont_step ext C oth (srv, c) (srv', c') \<and> resolves (gstore oth srv' c') a ch"
proof -
  obtain u q b where room: "make_room ext (length ch) (srv, c) =
      Inr (srv\<lparr>uuid_count := u\<rparr>, c\<lparr>m_containerQueue := q, m_containerBuffer := b\<rparr>)"
    and inv1: "cont_inv ext oth (srv\<lparr>uuid_count := u\<rparr>) (c\<lparr>m_containerQueue := q, m_containerBuffer := b\<rparr>)"
    and cap: "length ch \<le> capacity b" and dn: "m_done q = m_done (m_containerQueue c)"
    and load1: "cont_load (c\<lparr>m_containerQueue := q, m_containerBuffer := b\<rparr>) + length ch \<le> cont_load c + CHUNKSIZE"
    and u: "u \<le> uuid_count srv + 1"
    and le: "store_le (gstore oth srv c)
      (gstore oth (srv\<lparr>uuid_count := u\<rparr>) (c\<lparr>m_containerQueue := q, m_containerBuffer := b\<rparr>))"
    using make_room_ok [OF env inv uuid load ch(2)] by (auto simp: Let_def)
  define srv1 where "srv1 = srv\<lparr>uuid_count := u\<rparr>"
  define c1 where "c1 = c\<lparr>m_containerQueue := q, m_containerBuffer := b\<rparr>"
  define c2 where "c2 = c1\<lparr>m_containerBuffer := append_chunk ch (m_containerBuffer c1)\<rparr>"
  define a where "a = \<lparr>ca_containerID = containerID b, ca_offset = of_nat (occupied b), ca_size = of_nat (length ch)\<rparr>"
  have fits: "occupied b + length ch \<le> CONTAINERSIZE" "length (containerID b) < 40" "no_nul (containerID b)"
    using inv1 cap by (simp_all add: cont_inv_def)
  have run: "store_unique ext (chunk_key ext ch) (srv, c, l) =
      Inr (addChunk (chunk_key ext ch, a) srv1, c2,
           l\<lparr>received_file_size := received_file_size l + length ch, chunkAddr := a,
             currentUniqueNum := currentUniqueNum l + 1\<rparr>)"
    using store_unique_run [OF at, of ext srv srv1 c1] room fits
    by (simp add: srv1_def c1_def c2_def a_def Let_def)
  have st: "gstore oth srv1 c2 = (gstore oth srv1 c1)(containerID b \<mapsto> container_bytes b @ ch)"
    and le2: "store_le (gstore oth srv1 c1) (gstore oth srv1 c2)"
    and dom: "dom (gstore oth srv1 c2) = dom (gstore oth srv1 c1)"
    using gstore_append [OF c2_def] by (simp_all add: c1_def)
  have res: "resolves (gstore oth srv1 c2) a ch"
    using fits by (simp add: a_def append_chunk_resolves st)
  have grow: "store_le (gstore oth srv c) (gstore oth srv1 c2)"
    using le le2 store_le_trans by (fastforce simp: srv1_def c1_def)
  have sound: "index_sound ext C (gstore oth srv1 c2) (m_all_chunks (addChunk (chunk_key ext ch, a) srv1))"
    using index_sound_addChunk [of ext C _ srv1 ch a] index_sound_mono [OF grow idx] ch res
    by (simp add: srv1_def)
  have inv2: "cont_inv ext oth (addChunk (chunk_key ext ch, a) srv1) c2"
    using inv1 cap dom by (simp add: cont_inv_def c2_def c1_def srv1_def)
  have load2: "cont_load c2 \<le> cont_load c + CHUNKSIZE"
    using load1 by (simp add: cont_load_def c2_def c1_def)
  have "\<exists>u idx. addChunk (chunk_key ext ch, a) srv1 = srv\<lparr>uuid_count := u, m_all_chunks := idx\<rparr>"
    by (intro exI [of _ u] exI [of _ "m_all_chunks (addChunk (chunk_key ext ch, a) srv1)"])
       (simp add: srv1_def addChunk_def split: option.splits)
  moreover have "\<exists>q b. c2 = c\<lparr>m_containerQueue := q, m_containerBuffer := b\<rparr>"
    by (auto simp: c2_def c1_def)
  moreover have "m_done (m_containerQueue c2) = m_done (m_containerQueue c)" "uuid_count srv1 \<le> uuid_count srv + 1"
    using dn u by (simp_all add: c2_def c1_def srv1_def)
  ultimately have "cont_step ext C oth (srv, c) (addChunk (chunk_key ext ch, a) srv1, c2)"
    using inv2 sound grow load2 by (simp add: cont_step_def)
  then show ?thesis using run res by auto
qed

section \<open>The recipe\<close>

text \<open>The entries that are not in the recipe file yet, and how many they are.\<close>

definition recipe_pending :: "conn \<Rightarrow> byte list" where
  "recipe_pending c = concat (map recipe_block_bytes (m_queue (m_recipeQueue c))) @
     recipe_block_bytes (m_recipeBuffer c)"

definition pending_count :: "conn \<Rightarrow> nat" where
  "pending_count c = sum_list (map rec_num (m_queue (m_recipeQueue c))) + rec_num (m_recipeBuffer c)"

definition rec_load :: "conn \<Rightarrow> nat" where
  "rec_load c = length (m_queue (m_recipeQueue c)) * BATCHSIZE + rec_num (m_recipeBuffer c)"

definition rec_ok :: "conn \<Rightarrow> bool" where
  "rec_ok c \<longleftrightarrow> rec_num (m_recipeBuffer c) \<le> BATCHSIZE \<and> bq_inv (m_recipeQueue c) \<and>
     m_size (m_recipeQueue c) = 1000"

definition recipe_inv :: "cstore \<Rightarrow> string \<Rightarrow> byte list list \<Rightarrow> 'db server \<Rightarrow> conn \<Rightarrow> u32 \<Rightarrow> bool" where
  "recipe_inv st name recs srv c tot \<longleftrightarrow>
     (\<exists>w as. recipes_dir srv name = Some (u32_bytes 0 @ w) \<and>
        w @ recipe_pending c = concat (map enc_addr as) \<and> list_all2 (resolves st) as recs \<and>
        tot + of_nat (pending_count c) = of_nat (length as))"

lemma recipe_inv_mono: "store_le st st' \<Longrightarrow> recipe_inv st name recs srv c t \<Longrightarrow> recipe_inv st' name recs srv c t"
  using resolves_list_mono by (fastforce simp: recipe_inv_def)

lemma recipe_block_append:
  "recipe_block_bytes (r\<lparr>rec_data := mem_write (rec_data r) (rec_num r * sizeof_ChunkAddr) (enc_addr a),
     rec_num := rec_num r + 1\<rparr>) = recipe_block_bytes r @ enc_addr a"
  using mem_read_snoc_write [of "rec_data r" "rec_num r * 56" "enc_addr a"]
  by (simp add: recipe_block_bytes_def sizeof_ChunkAddr_def add.commute)

definition recipe_step :: "ChunkAddr_t \<Rightarrow> conn \<Rightarrow> conn \<Rightarrow> bool" where
  "recipe_step a c c' \<longleftrightarrow> rec_ok c' \<and> recipe_pending c' = recipe_pending c @ enc_addr a \<and>
     pending_count c' = pending_count c + 1 \<and> rec_load c' = rec_load c + 1 \<and>
     m_done (m_recipeQueue c') = m_done (m_recipeQueue c) \<and>
     (\<exists>q r. c' = c\<lparr>m_recipeQueue := q, m_recipeBuffer := r\<rparr>)"

lemma recipe_buffer_frame:
  "\<exists>q r'. c\<lparr>m_recipeBuffer := r\<rparr> = c\<lparr>m_recipeQueue := q, m_recipeBuffer := r'\<rparr>"
  by (rule exI [of _ "m_recipeQueue c"], rule exI [of _ r]) simp

lemma write_entry_in_buffer:
  assumes "rec_ok c" "rec_num (m_recipeBuffer c) < BATCHSIZE"
  shows "\<exists>c'. write_recipe_entry ext a c = Inr c' \<and> recipe_step a c c'"
  using assms
  by (auto simp: write_recipe_entry_def recipe_step_def rec_ok_def recipe_pending_def
      pending_count_def rec_load_def recipe_block_append [simplified] Let_def
      intro: recipe_buffer_frame)

lemma write_recipe_entry_ok:
  assumes ok: "rec_ok c" and load: "rec_load c \<le> 999 * BATCHSIZE"
  shows "\<exists>c'. write_recipe_entry ext a c = Inr c' \<and> recipe_step a c c'"
proof (cases "rec_num (m_recipeBuffer c) < BATCHSIZE")
  case True
  then show ?thesis using ok by (rule write_entry_in_buffer [rotated])
next
  case False
  then have full: "rec_num (m_recipeBuffer c) = BATCHSIZE" using ok by (simp add: rec_ok_def)
  define q where "q = (m_recipeQueue c)\<lparr>m_queue := m_queue (m_recipeQueue c) @ [m_recipeBuffer c], m_isEmpty := False\<rparr>"
  define c1 where "c1 = c\<lparr>m_recipeQueue := q, m_recipeBuffer := \<lparr>rec_num = 0, rec_data = x_malloc ext\<rparr>\<rparr>"
  have len: "length (m_queue (m_recipeQueue c)) \<le> 999"
    using load by (simp add: rec_load_def config_values)
  then have "push (m_recipeBuffer c) (m_recipeQueue c) = Some q"
    using ok by (simp add: push_def q_def rec_ok_def)
  then have run: "write_recipe_entry ext a c = write_recipe_entry ext a c1"
    using full by (simp add: write_recipe_entry_def insert_recipe_queue_def new_recipe_def c1_def config_values)
  have "rec_ok c1"
    using ok len by (simp add: rec_ok_def c1_def q_def bq_inv_def)
  then obtain c' where "write_recipe_entry ext a c1 = Inr c'" and step: "recipe_step a c1 c'"
    using write_entry_in_buffer [of c1 ext a] by (auto simp: c1_def config_values)
  moreover have "recipe_pending c1 = recipe_pending c" "pending_count c1 = pending_count c" "rec_load c1 = rec_load c"
    using full by (simp_all add: c1_def q_def recipe_pending_def pending_count_def rec_load_def
        recipe_block_bytes_def)
  moreover have "\<exists>q r. c' = c\<lparr>m_recipeQueue := q, m_recipeBuffer := r\<rparr>"
    using step by (auto simp: recipe_step_def c1_def)
  ultimately show ?thesis
    using run by (auto simp: recipe_step_def c1_def q_def)
qed

lemma recipe_inv_step:
  assumes "recipe_inv st name recs srv c t" "recipe_step a c c'" "resolves st a ch"
  shows "recipe_inv st name (recs @ [ch]) srv c' t"
proof -
  obtain w as where w: "recipes_dir srv name = Some (u32_bytes 0 @ w)"
    "w @ recipe_pending c = concat (map enc_addr as)" "list_all2 (resolves st) as recs"
    "t + of_nat (pending_count c) = of_nat (length as)"
    using assms(1) by (auto simp: recipe_inv_def)
  have "w @ recipe_pending c' = concat (map enc_addr (as @ [a]))"
    using w(2) assms(2) by (simp add: recipe_step_def)
  moreover have "list_all2 (resolves st) (as @ [a]) (recs @ [ch])"
    using w(3) assms(3) by (simp add: list_all2_appendI)
  moreover have "t + of_nat (pending_count c') = of_nat (length (as @ [a]))"
    using w(4) assms(2) by (simp add: recipe_step_def add.assoc [symmetric] add.left_commute)
  ultimately show ?thesis using w(1) unfolding recipe_inv_def by blast
qed

section \<open>The loop over the last query\<close>

definition upload_inv ::
    "'db ext \<Rightarrow> byte list set \<Rightarrow> cstore \<Rightarrow> string \<Rightarrow> byte list list \<Rightarrow> 'db server \<times> conn \<times> upload_locals \<Rightarrow> bool" where
  "upload_inv ext C oth name recs = (\<lambda>(srv, c, l).
     cont_inv ext oth srv c \<and> index_sound ext C (gstore oth srv c) (m_all_chunks srv) \<and> rec_ok c \<and>
     recipe_inv (gstore oth srv c) name recs srv c (rw_totalChunkNum l))"

text \<open>What \<open>k\<close> iterations may change, and by how much they fill the queues.\<close>

definition loop_rel :: "cstore \<Rightarrow> nat \<Rightarrow> 'db server \<times> conn \<Rightarrow> 'db server \<times> conn \<Rightarrow> bool" where
  "loop_rel oth k = (\<lambda>(srv, c) (srv', c').
     store_le (gstore oth srv c) (gstore oth srv' c') \<and>
     cont_load c' \<le> cont_load c + k * CHUNKSIZE \<and> rec_load c' = rec_load c + k \<and>
     uuid_count srv' \<le> uuid_count srv + k \<and>
     m_done (m_containerQueue c') = m_done (m_containerQueue c) \<and>
     m_done (m_recipeQueue c') = m_done (m_recipeQueue c) \<and>
     m_inMsgBuffer c' = m_inMsgBuffer c \<and> m_outMsgBuffer c' = m_outMsgBuffer c \<and>
     m_hashList c' = m_hashList c \<and> m_recipeNameHash c' = m_recipeNameHash c \<and>
     m_client_info c' = m_client_info c \<and>
     m_mysqlPool srv' = m_mysqlPool srv \<and> m_db srv' = m_db srv \<and>
     containers_dir srv' = containers_dir srv \<and> recipes_dir srv' = recipes_dir srv)"

lemma loop_rel_0 [simp]: "loop_rel oth 0 s s"
  by (cases s) (simp add: loop_rel_def)

lemma loop_rel_trans: "loop_rel oth j s s' \<Longrightarrow> loop_rel oth k s' s'' \<Longrightarrow> loop_rel oth (j + k) s s''"
  by (cases s; cases s'; cases s'') (auto simp: loop_rel_def add_mult_distrib intro: store_le_trans)

lemma unique_at_frame: "m_inMsgBuffer c' = m_inMsgBuffer c \<Longrightarrow> unique_at c' cu ch = unique_at c cu ch"
  by (simp add: unique_at_def)

lemma gstore_recipe_step: "recipe_step a c c' \<Longrightarrow> gstore oth srv c' = gstore oth srv c"
  by (auto simp: recipe_step_def gstore_def)

lemma cont_inv_recipe_step: "recipe_step a c c' \<Longrightarrow> cont_inv ext oth srv c' = cont_inv ext oth srv c"
  by (elim recipe_step_def [THEN iffD1, elim_format] conjE exE) (simp add: cont_inv_def gstore_def)

lemma cont_step_refl:
  assumes "cont_inv ext oth srv c" "index_sound ext C (gstore oth srv c) (m_all_chunks srv)"
  shows "cont_step ext C oth (srv, c) (srv, c)"
proof -
  have "srv = srv\<lparr>uuid_count := uuid_count srv, m_all_chunks := m_all_chunks srv\<rparr>"
    "c = c\<lparr>m_containerQueue := m_containerQueue c, m_containerBuffer := m_containerBuffer c\<rparr>" by simp_all
  then have "\<exists>u idx. srv = srv\<lparr>uuid_count := u, m_all_chunks := idx\<rparr>"
    "\<exists>q b. c = c\<lparr>m_containerQueue := q, m_containerBuffer := b\<rparr>" by blast+
  then show ?thesis using assms by (simp add: cont_step_def)
qed

lemma cont_step_recipe:
  "cont_step ext C oth (srv, c) (srv', c') \<Longrightarrow>
   rec_ok c' = rec_ok c \<and> rec_load c' = rec_load c \<and>
   recipe_inv st name recs srv' c' t = recipe_inv st name recs srv c t"
  by (auto simp: cont_step_def rec_ok_def rec_load_def recipe_inv_def recipe_pending_def pending_count_def)

text \<open>Writing the recipe entry after the container part of an iteration completes it.\<close>

lemma entry_completes:
  assumes inv: "upload_inv ext C oth name recs (srv, c, l)"
    and cont: "cont_step ext C oth (srv, c) (srv1, c1)"
    and res: "resolves (gstore oth srv1 c1) a ch" and load: "rec_load c \<le> 999 * BATCHSIZE"
    and tot: "rw_totalChunkNum l' = rw_totalChunkNum l"
  shows "\<exists>c'. write_recipe_entry ext a c1 = Inr c' \<and> upload_inv ext C oth name (recs @ [ch]) (srv1, c', l') \<and>
           loop_rel oth 1 (srv, c) (srv1, c') \<and> m_duplicatedChunkAddr c' = m_duplicatedChunkAddr c1 \<and>
           gstore oth srv1 c' = gstore oth srv1 c1"
proof -
  note frame = cont_step_recipe [OF cont]
  obtain c' where run: "write_recipe_entry ext a c1 = Inr c'" and step: "recipe_step a c1 c'"
    using write_recipe_entry_ok [of c1 ext a] inv frame load by (auto simp: upload_inv_def)
  note st = gstore_recipe_step [OF step]
  have le: "store_le (gstore oth srv c) (gstore oth srv1 c1)" using cont by (simp add: cont_step_def)
  have "recipe_inv (gstore oth srv1 c1) name recs srv1 c1 (rw_totalChunkNum l)"
    using inv frame by (auto simp: upload_inv_def intro: recipe_inv_mono [OF le])
  then have "recipe_inv (gstore oth srv1 c') name (recs @ [ch]) srv1 c' (rw_totalChunkNum l')"
    using recipe_inv_step [OF _ step res] tot by (simp add: st)
  moreover have "cont_inv ext oth srv1 c'"
    using cont by (simp add: cont_step_def cont_inv_recipe_step [OF step])
  ultimately have "upload_inv ext C oth name (recs @ [ch]) (srv1, c', l')"
    using cont step by (simp add: upload_inv_def cont_step_def recipe_step_def st)
  moreover have "loop_rel oth 1 (srv, c) (srv1, c')"
    using cont step le frame
    by (auto simp: loop_rel_def cont_step_def recipe_step_def cont_load_def st)
  ultimately show ?thesis using run step st by (auto simp: recipe_step_def)
qed

text \<open>
  One iteration: chunk \<open>ch\<close> of the last query, flagged unique (\<open>f\<close>) or duplicate. \<open>dl\<close> are the
  chunks of the duplicates that are still to come.
\<close>

definition item_ok :: "'db ext \<Rightarrow> byte list set \<Rightarrow> conn \<Rightarrow> nat \<Rightarrow> nat \<Rightarrow> byte list \<times> bool \<Rightarrow> bool" where
  "item_ok ext C c i cu = (\<lambda>(ch, f).
     ch \<in> C \<and> length ch \<le> CHUNKSIZE \<and>
     mem_read (hl_data (m_hashList c)) (i * HASHSIZE) 32 = digest (x_evp ext) ch \<and>
     msg_data (m_outMsgBuffer c) i = (if f then 1 else 0) \<and> (f \<longrightarrow> unique_at c cu ch))"

lemma store_chunk_unique:
  assumes env: "env_ok ext N C" and inv: "upload_inv ext C oth name recs (srv, c, l)"
    and uuid: "uuid_count srv < N" and load: "cont_load c \<le> 999 * (CONTAINERSIZE - CHUNKSIZE)"
      "rec_load c \<le> 999 * BATCHSIZE"
    and item: "item_ok ext C c i (currentUniqueNum l) (ch, True)"
    and dups: "list_all2 (resolves (gstore oth srv c)) (m_duplicatedChunkAddr c) dl"
  shows "\<exists>srv' c' l'. store_chunk ext i (srv, c, l) = Inr (srv', c', l') \<and>
           upload_inv ext C oth name (recs @ [ch]) (srv', c', l') \<and> loop_rel oth 1 (srv, c) (srv', c') \<and>
           list_all2 (resolves (gstore oth srv' c')) (m_duplicatedChunkAddr c') dl \<and>
           currentUniqueNum l' = currentUniqueNum l + 1"
proof -
  have ch: "ch \<in> C" "length ch \<le> CHUNKSIZE" "unique_at c (currentUniqueNum l) ch"
    using item by (simp_all add: item_ok_def)
  obtain srv1 c1 a where run1: "store_unique ext (chunk_key ext ch) (srv, c, l) =
      Inr (srv1, c1, l\<lparr>received_file_size := received_file_size l + length ch, chunkAddr := a,
                       currentUniqueNum := currentUniqueNum l + 1\<rparr>)"
    and cont: "cont_step ext C oth (srv, c) (srv1, c1)" and res: "resolves (gstore oth srv1 c1) a ch"
    using store_unique_ok [OF env _ _ uuid load(1) ch, of oth] inv by (auto simp: upload_inv_def)
  define l' where "l' = l\<lparr>received_file_size := received_file_size l + length ch, chunkAddr := a,
    currentUniqueNum := currentUniqueNum l + 1\<rparr>"
  obtain c' where run2: "write_recipe_entry ext a c1 = Inr c'"
    and inv': "upload_inv ext C oth name (recs @ [ch]) (srv1, c', l')"
    and rel: "loop_rel oth 1 (srv, c) (srv1, c')"
    and dup: "m_duplicatedChunkAddr c' = m_duplicatedChunkAddr c1" "gstore oth srv1 c' = gstore oth srv1 c1"
    using entry_completes [OF inv cont res load(2), of l'] by (auto simp: l'_def)
  have "store_chunk ext i (srv, c, l) = Inr (srv1, c', l')"
    using item run1 run2 by (simp add: store_chunk_def item_ok_def chunk_key_def l'_def Let_def)
  moreover have "list_all2 (resolves (gstore oth srv1 c')) (m_duplicatedChunkAddr c') dl"
    using cont resolves_list_mono [OF _ dups] dup by (auto simp: cont_step_def)
  ultimately show ?thesis using inv' rel by (auto simp: l'_def)
qed

lemma store_chunk_duplicate:
  assumes inv: "upload_inv ext C oth name recs (srv, c, l)" and load: "rec_load c \<le> 999 * BATCHSIZE"
    and item: "item_ok ext C c i cu (ch, False)"
    and dups: "list_all2 (resolves (gstore oth srv c)) (m_duplicatedChunkAddr c) (ch # dl)"
  shows "\<exists>c' l'. store_chunk ext i (srv, c, l) = Inr (srv, c', l') \<and>
           upload_inv ext C oth name (recs @ [ch]) (srv, c', l') \<and> loop_rel oth 1 (srv, c) (srv, c') \<and>
           list_all2 (resolves (gstore oth srv c')) (m_duplicatedChunkAddr c') dl \<and>
           currentUniqueNum l' = currentUniqueNum l"
proof -
  obtain a as where as: "m_duplicatedChunkAddr c = a # as" "resolves (gstore oth srv c) a ch"
    "list_all2 (resolves (gstore oth srv c)) as dl"
    using dups by (auto simp: list_all2_Cons2)
  define c1 where "c1 = c\<lparr>m_duplicatedChunkAddr := as\<rparr>"
  define l' where "l' = l\<lparr>chunkAddr := a\<rparr>"
  have st: "gstore oth srv c1 = gstore oth srv c" by (simp add: gstore_def c1_def)
  have inv1: "upload_inv ext C oth name recs (srv, c1, l)"
    using inv st by (simp add: upload_inv_def c1_def cont_inv_def rec_ok_def recipe_inv_def
        recipe_pending_def pending_count_def)
  then have cont: "cont_step ext C oth (srv, c1) (srv, c1)"
    by (simp add: upload_inv_def cont_step_refl)
  have load1: "rec_load c1 \<le> 999 * BATCHSIZE" using load by (simp add: rec_load_def c1_def)
  obtain c' where run: "write_recipe_entry ext a c1 = Inr c'"
    and inv': "upload_inv ext C oth name (recs @ [ch]) (srv, c', l')"
    and rel: "loop_rel oth 1 (srv, c1) (srv, c')"
    and dup: "m_duplicatedChunkAddr c' = m_duplicatedChunkAddr c1" "gstore oth srv c' = gstore oth srv c1"
    using entry_completes [OF inv1 cont _ load1, of a ch l'] as st by (auto simp: l'_def)
  have "store_chunk ext i (srv, c, l) = Inr (srv, c', l')"
    using item run as(1) by (simp add: store_chunk_def item_ok_def take_duplicate_def l'_def c1_def Let_def)
  moreover have "loop_rel oth 1 (srv, c) (srv, c')"
    using rel by (simp add: loop_rel_def c1_def cont_load_def rec_load_def gstore_def)
  ultimately show ?thesis using inv' dup as st by (auto simp: l'_def c1_def)
qed

fun items_ok :: "'db ext \<Rightarrow> byte list set \<Rightarrow> conn \<Rightarrow> nat \<Rightarrow> nat \<Rightarrow> (byte list \<times> bool) list \<Rightarrow> bool" where
  "items_ok ext C c i cu [] \<longleftrightarrow> True"
| "items_ok ext C c i cu (x # xs) \<longleftrightarrow>
     item_ok ext C c i cu x \<and> items_ok ext C c (Suc i) (if snd x then Suc cu else cu) xs"

lemma items_ok_frame:
  assumes "m_hashList c' = m_hashList c" "m_outMsgBuffer c' = m_outMsgBuffer c" "m_inMsgBuffer c' = m_inMsgBuffer c"
  shows "items_ok ext C c' i cu items = items_ok ext C c i cu items"
  using assms
  by (induction items arbitrary: i cu) (auto simp: item_ok_def unique_at_def)

definition room_for :: "nat \<Rightarrow> nat \<Rightarrow> 'db server \<times> conn \<Rightarrow> bool" where
  "room_for N k = (\<lambda>(srv, c). uuid_count srv + k \<le> N \<and>
     cont_load c + k * CHUNKSIZE \<le> 999 * (CONTAINERSIZE - CHUNKSIZE) + CHUNKSIZE \<and>
     rec_load c + k \<le> 999 * BATCHSIZE + 1)"

lemma room_for_step: "room_for N (Suc k) s \<Longrightarrow> loop_rel oth 1 s s' \<Longrightarrow> room_for N k s'"
  by (cases s; cases s') (auto simp: room_for_def loop_rel_def)

lemma store_chunk_ok:
  assumes env: "env_ok ext N C" and inv: "upload_inv ext C oth name recs (srv, c, l)"
    and room: "room_for N (Suc k) (srv, c)"
    and item: "item_ok ext C c i (currentUniqueNum l) x"
    and dups: "list_all2 (resolves (gstore oth srv c)) (m_duplicatedChunkAddr c) (duplicates (x # xs))"
  shows "\<exists>srv' c' l'. store_chunk ext i (srv, c, l) = Inr (srv', c', l') \<and>
           upload_inv ext C oth name (recs @ [fst x]) (srv', c', l') \<and> loop_rel oth 1 (srv, c) (srv', c') \<and>
           list_all2 (resolves (gstore oth srv' c')) (m_duplicatedChunkAddr c') (duplicates xs) \<and>
           currentUniqueNum l' = (if snd x then Suc (currentUniqueNum l) else currentUniqueNum l)"
proof -
  obtain ch f where x: "x = (ch, f)" by (cases x)
  have load: "uuid_count srv < N" "cont_load c \<le> 999 * (CONTAINERSIZE - CHUNKSIZE)" "rec_load c \<le> 999 * BATCHSIZE"
    using room by (simp_all add: room_for_def)
  show ?thesis
  proof (cases f)
    case True
    then show ?thesis
      using store_chunk_unique [OF env inv load, of i ch "duplicates xs"] item dups x by simp
  next
    case False
    then show ?thesis
      using store_chunk_duplicate [OF inv load(3), of i _ ch "duplicates xs"] item dups x
      by fastforce
  qed
qed

lemma store_loop_ok:
  assumes "env_ok ext N C" "upload_inv ext C oth name recs (srv, c, l)" "room_for N (length items) (srv, c)"
    "items_ok ext C c i (currentUniqueNum l) items"
    "list_all2 (resolves (gstore oth srv c)) (m_duplicatedChunkAddr c) (duplicates items)"
  shows "\<exists>srv' c' l'. store_loop ext [i..<i + length items] (srv, c, l) = Inr (srv', c', l') \<and>
           upload_inv ext C oth name (recs @ map fst items) (srv', c', l') \<and>
           loop_rel oth (length items) (srv, c) (srv', c') \<and> m_duplicatedChunkAddr c' = [] \<and>
           currentUniqueNum l' = currentUniqueNum l + length (uniques items)"
  using assms
proof (induction items arbitrary: i recs srv c l)
  case Nil
  then show ?case by simp
next
  case (Cons x xs)
  from Cons.prems obtain srv1 c1 l1 where step: "store_chunk ext i (srv, c, l) = Inr (srv1, c1, l1)"
    and inv1: "upload_inv ext C oth name (recs @ [fst x]) (srv1, c1, l1)"
    and rel1: "loop_rel oth 1 (srv, c) (srv1, c1)"
    and dup1: "list_all2 (resolves (gstore oth srv1 c1)) (m_duplicatedChunkAddr c1) (duplicates xs)"
    and cu1: "currentUniqueNum l1 = (if snd x then Suc (currentUniqueNum l) else currentUniqueNum l)"
    using store_chunk_ok [of ext N C oth name recs srv c l "length xs" i x xs] by auto
  have items1: "items_ok ext C c1 (Suc i) (currentUniqueNum l1) xs"
    using Cons.prems(4) rel1 cu1 items_ok_frame [of c1 c ext] by (simp add: loop_rel_def)
  have room1: "room_for N (length xs) (srv1, c1)"
    using Cons.prems(3) rel1 by (simp add: room_for_step)
  obtain srv' c' l' where rest: "store_loop ext [Suc i..<Suc i + length xs] (srv1, c1, l1) = Inr (srv', c', l')"
    and inv': "upload_inv ext C oth name ((recs @ [fst x]) @ map fst xs) (srv', c', l')"
    and rel': "loop_rel oth (length xs) (srv1, c1) (srv', c')" and dup': "m_duplicatedChunkAddr c' = []"
    and cu': "currentUniqueNum l' = currentUniqueNum l1 + length (uniques xs)"
    using Cons.IH [OF Cons.prems(1) inv1 room1 items1 dup1] by blast
  have "[i..<i + length (x # xs)] = i # [Suc i..<Suc i + length xs]"
    by (subst upt_conv_Cons) simp_all
  then have "store_loop ext [i..<i + length (x # xs)] (srv, c, l) = Inr (srv', c', l')"
    using step rest by (simp del: upt_Suc)
  moreover have "loop_rel oth (length (x # xs)) (srv, c) (srv', c')"
    using loop_rel_trans [OF rel1 rel'] by simp
  ultimately show ?case using inv' dup' cu' cu1 by simp
qed

end
