(* ===== verification/ClientConn_Query.thy ===== *)
theory ClientConn_Query
  imports ClientConn_Upload
begin

text \<open>
  The answer to a query and one whole iteration of \<open>receive_file\<close>: the loop over the last query
  (theory \<open>ClientConn_Upload\<close>), the flags of the next one, the reply and the writer threads.
\<close>

section \<open>Answering a query\<close>

text \<open>The flags that answer a query for the chunks \<open>chs\<close>: \<open>True\<close> for a chunk that is not stored.\<close>

definition answer_flags :: "'db ext \<Rightarrow> 'db server \<Rightarrow> byte list list \<Rightarrow> bool list" where
  "answer_flags ext srv chs = map (\<lambda>ch. m_all_chunks srv (chunk_key ext ch) = None) chs"

definition query_at :: "'db ext \<Rightarrow> conn \<Rightarrow> byte list list \<Rightarrow> bool" where
  "query_at ext c chs \<longleftrightarrow>
     mem_read (msg_data (m_inMsgBuffer c)) (unat (hdr_start (header (m_inMsgBuffer c))))
       (HASHSIZE * length chs) = concat (map (digest (x_evp ext)) chs)"

lemma length_digest: "env_ok ext N C \<Longrightarrow> length (digest (x_evp ext) ch) = 32"
  unfolding env_ok_def evp_total_def digest_def by (metis option.sel)

lemma env_digests: "env_ok ext N C \<Longrightarrow> length (concat (map (digest (x_evp ext)) chs)) = HASHSIZE * length chs"
  by (simp add: env_ok_def length_digests)

lemma digests_slice:
  assumes "env_ok ext N C" "mem_read m off (HASHSIZE * length chs) = concat (map (digest (x_evp ext)) chs)"
    "i < length chs"
  shows "mem_read m (off + i * HASHSIZE) 32 = digest (x_evp ext) (chs ! i)"
proof -
  have "i * 32 + 32 \<le> HASHSIZE * length chs" using assms(3) by (simp add: config_values)
  then have "mem_read m (off + i * HASHSIZE) 32 = take 32 (drop (i * 32) (concat (map (digest (x_evp ext)) chs)))"
    by (simp add: assms(2) [symmetric] take_drop_mem_read config_values)
  then show ?thesis
    using concat_slice [of "map (digest (x_evp ext)) chs" 32 i] assms(1,3) by (simp add: length_digest)
qed

lemma query_chunk_eq:
  assumes "mem_read (msg_data (m_inMsgBuffer c))
      (unat (hdr_start (header (m_inMsgBuffer c))) + i * HASHSIZE) 32 = digest (x_evp ext) ch"
  shows "query_chunk srv i (c, l) =
     (case m_all_chunks srv (chunk_key ext ch) of
        None \<Rightarrow> (set_flag i 1 c, l)
      | Some a \<Rightarrow> ((set_flag i 0 c)\<lparr>m_duplicatedChunkAddr := m_duplicatedChunkAddr c @ [a]\<rparr>, l\<lparr>chunkAddr := a\<rparr>))"
  using assms by (simp add: query_chunk_def isChunkStored_def chunk_key_def Let_def split: option.splits)

definition query_result ::
    "'db ext \<Rightarrow> 'db server \<Rightarrow> byte list list \<Rightarrow> conn \<Rightarrow> mem \<Rightarrow> ChunkAddr_t list \<Rightarrow> conn \<Rightarrow> bool" where
  "query_result ext srv chs c m d c' \<longleftrightarrow>
     c' = c\<lparr>m_outMsgBuffer := (m_outMsgBuffer c)\<lparr>msg_data := m\<rparr>, m_duplicatedChunkAddr := m_duplicatedChunkAddr c @ d\<rparr> \<and>
     (\<forall>i < length chs. m i = flag_byte (answer_flags ext srv chs ! i)) \<and>
     list_all2 (\<lambda>a ch. m_all_chunks srv (chunk_key ext ch) = Some a) d
       (duplicates (zip chs (answer_flags ext srv chs)))"

lemma query_result_step:
  assumes "query_result ext srv chs c m d c1"
    and "mem_read (msg_data (m_inMsgBuffer c))
      (unat (hdr_start (header (m_inMsgBuffer c))) + length chs * HASHSIZE) 32 = digest (x_evp ext) ch"
  shows "\<exists>m d a c'. query_chunk srv (length chs) (c1, l\<lparr>chunkAddr := a0\<rparr>) = (c', l\<lparr>chunkAddr := a\<rparr>) \<and>
           query_result ext srv (chs @ [ch]) c m d c'"
proof -
  define i where "i = length chs"
  have c1: "c1 = c\<lparr>m_outMsgBuffer := (m_outMsgBuffer c)\<lparr>msg_data := m\<rparr>, m_duplicatedChunkAddr := m_duplicatedChunkAddr c @ d\<rparr>"
    and m: "\<forall>i < length chs. m i = flag_byte (answer_flags ext srv chs ! i)"
    and d: "list_all2 (\<lambda>a ch. m_all_chunks srv (chunk_key ext ch) = Some a) d
       (duplicates (zip chs (answer_flags ext srv chs)))"
    using assms(1) by (simp_all add: query_result_def)
  have flags: "answer_flags ext srv (chs @ [ch]) =
      answer_flags ext srv chs @ [m_all_chunks srv (chunk_key ext ch) = None]"
    and len: "length (answer_flags ext srv chs) = length chs"
    by (simp_all add: answer_flags_def)
  note step = query_chunk_eq [of c1 i ext ch srv "l\<lparr>chunkAddr := a0\<rparr>"]
  show ?thesis
  proof (cases "m_all_chunks srv (chunk_key ext ch)")
    case None
    then have "query_result ext srv (chs @ [ch]) c (mem_write m i [1]) d (set_flag i 1 c1)"
      using m d len by (auto simp: query_result_def c1 set_flag_def flags i_def nth_append mem_write_def flag_byte_def)
    then show ?thesis using step assms(2) None by (fastforce simp: i_def c1)
  next
    case (Some a)
    then have "query_result ext srv (chs @ [ch]) c (mem_write m i [0]) (d @ [a])
        ((set_flag i 0 c1)\<lparr>m_duplicatedChunkAddr := m_duplicatedChunkAddr c1 @ [a]\<rparr>)"
      using m d len by (auto simp: query_result_def c1 set_flag_def flags i_def nth_append mem_write_def
          flag_byte_def list_all2_appendI)
    then show ?thesis using step assms(2) Some by (fastforce simp: i_def c1)
  qed
qed

lemma query_loop:
  assumes "env_ok ext N C" "query_at ext c chs" "k \<le> length chs"
  shows "\<exists>m d a c'. fold (query_chunk srv) [0..<k] (c, l) = (c', l\<lparr>chunkAddr := a\<rparr>) \<and>
           query_result ext srv (take k chs) c m d c'"
  using assms(3)
proof (induction k)
  case 0
  have "query_result ext srv [] c (msg_data (m_outMsgBuffer c)) [] c" by (simp add: query_result_def)
  moreover have "l = l\<lparr>chunkAddr := chunkAddr l\<rparr>" by simp
  ultimately show ?case by (metis fold_Nil id_apply take0 upt_0)
next
  case (Suc k)
  then obtain m d a c1 where run: "fold (query_chunk srv) [0..<k] (c, l) = (c1, l\<lparr>chunkAddr := a\<rparr>)"
    and res: "query_result ext srv (take k chs) c m d c1" by auto
  have "mem_read (msg_data (m_inMsgBuffer c))
      (unat (hdr_start (header (m_inMsgBuffer c))) + length (take k chs) * HASHSIZE) 32 = digest (x_evp ext) (chs ! k)"
    using digests_slice [OF assms(1) assms(2) [unfolded query_at_def]] Suc.prems by simp
  then show ?case
    using query_result_step [OF res] run Suc.prems by (fastforce simp: take_Suc_conv_app_nth)
qed

section \<open>The state between two messages\<close>

text \<open>
  \<open>queried\<close>: the server remembers a query for the chunks \<open>chs\<close> and the flags \<open>fl\<close> it answered, and holds
  an address for every duplicate.
\<close>

definition queried :: "'db ext \<Rightarrow> cstore \<Rightarrow> byte list list \<Rightarrow> bool list \<Rightarrow> conn \<Rightarrow> bool" where
  "queried ext st chs fl c \<longleftrightarrow>
     length fl = length chs \<and> hl_num (m_hashList c) = length chs \<and> length chs \<le> BATCHSIZE \<and>
     mem_read (hl_data (m_hashList c)) 0 (HASHSIZE * length chs) = concat (map (digest (x_evp ext)) chs) \<and>
     (\<forall>i < length chs. msg_data (m_outMsgBuffer c) i = flag_byte (fl ! i)) \<and>
     list_all2 (resolves st) (m_duplicatedChunkAddr c) (duplicates (zip chs fl))"

lemma chunk_key_inj:
  assumes "env_ok ext N C" "x \<in> C" "y \<in> C"
  shows "chunk_key ext x = chunk_key ext y \<longleftrightarrow> x = y"
proof -
  have "inj_on (digest (x_evp ext)) C" using assms(1) by (simp add: env_ok_def)
  then have "digest (x_evp ext) x = digest (x_evp ext) y \<longleftrightarrow> x = y"
    using assms(2,3) by (rule inj_on_eq_iff)
  then show ?thesis by (simp add: chunk_key_def convert_eq_iff length_digest [OF assms(1)])
qed

lemma indexed_resolves:
  assumes "env_ok ext N C" "index_sound ext C st idx" "ch \<in> C" "idx (chunk_key ext ch) = Some a"
  shows "resolves st a ch"
proof -
  obtain ch' where "ch' \<in> C" "chunk_key ext ch = chunk_key ext ch'" "resolves st a ch'"
    using assms(2,4) unfolding index_sound_def by blast
  then show ?thesis using chunk_key_inj [OF assms(1,3)] by simp
qed

lemma indexed_list_resolves:
  assumes "env_ok ext N C" "index_sound ext C st idx" "set chs \<subseteq> C"
    and "list_all2 (\<lambda>a ch. idx (chunk_key ext ch) = Some a) d chs"
  shows "list_all2 (resolves st) d chs"
proof (rule list_all2_all_nthI)
  show "length d = length chs" using assms(4) by (rule list_all2_lengthD)
  fix i assume i: "i < length d"
  then have "idx (chunk_key ext (chs ! i)) = Some (d ! i)" "chs ! i \<in> C"
    using assms(3,4) list_all2_lengthD [OF assms(4)] by (auto dest: list_all2_nthD)
  then show "resolves st (d ! i) (chs ! i)" using indexed_resolves [OF assms(1,2)] by blast
qed

definition reply_header :: "nat \<Rightarrow> DataMsgHeader_t \<Rightarrow> DataMsgHeader_t" where
  "reply_header n h = h\<lparr>queryNum := of_nat n, hdr_size := of_nat (sizeof_DataMsg + n)\<rparr>"

lemma answer_query_ok:
  assumes env: "env_ok ext N C" and sound: "index_sound ext C st (m_all_chunks srv)" and chs: "set chs \<subseteq> C"
    and query: "query_at ext c chs" "queryNum (header (m_inMsgBuffer c)) = of_nat (length chs)"
    and n: "length chs \<le> BATCHSIZE"
    and fits: "unat (hdr_start (header (m_inMsgBuffer c))) + HASHSIZE * length chs \<le> in_capacity"
    and dup: "m_duplicatedChunkAddr c = []"
  shows "\<exists>c' l' h m d. answer_query srv (c, l) = Inr (c', l') \<and>
           queried ext st chs (answer_flags ext srv chs) c' \<and>
           header (m_outMsgBuffer c') = reply_header (length chs) (header (m_outMsgBuffer c)) \<and>
           c' = c\<lparr>m_hashList := h, m_outMsgBuffer := m, m_duplicatedChunkAddr := d\<rparr> \<and>
           rw_totalChunkNum l' = rw_totalChunkNum l"
proof -
  define h where "h = header (m_inMsgBuffer c)"
  have q: "unat (queryNum h) = length chs"
    using query(2) n by (simp add: h_def unat_of_nat config_values)
  define hl where "hl = (m_hashList c)\<lparr>hl_num := length chs, hl_data := mem_write (hl_data (m_hashList c)) 0
       (mem_read (msg_data (m_inMsgBuffer c)) (unat (hdr_start h)) (HASHSIZE * length chs))\<rparr>"
  define c1 where "c1 = c\<lparr>
      m_outMsgBuffer := (m_outMsgBuffer c)\<lparr>header := (header (m_outMsgBuffer c))\<lparr>queryNum := queryNum h\<rparr>\<rparr>,
      m_hashList := if chs = [] then (m_hashList c)\<lparr>hl_num := 0\<rparr> else hl\<rparr>"
  have "query_at ext c1 chs" using query(1) by (simp add: query_at_def c1_def)
  then obtain m d a c2 where run: "fold (query_chunk srv) [0..<length chs] (c1, l) = (c2, l\<lparr>chunkAddr := a\<rparr>)"
    and res: "query_result ext srv chs c1 m d c2"
    using query_loop [OF env, of c1 chs "length chs" srv l] by auto
  define c' where "c' = c2\<lparr>m_outMsgBuffer := (m_outMsgBuffer c2)\<lparr>header :=
      (header (m_outMsgBuffer c2))\<lparr>hdr_size := of_nat sizeof_DataMsg + queryNum h\<rparr>\<rparr>\<rparr>"
  define l' where "l' = l\<lparr>chunkAddr := a, duplicated_chunk_num := duplicated_chunk_num l + length (m_duplicatedChunkAddr c2)\<rparr>"
  have c2: "c2 = c1\<lparr>m_outMsgBuffer := (m_outMsgBuffer c1)\<lparr>msg_data := m\<rparr>, m_duplicatedChunkAddr := d\<rparr>"
    and flags: "\<forall>i < length chs. m i = flag_byte (answer_flags ext srv chs ! i)"
    and d: "list_all2 (\<lambda>a ch. m_all_chunks srv (chunk_key ext ch) = Some a) d
       (duplicates (zip chs (answer_flags ext srv chs)))"
    using res dup by (simp_all add: query_result_def c1_def)
  have "answer_query srv (c, l) = Inr (c', l')"
  proof (cases "chs = []")
    case True
    then have "c2 = c1" "l\<lparr>chunkAddr := a\<rparr> = l" using run by simp_all
    then show ?thesis using True q by (simp add: answer_query_def h_def [symmetric] Let_def c'_def c1_def l'_def)
  next
    case False
    then show ?thesis using q n fits run
      by (simp add: answer_query_def h_def [symmetric] Let_def c'_def c1_def l'_def hl_def c2 mult_left_mono)
  qed
  moreover have "header (m_outMsgBuffer c') = reply_header (length chs) (header (m_outMsgBuffer c))"
    using query(2) by (simp add: c'_def c2 c1_def reply_header_def h_def)
  moreover have dups: "list_all2 (resolves st) d (duplicates (zip chs (answer_flags ext srv chs)))"
    using indexed_list_resolves [OF env sound _ d] chs duplicates_subset by fastforce
  moreover have hashes: "mem_read (hl_data (m_hashList c')) 0 (HASHSIZE * length chs) = concat (map (digest (x_evp ext)) chs)"
    using query(1) mem_read_write_eq [OF env_digests [OF env]]
    by (simp add: c'_def c2 c1_def hl_def query_at_def h_def)
  moreover have "queried ext st chs (answer_flags ext srv chs) c'"
    unfolding queried_def using n flags dups hashes
    by (simp add: c'_def c2 c1_def hl_def) (simp add: answer_flags_def)
  moreover have "\<exists>h m d. c' = c\<lparr>m_hashList := h, m_outMsgBuffer := m, m_duplicatedChunkAddr := d\<rparr>"
    by (intro exI [of _ "m_hashList c'"] exI [of _ "m_outMsgBuffer c'"] exI [of _ d]) (simp add: c'_def c2 c1_def)
  moreover have "rw_totalChunkNum l' = rw_totalChunkNum l" by (simp add: l'_def)
  ultimately show ?thesis by blast
qed

section \<open>The chunks of a message\<close>

lemma full_chunks_take:
  assumes "full_chunks U" "cu < length U"
  shows "length (concat (take cu U)) = cu * CHUNKSIZE"
proof -
  have "take cu U = take cu (butlast U)" using assms(2) by (simp add: take_butlast)
  then have "\<forall>x \<in> set (take cu U). length x = CHUNKSIZE"
    using assms(1) by (auto simp: full_chunks_def dest: in_set_takeD)
  from length_concat_const [OF this] show ?thesis using assms(2) by simp
qed

lemma concat_split: "cu < length U \<Longrightarrow> concat U = concat (take cu U) @ U ! cu @ concat (drop (Suc cu) U)"
  by (subst id_take_nth_drop [of cu U]) simp_all

lemma full_chunks_end:
  assumes "full_chunks U" "cu < length U"
  shows "min ((cu + 1) * CHUNKSIZE) (length (concat U)) = cu * CHUNKSIZE + length (U ! cu)"
proof (cases "Suc cu < length U")
  case True
  then have "U ! cu \<in> set (butlast U)" by (metis Suc_lessE diff_Suc_1 length_butlast less_Suc_eq nth_butlast nth_mem)
  then have "length (U ! cu) = CHUNKSIZE" using assms(1) by (simp add: full_chunks_def)
  then show ?thesis
    using full_chunks_take [OF assms] by (simp add: concat_split [OF assms(2)])
next
  case False
  then have "drop (Suc cu) U = []" by simp
  moreover have "length (U ! cu) \<le> CHUNKSIZE" using assms by (simp add: full_chunks_def)
  ultimately show ?thesis
    using full_chunks_take [OF assms] by (simp add: concat_split [OF assms(2)])
qed

lemma full_chunks_bound: "full_chunks U \<Longrightarrow> length (concat U) \<le> length U * CHUNKSIZE"
  by (rule concat_bound) (simp add: full_chunks_def)

text \<open>\<open>uniques_at\<close>: the input buffer starts with the unique chunks \<open>U\<close>, and \<open>start\<close> is their total length.\<close>

definition uniques_at :: "conn \<Rightarrow> byte list list \<Rightarrow> bool" where
  "uniques_at c U \<longleftrightarrow> full_chunks U \<and> length U \<le> BATCHSIZE \<and>
     hdr_start (header (m_inMsgBuffer c)) = of_nat (length (concat U)) \<and>
     mem_read (msg_data (m_inMsgBuffer c)) 0 (length (concat U)) = concat U"

lemma uniques_at_start:
  assumes "uniques_at c U"
  shows "unat (hdr_start (header (m_inMsgBuffer c))) = length (concat U)" "length (concat U) \<le> CHUNKSIZE * BATCHSIZE"
proof -
  have "length U * CHUNKSIZE \<le> CHUNKSIZE * BATCHSIZE"
    using assms by (simp add: uniques_at_def config_values)
  then show len: "length (concat U) \<le> CHUNKSIZE * BATCHSIZE"
    using assms full_chunks_bound [of U] unfolding uniques_at_def by linarith
  have "of_nat (length (concat U)) = hdr_start (header (m_inMsgBuffer c))" "length (concat U) < 2 ^ 64"
    using assms len by (simp_all add: uniques_at_def config_values)
  then show "unat (hdr_start (header (m_inMsgBuffer c))) = length (concat U)"
    by (metis unat_of_nat_small(2))
qed

lemma uniques_at_unique:
  assumes at: "uniques_at c U" and cu: "cu < length U"
  shows "unique_at c cu (U ! cu)"
proof -
  let ?n = "length (U ! cu)"
  note full = full_chunks_take full_chunks_end
  have U: "full_chunks U" "length U \<le> BATCHSIZE" using at by (simp_all add: uniques_at_def)
  have n: "?n \<le> CHUNKSIZE" using U(1) cu by (simp add: full_chunks_def)
  have "cu * CHUNKSIZE < 2 ^ 32" using cu U(2) by (simp add: config_values)
  then have start: "unat (chunk_start cu) = cu * CHUNKSIZE"
    by (simp add: chunk_start_def unat_of_nat_small del: of_nat_mult)
  have "chunk_end cu (hdr_start (header (m_inMsgBuffer c))) = of_nat (cu * CHUNKSIZE + ?n)"
    by (simp only: chunk_end_def uniques_at_start(1) [OF at] full_chunks_end [OF U(1) cu])
  then have len: "unat (chunk_end cu (hdr_start (header (m_inMsgBuffer c))) - chunk_start cu) = ?n"
    using n by (simp add: chunk_start_def unat_of_nat config_values)
  have "cu * CHUNKSIZE + ?n \<le> length (concat U)"
    using full_chunks_end [OF U(1) cu] by (metis min.cobounded2)
  then have "mem_read (msg_data (m_inMsgBuffer c)) (cu * CHUNKSIZE) ?n =
      take ?n (drop (cu * CHUNKSIZE) (mem_read (msg_data (m_inMsgBuffer c)) 0 (length (concat U))))"
    by (simp add: take_drop_mem_read)
  also have "\<dots> = U ! cu"
    using at full_chunks_take [OF U(1) cu] concat_split [OF cu] by (simp add: uniques_at_def)
  finally have "mem_read (msg_data (m_inMsgBuffer c)) (cu * CHUNKSIZE) ?n = U ! cu" .
  moreover have "cu * CHUNKSIZE + ?n \<le> in_capacity"
    using cu U(2) n by (simp add: in_capacity_def config_values)
  ultimately show ?thesis using len by (simp add: unique_at_def start)
qed

lemma items_okI:
  "(\<And>j. j < length items \<Longrightarrow> item_ok ext C c (i + j) (cu + length (uniques (take j items))) (items ! j)) \<Longrightarrow>
   items_ok ext C c i cu items"
proof (induction items arbitrary: i cu)
  case (Cons x xs)
  have "item_ok ext C c (Suc i + j) ((if snd x then Suc cu else cu) + length (uniques (take j xs))) (xs ! j)"
    if "j < length xs" for j
    using Cons.prems [of "Suc j"] that by (cases "snd x") simp_all
  moreover have "item_ok ext C c i cu x" using Cons.prems [of 0] by simp
  ultimately show ?case using Cons.IH by simp
qed simp

lemma queried_items_ok:
  assumes env: "env_ok ext N C" and q: "queried ext st chs fl c"
    and chs: "set chs \<subseteq> C" "\<forall>ch \<in> set chs. length ch \<le> CHUNKSIZE"
    and at: "uniques_at c (uniques (zip chs fl))"
  shows "items_ok ext C c 0 0 (zip chs fl)"
proof (rule items_okI)
  fix j assume "j < length (zip chs fl)"
  then have j: "j < length chs" "j < length fl" by simp_all
  have "chs ! j \<in> C" "length (chs ! j) \<le> CHUNKSIZE" using chs j by auto
  moreover have "mem_read (hl_data (m_hashList c)) (j * HASHSIZE) 32 = digest (x_evp ext) (chs ! j)"
    using digests_slice [OF env, of _ 0 chs j] q j by (simp add: queried_def)
  moreover have "msg_data (m_outMsgBuffer c) j = flag_byte (fl ! j)" using q j by (simp add: queried_def)
  moreover have "unique_at c (length (uniques (take j (zip chs fl)))) (chs ! j)" if "fl ! j"
    using uniques_nth [of j "zip chs fl"] uniques_at_unique [OF at] j that by fastforce
  ultimately show "item_ok ext C c (0 + j) (0 + length (uniques (take j (zip chs fl)))) (zip chs fl ! j)"
    using j by (simp add: item_ok_def flag_byte_def)
qed

section \<open>Every received chunk is indexed\<close>

definition index_grows :: "'db server \<times> conn \<Rightarrow> 'db server \<times> conn \<Rightarrow> bool" where
  "index_grows = (\<lambda>(srv, c) (srv', c'). dom (m_all_chunks srv) \<subseteq> dom (m_all_chunks srv') \<and>
     m_hashList c' = m_hashList c \<and> m_outMsgBuffer c' = m_outMsgBuffer c)"

lemma make_room_index: "make_room ext n (srv, c) = Inr (srv', c') \<Longrightarrow>
  m_all_chunks srv' = m_all_chunks srv \<and> index_grows (srv, c) (srv', c')"
  by (auto simp: make_room_def insert_container_queue_def new_container_def index_grows_def bindR_eq_Inr_iff
      Let_def split: if_splits option.splits)

lemma store_unique_index:
  assumes "store_unique ext key (srv, c, l) = Inr (srv', c', l')"
  shows "key \<in> dom (m_all_chunks srv') \<and> index_grows (srv, c) (srv', c')"
proof -
  obtain srv1 c1 n a b where room: "make_room ext n (srv, c) = Inr (srv1, c1)"
    and res: "srv' = addChunk (key, a) srv1" "c' = c1\<lparr>m_containerBuffer := b\<rparr>"
    using assms by (auto simp: store_unique_def bindR_eq_Inr_iff Let_def)
  then show ?thesis
    using make_room_index [OF room] by (auto simp: index_grows_def addChunk_index)
qed

lemma write_recipe_entry_index:
  "write_recipe_entry ext a c = Inr c' \<Longrightarrow> index_grows (srv, c) (srv, c')"
  by (auto simp: write_recipe_entry_def insert_recipe_queue_def new_recipe_def index_grows_def
      bindR_eq_Inr_iff Let_def split: if_splits option.splits)

lemma store_chunk_index:
  assumes "store_chunk ext i (srv, c, l) = Inr (srv', c', l')"
  shows "index_grows (srv, c) (srv', c') \<and>
         (msg_data (m_outMsgBuffer c) i = 1 \<longrightarrow>
          convert_array_hash_to_string (mem_read (hl_data (m_hashList c)) (i * HASHSIZE) 32) \<in> dom (m_all_chunks srv'))"
proof -
  let ?key = "convert_array_hash_to_string (mem_read (hl_data (m_hashList c)) (i * HASHSIZE) 32)"
  obtain c1 where first: "(if msg_data (m_outMsgBuffer c) i = 1 then store_unique ext ?key (srv, c, l)
      else if msg_data (m_outMsgBuffer c) i = 0 then bindR (take_duplicate (c, l)) (\<lambda>(c', l'). Inr (srv, c', l'))
      else Inr (srv, c, l)) = Inr (srv', c1, l')"
    and entry: "write_recipe_entry ext (chunkAddr l') c1 = Inr c'"
    using assms by (auto simp: store_chunk_def Let_def bindR_eq_Inr_iff)
  have part: "index_grows (srv, c) (srv', c1) \<and> (msg_data (m_outMsgBuffer c) i = 1 \<longrightarrow> ?key \<in> dom (m_all_chunks srv'))"
  proof (cases "msg_data (m_outMsgBuffer c) i = 1")
    case True
    then show ?thesis using first store_unique_index [of ext ?key srv c l srv' c1 l'] by simp
  next
    case False
    then show ?thesis using first
      by (auto simp: bindR_eq_Inr_iff take_duplicate_def index_grows_def split: if_splits list.splits)
  qed
  show ?thesis
    using write_recipe_entry_index [OF entry, of srv'] part by (auto simp: index_grows_def)
qed

lemma store_loop_index:
  "store_loop ext is (srv, c, l) = Inr (srv', c', l') \<Longrightarrow>
   index_grows (srv, c) (srv', c') \<and>
   (\<forall>i \<in> set is. msg_data (m_outMsgBuffer c) i = 1 \<longrightarrow>
      convert_array_hash_to_string (mem_read (hl_data (m_hashList c)) (i * HASHSIZE) 32) \<in> dom (m_all_chunks srv'))"
proof (induction "is" arbitrary: srv c l)
  case Nil
  then show ?case by (simp add: index_grows_def)
next
  case (Cons i "is")
  then obtain srv1 c1 l1 where one: "store_chunk ext i (srv, c, l) = Inr (srv1, c1, l1)"
    and rest: "store_loop ext is (srv1, c1, l1) = Inr (srv', c', l')"
    by (auto simp: bindR_eq_Inr_iff)
  show ?case
    using store_chunk_index [OF one] Cons.IH [OF rest] by (auto simp: index_grows_def)
qed

definition indexed :: "'db ext \<Rightarrow> 'db server \<Rightarrow> byte list list \<Rightarrow> bool" where
  "indexed ext srv chs \<longleftrightarrow> (\<forall>ch \<in> set chs. m_all_chunks srv (chunk_key ext ch) \<noteq> None)"

lemma queried_indexed:
  assumes env: "env_ok ext N C" and q: "queried ext st chs fl c"
    and dup: "indexed ext srv (duplicates (zip chs fl))"
    and run: "store_loop ext [0..<length chs] (srv, c, l) = Inr (srv', c', l')"
  shows "indexed ext srv' chs"
  unfolding indexed_def
proof
  fix ch assume "ch \<in> set chs"
  then obtain j where j: "j < length chs" "ch = chs ! j" by (auto simp: in_set_conv_nth)
  have key: "convert_array_hash_to_string (mem_read (hl_data (m_hashList c)) (j * HASHSIZE) 32) = chunk_key ext ch"
    using digests_slice [OF env, of _ 0 chs j] q j by (simp add: queried_def chunk_key_def)
  show "m_all_chunks srv' (chunk_key ext ch) \<noteq> None"
  proof (cases "fl ! j")
    case True
    then have "msg_data (m_outMsgBuffer c) j = 1" using q j by (simp add: queried_def flag_byte_def)
    then show ?thesis using store_loop_index [OF run] j(1) key by (auto dest!: bspec [of _ _ j])
  next
    case False
    have len: "length fl = length chs" using q by (simp add: queried_def)
    have "(ch, fl ! j) \<in> set (zip chs fl)" using j len by (auto simp: set_zip)
    then have "ch \<in> set (duplicates (zip chs fl))" using False by (force simp: duplicates_def)
    then show ?thesis using dup store_loop_index [OF run] by (fastforce simp: indexed_def index_grows_def)
  qed
qed

end
