(* ===== verification/ClientConn_Session.thy ===== *)
theory ClientConn_Session
  imports ClientConn_Query
begin

text \<open>
  An upload seen from the socket: what the connection does with each message of a well-behaved
  client, from the request to the end of the file, and what is on disk afterwards.
\<close>

section \<open>The writer threads\<close>

lemma fold_write_recipe_block:
  "recipes_dir srv name = Some bs \<Longrightarrow>
   fold (write_recipe_block name) rs (srv, t) =
     (srv\<lparr>recipes_dir := (recipes_dir srv)(name \<mapsto> bs @ concat (map recipe_block_bytes rs))\<rparr>,
      t + of_nat (sum_list (map rec_num rs)))"
proof (induction rs arbitrary: srv bs t)
  case Nil
  then have "(recipes_dir srv)(name \<mapsto> bs) = recipes_dir srv" by (simp add: fun_upd_idem)
  then show ?case by simp
next
  case (Cons r rs)
  let ?srv = "srv\<lparr>recipes_dir := (recipes_dir srv)(name \<mapsto> bs @ recipe_block_bytes r)\<rparr>"
  have "write_recipe_block name r (srv, t) = (?srv, t + of_nat (rec_num r))"
    using Cons.prems by (simp add: write_recipe_block_def)
  then show ?case
    using Cons.IH [of ?srv "bs @ recipe_block_bytes r" "t + of_nat (rec_num r)"]
    by (simp add: add.assoc cong: if_cong)
qed

text \<open>
  Running the threads moves the queues to disk. The store, the recipe as a whole, the index and
  everything else a connection holds stay the same.
\<close>

definition drained :: "conn \<Rightarrow> bool" where
  "drained c \<longleftrightarrow> m_queue (m_containerQueue c) = [] \<and> m_queue (m_recipeQueue c) = []"

lemma run_writers_eq:
  assumes "recipes_dir srv (m_recipeNameHash c) = Some bs"
  shows "\<exists>cq rq. run_writers (srv, c, l) =
    (srv\<lparr>containers_dir := queue_store (m_queue (m_containerQueue c)) (containers_dir srv),
         recipes_dir := (recipes_dir srv)(m_recipeNameHash c \<mapsto>
           bs @ concat (map recipe_block_bytes (m_queue (m_recipeQueue c))))\<rparr>,
     c\<lparr>m_containerQueue := cq, m_recipeQueue := rq\<rparr>,
     l\<lparr>rw_totalChunkNum := rw_totalChunkNum l + of_nat (sum_list (map rec_num (m_queue (m_recipeQueue c))))\<rparr>) \<and>
    m_queue cq = [] \<and> m_queue rq = [] \<and>
    m_done cq = m_done (m_containerQueue c) \<and> m_done rq = m_done (m_recipeQueue c) \<and>
    m_size cq = m_size (m_containerQueue c) \<and> m_size rq = m_size (m_recipeQueue c) \<and>
    (bq_inv (m_containerQueue c) \<longrightarrow> bq_inv cq) \<and> (bq_inv (m_recipeQueue c) \<longrightarrow> bq_inv rq)"
proof -
  let ?C = "consume save_container (m_containerQueue c) srv"
  let ?R = "consume (write_recipe_block (m_recipeNameHash c)) (m_recipeQueue c) (snd ?C, rw_totalChunkNum l)"
  note C = consume_fold [of save_container "m_containerQueue c" srv]
  note R = consume_fold [of "write_recipe_block (m_recipeNameHash c)" "m_recipeQueue c" "(snd ?C, rw_totalChunkNum l)"]
  have srv1: "snd ?C = srv\<lparr>containers_dir := queue_store (m_queue (m_containerQueue c)) (containers_dir srv)\<rparr>"
    using C by (simp add: fold_save_container)
  then have srv2: "snd ?R = (srv\<lparr>containers_dir := queue_store (m_queue (m_containerQueue c)) (containers_dir srv),
         recipes_dir := (recipes_dir srv)(m_recipeNameHash c \<mapsto>
           bs @ concat (map recipe_block_bytes (m_queue (m_recipeQueue c))))\<rparr>,
       rw_totalChunkNum l + of_nat (sum_list (map rec_num (m_queue (m_recipeQueue c)))))"
    using R assms by (simp add: fold_write_recipe_block)
  have "run_writers (srv, c, l) = (fst (snd ?R), c\<lparr>m_containerQueue := fst ?C, m_recipeQueue := fst ?R\<rparr>,
      l\<lparr>rw_totalChunkNum := snd (snd ?R)\<rparr>)"
    by (simp add: run_writers_def write_container_def write_recipe_def Let_def split: prod.splits)
  then show ?thesis
    using C R srv2 by (intro exI [of _ "fst ?C"] exI [of _ "fst ?R"]) simp
qed

lemma run_writers_ok:
  assumes inv: "upload_inv ext C oth name recs (srv, c, l)" and name: "m_recipeNameHash c = name"
  shows "\<exists>srv' c' l'. run_writers (srv, c, l) = (srv', c', l') \<and>
           upload_inv ext C oth name recs (srv', c', l') \<and> drained c' \<and>
           gstore oth srv' c' = gstore oth srv c \<and>
           (\<exists>d r. srv' = srv\<lparr>containers_dir := d, recipes_dir := r\<rparr> \<and>
              (\<forall>n. n \<noteq> name \<longrightarrow> r n = recipes_dir srv n)) \<and>
           (\<exists>cq rq. c' = c\<lparr>m_containerQueue := cq, m_recipeQueue := rq\<rparr> \<and>
              m_done cq = m_done (m_containerQueue c) \<and> m_done rq = m_done (m_recipeQueue c))"
proof -
  obtain w as where w: "recipes_dir srv name = Some (u32_bytes 0 @ w)"
    "w @ recipe_pending c = concat (map enc_addr as)" "list_all2 (resolves (gstore oth srv c)) as recs"
    "rw_totalChunkNum l + of_nat (pending_count c) = of_nat (length as)"
    using inv by (auto simp: upload_inv_def recipe_inv_def)
  obtain srv' c' l' cq rq where run: "run_writers (srv, c, l) = (srv', c', l')"
    and srv': "srv' = srv\<lparr>containers_dir := queue_store (m_queue (m_containerQueue c)) (containers_dir srv),
         recipes_dir := (recipes_dir srv)(name \<mapsto>
           (u32_bytes 0 @ w) @ concat (map recipe_block_bytes (m_queue (m_recipeQueue c))))\<rparr>"
    and c': "c' = c\<lparr>m_containerQueue := cq, m_recipeQueue := rq\<rparr>"
    and l': "l' = l\<lparr>rw_totalChunkNum := rw_totalChunkNum l + of_nat (sum_list (map rec_num (m_queue (m_recipeQueue c))))\<rparr>"
    and q: "m_queue cq = []" "m_queue rq = []" "m_done cq = m_done (m_containerQueue c)"
      "m_done rq = m_done (m_recipeQueue c)" "m_size cq = m_size (m_containerQueue c)"
      "m_size rq = m_size (m_recipeQueue c)" "bq_inv (m_containerQueue c) \<longrightarrow> bq_inv cq"
      "bq_inv (m_recipeQueue c) \<longrightarrow> bq_inv rq"
    using run_writers_eq [of srv c, unfolded name, OF w(1), of l] by (elim exE conjE) (rule that; (assumption | rule refl))
  have st: "gstore oth srv' c' = gstore oth srv c" using q by (simp add: gstore_def srv' c')
  have "recipe_inv (gstore oth srv' c') name recs srv' c' (rw_totalChunkNum l')"
    unfolding recipe_inv_def st using w q
    by (intro exI [of _ "w @ concat (map recipe_block_bytes (m_queue (m_recipeQueue c)))"] exI [of _ as])
       (simp add: srv' c' l' recipe_pending_def pending_count_def add.assoc)
  moreover have "cont_inv ext oth srv' c'" "rec_ok c'"
    using inv q st by (simp_all add: upload_inv_def cont_inv_def rec_ok_def c' srv')
  ultimately have "upload_inv ext C oth name recs (srv', c', l')"
    using inv st by (simp add: upload_inv_def) (simp add: srv')
  moreover have "drained c'" using q by (simp add: drained_def c')
  moreover have "\<exists>d r. srv' = srv\<lparr>containers_dir := d, recipes_dir := r\<rparr> \<and>
      (\<forall>n. n \<noteq> name \<longrightarrow> r n = recipes_dir srv n)"
    unfolding srv' by (intro exI conjI, rule refl) simp
  moreover have "\<exists>cq rq. c' = c\<lparr>m_containerQueue := cq, m_recipeQueue := rq\<rparr> \<and>
      m_done cq = m_done (m_containerQueue c) \<and> m_done rq = m_done (m_recipeQueue c)"
    using q(3,4) c' by blast
  ultimately show ?thesis
    using run st by (intro exI [of _ srv'] exI [of _ c'] exI [of _ l'] conjI)
qed

section \<open>A message with chunks and a query\<close>

definition load_in :: "byte list \<Rightarrow> conn \<Rightarrow> conn" where
  "load_in frame c = c\<lparr>m_inMsgBuffer := load_msg (m_inMsgBuffer c) frame\<rparr>"

lemma load_part_frame:
  assumes env: "env_ok ext N C" and frame: "part_frame (x_evp ext) U next frame"
    and U: "full_chunks U" "length U \<le> BATCHSIZE" and n: "length next \<le> BATCHSIZE"
  shows "length frame \<le> sizeof_DataMsg + in_capacity"
    and "uniques_at (load_in frame c) U" and "query_at ext (load_in frame c) next"
    and "queryNum (header (m_inMsgBuffer (load_in frame c))) = of_nat (length next)"
    and "dataMsgType (header (m_inMsgBuffer (load_in frame c))) \<noteq> dataMsgType_val FILEEND"
    and "unat (hdr_start (header (m_inMsgBuffer (load_in frame c)))) + HASHSIZE * length next \<le> in_capacity"
proof -
  obtain m where m: "frame = msg_bytes m (sizeof_DataMsg + (length (concat U) + HASHSIZE * length next))"
    "dataMsgType (header m) \<noteq> dataMsgType_val FILEEND"
    "hdr_start (header m) = of_nat (length (concat U))" "queryNum (header m) = of_nat (length next)"
    "mem_read (msg_data m) 0 (length (concat U) + HASHSIZE * length next) =
       concat U @ concat (map (digest (x_evp ext)) next)"
    using frame by (auto simp: part_frame_def)
  let ?b = "m_inMsgBuffer (load_in frame c)"
  have hdr: "header ?b = header m" by (simp add: load_in_def m(1) codec_simps)
  have dat: "msg_data ?b = mem_write (msg_data (m_inMsgBuffer c)) 0 (concat U @ concat (map (digest (x_evp ext)) next))"
    by (simp add: load_in_def m(1,5) codec_simps)
  have len: "length (concat (map (digest (x_evp ext)) next)) = HASHSIZE * length next"
    using env by (rule env_digests)
  show at: "uniques_at (load_in frame c) U"
    using U m(3) by (simp add: uniques_at_def hdr dat mem_simps)
  note start = uniques_at_start [OF at]
  show "query_at ext (load_in frame c) next"
    unfolding query_at_def start(1) dat using len by (simp add: mem_simps)
  have cap: "length (concat U) + HASHSIZE * length next \<le> in_capacity"
    using start(2) n by (simp add: in_capacity_def config_values)
  then show "length frame \<le> sizeof_DataMsg + in_capacity" by (simp add: m(1))
  show "unat (hdr_start (header ?b)) + HASHSIZE * length next \<le> in_capacity"
    using cap start(1) by simp
  show "queryNum (header ?b) = of_nat (length next)" "dataMsgType (header ?b) \<noteq> dataMsgType_val FILEEND"
    using m(2,4) by (simp_all add: hdr)
qed

section \<open>One iteration of the loop\<close>

definition chunks_ok :: "byte list set \<Rightarrow> byte list list \<Rightarrow> bool" where
  "chunks_ok C chs \<longleftrightarrow> set chs \<subseteq> C \<and> (\<forall>ch \<in> set chs. length ch \<le> CHUNKSIZE)"

text \<open>
  \<open>receiving\<close>: the state between two messages of an upload of the recipe \<open>name\<close>. The chunks \<open>recs\<close> have
  been recorded; the last query was for \<open>chs\<close> and was answered with \<open>fl\<close>.
\<close>

definition receiving ::
    "'db ext \<Rightarrow> byte list set \<Rightarrow> cstore \<Rightarrow> string \<Rightarrow> byte list list \<Rightarrow> byte list list \<Rightarrow> bool list \<Rightarrow>
     'db server \<times> conn \<times> upload_locals \<Rightarrow> bool" where
  "receiving ext C oth name recs chs fl = (\<lambda>(srv, c, l).
     upload_inv ext C oth name recs (srv, c, l) \<and> drained c \<and> m_recipeNameHash c = name \<and>
     queried ext (gstore oth srv c) chs fl c \<and> chunks_ok C (recs @ chs) \<and>
     indexed ext srv (recs @ duplicates (zip chs fl)) \<and>
     \<not> m_done (m_containerQueue c) \<and> \<not> m_done (m_recipeQueue c) \<and>
     dataMsgType (header (m_outMsgBuffer c)) = dataMsgType_val UPLOADBODYREP)"

text \<open>
  What a message leaves alone: addresses keep resolving, and the file table, the other recipes and
  the client's identity stay.
\<close>

definition store_keeps :: "cstore \<Rightarrow> cstore \<Rightarrow> bool" where
  "store_keeps st st' \<longleftrightarrow> (\<forall>a ch. ch \<noteq> [] \<longrightarrow> resolves st a ch \<longrightarrow> resolves st' a ch)"

lemma store_le_keeps: "store_le st st' \<Longrightarrow> store_keeps st st'"
  by (simp add: store_keeps_def resolves_mono)

lemma store_keeps_trans: "store_keeps a b \<Longrightarrow> store_keeps b c \<Longrightarrow> store_keeps a c"
  by (simp add: store_keeps_def)

lemma index_sound_keeps:
  assumes "store_keeps st st'" "[] \<notin> C" "index_sound ext C st idx"
  shows "index_sound ext C st' idx"
  using assms unfolding index_sound_def store_keeps_def by metis

lemma resolves_list_keeps:
  "store_keeps st st' \<Longrightarrow> [] \<notin> set chs \<Longrightarrow> list_all2 (resolves st) as chs \<Longrightarrow> list_all2 (resolves st') as chs"
  unfolding list_all2_conv_all_nth store_keeps_def by (metis nth_mem)

definition conn_frame :: "cstore \<Rightarrow> string \<Rightarrow> nat \<Rightarrow> 'db server \<times> conn \<Rightarrow> 'db server \<times> conn \<Rightarrow> bool" where
  "conn_frame oth name k = (\<lambda>(srv, c) (srv', c').
     store_keeps (gstore oth srv c) (gstore oth srv' c') \<and>
     uuid_count srv' \<le> uuid_count srv + k \<and> dom (m_all_chunks srv) \<subseteq> dom (m_all_chunks srv') \<and>
     m_mysqlPool srv' = m_mysqlPool srv \<and> m_db srv' = m_db srv \<and>
     (\<forall>n. n \<noteq> name \<longrightarrow> recipes_dir srv' n = recipes_dir srv n) \<and>
     m_client_info c' = m_client_info c)"

lemma conn_frame_trans:
  "conn_frame oth name j s s' \<Longrightarrow> conn_frame oth name k s' s'' \<Longrightarrow> conn_frame oth name (j + k) s s''"
  by (cases s; cases s'; cases s'') (auto simp: conn_frame_def intro: store_keeps_trans)

lemma room_for_drained:
  assumes "upload_inv ext C oth name recs (srv, c, l)" "drained c" "uuid_count srv + k \<le> N" "k \<le> BATCHSIZE"
  shows "room_for N k (srv, c)"
proof -
  have "k * CHUNKSIZE \<le> BATCHSIZE * CHUNKSIZE" using assms(4) by simp
  then show ?thesis
    using assms by (simp add: room_for_def drained_def cont_load_def rec_load_def upload_inv_def cont_inv_def
        rec_ok_def config_values)
qed

lemma loop_rel_conn_frame:
  assumes "loop_rel oth k (srv, c) (srv', c')" "index_grows (srv, c) (srv', c')"
  shows "conn_frame oth name k (srv, c) (srv', c')"
  using assms by (simp add: loop_rel_def conn_frame_def index_grows_def store_le_keeps)

lemma upload_inv_frame:
  assumes "m_containerBuffer c' = m_containerBuffer c" "m_containerQueue c' = m_containerQueue c"
    "m_recipeBuffer c' = m_recipeBuffer c" "m_recipeQueue c' = m_recipeQueue c"
  shows "gstore oth srv c' = gstore oth srv c"
    "upload_inv ext C oth name recs (srv, c', l) = upload_inv ext C oth name recs (srv, c, l)"
proof -
  show "gstore oth srv c' = gstore oth srv c" using assms by (simp add: gstore_def)
  then show "upload_inv ext C oth name recs (srv, c', l) = upload_inv ext C oth name recs (srv, c, l)"
    using assms by (simp add: upload_inv_def cont_inv_def rec_ok_def recipe_inv_def recipe_pending_def
        pending_count_def)
qed

lemma queried_cong:
  assumes "m_hashList c' = m_hashList c" "m_outMsgBuffer c' = m_outMsgBuffer c"
    "m_duplicatedChunkAddr c' = m_duplicatedChunkAddr c"
  shows "queried ext st chs fl c' = queried ext st chs fl c"
  using assms by (simp add: queried_def)

lemma load_in_select [simp]:
  "m_hashList (load_in f c) = m_hashList c" "m_recipeNameHash (load_in f c) = m_recipeNameHash c"
  "m_client_info (load_in f c) = m_client_info c" "m_containerQueue (load_in f c) = m_containerQueue c"
  "m_recipeQueue (load_in f c) = m_recipeQueue c" "m_outMsgBuffer (load_in f c) = m_outMsgBuffer c"
  "m_containerBuffer (load_in f c) = m_containerBuffer c" "m_recipeBuffer (load_in f c) = m_recipeBuffer c"
  "m_duplicatedChunkAddr (load_in f c) = m_duplicatedChunkAddr c"
  by (simp_all add: load_in_def)

lemma load_in_frame [simp]:
  "gstore oth srv (load_in f c) = gstore oth srv c"
  "upload_inv ext C oth name recs (srv, load_in f c, l) = upload_inv ext C oth name recs (srv, c, l)"
  "queried ext st chs fl (load_in f c) = queried ext st chs fl c"
  "drained (load_in f c) = drained c"
  by (simp_all add: upload_inv_frame [of "load_in f c" c] queried_cong [of "load_in f c" c] drained_def)

lemma upload_inv_locals [simp]:
  "upload_inv ext C oth name recs (srv, c, l\<lparr>currentUniqueNum := x\<rparr>) = upload_inv ext C oth name recs (srv, c, l)"
  "upload_inv ext C oth name recs (srv, c, l\<lparr>unique_chunk_num := x\<rparr>) = upload_inv ext C oth name recs (srv, c, l)"
  by (simp_all add: upload_inv_def)

text \<open>The loop over the last query, on the loaded message.\<close>

lemma store_part_ok:
  assumes env: "env_ok ext N C" and rcv: "receiving ext C oth name recs chs fl (srv, c0, l)"
    and uuid: "uuid_count srv + length chs \<le> N"
    and c: "c = load_in frame c0" and at: "uniques_at c (uniques (zip chs fl))"
    and l0: "l0 = l\<lparr>currentUniqueNum := 0\<rparr>"
  shows "\<exists>srv' c' l'. store_loop ext [0..<hl_num (m_hashList c)] (srv, c, l0) = Inr (srv', c', l') \<and>
           upload_inv ext C oth name (recs @ chs) (srv', c', l') \<and> indexed ext srv' (recs @ chs) \<and>
           loop_rel oth (length chs) (srv, c) (srv', c') \<and> index_grows (srv, c) (srv', c') \<and>
           m_duplicatedChunkAddr c' = []"
proof -
  have inv: "upload_inv ext C oth name recs (srv, c, l0)" and st: "gstore oth srv c = gstore oth srv c0"
    using rcv by (simp_all add: receiving_def c l0)
  have q: "queried ext (gstore oth srv c) chs fl c"
    using rcv by (simp add: receiving_def c)
  have len: "length fl = length chs" "hl_num (m_hashList c) = length chs" "length chs \<le> BATCHSIZE"
    using q by (simp_all add: queried_def)
  have "drained c" using rcv by (simp add: receiving_def c)
  then have room: "room_for N (length (zip chs fl)) (srv, c)"
    using room_for_drained [OF inv _ uuid] len by simp
  have items: "items_ok ext C c 0 (currentUniqueNum l0) (zip chs fl)"
    using queried_items_ok [OF env q _ _ at] rcv by (simp add: receiving_def chunks_ok_def l0)
  obtain srv' c' l' where run: "store_loop ext [0..<length chs] (srv, c, l0) = Inr (srv', c', l')"
    and inv': "upload_inv ext C oth name (recs @ chs) (srv', c', l')"
    and rel: "loop_rel oth (length chs) (srv, c) (srv', c')" and dup: "m_duplicatedChunkAddr c' = []"
    using store_loop_ok [OF env inv room items] q len by (auto simp: queried_def)
  have grow: "index_grows (srv, c) (srv', c')" using store_loop_index [OF run] by simp
  have "indexed ext srv' chs"
    using queried_indexed [OF env q _ run] rcv by (simp add: receiving_def indexed_def)
  moreover have "indexed ext srv' recs"
    using rcv grow by (fastforce simp: receiving_def indexed_def index_grows_def)
  ultimately have "indexed ext srv' (recs @ chs)" by (auto simp: indexed_def)
  then show ?thesis using run inv' rel grow dup len(2) by auto
qed

lemma queried_flags: "queried ext st chs fl c \<Longrightarrow> mem_read (msg_data (m_outMsgBuffer c)) 0 (length fl) = map flag_byte fl"
  by (rule nth_equalityI) (auto simp: queried_def)

lemma receive_chunks_ok:
  assumes env: "env_ok ext N C" and rcv: "receiving ext C oth name recs chs fl (srv, c0, l)"
    and uuid: "uuid_count srv + length chs \<le> N"
    and nx: "chunks_ok C next" "length next \<le> BATCHSIZE"
    and frame: "part_frame (x_evp ext) (uniques (zip chs fl)) next frame" and full: "full_chunks (uniques (zip chs fl))"
  shows "\<exists>srv' c' l'. receive_chunks ext (srv, load_in frame c0, l) = Inr (srv', c', l') \<and>
           upload_inv ext C oth name (recs @ chs) (srv', c', l') \<and> indexed ext srv' (recs @ chs) \<and>
           queried ext (gstore oth srv' c') next (answer_flags ext srv' next) c' \<and>
           conn_frame oth name (length chs) (srv, c0) (srv', c') \<and>
           header (m_outMsgBuffer c') = reply_header (length next) (header (m_outMsgBuffer c0)) \<and>
           m_recipeNameHash c' = m_recipeNameHash c0 \<and>
           m_done (m_containerQueue c') = m_done (m_containerQueue c0) \<and>
           m_done (m_recipeQueue c') = m_done (m_recipeQueue c0)"
proof -
  have U: "length (uniques (zip chs fl)) \<le> BATCHSIZE"
    using rcv le_trans [OF length_uniques] by (simp add: receiving_def queried_def)
  note load = load_part_frame [OF env frame full U nx(2)]
  obtain srv1 c1 l1 where run1: "store_loop ext [0..<hl_num (m_hashList c0)]
      (srv, load_in frame c0, l\<lparr>currentUniqueNum := 0\<rparr>) = Inr (srv1, c1, l1)"
    and inv1: "upload_inv ext C oth name (recs @ chs) (srv1, c1, l1)"
    and idx1: "indexed ext srv1 (recs @ chs)"
    and rel: "loop_rel oth (length chs) (srv, load_in frame c0) (srv1, c1)"
    and grow: "index_grows (srv, load_in frame c0) (srv1, c1)" and dup: "m_duplicatedChunkAddr c1 = []"
    using store_part_ok [OF env rcv uuid refl load(2) refl] by auto
  define l2 where "l2 = l1\<lparr>unique_chunk_num := unique_chunk_num l1 + currentUniqueNum l1\<rparr>"
  have in1: "m_inMsgBuffer c1 = m_inMsgBuffer (load_in frame c0)" using rel by (simp add: loop_rel_def)
  have sound: "index_sound ext C (gstore oth srv1 c1) (m_all_chunks srv1)"
    using inv1 by (simp add: upload_inv_def)
  obtain c' l' h m d where run2: "answer_query srv1 (c1, l2) = Inr (c', l')"
    and q: "queried ext (gstore oth srv1 c1) next (answer_flags ext srv1 next) c'"
    and hdr: "header (m_outMsgBuffer c') = reply_header (length next) (header (m_outMsgBuffer c1))"
    and c': "c' = c1\<lparr>m_hashList := h, m_outMsgBuffer := m, m_duplicatedChunkAddr := d\<rparr>"
    and tot: "rw_totalChunkNum l' = rw_totalChunkNum l2"
    using answer_query_ok [OF env sound _ _ _ nx(2) _ dup, where l = l2] nx(1) load(3,4,6)
    by (auto simp: in1 query_at_def chunks_ok_def)
  have "receive_chunks ext (srv, load_in frame c0, l) = Inr (srv1, c', l')"
    using run1 run2 by (simp add: receive_chunks_def l2_def)
  moreover have st: "gstore oth srv1 c' = gstore oth srv1 c1" by (simp add: c' gstore_def)
  moreover have "upload_inv ext C oth name (recs @ chs) (srv1, c', l')"
    using inv1 tot upload_inv_frame(2) [of c' c1 ext C oth name "recs @ chs" srv1 l']
    by (simp add: c' l2_def) (simp add: upload_inv_def)
  moreover have "conn_frame oth name (length chs) (srv, c0) (srv1, c')"
    using loop_rel_conn_frame [OF rel grow, where name = name] by (simp add: conn_frame_def st) (simp add: c')
  moreover have "m_recipeNameHash c' = m_recipeNameHash c0" "m_done (m_containerQueue c') = m_done (m_containerQueue c0)"
    "m_done (m_recipeQueue c') = m_done (m_recipeQueue c0)" "m_outMsgBuffer c1 = m_outMsgBuffer c0"
    using rel by (simp_all add: loop_rel_def c')
  ultimately show ?thesis
    using q idx1 hdr by (intro exI [of _ srv1] exI [of _ c'] exI [of _ l'] conjI) simp_all
qed

lemma answered_indexed: "indexed ext srv (duplicates (zip chs (answer_flags ext srv chs)))"
  by (induction chs) (auto simp: indexed_def answer_flags_def)

text \<open>
  A message with the unique chunks of the last query and the next query: the chunks are recorded, the
  answer tells which chunks of the new query are not stored, and the invariant holds again.
\<close>

lemma conn_receive_part:
  assumes env: "env_ok ext N C" and rcv: "receiving ext C oth name recs chs fl (srv, c, l)"
    and uuid: "uuid_count srv + length chs \<le> N"
    and nx: "chunks_ok C next" "length next \<le> BATCHSIZE"
    and frame: "part_frame (x_evp ext) (uniques (zip chs fl)) next frame" and full: "full_chunks (uniques (zip chs fl))"
  shows "\<exists>srv' c' l' out. conn_receive ext frame (srv, c, Receiving l) = Inr ((srv', c', Receiving l'), out) \<and>
           receiving ext C oth name (recs @ chs) next (answer_flags ext srv' next) (srv', c', l') \<and>
           conn_frame oth name (length chs) (srv, c) (srv', c') \<and>
           (if next = [] then out = [] else \<exists>f. out = [f] \<and> flags_frame (answer_flags ext srv' next) f)"
proof -
  have U: "length (uniques (zip chs fl)) \<le> BATCHSIZE"
    using rcv le_trans [OF length_uniques] by (simp add: receiving_def queried_def)
  note load = load_part_frame [OF env frame full U nx(2)]
  obtain srv1 c1 l1 where run1: "receive_chunks ext (srv, load_in frame c, l) = Inr (srv1, c1, l1)"
    and inv1: "upload_inv ext C oth name (recs @ chs) (srv1, c1, l1)" and idx1: "indexed ext srv1 (recs @ chs)"
    and q1: "queried ext (gstore oth srv1 c1) next (answer_flags ext srv1 next) c1"
    and fr1: "conn_frame oth name (length chs) (srv, c) (srv1, c1)"
    and hdr1: "header (m_outMsgBuffer c1) = reply_header (length next) (header (m_outMsgBuffer c))"
    and sel1: "m_recipeNameHash c1 = name" "\<not> m_done (m_containerQueue c1)" "\<not> m_done (m_recipeQueue c1)"
    using receive_chunks_ok [OF env rcv uuid nx frame full] rcv unfolding receiving_def by auto
  have ty: "dataMsgType (header (m_outMsgBuffer c1)) = dataMsgType_val UPLOADBODYREP"
    using rcv by (simp add: receiving_def hdr1 reply_header_def)
  have "sizeof_DataMsg + length next < 2 ^ 64" using nx(2) by (simp add: config_values sizeofs)
  note n = unat_of_nat_small(2) [OF this]
  have n0: "(of_nat (length next) :: u64) = 0 \<longleftrightarrow> next = []"
    using nx(2) u64_of_nat_eq_0 [of "length next"] by (simp add: config_values)
  define out where "out = (if next = [] then [] else [msg_bytes (m_outMsgBuffer c1) (sizeof_DataMsg + length next)])"
  have "receive_file_body ext frame (srv, c, l) = Inr ((srv1, c1, l1), out, True)"
    using load(1,5) run1 ty n
    by (simp add: receive_file_body_def load_in_def [symmetric] hdr1 reply_header_def out_def Let_def n0
        del: of_nat_add)
  moreover obtain srv' c' l' d r cq rq where run2: "run_writers (srv1, c1, l1) = (srv', c', l')"
    and inv': "upload_inv ext C oth name (recs @ chs) (srv', c', l')" and dr: "drained c'"
    and st: "gstore oth srv' c' = gstore oth srv1 c1"
    and srv': "srv' = srv1\<lparr>containers_dir := d, recipes_dir := r\<rparr>" "\<forall>n. n \<noteq> name \<longrightarrow> r n = recipes_dir srv1 n"
    and c': "c' = c1\<lparr>m_containerQueue := cq, m_recipeQueue := rq\<rparr>"
      "m_done cq = m_done (m_containerQueue c1)" "m_done rq = m_done (m_recipeQueue c1)"
    using run_writers_ok [OF inv1 sel1(1)] by (elim exE conjE) (rule that; assumption)
  ultimately have run: "conn_receive ext frame (srv, c, Receiving l) = Inr ((srv', c', Receiving l'), out)"
    by (simp add: conn_receive_def)
  have fl: "answer_flags ext srv' next = answer_flags ext srv1 next" by (simp add: answer_flags_def srv')
  have "queried ext (gstore oth srv' c') next (answer_flags ext srv' next) c'"
    unfolding st fl using q1 queried_cong [of c' c1 ext] by (simp add: c')
  moreover have "indexed ext srv' ((recs @ chs) @ duplicates (zip next (answer_flags ext srv' next)))"
    using idx1 answered_indexed [of ext srv1 "next"] unfolding fl by (simp add: indexed_def srv' ball_Un)
  moreover have "chunks_ok C ((recs @ chs) @ next)" using rcv nx(1) by (auto simp: receiving_def chunks_ok_def)
  ultimately have "receiving ext C oth name (recs @ chs) next (answer_flags ext srv' next) (srv', c', l')"
    using inv' dr sel1 ty by (simp add: receiving_def) (simp add: c')
  moreover have "conn_frame oth name (length chs) (srv, c) (srv', c')"
    using fr1 srv'(2) unfolding conn_frame_def by (simp add: st) (simp add: srv' c')
  moreover have "flags_frame (answer_flags ext srv' next) (msg_bytes (m_outMsgBuffer c1) (sizeof_DataMsg + length next))"
    unfolding flags_frame_def fl using queried_flags [OF q1]
    by (intro exI [of _ "m_outMsgBuffer c1"]) (simp add: answer_flags_def)
  then have "if next = [] then out = [] else \<exists>f. out = [f] \<and> flags_frame (answer_flags ext srv' next) f"
    by (simp add: out_def)
  ultimately show ?thesis using run by blast
qed

section \<open>The end of the file\<close>

text \<open>
  \<open>idle\<close>: the connection waits for an order. \<open>file_stored\<close>: the recipe file holds the number of
  chunks and their addresses, and every address resolves.
\<close>

definition idle :: "'db ext \<Rightarrow> byte list set \<Rightarrow> cstore \<Rightarrow> 'db server \<times> conn \<Rightarrow> bool" where
  "idle ext C oth = (\<lambda>(srv, c).
     cont_inv ext oth srv c \<and> rec_ok c \<and> index_sound ext C (gstore oth srv c) (m_all_chunks srv) \<and> drained c \<and>
     occupied (m_containerBuffer c) = 0 \<and> rec_num (m_recipeBuffer c) = 0 \<and> hl_num (m_hashList c) = 0 \<and>
     m_duplicatedChunkAddr c = [] \<and> \<not> m_done (m_containerQueue c) \<and> \<not> m_done (m_recipeQueue c))"

definition file_stored :: "cstore \<Rightarrow> string \<Rightarrow> byte list list \<Rightarrow> 'db server \<times> conn \<Rightarrow> bool" where
  "file_stored oth name recs = (\<lambda>(srv, c).
     (\<exists>as. recipes_dir srv name = Some (u32_bytes (of_nat (length as)) @ concat (map enc_addr as)) \<and>
        list_all2 (resolves (gstore oth srv c)) as recs))"

lemma file_stored_frame:
  assumes "file_stored oth other recs s" "conn_frame oth name k s s'" "other \<noteq> name" "[] \<notin> set recs"
  shows "file_stored oth other recs s'"
proof -
  obtain srv c srv' c' where s: "s = (srv, c)" "s' = (srv', c')" by (cases s; cases s')
  obtain as where as: "recipes_dir srv other = Some (u32_bytes (of_nat (length as)) @ concat (map enc_addr as))"
    "list_all2 (resolves (gstore oth srv c)) as recs"
    using assms(1) by (auto simp: file_stored_def s)
  have "list_all2 (resolves (gstore oth srv' c')) as recs"
    using as(2) assms(2,4) resolves_list_keeps by (fastforce simp: conn_frame_def s)
  then show ?thesis using as(1) assms(2,3) by (auto simp: file_stored_def conn_frame_def s)
qed

lemma resolves_drop_empty: "resolves (st(k \<mapsto> [])) a ch \<Longrightarrow> ch \<noteq> [] \<Longrightarrow> resolves st a ch"
  by (auto simp: resolves_def split: if_splits)

lemma resolves_fresh: "resolves st a ch \<Longrightarrow> st k = None \<Longrightarrow> resolves (st(k \<mapsto> v)) a ch"
  by (auto simp: resolves_def)

text \<open>The containers on disk after the last one was queued and written.\<close>

definition flushed :: "conn \<Rightarrow> cstore \<Rightarrow> cstore" where
  "flushed c d = (if occupied (m_containerBuffer c) \<noteq> 0
     then d(containerID (m_containerBuffer c) \<mapsto> container_bytes (m_containerBuffer c)) else d)"

lemma flushed_resolves:
  assumes "drained c" "resolves (gstore oth srv c) a ch" "ch \<noteq> []"
  shows "resolves (oth ++ flushed c (containers_dir srv)) a ch"
proof (cases "occupied (m_containerBuffer c) = 0")
  case True
  then have "gstore oth srv c = (oth ++ containers_dir srv)(containerID (m_containerBuffer c) \<mapsto> [])"
    using assms(1) by (simp add: gstore_def drained_def container_bytes_def)
  then show ?thesis using assms(2,3) resolves_drop_empty True by (auto simp: flushed_def)
next
  case False
  then show ?thesis using assms(1,2) by (simp add: flushed_def gstore_def drained_def)
qed

lemma flushed_dom: "drained c \<Longrightarrow> dom (oth ++ flushed c (containers_dir srv)) \<subseteq> dom (gstore oth srv c)"
  by (auto simp: flushed_def gstore_def drained_def)

text \<open>Starting a new container on a store whose UUIDs are all older.\<close>

lemma reset_upload_ok:
  assumes env: "env_ok ext N C" and uuid: "uuid_count srv < N"
    and dom: "dom (oth ++ containers_dir srv) \<subseteq> x_uuid ext ` {..<uuid_count srv}"
    and sound: "index_sound ext C (oth ++ containers_dir srv) (m_all_chunks srv)"
    and c: "drained c" "bq_inv (m_containerQueue c)" "m_size (m_containerQueue c) = 1000"
      "bq_inv (m_recipeQueue c)" "m_size (m_recipeQueue c) = 1000" "m_duplicatedChunkAddr c = []"
  shows "\<exists>c'. reset_upload ext (srv, c) = Inr (srv\<lparr>uuid_count := uuid_count srv + 1\<rparr>, c') \<and>
           idle ext C oth (srv\<lparr>uuid_count := uuid_count srv + 1\<rparr>, c') \<and> m_client_info c' = m_client_info c \<and>
           store_keeps (oth ++ containers_dir srv) (gstore oth (srv\<lparr>uuid_count := uuid_count srv + 1\<rparr>) c')"
proof -
  define u where "u = uuid_count srv"
  define b where "b = \<lparr>containerID = x_uuid ext u, occupied = 0, capacity = CONTAINERSIZE, c_data = x_malloc ext\<rparr>"
  define srv' where "srv' = srv\<lparr>uuid_count := u + 1\<rparr>"
  define c' where "c' = c\<lparr>m_hashList := (m_hashList c)\<lparr>hl_num := 0\<rparr>, m_containerQueue := undone (m_containerQueue c),
    m_recipeQueue := undone (m_recipeQueue c), m_recipeNameHash := [], m_containerBuffer := b,
    m_recipeBuffer := \<lparr>rec_num = 0, rec_data = x_malloc ext\<rparr>\<rparr>"
  have id: "length (x_uuid ext u) < 40" "no_nul (x_uuid ext u)"
    using env uuid by (simp_all add: env_ok_def u_def)
  have "x_uuid ext u \<notin> x_uuid ext ` {..<u}"
    using env uuid inj_on_image_mem_iff [of "x_uuid ext" "{..<N}" u "{..<u}"]
    by (simp add: env_ok_def subset_eq u_def)
  then have fresh: "(oth ++ containers_dir srv) (x_uuid ext u) = None"
    using dom by (metis domIff in_mono u_def)
  have st: "gstore oth srv' c' = (oth ++ containers_dir srv)(x_uuid ext u \<mapsto> [])"
    using c(1) by (simp add: gstore_def srv'_def c'_def b_def drained_def undone_def container_bytes_def)
  have "index_sound ext C (gstore oth srv' c') (m_all_chunks srv')"
    unfolding st using sound resolves_fresh [where st = "oth ++ containers_dir srv", OF _ fresh]
    by (simp add: index_sound_def srv'_def) blast
  moreover have "dom (gstore oth srv' c') \<subseteq> x_uuid ext ` {..<u + 1}"
    unfolding st using dom by (auto simp: u_def lessThan_Suc)
  ultimately have "idle ext C oth (srv', c')"
    using c id by (simp add: idle_def cont_inv_def rec_ok_def drained_def bq_inv_def undone_def c'_def b_def srv'_def)
  moreover have "reset_upload ext (srv, c) = Inr (srv', c')"
    using id by (simp add: reset_upload_def new_container_def new_recipe_def Let_def srv'_def c'_def b_def u_def)
  moreover have "store_keeps (oth ++ containers_dir srv) (gstore oth srv' c')"
    unfolding st store_keeps_def using resolves_fresh [where st = "oth ++ containers_dir srv", OF _ fresh] by blast
  ultimately show ?thesis by (auto simp: srv'_def u_def c'_def)
qed

lemma receive_fileend_eq:
  assumes "drained c" "bq_inv (m_containerQueue c)" "m_size (m_containerQueue c) = 1000"
    "bq_inv (m_recipeQueue c)" "m_size (m_recipeQueue c) = 1000"
  shows "\<exists>cq rq. receive_fileend c = Inr (set_out_type FILEEND (c\<lparr>m_containerQueue := cq, m_recipeQueue := rq\<rparr>)) \<and>
     m_queue cq = (if occupied (m_containerBuffer c) \<noteq> 0 then [m_containerBuffer c] else []) \<and>
     m_queue rq = [m_recipeBuffer c] \<and> bq_inv cq \<and> bq_inv rq \<and> m_size cq = 1000 \<and> m_size rq = 1000"
proof -
  let ?cq = "if occupied (m_containerBuffer c) \<noteq> 0
    then (m_containerQueue c)\<lparr>m_queue := [m_containerBuffer c], m_isEmpty := False\<rparr> else m_containerQueue c"
  let ?rq = "(m_recipeQueue c)\<lparr>m_queue := [m_recipeBuffer c], m_isEmpty := False\<rparr>"
  have "receive_fileend c = Inr (set_out_type FILEEND (c\<lparr>m_containerQueue := ?cq, m_recipeQueue := ?rq\<rparr>))"
    using assms by (simp add: receive_fileend_def insert_container_queue_def insert_recipe_queue_def push_def
        drained_def)
  then show ?thesis
    using assms by (intro exI [of _ ?cq] exI [of _ ?rq]) (simp add: drained_def bq_inv_def)
qed

text \<open>After \<open>FILEEND\<close> and the join of both threads: disk, recipe and count.\<close>

lemma receive_file_end_writes:
  assumes w: "recipes_dir srv name = Some (u32_bytes 0 @ w)" and name: "m_recipeNameHash c = name"
    and rq: "m_queue (m_recipeQueue c) = [r]" and inv: "bq_inv (m_containerQueue c)" "bq_inv (m_recipeQueue c)"
  shows "\<exists>cq rq. receive_file_end ext (srv, c, l) = reset_upload ext
      (srv\<lparr>containers_dir := queue_store (m_queue (m_containerQueue c)) (containers_dir srv),
           recipes_dir := (recipes_dir srv)(name \<mapsto>
             u32_bytes (rw_totalChunkNum l + of_nat (rec_num r)) @ w @ recipe_block_bytes r)\<rparr>,
       c\<lparr>m_containerQueue := cq, m_recipeQueue := rq\<rparr>) \<and>
     m_queue cq = [] \<and> m_queue rq = [] \<and> bq_inv cq \<and> bq_inv rq \<and>
     m_size cq = m_size (m_containerQueue c) \<and> m_size rq = m_size (m_recipeQueue c)"
proof -
  obtain cq rq' where run: "run_writers (srv, c, l) =
    (srv\<lparr>containers_dir := queue_store (m_queue (m_containerQueue c)) (containers_dir srv),
         recipes_dir := (recipes_dir srv)(name \<mapsto> (u32_bytes 0 @ w) @ concat (map recipe_block_bytes [r]))\<rparr>,
     c\<lparr>m_containerQueue := cq, m_recipeQueue := rq'\<rparr>,
     l\<lparr>rw_totalChunkNum := rw_totalChunkNum l + of_nat (sum_list (map rec_num [r]))\<rparr>)"
    and q: "m_queue cq = []" "m_queue rq' = []" "m_size cq = m_size (m_containerQueue c)"
      "m_size rq' = m_size (m_recipeQueue c)" "bq_inv cq" "bq_inv rq'"
    using run_writers_eq [of srv c, unfolded name, OF w, of l] inv unfolding rq by auto
  have "receive_file_end ext (srv, c, l) = reset_upload ext
      (srv\<lparr>containers_dir := queue_store (m_queue (m_containerQueue c)) (containers_dir srv),
           recipes_dir := (recipes_dir srv)(name \<mapsto>
             u32_bytes (rw_totalChunkNum l + of_nat (rec_num r)) @ w @ recipe_block_bytes r)\<rparr>,
       c\<lparr>m_containerQueue := cq, m_recipeQueue := rq'\<rparr>)"
    by (simp add: receive_file_end_def run write_recipe_close_def name cong: if_cong)
  then show ?thesis using q by (intro exI [of _ cq] exI [of _ rq']) simp
qed

text \<open>On \<open>FILEEND\<close> everything goes to disk and the connection is reset.\<close>

definition ended :: "string \<Rightarrow> ChunkAddr_t list \<Rightarrow> conn \<Rightarrow> 'db server \<Rightarrow> 'db server" where
  "ended name as c srv = srv\<lparr>containers_dir := flushed c (containers_dir srv),
     recipes_dir := (recipes_dir srv)(name \<mapsto> u32_bytes (of_nat (length as)) @ concat (map enc_addr as))\<rparr>"

lemma fileend_reaches_reset:
  assumes rcv: "receiving ext C oth name recs [] fl (srv, c, l)" and frame: "end_frame frame"
  shows "\<exists>as c2. conn_receive ext frame (srv, c, Receiving l) =
        bindR (reset_upload ext (ended name as c srv, c2)) (\<lambda>(srv, c). Inr ((srv, c, AwaitOrder), [])) \<and>
      list_all2 (resolves (gstore oth srv c)) as recs \<and> drained c2 \<and> m_client_info c2 = m_client_info c \<and>
      bq_inv (m_containerQueue c2) \<and> m_size (m_containerQueue c2) = 1000 \<and>
      bq_inv (m_recipeQueue c2) \<and> m_size (m_recipeQueue c2) = 1000 \<and> m_duplicatedChunkAddr c2 = []"
proof -
  have inv: "cont_inv ext oth srv c" "rec_ok c" "drained c" "m_recipeNameHash c = name" "m_duplicatedChunkAddr c = []"
    using rcv by (simp_all add: receiving_def upload_inv_def queried_def)
  obtain w as where w: "recipes_dir srv name = Some (u32_bytes 0 @ w)" "w @ recipe_pending c = concat (map enc_addr as)"
    "list_all2 (resolves (gstore oth srv c)) as recs"
    "rw_totalChunkNum l + of_nat (pending_count c) = of_nat (length as)"
    using rcv by (auto simp: receiving_def upload_inv_def recipe_inv_def)
  define r where "r = m_recipeBuffer c"
  have wr: "w @ recipe_block_bytes r = concat (map enc_addr as)" "rw_totalChunkNum l + of_nat (rec_num r) = of_nat (length as)"
    using w inv(3) by (simp_all add: r_def recipe_pending_def pending_count_def drained_def)
  obtain cq rq where fe: "receive_fileend (load_in frame c) =
      Inr (set_out_type FILEEND ((load_in frame c)\<lparr>m_containerQueue := cq, m_recipeQueue := rq\<rparr>))"
    and q: "m_queue cq = (if occupied (m_containerBuffer c) \<noteq> 0 then [m_containerBuffer c] else [])"
      "m_queue rq = [r]" "bq_inv cq" "bq_inv rq" "m_size cq = 1000" "m_size rq = 1000"
    using receive_fileend_eq [of "load_in frame c"] inv(1-3) by (auto simp: cont_inv_def rec_ok_def r_def)
  define c1 where "c1 = (set_out_type FILEEND ((load_in frame c)\<lparr>m_containerQueue := cq, m_recipeQueue := rq\<rparr>))
    \<lparr>m_containerQueue := set_done cq, m_recipeQueue := set_done rq\<rparr>"
  have hdr: "length frame \<le> sizeof_DataMsg + in_capacity"
    "dataMsgType (header (m_inMsgBuffer (load_in frame c))) = dataMsgType_val FILEEND"
    using frame by (auto simp: end_frame_def load_in_def codec_simps)
  have body: "receive_file_body ext frame (srv, c, l) = Inr ((srv, c1, l), [], False)"
    using hdr fe by (simp add: receive_file_body_def load_in_def [symmetric] Let_def c1_def)
      (simp add: set_out_type_def)
  have c1: "m_recipeNameHash c1 = name" "m_queue (m_recipeQueue c1) = [r]" "bq_inv (m_containerQueue c1)"
    "bq_inv (m_recipeQueue c1)"
    "queue_store (m_queue (m_containerQueue c1)) (containers_dir srv) = flushed c (containers_dir srv)"
    using inv(4) q by (simp_all add: c1_def set_done_def set_out_type_def bq_inv_def flushed_def queue_store_def)
  obtain cq' rq' where fin: "receive_file_end ext (srv, c1, l) =
      reset_upload ext (ended name as c srv, c1\<lparr>m_containerQueue := cq', m_recipeQueue := rq'\<rparr>)"
    and q': "m_queue cq' = []" "m_queue rq' = []" "bq_inv cq'" "bq_inv rq'" "m_size cq' = 1000" "m_size rq' = 1000"
    using receive_file_end_writes [OF w(1) c1(1-4), of ext l] q
    unfolding c1(5) wr ended_def by (auto simp: c1_def set_done_def)
  then show ?thesis
    using body w(3) inv(5)
    by (intro exI [of _ as] exI [of _ "c1\<lparr>m_containerQueue := cq', m_recipeQueue := rq'\<rparr>"])
       (simp add: conn_receive_def c1_def set_out_type_def drained_def)
qed

text \<open>
  \<open>FILEEND\<close> after a query without chunks: the connection waits for orders again and the file is stored.
\<close>

lemma conn_receive_end:
  assumes env: "env_ok ext N C" and rcv: "receiving ext C oth name recs [] fl (srv, c, l)"
    and uuid: "uuid_count srv < N" and frame: "end_frame frame"
  shows "\<exists>srv' c'. conn_receive ext frame (srv, c, Receiving l) = Inr ((srv', c', AwaitOrder), []) \<and>
           idle ext C oth (srv', c') \<and> file_stored oth name recs (srv', c') \<and> indexed ext srv' recs \<and>
           conn_frame oth name 1 (srv, c) (srv', c')"
proof -
  have inv: "cont_inv ext oth srv c" "drained c" "chunks_ok C recs" "indexed ext srv recs"
      "index_sound ext C (gstore oth srv c) (m_all_chunks srv)"
    using rcv by (simp_all add: receiving_def upload_inv_def chunks_ok_def indexed_def)
  obtain as c2 where run: "conn_receive ext frame (srv, c, Receiving l) =
        bindR (reset_upload ext (ended name as c srv, c2)) (\<lambda>(srv, c). Inr ((srv, c, AwaitOrder), []))"
    and as: "list_all2 (resolves (gstore oth srv c)) as recs" and info: "m_client_info c2 = m_client_info c"
    and c2: "drained c2" "bq_inv (m_containerQueue c2)" "m_size (m_containerQueue c2) = 1000"
      "bq_inv (m_recipeQueue c2)" "m_size (m_recipeQueue c2) = 1000" "m_duplicatedChunkAddr c2 = []"
    using fileend_reaches_reset [OF rcv frame] by blast
  define srv1 where "srv1 = ended name as c srv"
  have nonempty: "[] \<notin> C" using env by (simp add: env_ok_def)
  have keep1: "store_keeps (gstore oth srv c) (oth ++ containers_dir srv1)"
    using flushed_resolves [OF inv(2), of oth srv] by (simp add: store_keeps_def srv1_def ended_def)
  have "index_sound ext C (oth ++ containers_dir srv1) (m_all_chunks srv1)"
    using index_sound_keeps [OF keep1 nonempty inv(5)] by (simp add: srv1_def ended_def)
  moreover have "dom (oth ++ containers_dir srv1) \<subseteq> x_uuid ext ` {..<uuid_count srv1}"
    using subset_trans [OF flushed_dom [OF inv(2), of oth srv]] inv(1)
    by (simp add: cont_inv_def srv1_def ended_def del: dom_map_add)
  ultimately obtain c' where reset: "reset_upload ext (srv1, c2) = Inr (srv1\<lparr>uuid_count := uuid_count srv1 + 1\<rparr>, c')"
    and idle: "idle ext C oth (srv1\<lparr>uuid_count := uuid_count srv1 + 1\<rparr>, c')" and info': "m_client_info c' = m_client_info c2"
    and keep2: "store_keeps (oth ++ containers_dir srv1) (gstore oth (srv1\<lparr>uuid_count := uuid_count srv1 + 1\<rparr>) c')"
    using reset_upload_ok [OF env _ _ _ c2, of srv1 oth] uuid by (auto simp: srv1_def ended_def)
  define srv' where "srv' = srv1\<lparr>uuid_count := uuid_count srv1 + 1\<rparr>"
  have keep: "store_keeps (gstore oth srv c) (gstore oth srv' c')"
    using keep1 keep2 store_keeps_trans unfolding srv'_def by blast
  have "list_all2 (resolves (gstore oth srv' c')) as recs"
    using resolves_list_keeps [OF keep _ as] inv(3) nonempty by (auto simp: chunks_ok_def)
  then have "file_stored oth name recs (srv', c')"
    by (auto simp: file_stored_def) (auto simp: srv'_def srv1_def ended_def)
  moreover have "conn_frame oth name 1 (srv, c) (srv', c')"
    unfolding conn_frame_def using keep info info' by (simp add: srv'_def srv1_def ended_def)
  moreover have "indexed ext srv' recs" using inv(4) by (simp add: indexed_def srv'_def srv1_def ended_def)
  ultimately show ?thesis using run reset idle by (auto simp: srv1_def srv'_def)
qed

section \<open>The request\<close>

definition recipe_key :: "'db ext \<Rightarrow> u32 \<Rightarrow> string \<Rightarrow> string" where
  "recipe_key ext cid fileName = chunk_key ext (str_bytes (recipe_name cid fileName))"

lemma recipe_file_eq: "env_ok ext N C \<Longrightarrow> recipe_file ext cid fn = Inr (recipe_key ext cid fn)"
  by (simp add: recipe_file_def recipe_key_def chunk_key_def env_ok_def generate_hash_total)

text \<open>The database is as the server expects it and has a free connection.\<close>

definition db_ready ::
    "'db ext \<Rightarrow> ('db \<Rightarrow> int \<Rightarrow> string \<Rightarrow> nat) \<Rightarrow> (string \<Rightarrow> string \<Rightarrow> bool) \<Rightarrow> 'db server \<Rightarrow> bool" where
  "db_ready ext rows same srv \<longleftrightarrow> mysql_files (x_exec ext) rows same \<and>
     pool_ok (m_mysqlPool srv) \<and> m_connpool (m_mysqlPool srv) \<noteq> []"

lemma db_ready_frame: "m_mysqlPool srv' = m_mysqlPool srv \<Longrightarrow> db_ready ext rows same srv' = db_ready ext rows same srv"
  by (simp add: db_ready_def)

definition name_ok :: "string \<Rightarrow> bool" where
  "name_ok fn \<longleftrightarrow> plain_name fn \<and> length fn \<le> 190"

lemma idle_receiving:
  assumes "idle ext C oth (srv, c)"
    and "m_all_chunks srv' = m_all_chunks srv" "containers_dir srv' = containers_dir srv" "uuid_count srv' = uuid_count srv"
    and "recipes_dir srv' name = Some (u32_bytes 0)"
    and "c' = (set_out_type UPLOADBODYREP c)\<lparr>m_recipeNameHash := name\<rparr>"
  shows "receiving ext C oth name [] [] [] (srv', c', upload_start a)"
proof -
  have st: "gstore oth srv' c' = gstore oth srv c"
    using assms by (simp add: gstore_def set_out_type_def)
  have "recipe_inv (gstore oth srv' c') name [] srv' c' 0"
    using assms(1,5,6) by (simp add: recipe_inv_def idle_def drained_def recipe_pending_def pending_count_def
        set_out_type_def recipe_block_bytes_def)
  moreover have "cont_inv ext oth srv' c'"
    unfolding cont_inv_def st using assms(1,4) by (simp add: assms(6) idle_def cont_inv_def set_out_type_def)
  moreover have "index_sound ext C (gstore oth srv' c') (m_all_chunks srv')" "rec_ok c'"
    unfolding st using assms(1,2) by (simp_all add: assms(6) idle_def rec_ok_def set_out_type_def)
  ultimately have "upload_inv ext C oth name [] (srv', c', upload_start a)"
    by (simp add: upload_inv_def upload_start_def)
  then show ?thesis
    using assms(1) by (simp add: receiving_def) (simp add: assms(6) idle_def set_out_type_def drained_def
        queried_def chunks_ok_def indexed_def)
qed

text \<open>A request to upload a new file: it is entered in the file table and the upload starts.\<close>

lemma conn_receive_upload:
  assumes env: "env_ok ext N C" and idle: "idle ext C oth (srv, c)" and db: "db_ready ext rows same srv"
    and name: "name_ok fn" and new: "rows (m_db srv) (sint cid) fn = 0" and cid: "client_id (m_client_info c) = cid"
    and req: "receive_control_msg (x_malloc ext) frame [] 0 = Inr (order_val UPLOAD, fn, st)"
  shows "\<exists>srv' c' l. conn_receive ext frame (srv, c, AwaitOrder) =
           Inr ((srv', c', Receiving l), [send_control_message (x_malloc ext) UPLOADREP [] UNIQUE]) \<and>
         receiving ext C oth (recipe_key ext cid fn) [] [] [] (srv', c', l) \<and> db_ready ext rows same srv' \<and>
         m_db srv' = fst (x_exec ext (m_db srv) (insert_query cid fn)) \<and>
         conn_frame oth (recipe_key ext cid fn) 0 (srv\<lparr>m_db := m_db srv', m_mysqlPool := m_mysqlPool srv'\<rparr>, c) (srv', c')"
proof -
  define k where "k = recipe_key ext cid fn"
  have nm: "plain_name fn" "length fn \<le> 190" using name by (simp_all add: name_ok_def)
  have my: "mysql_files (x_exec ext) rows same" "pool_ok (m_mysqlPool srv)" "m_connpool (m_mysqlPool srv) \<noteq> []"
    using db by (simp_all add: db_ready_def)
  obtain p where uq: "isFileUnique ext cid fn srv = Inr (True, srv\<lparr>m_mysqlPool := p\<rparr>)"
    and p: "pool_ok p" "m_connpool p \<noteq> []"
    using isFileUnique_Inr [OF my(1) nm my(2,3), of cid] new by auto
  define ins where "ins = fst (x_exec ext (m_db srv) (insert_query cid fn))"
  obtain p' where add: "addFile ext cid fn (srv\<lparr>m_mysqlPool := p\<rparr>) = Inr (srv\<lparr>m_db := ins, m_mysqlPool := p'\<rparr>)"
    and p': "pool_ok p'" "m_connpool p' \<noteq> []"
    using addFile_Inr [OF nm(2), of "srv\<lparr>m_mysqlPool := p\<rparr>" ext cid] p by (auto simp: ins_def)
  define srv' where "srv' = write_recipe_open k (srv\<lparr>m_db := ins, m_mysqlPool := p'\<rparr>)"
  define c' where "c' = (set_out_type UPLOADBODYREP c)\<lparr>m_recipeNameHash := k\<rparr>"
  define l where "l = upload_start (dec_addr (mem_read (x_malloc ext) 0 56))"
  have "set_out_type UPLOADBODYREP (c\<lparr>m_recipeNameHash := k\<rparr>) = c'"
    by (simp add: c'_def set_out_type_def)
  then have run: "conn_receive ext frame (srv, c, AwaitOrder) =
      Inr ((srv', c', Receiving l), [send_control_message (x_malloc ext) UPLOADREP [] UNIQUE])"
    using req uq add recipe_file_eq [OF env, of cid fn]
    by (simp add: conn_receive_def handle_order_def order_of_def receive_file_begin_def cid Let_def k_def srv'_def l_def)
  have "receiving ext C oth k [] [] [] (srv', c', l)"
    unfolding l_def by (rule idle_receiving [OF idle]) (simp_all add: srv'_def c'_def write_recipe_open_def)
  moreover have "db_ready ext rows same srv'"
    using my(1) p' by (simp add: db_ready_def srv'_def write_recipe_open_def)
  moreover have "gstore oth srv' c' = gstore oth (srv\<lparr>m_db := m_db srv', m_mysqlPool := m_mysqlPool srv'\<rparr>) c"
    by (simp add: gstore_def srv'_def c'_def write_recipe_open_def set_out_type_def)
  then have "conn_frame oth k 0 (srv\<lparr>m_db := m_db srv', m_mysqlPool := m_mysqlPool srv'\<rparr>, c) (srv', c')"
    unfolding conn_frame_def by (simp add: store_keeps_def) (simp add: srv'_def c'_def write_recipe_open_def set_out_type_def)
  moreover have "m_db srv' = ins" by (simp add: srv'_def write_recipe_open_def)
  ultimately show ?thesis using run unfolding k_def ins_def by blast
qed

end
