(* ===== verification/ClientConn_Download.thy ===== *)
theory ClientConn_Download
  imports ClientConn_Session
begin

text \<open>
  Correctness of a download on the server (\<^verbatim>\<open>ClientConn::send_file\<close>): the data messages carry the
  chunks of the recipe in order, in batches of \<open>BATCHSIZE\<close>.
\<close>

section \<open>Reading a recipe\<close>

lemma addr_slice:
  "i < length as \<Longrightarrow> take 56 (drop (i * 56) (concat (map enc_addr as))) = enc_addr (as ! i)"
  using concat_slice [of "map enc_addr as" 56 i] by simp

lemma enc_addr_not_Nil [simp]: "enc_addr a \<noteq> []"
  using length_enc_addr [of a] by (cases "enc_addr a") simp_all

lemma length_addrs [simp]: "length (concat (map enc_addr as)) = length as * 56"
  using length_concat_const [of "map enc_addr as" 56] by simp

lemma batch_addrs_written:
  assumes "\<forall>a \<in> set as. addr_ok a"
  shows "batch_addrs (mem_write m 0 (concat (map enc_addr as))) (length as) = as"
proof (rule nth_equalityI)
  show "length (batch_addrs (mem_write m 0 (concat (map enc_addr as))) (length as)) = length as"
    by (simp add: batch_addrs_def)
  fix i assume "i < length (batch_addrs (mem_write m 0 (concat (map enc_addr as))) (length as))"
  then have i: "i < length as" by (simp add: batch_addrs_def)
  then have "i * 56 + 56 \<le> length as * 56" by simp
  then have "mem_read (mem_write m 0 (concat (map enc_addr as))) (i * 56) 56 = enc_addr (as ! i)"
    using i by (simp add: mem_read_write_within addr_slice)
  then show "batch_addrs (mem_write m 0 (concat (map enc_addr as))) (length as) ! i = as ! i"
    using i assms by (simp add: batch_addrs_def sizeof_ChunkAddr_def codec_simps)
qed

lemma take_drop_addrs:
  "take (56 * n) (concat (map enc_addr as)) = concat (map enc_addr (take n as))"
  "drop (56 * n) (concat (map enc_addr as)) = concat (map enc_addr (drop n as))"
proof (induction n arbitrary: as)
  case (Suc n)
  { case 1 then show ?case using Suc by (cases as) simp_all }
  { case 2 then show ?case using Suc by (cases as) simp_all }
qed simp_all

section \<open>Reading the chunks\<close>

lemma read_container_resolves: "resolves (containers_dir srv) a ch \<Longrightarrow> read_container srv a = ch"
  by (auto simp: resolves_def read_container_def)

lemma resolves_addr_ok: "list_all2 (resolves st) as chs \<Longrightarrow> \<forall>a \<in> set as. addr_ok a"
  by (auto simp: list_all2_conv_all_nth in_set_conv_nth resolves_def)

lemma read_chunks_ok:
  assumes "list_all2 (resolves (containers_dir srv)) as chs" "off + length (concat chs) \<le> out_capacity"
  shows "\<exists>m'. read_chunks srv as (m, off) = Inr (m', off + length (concat chs)) \<and>
           mem_read m' 0 (off + length (concat chs)) = mem_read m 0 off @ concat chs"
  using assms
proof (induction as chs arbitrary: m off rule: list_all2_induct)
  case Nil
  then show ?case by simp
next
  case (Cons a as ch chs)
  have rd: "read_container srv a = ch" "unat (ca_size a) = length ch"
    using Cons.hyps(1) by (simp_all add: read_container_resolves) (simp add: resolves_def)
  obtain m' where "read_chunks srv as (mem_write m off ch, off + length ch) =
      Inr (m', off + length ch + length (concat chs))"
    "mem_read m' 0 (off + length ch + length (concat chs)) =
       mem_read (mem_write m off ch) 0 (off + length ch) @ concat chs"
    using Cons.IH [of "off + length ch" "mem_write m off ch"] Cons.prems by auto
  then show ?case using rd Cons.prems by (simp add: mem_read_snoc_write add.assoc)
qed

section \<open>The data messages\<close>

text \<open>Sending changes nothing of a connection but its address buffer and its output buffer.\<close>

definition out_only :: "conn \<Rightarrow> conn \<Rightarrow> bool" where
  "out_only c c' \<longleftrightarrow> c' = c\<lparr>m_chunkAddrs := m_chunkAddrs c', m_outMsgBuffer := m_outMsgBuffer c'\<rparr>"

lemma out_only_simps [simp]: "out_only c c" "out_only c (c\<lparr>m_chunkAddrs := m, m_outMsgBuffer := b\<rparr>)"
  "out_only c (c\<lparr>m_outMsgBuffer := b\<rparr>)"
  by (simp_all add: out_only_def)

lemma out_only_trans: "out_only a b \<Longrightarrow> out_only b c \<Longrightarrow> out_only a c"
  by (cases a; cases b; cases c) (simp add: out_only_def)

lemma send_batch_ok:
  assumes as: "list_all2 (resolves (containers_dir srv)) as chs" and n: "length as \<le> BATCHSIZE"
    and sz: "\<forall>ch \<in> set chs. length ch \<le> CHUNKSIZE"
    and ty: "dataMsgType (header (m_outMsgBuffer c)) = dataMsgType_val DOWNLOADBODY"
  shows "\<exists>c' frame. send_batch srv (concat (map enc_addr as)) c = Inr (c', frame) \<and> data_frame (concat chs) frame \<and>
           out_only c c' \<and> dataMsgType (header (m_outMsgBuffer c')) = dataMsgType_val DOWNLOADBODY"
proof -
  define D where "D = length (concat chs)"
  have "length chs * CHUNKSIZE \<le> BATCHSIZE * CHUNKSIZE"
    using n list_all2_lengthD [OF as] by simp
  then have D: "D \<le> out_capacity"
    using concat_bound [OF sz] unfolding D_def out_capacity_def by (metis le_trans mult.commute)
  define mm where "mm = mem_write (m_chunkAddrs c) 0 (concat (map enc_addr as))"
  obtain m' where rd: "read_chunks srv as (msg_data (m_outMsgBuffer c), 0) = Inr (m', D)"
    and m': "mem_read m' 0 D = concat chs"
    using read_chunks_ok [OF as, of 0 "msg_data (m_outMsgBuffer c)"] D by (auto simp: D_def)
  have addrs: "batch_addrs mm (length as) = as"
    using batch_addrs_written [OF resolves_addr_ok [OF as]] by (simp add: mm_def)
  define o' where "o' = (m_outMsgBuffer c)\<lparr>msg_data := m', header := (header (m_outMsgBuffer c))
      \<lparr>hdr_chunkNum := of_nat (length as), hdr_size := of_nat (sizeof_DataMsg + D)\<rparr>\<rparr>"
  have "sizeof_DataMsg + D < 2 ^ 64" using D by (simp add: capacities sizeofs)
  note sz64 = unat_of_nat_small(2) [OF this]
  have "send_batch srv (concat (map enc_addr as)) c =
      Inr (c\<lparr>m_chunkAddrs := mm, m_outMsgBuffer := o'\<rparr>, msg_bytes o' (sizeof_DataMsg + D))"
    using rd addrs sz64 D
    by (simp add: send_batch_def Let_def mm_def [symmetric] sizeof_ChunkAddr_def o'_def del: of_nat_add)
  moreover have "data_frame (concat chs) (msg_bytes o' (sizeof_DataMsg + D))"
    unfolding data_frame_def using m' ty by (intro exI [of _ o']) (simp add: o'_def D_def)
  ultimately show ?thesis
    using ty by (intro exI [of _ "c\<lparr>m_chunkAddrs := mm, m_outMsgBuffer := o'\<rparr>"]) (simp add: o'_def)
qed

lemma send_batches_ok:
  assumes "list_all2 (resolves (containers_dir srv)) as chs" "\<forall>ch \<in> set chs. length ch \<le> CHUNKSIZE"
    "dataMsgType (header (m_outMsgBuffer c)) = dataMsgType_val DOWNLOADBODY"
  shows "\<exists>c' dats frames. send_batches srv (concat (map enc_addr as)) c = Inr (c', frames) \<and>
           list_all2 data_frame dats frames \<and> concat dats = concat chs \<and> list_all (\<lambda>d. length d \<le> out_capacity) dats \<and>
           out_only c c'"
  using assms
proof (induction "length as" arbitrary: as chs c rule: less_induct)
  case less
  show ?case
  proof (cases "as = []")
    case True
    then show ?thesis
      using less.prems(1) by (intro exI [of _ c] exI [of _ "[]"]) (simp add: send_batches.simps)
  next
    case False
    let ?B = BATCHSIZE
    have blk: "take (sizeof_ChunkAddr * ?B) (concat (map enc_addr as)) = concat (map enc_addr (take ?B as))"
      "drop (sizeof_ChunkAddr * ?B) (concat (map enc_addr as)) = concat (map enc_addr (drop ?B as))"
      by (simp_all add: sizeof_ChunkAddr_def take_drop_addrs)
    have res: "list_all2 (resolves (containers_dir srv)) (take ?B as) (take ?B chs)"
      "list_all2 (resolves (containers_dir srv)) (drop ?B as) (drop ?B chs)"
      using less.prems(1) by (simp_all add: list_all2_takeI list_all2_dropI)
    have sz: "\<forall>ch \<in> set (take ?B chs). length ch \<le> CHUNKSIZE" "\<forall>ch \<in> set (drop ?B chs). length ch \<le> CHUNKSIZE"
      using less.prems(2) by (auto dest: in_set_takeD in_set_dropD)
    obtain c1 f where one: "send_batch srv (concat (map enc_addr (take ?B as))) c = Inr (c1, f)"
      and df: "data_frame (concat (take ?B chs)) f"
      and c1: "out_only c c1" "dataMsgType (header (m_outMsgBuffer c1)) = dataMsgType_val DOWNLOADBODY"
      using send_batch_ok [OF res(1) _ sz(1) less.prems(3)] by auto
    have "length (drop ?B as) < length as" using False by (simp add: config_values)
    then obtain c' dats frames where rest: "send_batches srv (concat (map enc_addr (drop ?B as))) c1 = Inr (c', frames)"
      and dats: "list_all2 data_frame dats frames" "concat dats = concat (drop ?B chs)"
        "list_all (\<lambda>d. length d \<le> out_capacity) dats"
      and c': "out_only c1 c'"
      using less.hyps [OF _ res(2) sz(2), of c1] c1 by auto
    have "length (concat (take ?B chs)) \<le> length (take ?B chs) * CHUNKSIZE" using sz(1) by (rule concat_bound)
    also have "\<dots> \<le> out_capacity" by (simp add: out_capacity_def config_values)
    finally have cap: "length (concat (take ?B chs)) \<le> out_capacity" .
    have "concat (map enc_addr (take ?B as)) \<noteq> []"
      using False by (cases as) (auto simp: BATCHSIZE_def)
    then have "send_batches srv (concat (map enc_addr as)) c = Inr (c', f # frames)"
      by (subst send_batches.simps) (simp add: blk one rest Let_def)
    moreover have "concat (concat (take ?B chs) # dats) = concat chs"
      using dats(2) by (simp flip: concat_append)
    ultimately show ?thesis
      using df dats(1,3) cap out_only_trans [OF c1(1) c']
      by (intro exI [of _ c'] exI [of _ "concat (take ?B chs) # dats"] exI [of _ "f # frames"]) simp
  qed
qed

section \<open>Download requests\<close>

lemma idle_frame:
  assumes "idle ext C oth (srv, c)" "out_only c c'" "srv' = srv\<lparr>m_mysqlPool := p\<rparr>"
  shows "idle ext C oth (srv', c'\<lparr>m_recipeNameHash := n\<rparr>)"
    and "gstore oth srv' (c'\<lparr>m_recipeNameHash := n\<rparr>) = gstore oth srv c"
    and "m_client_info c' = m_client_info c"
proof -
  obtain m b where c': "c' = c\<lparr>m_chunkAddrs := m, m_outMsgBuffer := b\<rparr>" using assms(2) by (auto simp: out_only_def)
  show st: "gstore oth srv' (c'\<lparr>m_recipeNameHash := n\<rparr>) = gstore oth srv c" by (simp add: gstore_def c' assms(3))
  show "idle ext C oth (srv', c'\<lparr>m_recipeNameHash := n\<rparr>)"
    using assms(1) unfolding idle_def cont_inv_def prod.case st by (simp add: c' assms(3) rec_ok_def drained_def)
  show "m_client_info c' = m_client_info c" by (simp add: c')
qed

lemma idle_stored_on_disk:
  assumes "idle ext C Map.empty (srv, c)" "file_stored Map.empty k recs (srv, c)" "[] \<notin> set recs"
  shows "\<exists>as. recipes_dir srv k = Some (u32_bytes (of_nat (length as)) @ concat (map enc_addr as)) \<and>
           list_all2 (resolves (containers_dir srv)) as recs"
proof -
  have "gstore Map.empty srv c = (containers_dir srv)(containerID (m_containerBuffer c) \<mapsto> [])"
    using assms(1) by (simp add: gstore_def idle_def drained_def container_bytes_def)
  then have "store_keeps (gstore Map.empty srv c) (containers_dir srv)"
    by (auto simp: store_keeps_def dest: resolves_drop_empty)
  then show ?thesis
    using assms(2,3) resolves_list_keeps by (fastforce simp: file_stored_def)
qed

text \<open>A request for a stored file: the data messages carry the file.\<close>

lemma conn_receive_download_disk:
  assumes env: "env_ok ext N C" and idle: "idle ext C oth (srv, c)" and db: "db_ready ext rows same srv"
    and name: "name_ok fn" and found: "0 < rows (m_db srv) (sint cid) fn" "rows (m_db srv) (sint cid) fn < 2 ^ 32"
    and cid: "client_id (m_client_info c) = cid"
    and req: "receive_control_msg (x_malloc ext) frame [] 0 = Inr (order_val DOWNLOAD, fn, st)"
    and disk: "recipes_dir srv (recipe_key ext cid fn) = Some (u32_bytes (of_nat (length as)) @ concat (map enc_addr as))"
      "list_all2 (resolves (containers_dir srv)) as recs" and recs: "chunks_ok C recs"
  shows "\<exists>p c' dats frames endf. conn_receive ext frame (srv, c, AwaitOrder) =
           Inr ((srv\<lparr>m_mysqlPool := p\<rparr>, c', AwaitOrder),
                send_control_message (x_malloc ext) DOWNLOADREP [] EXIST # frames @ [endf]) \<and>
         list_all2 data_frame dats frames \<and> concat dats = concat recs \<and>
         list_all (\<lambda>d. length d \<le> out_capacity) dats \<and> end_frame endf \<and>
         idle ext C oth (srv\<lparr>m_mysqlPool := p\<rparr>, c') \<and> db_ready ext rows same (srv\<lparr>m_mysqlPool := p\<rparr>) \<and>
         out_only c (c'\<lparr>m_recipeNameHash := m_recipeNameHash c\<rparr>)"
proof -
  define k where "k = recipe_key ext cid fn"
  have nm: "plain_name fn" "length fn \<le> 190" using name by (simp_all add: name_ok_def)
  have my: "mysql_files (x_exec ext) rows same" "pool_ok (m_mysqlPool srv)" "m_connpool (m_mysqlPool srv) \<noteq> []"
    using db by (simp_all add: db_ready_def)
  obtain p where "isFileUnique ext cid fn srv = Inr (False, srv\<lparr>m_mysqlPool := p\<rparr>)"
    and p: "pool_ok p" "m_connpool p \<noteq> []"
    using isFileUnique_Inr [OF my(1) nm my(2,3), of cid] u32_of_nat_nonzero [OF found] by auto
  then have ex: "isFileExist ext cid fn srv = Inr (True, srv\<lparr>m_mysqlPool := p\<rparr>)" by (simp add: isFileExist_def)
  have sz: "[] \<notin> set recs" "\<forall>ch \<in> set recs. length ch \<le> CHUNKSIZE"
    using recs env by (auto simp: chunks_ok_def env_ok_def)
  have as: "recipes_dir srv k = Some (u32_bytes (of_nat (length as)) @ concat (map enc_addr as))"
    "list_all2 (resolves (containers_dir srv)) as recs"
    using disk by (simp_all add: k_def)
  define srv' where "srv' = srv\<lparr>m_mysqlPool := p\<rparr>"
  define c0 where "c0 = set_out_type DOWNLOADBODY (c\<lparr>m_recipeNameHash := k\<rparr>)"
  have "dataMsgType (header (m_outMsgBuffer c0)) = dataMsgType_val DOWNLOADBODY" by (simp add: c0_def set_out_type_def)
  moreover have "list_all2 (resolves (containers_dir srv')) as recs" using as(2) by (simp add: srv'_def)
  ultimately obtain c1 dats frames where
    run: "send_batches srv' (concat (map enc_addr as)) c0 = Inr (c1, frames)"
    and dats: "list_all2 data_frame dats frames" "concat dats = concat recs"
      "list_all (\<lambda>d. length d \<le> out_capacity) dats" and c1: "out_only c0 c1"
    using send_batches_ok [OF _ sz(2)] by blast
  define c2 where "c2 = set_out_type FILEEND c1"
  have "conn_receive ext frame (srv, c, AwaitOrder) = Inr ((srv', reset_download c2, AwaitOrder),
      send_control_message (x_malloc ext) DOWNLOADREP [] EXIST # frames @ [msg_bytes (m_outMsgBuffer c2) sizeof_DataMsg])"
    using req ex recipe_file_eq [OF env, of cid fn] run as(1)
    by (simp add: conn_receive_def handle_order_def order_of_def send_file_def cid Let_def k_def [symmetric]
        srv'_def [symmetric] c0_def [symmetric]) (simp add: srv'_def c2_def)
  moreover have "end_frame (msg_bytes (m_outMsgBuffer c2) sizeof_DataMsg)"
    by (auto simp: end_frame_def c2_def set_out_type_def)
  moreover have only: "out_only c (c2\<lparr>m_recipeNameHash := m_recipeNameHash c\<rparr>)"
    using c1 by (cases c; cases c1) (simp add: out_only_def c2_def c0_def set_out_type_def)
  from idle_frame(1) [OF idle only srv'_def, of "[]"] have "idle ext C oth (srv', reset_download c2)"
    by (simp add: reset_download_def)
  moreover have "db_ready ext rows same srv'" using my(1) p by (simp add: db_ready_def srv'_def)
  moreover have "out_only c ((reset_download c2)\<lparr>m_recipeNameHash := m_recipeNameHash c\<rparr>)"
    using only by (simp add: reset_download_def)
  ultimately show ?thesis using dats unfolding srv'_def by blast
qed

lemma conn_receive_download:
  assumes env: "env_ok ext N C" and idle: "idle ext C Map.empty (srv, c)" and db: "db_ready ext rows same srv"
    and name: "name_ok fn" and found: "0 < rows (m_db srv) (sint cid) fn" "rows (m_db srv) (sint cid) fn < 2 ^ 32"
    and cid: "client_id (m_client_info c) = cid"
    and req: "receive_control_msg (x_malloc ext) frame [] 0 = Inr (order_val DOWNLOAD, fn, st)"
    and stored: "file_stored Map.empty (recipe_key ext cid fn) recs (srv, c)" and recs: "chunks_ok C recs"
  shows "\<exists>p c' dats frames endf. conn_receive ext frame (srv, c, AwaitOrder) =
           Inr ((srv\<lparr>m_mysqlPool := p\<rparr>, c', AwaitOrder),
                send_control_message (x_malloc ext) DOWNLOADREP [] EXIST # frames @ [endf]) \<and>
         list_all2 data_frame dats frames \<and> concat dats = concat recs \<and>
         list_all (\<lambda>d. length d \<le> out_capacity) dats \<and> end_frame endf \<and>
         idle ext C Map.empty (srv\<lparr>m_mysqlPool := p\<rparr>, c') \<and> db_ready ext rows same (srv\<lparr>m_mysqlPool := p\<rparr>) \<and>
         out_only c (c'\<lparr>m_recipeNameHash := m_recipeNameHash c\<rparr>)"
proof -
  have "[] \<notin> set recs" using recs env by (auto simp: chunks_ok_def env_ok_def)
  then obtain as where "recipes_dir srv (recipe_key ext cid fn) = Some (u32_bytes (of_nat (length as)) @ concat (map enc_addr as))"
    "list_all2 (resolves (containers_dir srv)) as recs"
    using idle_stored_on_disk [OF idle stored] by blast
  from conn_receive_download_disk [OF env idle db name found cid req this recs] show ?thesis .
qed

end
