(* ===== verification/DedupClient.thy ===== *)
theory DedupClient
  imports Util BlockQueue
begin

text \<open>
  The client of \<^verbatim>\<open>include/DedupClient.h\<close> and \<^verbatim>\<open>src/client/DedupClient.cc\<close>.

  The server at the other end of the socket is a parameter \<open>peer\<close>: what it answers to a message in
  its present state. \<open>net\<close> is the peer's state and the messages that wait in the client's
  receive buffer; receiving from an empty buffer waits. The thread \<open>read_data\<close> is the list of read
  buffers it pushes; by the contract of the queue (theory \<open>BlockQueue\<close>) the successive calls
  of \<open>pop\<close> in \<open>upload_file\<close> deliver exactly this list and then \<open>false\<close>.
\<close>

section \<open>The socket\<close>

type_synonym 'p peer = "byte list \<Rightarrow> 'p \<Rightarrow> crash + 'p \<times> byte list list"
type_synonym 'p net = "'p \<times> byte list list"

definition net_send :: "'p peer \<Rightarrow> byte list \<Rightarrow> 'p net \<Rightarrow> crash + 'p net" where
  "net_send peer frame = (\<lambda>(p, inbox).
     bindR (peer frame p) (\<lambda>(p', out). Inr (p', inbox @ out)))"

definition net_recv :: "'p net \<Rightarrow> crash + byte list \<times> 'p net" where
  "net_recv = (\<lambda>(p, inbox). (case inbox of [] \<Rightarrow> Inl Waits | f # fs \<Rightarrow> Inr (f, (p, fs))))"

section \<open>State\<close>

record client =
  cl_server_addr :: string
  cl_port :: int
  cl_op :: char
  cl_file_path :: string
  cl_client_id :: u32
  cl_outMsgBuffer :: DataMsg_t
  cl_inMsgBuffer :: DataMsg_t

record client_locals =
  totalChunkNum :: nat
  totalUniqueNum :: nat
  totalFileSize :: nat
  currentBatchNum :: nat
  readBuffer :: ReadBuffer_t

definition DedupClient_new ::
    "mem \<Rightarrow> u32 \<Rightarrow> string \<Rightarrow> int \<Rightarrow> char \<Rightarrow> string \<Rightarrow> client" where
  "DedupClient_new malloc cid server_addr port op file_path =
     (let buf = \<lparr>header = dec_header (mem_read malloc 0 40), msg_data = (\<lambda>i. malloc (40 + i))\<rparr>
      in \<lparr>cl_server_addr = server_addr, cl_port = port, cl_op = op, cl_file_path = file_path,
          cl_client_id = cid, cl_outMsgBuffer = buf, cl_inMsgBuffer = buf\<rparr>)"

definition cl_out_capacity :: nat where "cl_out_capacity = (CHUNKSIZE + HASHSIZE) * BATCHSIZE"
definition cl_in_capacity :: nat where "cl_in_capacity = CHUNKSIZE * BATCHSIZE"

section \<open>read_data\<close>

text \<open>
  \<open>ceil(len*1.0/CHUNKSIZE)\<close>: the quotient is exact in a \<open>double\<close>, since \<open>len\<close> is below \<open>2 ^ 53\<close> and the
  divisor is a power of two.
\<close>

definition chunk_count :: "nat \<Rightarrow> nat" where
  "chunk_count len = (len + CHUNKSIZE - 1) div CHUNKSIZE"

text \<open>The loop that fills the hash buffer.\<close>

fun hash_chunks :: "evp \<Rightarrow> mem \<Rightarrow> nat \<Rightarrow> nat list \<Rightarrow> mem \<Rightarrow> crash + mem" where
  "hash_chunks evp dat len [] hashes = Inr hashes"
| "hash_chunks evp dat len (i # is) hashes =
     (let start = i * CHUNKSIZE; stop = min ((i + 1) * CHUNKSIZE) len
      in bindR (generate_hash evp (mem_read dat start (stop - start))) (\<lambda>h.
         hash_chunks evp dat len is (mem_write hashes (i * HASHSIZE) h)))"

definition read_buffer :: "evp \<Rightarrow> mem \<Rightarrow> byte list \<Rightarrow> crash + ReadBuffer_t" where
  "read_buffer evp malloc block =
     (let dat = mem_write malloc 0 block; n = chunk_count (length block)
      in bindR (hash_chunks evp dat (length block) [0..<n] malloc) (\<lambda>hashes.
         Inr \<lparr>dataBuffer = dat, hashBuffer = hashes, rb_chunkNum = n, rb_dataSize = length block\<rparr>))"

function read_loop :: "evp \<Rightarrow> mem \<Rightarrow> byte list \<Rightarrow> crash + ReadBuffer_t list" where
  "read_loop evp malloc stream =
     (let block = take (CHUNKSIZE * BATCHSIZE) stream
      in if length block = 0 then Inr []
         else bindR (read_buffer evp malloc block) (\<lambda>rb.
              bindR (read_loop evp malloc (drop (CHUNKSIZE * BATCHSIZE) stream)) (\<lambda>rbs.
              Inr (rb # rbs))))"
  by pat_completeness auto
termination
  by (relation "measure (\<lambda>(evp, malloc, stream). length stream)") (auto simp: config_values)

declare read_loop.simps [simp del]

text \<open>\<open>None\<close> is a file that cannot be opened.\<close>

definition read_data :: "evp \<Rightarrow> mem \<Rightarrow> byte list option \<Rightarrow> crash + ReadBuffer_t list" where
  "read_data evp malloc file =
     (case file of
        None \<Rightarrow> errExit ''cannot open the file''
      | Some stream \<Rightarrow> read_loop evp malloc stream)"

section \<open>upload_file\<close>

text \<open>
  The loop over the server's answer: every chunk whose flag is 1 is appended to the output data.
  The state is the output data, \<open>chunksOccupied\<close> and \<open>currentUniqueNum\<close>.
\<close>

fun collect_unique :: "mem \<Rightarrow> ReadBuffer_t \<Rightarrow> nat list \<Rightarrow> mem \<times> nat \<times> nat \<Rightarrow> crash + mem \<times> nat \<times> nat" where
  "collect_unique flags rb [] s = Inr s"
| "collect_unique flags rb (i # is) (m, chunksOccupied, cu) =
     (if flags i = 1 then
        (let start = i * CHUNKSIZE; stop = min ((i + 1) * CHUNKSIZE) (rb_dataSize rb);
             chunk = mem_read (dataBuffer rb) start (stop - start)
         in bindR (guardR BufferOverflow (chunksOccupied + length chunk \<le> cl_out_capacity)) (\<lambda>_.
            collect_unique flags rb is
              (mem_write m chunksOccupied chunk, chunksOccupied + length chunk, cu + 1)))
      else collect_unique flags rb is (m, chunksOccupied, cu))"

definition upload_response ::
    "byte list \<Rightarrow> client \<times> client_locals \<Rightarrow> crash + (client \<times> client_locals) \<times> nat" where
  "upload_response frame = (\<lambda>(cl, l).
     bindR (guardR BufferOverflow (length frame \<le> sizeof_DataMsg + cl_in_capacity)) (\<lambda>_.
     (let cl = cl\<lparr>cl_inMsgBuffer := load_msg (cl_inMsgBuffer cl) frame\<rparr>
      in bindR (collect_unique (msg_data (cl_inMsgBuffer cl)) (readBuffer l) [0..<currentBatchNum l]
                  (msg_data (cl_outMsgBuffer cl), 0, 0)) (\<lambda>(m, chunksOccupied, cu).
         Inr ((cl\<lparr>cl_outMsgBuffer := (cl_outMsgBuffer cl)
                   \<lparr>msg_data := m,
                    header := (header (cl_outMsgBuffer cl))\<lparr>hdr_chunkNum := of_nat cu\<rparr>\<rparr>\<rparr>,
               l\<lparr>totalUniqueNum := totalUniqueNum l + cu\<rparr>), chunksOccupied)))))"

text \<open>The second half of an iteration: the result of \<open>pop\<close> (\<open>None\<close> for \<open>false\<close>) and the message sent.\<close>

definition upload_query ::
    "ReadBuffer_t option \<Rightarrow> nat \<Rightarrow> client \<times> client_locals \<Rightarrow>
     crash + (client \<times> client_locals) \<times> byte list" where
  "upload_query popped_rb chunksOccupied = (\<lambda>(cl, l).
     (let rb = (case popped_rb of
                  Some rb \<Rightarrow> rb
                | None \<Rightarrow> (readBuffer l)\<lparr>rb_chunkNum := 0, rb_dataSize := 0\<rparr>);
          l = l\<lparr>readBuffer := rb, totalFileSize := totalFileSize l + rb_dataSize rb,
                currentBatchNum := rb_chunkNum rb\<rparr>;
          n = rb_chunkNum rb
      in bindR (guardR BufferOverflow (chunksOccupied + n * HASHSIZE \<le> cl_out_capacity)) (\<lambda>_.
         (let out = (cl_outMsgBuffer cl)
                \<lparr>header := (header (cl_outMsgBuffer cl))
                    \<lparr>queryNum := of_nat n, hdr_start := of_nat chunksOccupied,
                     hdr_size := of_nat (sizeof_DataMsg + chunksOccupied + n * HASHSIZE)\<rparr>,
                 msg_data := mem_write (msg_data (cl_outMsgBuffer cl)) chunksOccupied
                    (mem_read (hashBuffer rb) 0 (n * HASHSIZE))\<rparr>
          in Inr ((cl\<lparr>cl_outMsgBuffer := out\<rparr>, l\<lparr>totalChunkNum := totalChunkNum l + n\<rparr>),
                  msg_bytes out (unat (hdr_size (header out))))))))"

definition set_cl_type :: "DataMsgType \<Rightarrow> client \<Rightarrow> client" where
  "set_cl_type t cl = cl\<lparr>cl_outMsgBuffer := (cl_outMsgBuffer cl)
     \<lparr>header := (header (cl_outMsgBuffer cl))\<lparr>dataMsgType := dataMsgType_val t\<rparr>\<rparr>\<rparr>"

text \<open>The loop of \<open>upload_file\<close>, over the read buffers that \<open>pop\<close> will deliver.\<close>

fun upload_loop ::
    "'p peer \<Rightarrow> ReadBuffer_t list \<Rightarrow> client \<times> client_locals \<Rightarrow> 'p net \<Rightarrow>
     crash + (client \<times> client_locals) \<times> 'p net" where
  "upload_loop peer rbs (cl, l) net =
     bindR (if totalChunkNum l \<noteq> 0
            then bindR (net_recv net) (\<lambda>(frame, net).
                 bindR (upload_response frame (cl, l)) (\<lambda>(s, occ). Inr (s, occ, net)))
            else Inr ((cl, l), 0, net)) (\<lambda>(s, chunksOccupied, net).
     bindR (upload_query (case rbs of [] \<Rightarrow> None | rb # _ \<Rightarrow> Some rb) chunksOccupied s) (\<lambda>((cl, l), frame).
     bindR (net_send peer frame net) (\<lambda>net.
     if currentBatchNum l = 0 then Inr ((cl, l), net)
     else (case rbs of [] \<Rightarrow> Inr ((cl, l), net) | _ # rbs' \<Rightarrow> upload_loop peer rbs' (cl, l) net))))"

declare upload_loop.simps [simp del]

definition fileend_frame :: "client \<Rightarrow> client \<times> byte list" where
  "fileend_frame cl =
     (let cl = set_cl_type FILEEND cl;
          out = (cl_outMsgBuffer cl)\<lparr>header := (header (cl_outMsgBuffer cl))
                  \<lparr>hdr_size := of_nat sizeof_DataMsg\<rparr>\<rparr>
      in (cl\<lparr>cl_outMsgBuffer := out\<rparr>, msg_bytes out sizeof_DataMsg))"

definition locals_start :: "ReadBuffer_t \<Rightarrow> client_locals" where
  "locals_start uninit =
     \<lparr>totalChunkNum = 0, totalUniqueNum = 0, totalFileSize = 0, currentBatchNum = 0, readBuffer = uninit\<rparr>"

definition upload_file ::
    "evp \<Rightarrow> mem \<Rightarrow> 'p peer \<Rightarrow> byte list option \<Rightarrow> client \<Rightarrow> 'p net \<Rightarrow> crash + client \<times> 'p net" where
  "upload_file evp malloc peer file cl net =
     (let fileName = get_file_name (cl_file_path cl)
      in bindR (net_send peer (send_control_message malloc UPLOAD fileName NONE) net) (\<lambda>net.
         bindR (net_recv net) (\<lambda>(frame, net).
         bindR (receive_control_msg malloc frame [] 0) (\<lambda>(ord, tmpFileName, status).
         if order_of ord = Some UPLOADREP then
           if status = status_val DUPLICATE then Inr (cl, net)
           else
             bindR (read_data evp malloc file) (\<lambda>rbs.
             (let uninit = \<lparr>dataBuffer = malloc, hashBuffer = malloc, rb_chunkNum = 0, rb_dataSize = 0\<rparr>
              in bindR (upload_loop peer rbs (set_cl_type UPLOADBODY cl, locals_start uninit) net)
                   (\<lambda>((cl, l), net).
                   (let (cl, frame) = fileend_frame cl
                    in bindR (net_send peer frame net) (\<lambda>net. Inr (cl, net))))))
         else Inr (cl, net)))))"

section \<open>download_file\<close>

text \<open>The receive loop over the messages in the receive buffer; the value is the bytes written to the file.\<close>

fun download_loop :: "client \<Rightarrow> byte list list \<Rightarrow> byte list \<Rightarrow> crash + client \<times> byte list \<times> byte list list" where
  "download_loop cl [] written = Inl Waits"
| "download_loop cl (frame # inbox) written =
     bindR (guardR BufferOverflow (length frame \<le> sizeof_DataMsg + cl_in_capacity)) (\<lambda>_.
     (let cl = cl\<lparr>cl_inMsgBuffer := load_msg (cl_inMsgBuffer cl) frame\<rparr>;
          h = header (cl_inMsgBuffer cl)
      in if dataMsgType h = dataMsgType_val FILEEND then Inr (cl, written, inbox)
         else
           (let dataSize = unat (hdr_size h - of_nat sizeof_DataMsg)
            in bindR (guardR BufferOverread (dataSize \<le> cl_in_capacity)) (\<lambda>_.
               download_loop cl inbox (written @ mem_read (msg_data (cl_inMsgBuffer cl)) 0 dataSize)))))"

text \<open>
  The file at \<open>m_file_path\<close> is opened, and thereby emptied, before the request is sent; the result is
  its content afterwards.
\<close>

definition download_file ::
    "mem \<Rightarrow> 'p peer \<Rightarrow> client \<Rightarrow> 'p net \<Rightarrow> crash + client \<times> byte list \<times> 'p net" where
  "download_file malloc peer cl net =
     (let fileName = get_file_name (cl_file_path cl)
      in bindR (net_send peer (send_control_message malloc DOWNLOAD fileName NONE) net) (\<lambda>net.
         bindR (net_recv net) (\<lambda>(frame, net).
         bindR (receive_control_msg malloc frame [] 0) (\<lambda>(ord, tmpFileName, status).
         if order_of ord = Some DOWNLOADREP then
           if status = status_val NOTEXIST then Inr (cl, [], net)
           else bindR (download_loop cl (snd net) []) (\<lambda>(cl, written, inbox).
                Inr (cl, written, (fst net, inbox)))
         else Inr (cl, [], net)))))"

section \<open>run\<close>

definition login_frame :: "mem \<Rightarrow> u32 \<Rightarrow> byte list" where
  "login_frame malloc cid =
     (let msg = \<lparr>header = (dec_header (mem_read malloc 0 40))
                   \<lparr>dataMsgType := dataMsgType_val LOGIN,
                    hdr_size := of_nat (sizeof_DataMsg + sizeof_LoginInfo)\<rparr>,
                 msg_data = mem_write (\<lambda>i. malloc (40 + i)) 0 (u32_bytes cid)\<rparr>
      in msg_bytes msg (unat (hdr_size (header msg))))"

text \<open>
  \<open>run\<close> logs in, performs the operation and quits. \<open>file\<close> is the file to upload; the value has the
  content of the downloaded file (\<open>None\<close> when no download was asked for).
\<close>

definition client_run ::
    "evp \<Rightarrow> mem \<Rightarrow> 'p peer \<Rightarrow> byte list option \<Rightarrow> client \<Rightarrow> 'p net \<Rightarrow>
     crash + client \<times> byte list option \<times> 'p net" where
  "client_run evp malloc peer file cl net =
     bindR (net_send peer (login_frame malloc (cl_client_id cl)) net) (\<lambda>net.
     bindR (if cl_op cl = CHR ''u''
            then bindR (upload_file evp malloc peer file cl net) (\<lambda>(cl, net). Inr (cl, None, net))
            else if cl_op cl = CHR ''d''
            then bindR (download_file malloc peer cl net) (\<lambda>(cl, written, net). Inr (cl, Some written, net))
            else Inr (cl, None, net)) (\<lambda>(cl, written, net).
     bindR (net_send peer (send_control_message malloc QUIT [] NONE) net) (\<lambda>net.
     bindR (net_recv net) (\<lambda>(frame, net).
     bindR (receive_control_msg malloc frame [] 0) (\<lambda>_.
     Inr (cl, written, net))))))"

end
