(* ===== verification/DedupClient_Upload.thy ===== *)
theory DedupClient_Upload
  imports DedupClient Protocol
begin

text \<open>
  Correctness of the client's side of an upload (\<^verbatim>\<open>DedupClient::read_data\<close> and \<^verbatim>\<open>upload_file\<close>).

  The reader thread delivers the blocks of the file with the digests of their chunks. The locale
  \<open>upload_peer\<close> is what the client relies on of the server: it accepts the request, answers every query
  with one flag per chunk and takes the end of the file. Inside it, the whole loop is proved once.
\<close>

section \<open>The reader thread\<close>

definition buffer_of :: "evp \<Rightarrow> byte list \<Rightarrow> ReadBuffer_t \<Rightarrow> bool" where
  "buffer_of evp block rb \<longleftrightarrow>
     mem_read (dataBuffer rb) 0 (length block) = block \<and> rb_dataSize rb = length block \<and>
     rb_chunkNum rb = length (chunks_of block) \<and>
     mem_read (hashBuffer rb) 0 (rb_chunkNum rb * HASHSIZE) = concat (map (digest evp) (chunks_of block))"

lemma chunk_count_eq: "chunk_count (length block) = length (chunks_of block)"
  by (simp add: chunk_count_def chunks_of_facts)

text \<open>The bytes between \<open>start\<close> and \<open>end\<close> of chunk \<open>j\<close>.\<close>

lemma chunk_bytes:
  assumes "mem_read dat 0 (length block) = block" "j < length (chunks_of block)"
  shows "mem_read dat (j * CHUNKSIZE) (min ((j + 1) * CHUNKSIZE) (length block) - j * CHUNKSIZE) = chunks_of block ! j"
proof -
  let ?n = "min ((j + 1) * CHUNKSIZE) (length block) - j * CHUNKSIZE"
  have "chunks_of block ! j \<noteq> []" using assms(2) chunks_of_facts(3) [of block] nth_mem by metis
  then have "take CHUNKSIZE (drop (j * CHUNKSIZE) block) \<noteq> []"
    using assms(2) by (simp add: chunks_of_def split_every_nth)
  then have j: "j * CHUNKSIZE < length block" by auto
  then have "mem_read dat (j * CHUNKSIZE) ?n = take ?n (drop (j * CHUNKSIZE) (mem_read dat 0 (length block)))"
    by (simp add: take_drop_mem_read)
  also have "\<dots> = take CHUNKSIZE (drop (j * CHUNKSIZE) block)"
    using j by (simp add: assms(1) min_def add.commute)
  also have "\<dots> = chunks_of block ! j" using assms(2) by (simp add: chunks_of_def split_every_nth)
  finally show ?thesis .
qed

lemma hash_chunks_ok:
  assumes "evp_total evp"
  shows "\<exists>h'. hash_chunks evp dat len [i..<i + k] h = Inr h' \<and>
           mem_read h' 0 ((i + k) * HASHSIZE) = mem_read h 0 (i * HASHSIZE) @
             concat (map (\<lambda>j. digest evp (mem_read dat (j * CHUNKSIZE) (min ((j + 1) * CHUNKSIZE) len - j * CHUNKSIZE)))
               [i..<i + k])"
proof (induction k arbitrary: i h)
  case 0
  then show ?case by simp
next
  case (Suc k)
  define d where "d = digest evp (mem_read dat (i * CHUNKSIZE) (min (CHUNKSIZE + i * CHUNKSIZE) len - i * CHUNKSIZE))"
  have len: "length d = HASHSIZE" using generate_hash_total(2) [OF assms] by (simp add: d_def config_values)
  have upt: "[i..<Suc (i + k)] = i # [Suc i..<Suc (i + k)]" by (subst upt_conv_Cons) simp_all
  have "mem_read (mem_write h (i * HASHSIZE) d) 0 (Suc i * HASHSIZE) = mem_read h 0 (i * HASHSIZE) @ d"
    using mem_read_snoc_write [of h "i * HASHSIZE" d] len by (simp add: add.commute)
  then show ?case
    using Suc.IH [of "Suc i" "mem_write h (i * HASHSIZE) d"]
    by (simp add: upt generate_hash_total(1) [OF assms] Let_def d_def [symmetric] del: upt_Suc)
qed

lemma read_buffer_ok:
  assumes "evp_total evp"
  shows "\<exists>rb. read_buffer evp malloc block = Inr rb \<and> buffer_of evp block rb"
proof -
  let ?dat = "mem_write malloc 0 block" and ?n = "length (chunks_of block)"
  have dat: "mem_read ?dat 0 (length block) = block" by (rule mem_read_write_same)
  obtain h where run: "hash_chunks evp ?dat (length block) [0..<?n] malloc = Inr h"
    and h: "mem_read h 0 (?n * HASHSIZE) = concat (map (\<lambda>j. digest evp (mem_read ?dat (j * CHUNKSIZE)
        (min ((j + 1) * CHUNKSIZE) (length block) - j * CHUNKSIZE))) [0..<?n])"
    using hash_chunks_ok [OF assms, of ?dat "length block" 0 ?n malloc] by auto
  have "map (\<lambda>j. digest evp (mem_read ?dat (j * CHUNKSIZE)
      (min ((j + 1) * CHUNKSIZE) (length block) - j * CHUNKSIZE))) [0..<?n] = map (digest evp) (chunks_of block)"
    by (rule nth_equalityI) (simp_all add: chunk_bytes [OF dat, simplified])
  then show ?thesis
    using run h dat by (simp add: read_buffer_def Let_def chunk_count_eq buffer_of_def)
qed

lemma read_loop_ok:
  assumes "evp_total evp"
  shows "\<exists>rbs. read_loop evp malloc bs = Inr rbs \<and> list_all2 (buffer_of evp) (blocks_of bs) rbs"
proof (induction "CHUNKSIZE * BATCHSIZE" bs rule: split_every.induct)
  case (1 bs)
  have pos: "0 < CHUNKSIZE * BATCHSIZE" by (simp add: config_values)
  show ?case
  proof (cases "bs = []")
    case True
    then show ?thesis by (simp add: read_loop.simps blocks_of_def)
  next
    case False
    obtain rb where rb: "read_buffer evp malloc (take (CHUNKSIZE * BATCHSIZE) bs) = Inr rb"
      "buffer_of evp (take (CHUNKSIZE * BATCHSIZE) bs) rb"
      using read_buffer_ok [OF assms] by blast
    obtain rbs where rbs: "read_loop evp malloc (drop (CHUNKSIZE * BATCHSIZE) bs) = Inr rbs"
      "list_all2 (buffer_of evp) (blocks_of (drop (CHUNKSIZE * BATCHSIZE) bs)) rbs"
      using 1 False pos by auto
    have "take (CHUNKSIZE * BATCHSIZE) bs \<noteq> []" using False pos by simp
    then have "read_loop evp malloc bs = Inr (rb # rbs)"
      using rb(1) rbs(1) by (subst read_loop.simps) (simp add: Let_def)
    then show ?thesis
      using False pos rb(2) rbs(2) by (simp add: blocks_of_def split_every_step)
  qed
qed

lemma blocks_of_facts:
  assumes "block \<in> set (blocks_of bs)"
  shows "block \<noteq> []" "length block \<le> CHUNKSIZE * BATCHSIZE" "length (chunks_of block) \<le> BATCHSIZE" "chunks_of block \<noteq> []"
proof -
  show b: "block \<noteq> []" "length block \<le> CHUNKSIZE * BATCHSIZE"
    using split_every_elem [of block "CHUNKSIZE * BATCHSIZE" bs] assms by (simp_all add: blocks_of_def)
  then show "length (chunks_of block) \<le> BATCHSIZE"
    by (simp add: chunks_of_facts config_values)
  show "chunks_of block \<noteq> []" using b(1) chunks_of_facts(1) [of block] by fastforce
qed

section \<open>The answer to a query\<close>

lemma collect_unique_items:
  assumes "\<And>j. j < length items \<Longrightarrow> flags (i + j) = flag_byte (snd (items ! j)) \<and>
      mem_read (dataBuffer rb) ((i + j) * CHUNKSIZE)
        (min ((i + j + 1) * CHUNKSIZE) (rb_dataSize rb) - (i + j) * CHUNKSIZE) = fst (items ! j)"
    and "occ + length (concat (map fst items)) \<le> cl_out_capacity"
  shows "\<exists>m'. collect_unique flags rb [i..<i + length items] (m, occ, cu) =
           Inr (m', occ + length (concat (uniques items)), cu + length (uniques items)) \<and>
         mem_read m' 0 (occ + length (concat (uniques items))) = mem_read m 0 occ @ concat (uniques items)"
  using assms
proof (induction items arbitrary: i m occ cu)
  case Nil
  then show ?case by simp
next
  case (Cons x xs)
  have upt: "[i..<i + length (x # xs)] = i # [Suc i..<Suc i + length xs]" by (subst upt_conv_Cons) simp_all
  have x: "flags i = flag_byte (snd x)"
    "mem_read (dataBuffer rb) (i * CHUNKSIZE) (min ((i + 1) * CHUNKSIZE) (rb_dataSize rb) - i * CHUNKSIZE) = fst x"
    using Cons.prems(1) [of 0] by simp_all
  have xl: "min (CHUNKSIZE + i * CHUNKSIZE) (rb_dataSize rb) - i * CHUNKSIZE = length (fst x)"
    unfolding x(2) [symmetric] by simp
  have xs: "flags (Suc i + j) = flag_byte (snd (xs ! j)) \<and> mem_read (dataBuffer rb) ((Suc i + j) * CHUNKSIZE)
      (min ((Suc i + j + 1) * CHUNKSIZE) (rb_dataSize rb) - (Suc i + j) * CHUNKSIZE) = fst (xs ! j)"
    if "j < length xs" for j using Cons.prems(1) [of "Suc j"] that by simp
  show ?case
  proof (cases "snd x")
    case True
    obtain m' where "collect_unique flags rb [Suc i..<Suc i + length xs] (mem_write m occ (fst x), occ + length (fst x), cu + 1) =
        Inr (m', occ + length (fst x) + length (concat (uniques xs)), cu + 1 + length (uniques xs))"
      "mem_read m' 0 (occ + length (fst x) + length (concat (uniques xs))) =
        mem_read (mem_write m occ (fst x)) 0 (occ + length (fst x)) @ concat (uniques xs)"
      using Cons.IH [of "Suc i", OF xs, of "occ + length (fst x)" "mem_write m occ (fst x)" "cu + 1"] Cons.prems(2)
      by (auto simp del: upt_Suc)
    then show ?thesis
      using True x xl Cons.prems(2) unfolding upt
      by (simp add: flag_byte_def Let_def mem_read_snoc_write add.assoc del: upt_Suc)
  next
    case False
    then show ?thesis
      using Cons.IH [of "Suc i", OF xs, of occ m cu] x Cons.prems(2) unfolding upt
      by (simp add: flag_byte_def del: upt_Suc)
  qed
qed

lemma collect_unique_ok:
  assumes rb: "buffer_of evp block rb" and len: "length fl = length (chunks_of block)"
    and flags: "\<And>i. i < length fl \<Longrightarrow> flags i = flag_byte (fl ! i)" and cap: "length block \<le> cl_out_capacity"
  shows "\<exists>m'. collect_unique flags rb [0..<length fl] (m, 0, 0) =
           Inr (m', length (concat (uniques (zip (chunks_of block) fl))), length (uniques (zip (chunks_of block) fl))) \<and>
         mem_read m' 0 (length (concat (uniques (zip (chunks_of block) fl)))) = concat (uniques (zip (chunks_of block) fl))"
proof -
  let ?items = "zip (chunks_of block) fl"
  have dat: "mem_read (dataBuffer rb) 0 (length block) = block" "rb_dataSize rb = length block"
    using rb by (simp_all add: buffer_of_def)
  have "flags (0 + j) = flag_byte (snd (?items ! j)) \<and> mem_read (dataBuffer rb) ((0 + j) * CHUNKSIZE)
      (min ((0 + j + 1) * CHUNKSIZE) (rb_dataSize rb) - (0 + j) * CHUNKSIZE) = fst (?items ! j)"
    if "j < length ?items" for j
    using that len flags chunk_bytes [OF dat(1), of j] by (simp add: dat(2))
  moreover have "0 + length (concat (map fst ?items)) \<le> cl_out_capacity"
    using len cap by (simp add: chunks_of_facts(1))
  ultimately show ?thesis
    using collect_unique_items [of ?items flags 0 rb 0 m 0] len by simp
qed

definition is_body :: "client \<Rightarrow> bool" where
  "is_body cl \<longleftrightarrow> dataMsgType (header (cl_outMsgBuffer cl)) = dataMsgType_val UPLOADBODY"

text \<open>The client has queried the chunks of \<open>block\<close>.\<close>

definition asked :: "evp \<Rightarrow> byte list \<Rightarrow> client_locals \<Rightarrow> bool" where
  "asked evp block l \<longleftrightarrow> buffer_of evp block (readBuffer l) \<and> currentBatchNum l = length (chunks_of block) \<and>
     length block \<le> CHUNKSIZE * BATCHSIZE \<and> length (chunks_of block) \<le> BATCHSIZE"

text \<open>The output data starts with the chunks \<open>U\<close>.\<close>

definition out_holds :: "client \<Rightarrow> byte list list \<Rightarrow> bool" where
  "out_holds cl U \<longleftrightarrow> mem_read (msg_data (cl_outMsgBuffer cl)) 0 (length (concat U)) = concat U"

lemma upload_response_ok:
  assumes body: "is_body cl" and ask: "asked evp block l" and fl: "flags_frame fl frame" "length fl = length (chunks_of block)"
  defines "U \<equiv> uniques (zip (chunks_of block) fl)"
  shows "\<exists>cl'. upload_response frame (cl, l) =
           Inr ((cl', l\<lparr>totalUniqueNum := totalUniqueNum l + length U\<rparr>), length (concat U)) \<and>
         is_body cl' \<and> out_holds cl' U"
proof -
  obtain m where m: "frame = msg_bytes m (sizeof_DataMsg + length fl)" "mem_read (msg_data m) 0 (length fl) = map flag_byte fl"
    using fl(1) by (auto simp: flags_frame_def)
  define cl1 where "cl1 = cl\<lparr>cl_inMsgBuffer := load_msg (cl_inMsgBuffer cl) frame\<rparr>"
  have dat: "msg_data (cl_inMsgBuffer cl1) = mem_write (msg_data (cl_inMsgBuffer cl)) 0 (map flag_byte fl)"
    by (simp add: cl1_def m codec_simps)
  have flags: "msg_data (cl_inMsgBuffer cl1) i = flag_byte (fl ! i)" if "i < length fl" for i
    using that by (simp add: dat mem_write_def)
  have "length block \<le> cl_out_capacity" using ask by (simp add: asked_def cl_out_capacity_def config_values)
  then obtain m' where run: "collect_unique (msg_data (cl_inMsgBuffer cl1)) (readBuffer l) [0..<length fl]
        (msg_data (cl_outMsgBuffer cl), 0, 0) = Inr (m', length (concat U), length U)"
    and m': "mem_read m' 0 (length (concat U)) = concat U"
    using collect_unique_ok [OF _ fl(2) flags, of evp "readBuffer l" "msg_data (cl_outMsgBuffer cl)"] ask
    by (auto simp: asked_def U_def)
  have len: "length frame \<le> sizeof_DataMsg + cl_in_capacity"
    using ask fl(2) by (simp add: m(1) asked_def cl_in_capacity_def config_values)
  have num: "currentBatchNum l = length fl" using ask fl(2) by (simp add: asked_def)
  show ?thesis
    using run len body m' unfolding upload_response_def prod.case cl1_def [symmetric] num
    by (simp add: Let_def cl1_def [symmetric]) (simp add: cl1_def is_body_def out_holds_def)
qed

definition next_chunks :: "byte list option \<Rightarrow> byte list list" where
  "next_chunks b = (case b of None \<Rightarrow> [] | Some block \<Rightarrow> chunks_of block)"

lemma upload_query_ok:
  assumes body: "is_body cl" and out: "out_holds cl U" "length (concat U) \<le> CHUNKSIZE * BATCHSIZE"
    and rb: "rel_option (buffer_of evp) b rb" and n: "length (next_chunks b) \<le> BATCHSIZE"
  shows "\<exists>cl' l' frame. upload_query rb (length (concat U)) (cl, l) = Inr ((cl', l'), frame) \<and>
           is_body cl' \<and> part_frame evp U (next_chunks b) frame \<and>
           currentBatchNum l' = length (next_chunks b) \<and> totalChunkNum l' = totalChunkNum l + length (next_chunks b) \<and>
           totalUniqueNum l' = totalUniqueNum l \<and> rel_option (buffer_of evp) b (if b = None then None else Some (readBuffer l'))"
proof -
  define rb' where "rb' = (case rb of Some rb \<Rightarrow> rb | None \<Rightarrow> (readBuffer l)\<lparr>rb_chunkNum := 0, rb_dataSize := 0\<rparr>)"
  define k where "k = length (next_chunks b)"
  have num: "rb_chunkNum rb' = k"
    using rb by (cases b; cases rb) (simp_all add: rb'_def k_def next_chunks_def buffer_of_def)
  have hash: "mem_read (hashBuffer rb') 0 (k * HASHSIZE) = concat (map (digest evp) (next_chunks b))"
    using rb by (cases b; cases rb) (simp_all add: rb'_def k_def next_chunks_def buffer_of_def)
  define occ where "occ = length (concat U)"
  define m where "m = (cl_outMsgBuffer cl)\<lparr>header := (header (cl_outMsgBuffer cl))
      \<lparr>queryNum := of_nat k, hdr_start := of_nat occ, hdr_size := of_nat (sizeof_DataMsg + occ + k * HASHSIZE)\<rparr>,
    msg_data := mem_write (msg_data (cl_outMsgBuffer cl)) occ (mem_read (hashBuffer rb') 0 (k * HASHSIZE))\<rparr>"
  define l' where "l' = l\<lparr>readBuffer := rb', totalFileSize := totalFileSize l + rb_dataSize rb',
    currentBatchNum := k, totalChunkNum := totalChunkNum l + k\<rparr>"
  have cap: "occ + k * HASHSIZE \<le> cl_out_capacity"
    using out(2) n by (simp add: occ_def k_def cl_out_capacity_def config_values)
  then have "sizeof_DataMsg + occ + k * HASHSIZE < 2 ^ 64" by (simp add: cl_out_capacity_def config_values sizeofs)
  note sz = unat_of_nat_small(2) [OF this]
  have run: "upload_query rb occ (cl, l) =
      Inr ((cl\<lparr>cl_outMsgBuffer := m\<rparr>, l'), msg_bytes m (sizeof_DataMsg + occ + k * HASHSIZE))"
    using cap sz unfolding upload_query_def prod.case rb'_def [symmetric]
    by (simp add: Let_def num m_def l'_def del: of_nat_add of_nat_mult)
  have "mem_read (msg_data m) 0 (occ + k * HASHSIZE) = concat U @ concat (map (digest evp) (next_chunks b))"
    using out(1) mem_read_snoc_write [of "msg_data (cl_outMsgBuffer cl)" occ "mem_read (hashBuffer rb') 0 (k * HASHSIZE)"]
    by (simp add: m_def out_holds_def occ_def hash [symmetric])
  then have "part_frame evp U (next_chunks b) (msg_bytes m (sizeof_DataMsg + occ + k * HASHSIZE))"
    unfolding part_frame_def using body
    by (intro exI [of _ m]) (simp add: occ_def k_def add.assoc mult.commute, simp add: m_def is_body_def occ_def k_def)
  moreover have "is_body (cl\<lparr>cl_outMsgBuffer := m\<rparr>)" using body by (simp add: is_body_def m_def)
  moreover have "rel_option (buffer_of evp) b (if b = None then None else Some (readBuffer l'))"
    using rb by (cases b; cases rb) (simp_all add: l'_def rb'_def)
  ultimately show ?thesis
    using run unfolding occ_def [symmetric] k_def [symmetric]
    by (intro exI [of _ "cl\<lparr>cl_outMsgBuffer := m\<rparr>"] exI [of _ l']
          exI [of _ "msg_bytes m (sizeof_DataMsg + occ + k * HASHSIZE)"]) (simp add: l'_def)
qed

section \<open>The upload loop against a server that keeps its contract\<close>

text \<open>
  \<open>client_at\<close>: the client at the head of its loop, before the first message or with the answer \<open>fl\<close> to
  its query for \<open>chs\<close> in the receive buffer.
\<close>

definition client_at :: "evp \<Rightarrow> byte list list \<Rightarrow> bool list \<Rightarrow> client \<Rightarrow> client_locals \<Rightarrow> byte list list \<Rightarrow> bool" where
  "client_at evp chs fl cl l inbox \<longleftrightarrow> is_body cl \<and>
     (if totalChunkNum l = 0 then chs = [] \<and> fl = [] \<and> inbox = []
      else \<exists>block g. chs = chunks_of block \<and> asked evp block l \<and> inbox = [g] \<and> flags_frame fl g \<and>
        length fl = length chs)"

definition loop_receive ::
    "client \<times> client_locals \<Rightarrow> 'p net \<Rightarrow> crash + (client \<times> client_locals) \<times> nat \<times> 'p net" where
  "loop_receive = (\<lambda>(cl, l) net.
     if totalChunkNum l \<noteq> 0
     then bindR (net_recv net) (\<lambda>(frame, net).
          bindR (upload_response frame (cl, l)) (\<lambda>(s, occ). Inr (s, occ, net)))
     else Inr ((cl, l), 0, net))"

lemma loop_receive_ok:
  assumes "client_at evp chs fl cl l inbox"
  defines "U \<equiv> uniques (zip chs fl)"
  shows "\<exists>cl' l'. loop_receive (cl, l) (p, inbox) = Inr ((cl', l'), length (concat U), (p, [])) \<and>
           is_body cl' \<and> out_holds cl' U \<and> totalChunkNum l' = totalChunkNum l \<and>
           totalUniqueNum l' = totalUniqueNum l + length U"
proof (cases "totalChunkNum l = 0")
  case True
  then show ?thesis using assms by (simp add: client_at_def loop_receive_def out_holds_def)
next
  case False
  then obtain block g where b: "chs = chunks_of block" "asked evp block l" "inbox = [g]" "flags_frame fl g"
    "length fl = length chs" "is_body cl"
    using assms(1) by (auto simp: client_at_def)
  then show ?thesis
    using upload_response_ok [OF b(6,2,4)] False by (fastforce simp: loop_receive_def net_recv_def U_def)
qed

lemma client_at_full:
  assumes "client_at evp chs fl cl l inbox"
  shows "full_chunks (uniques (zip chs fl))" "length (concat (uniques (zip chs fl))) \<le> CHUNKSIZE * BATCHSIZE"
proof -
  have chs: "full_chunks chs \<and> length chs \<le> BATCHSIZE"
    using assms chunks_of_facts(2) by (auto simp: client_at_def asked_def full_chunks_def split: if_splits)
  then show full: "full_chunks (uniques (zip chs fl))" by (simp add: full_chunks_uniques)
  have "length (concat (uniques (zip chs fl))) \<le> length (uniques (zip chs fl)) * CHUNKSIZE"
    using full by (intro concat_bound) (simp add: full_chunks_def)
  also have "\<dots> \<le> BATCHSIZE * CHUNKSIZE"
    using chs length_uniques [of chs fl] by (intro mult_right_mono) simp_all
  finally show "length (concat (uniques (zip chs fl))) \<le> CHUNKSIZE * BATCHSIZE" by (simp add: mult.commute)
qed

lemma upload_loop_unfold:
  "upload_loop peer rbs (cl, l) net =
     bindR (loop_receive (cl, l) net) (\<lambda>(s, chunksOccupied, net).
     bindR (upload_query (case rbs of [] \<Rightarrow> None | rb # _ \<Rightarrow> Some rb) chunksOccupied s) (\<lambda>((cl, l), frame).
     bindR (net_send peer frame net) (\<lambda>net.
     if currentBatchNum l = 0 then Inr ((cl, l), net)
     else (case rbs of [] \<Rightarrow> Inr ((cl, l), net) | _ # rbs' \<Rightarrow> upload_loop peer rbs' (cl, l) net))))"
  by (subst upload_loop.simps) (simp add: loop_receive_def)

text \<open>What the client does in one iteration before it sends: the next message is the unique chunks and the next query.\<close>

lemma client_sends:
  assumes at: "client_at evp chs fl cl l inbox"
    and rb: "rel_option (buffer_of evp) b (case rbs of [] \<Rightarrow> None | rb # _ \<Rightarrow> Some rb)"
    and n: "length (next_chunks b) \<le> BATCHSIZE"
  defines "U \<equiv> uniques (zip chs fl)"
  shows "\<exists>cl1 l1 cl2 l2 f. loop_receive (cl, l) (p, inbox) = Inr ((cl1, l1), length (concat U), (p, [])) \<and>
       upload_query (case rbs of [] \<Rightarrow> None | rb # _ \<Rightarrow> Some rb) (length (concat U)) (cl1, l1) = Inr ((cl2, l2), f) \<and>
       part_frame evp U (next_chunks b) f \<and> is_body cl2 \<and> currentBatchNum l2 = length (next_chunks b) \<and>
       totalChunkNum l2 = totalChunkNum l + length (next_chunks b) \<and> totalUniqueNum l2 = totalUniqueNum l + length U \<and>
       rel_option (buffer_of evp) b (if b = None then None else Some (readBuffer l2))"
proof -
  obtain cl1 l1 where r1: "loop_receive (cl, l) (p, inbox) = Inr ((cl1, l1), length (concat U), (p, []))"
    and s1: "is_body cl1" "out_holds cl1 U" "totalChunkNum l1 = totalChunkNum l" "totalUniqueNum l1 = totalUniqueNum l + length U"
    using loop_receive_ok [OF at, of p, folded U_def] by (elim exE conjE) (rule that; assumption)
  have "length (concat U) \<le> CHUNKSIZE * BATCHSIZE" using client_at_full(2) [OF at] by (simp add: U_def)
  from upload_query_ok [OF s1(1,2) this rb n, of l1] r1 s1(3,4) show ?thesis by fastforce
qed

text \<open>The contract; \<open>k\<close> bounds how many more containers the server may have to start.\<close>

locale upload_peer =
  fixes evp :: evp and malloc :: mem and peer :: "'p peer" and fname :: string
    and ready :: "nat \<Rightarrow> 'p \<Rightarrow> bool"
    and rcv :: "nat \<Rightarrow> byte list list \<Rightarrow> byte list list \<Rightarrow> bool list \<Rightarrow> 'p \<Rightarrow> bool"
    and stored :: "byte list list \<Rightarrow> 'p \<Rightarrow> bool"
    and known :: "'p \<Rightarrow> byte list \<Rightarrow> bool"
    and ok :: "byte list list \<Rightarrow> bool"
  assumes request: "ready k p \<Longrightarrow> \<exists>p' m. peer (send_control_message malloc UPLOAD fname NONE) p =
        Inr (p', [send_control_message m UPLOADREP [] UNIQUE]) \<and> rcv k [] [] [] p' \<and>
        (\<forall>ch. known p ch \<longrightarrow> known p' ch)"
    and part: "rcv (k + length chs) recs chs fl p \<Longrightarrow> ok next \<Longrightarrow> length next \<le> BATCHSIZE \<Longrightarrow>
        full_chunks (uniques (zip chs fl)) \<Longrightarrow> part_frame evp (uniques (zip chs fl)) next f \<Longrightarrow>
        \<exists>p' out. peer f p = Inr (p', out) \<and> rcv k (recs @ chs) next (map (\<lambda>ch. \<not> known p' ch) next) p' \<and>
          (\<forall>ch. known p ch \<longrightarrow> known p' ch) \<and>
          (if next = [] then out = [] else \<exists>g. out = [g] \<and> flags_frame (map (\<lambda>ch. \<not> known p' ch) next) g)"
    and finish: "rcv (Suc k) recs [] fl p \<Longrightarrow> end_frame f \<Longrightarrow> \<exists>p'. peer f p = Inr (p', []) \<and> stored recs p'"
    and digests: "rcv k recs chs fl p \<Longrightarrow> evp_total evp"
begin

lemma loop_step:
  assumes at: "client_at evp chs fl cl l inbox" and rcv: "rcv (k + length chs) recs chs fl p"
    and rb: "rel_option (buffer_of evp) b (case rbs of [] \<Rightarrow> None | rb # _ \<Rightarrow> Some rb)"
    and nx: "ok (next_chunks b)" "length (next_chunks b) \<le> BATCHSIZE"
  shows "\<exists>cl' l' p' inbox'. upload_loop peer rbs (cl, l) (p, inbox) =
       (if next_chunks b = [] then Inr ((cl', l'), (p', inbox'))
        else (case rbs of [] \<Rightarrow> Inr ((cl', l'), (p', inbox')) | _ # rbs' \<Rightarrow> upload_loop peer rbs' (cl', l') (p', inbox'))) \<and>
     rcv k (recs @ chs) (next_chunks b) (map (\<lambda>ch. \<not> known p' ch) (next_chunks b)) p' \<and>
     (\<forall>ch. known p ch \<longrightarrow> known p' ch) \<and> is_body cl' \<and>
     totalUniqueNum l' = totalUniqueNum l + length (uniques (zip chs fl)) \<and>
     totalChunkNum l' = totalChunkNum l + length (next_chunks b) \<and> currentBatchNum l' = length (next_chunks b) \<and>
     rel_option (buffer_of evp) b (if b = None then None else Some (readBuffer l')) \<and>
     (if next_chunks b = [] then inbox' = []
      else \<exists>g. inbox' = [g] \<and> flags_frame (map (\<lambda>ch. \<not> known p' ch) (next_chunks b)) g)"
proof -
  let ?U = "uniques (zip chs fl)"
  obtain cl1 l1 cl2 l2 f where r1: "loop_receive (cl, l) (p, inbox) = Inr ((cl1, l1), length (concat ?U), (p, []))"
    and r2: "upload_query (case rbs of [] \<Rightarrow> None | rb # _ \<Rightarrow> Some rb) (length (concat ?U)) (cl1, l1) = Inr ((cl2, l2), f)"
    and f: "part_frame evp ?U (next_chunks b) f"
    and s2: "is_body cl2" "currentBatchNum l2 = length (next_chunks b)"
      "totalChunkNum l2 = totalChunkNum l + length (next_chunks b)" "totalUniqueNum l2 = totalUniqueNum l + length ?U"
      "rel_option (buffer_of evp) b (if b = None then None else Some (readBuffer l2))"
    using client_sends [OF at rb nx(2), of p] by (elim exE conjE) (rule that; assumption)
  obtain p' out where r3: "peer f p = Inr (p', out)"
    and p': "rcv k (recs @ chs) (next_chunks b) (map (\<lambda>ch. \<not> known p' ch) (next_chunks b)) p'"
      "\<forall>ch. known p ch \<longrightarrow> known p' ch"
      "if next_chunks b = [] then out = [] else \<exists>g. out = [g] \<and> flags_frame (map (\<lambda>ch. \<not> known p' ch) (next_chunks b)) g"
    using part [OF rcv nx client_at_full(1) [OF at] f] by (elim exE conjE) (rule that; assumption)
  have "upload_loop peer rbs (cl, l) (p, inbox) = (if next_chunks b = [] then Inr ((cl2, l2), (p', out))
        else (case rbs of [] \<Rightarrow> Inr ((cl2, l2), (p', out)) | _ # rbs' \<Rightarrow> upload_loop peer rbs' (cl2, l2) (p', out)))"
    by (subst upload_loop_unfold) (simp add: r1 r2 r3 net_send_def s2(2))
  then show ?thesis
    using p' s2 by (intro exI [of _ cl2] exI [of _ l2] exI [of _ p'] exI [of _ out]) simp
qed

end

lemma no_uniques: "\<forall>x \<in> set fl. \<not> x \<Longrightarrow> uniques (zip chs fl) = []"
  by (simp add: uniques_def filter_empty_conv) (metis prod.collapse set_zip_rightD)

context upload_peer
begin

lemma loop_all:
  assumes "list_all2 (buffer_of evp) bls rbs"
    and "\<forall>b \<in> set bls. ok (chunks_of b) \<and> chunks_of b \<noteq> [] \<and> length (chunks_of b) \<le> BATCHSIZE \<and> length b \<le> CHUNKSIZE * BATCHSIZE"
    and "ok []" "client_at evp chs fl cl l inbox"
    and "rcv (k + length (chs @ concat (map chunks_of bls))) recs chs fl p"
  shows "\<exists>cl' l' p'. upload_loop peer rbs (cl, l) (p, inbox) = Inr ((cl', l'), (p', [])) \<and>
           rcv k (recs @ chs @ concat (map chunks_of bls)) [] [] p' \<and>
           ((\<forall>x \<in> set fl. \<not> x) \<longrightarrow> (\<forall>ch \<in> set (concat (map chunks_of bls)). known p ch) \<longrightarrow>
            totalUniqueNum l' = totalUniqueNum l)"
  using assms
proof (induction bls rbs arbitrary: chs fl cl l inbox recs p rule: list_all2_induct)
  case Nil
  have "rel_option (buffer_of evp) None (case [] of [] \<Rightarrow> None | rb # _ \<Rightarrow> Some rb)" by simp
  from loop_step [OF Nil(3) _ this, of k recs p] Nil show ?case
    by (fastforce simp: next_chunks_def no_uniques)
next
  case (Cons b bls rb rbs)
  let ?K = "k + length (concat (map chunks_of (b # bls)))"
  have n: "next_chunks (Some b) = chunks_of b" "chunks_of b \<noteq> []" "length (chunks_of b) \<le> BATCHSIZE"
      "length b \<le> CHUNKSIZE * BATCHSIZE" "ok (chunks_of b)"
    using Cons.prems(1) by (simp_all add: next_chunks_def)
  have bls: "\<forall>b \<in> set bls. ok (chunks_of b) \<and> chunks_of b \<noteq> [] \<and> length (chunks_of b) \<le> BATCHSIZE \<and> length b \<le> CHUNKSIZE * BATCHSIZE"
    using Cons.prems(1) by simp
  have rb: "rel_option (buffer_of evp) (Some b) (case rb # rbs of [] \<Rightarrow> None | rb # _ \<Rightarrow> Some rb)"
    using Cons.hyps(1) by simp
  have rcv: "rcv (?K + length chs) recs chs fl p"
    using Cons.prems(4) by (simp add: add.assoc add.commute add.left_commute)
  obtain cl1 l1 p1 inbox1 where step: "upload_loop peer (rb # rbs) (cl, l) (p, inbox) = upload_loop peer rbs (cl1, l1) (p1, inbox1)"
    and r1: "rcv ?K (recs @ chs) (chunks_of b) (map (\<lambda>ch. \<not> known p1 ch) (chunks_of b)) p1"
    and kn: "\<forall>ch. known p ch \<longrightarrow> known p1 ch" and cl1: "is_body cl1"
    and l1: "totalUniqueNum l1 = totalUniqueNum l + length (uniques (zip chs fl))"
      "totalChunkNum l1 = totalChunkNum l + length (chunks_of b)" "currentBatchNum l1 = length (chunks_of b)"
      "buffer_of evp b (readBuffer l1)"
    and in1: "\<exists>g. inbox1 = [g] \<and> flags_frame (map (\<lambda>ch. \<not> known p1 ch) (chunks_of b)) g"
    using loop_step [OF Cons.prems(3) rcv rb] n by (auto simp del: concat.simps)
  have at1: "client_at evp (chunks_of b) (map (\<lambda>ch. \<not> known p1 ch) (chunks_of b)) cl1 l1 inbox1"
    using cl1 l1 in1 n(2-4) by (auto simp: client_at_def asked_def)
  have r1': "rcv (k + length (chunks_of b @ concat (map chunks_of bls))) (recs @ chs) (chunks_of b)
      (map (\<lambda>ch. \<not> known p1 ch) (chunks_of b)) p1" using r1 by simp
  obtain cl' l' p' where rest: "upload_loop peer rbs (cl1, l1) (p1, inbox1) = Inr ((cl', l'), (p', []))"
    and r': "rcv k ((recs @ chs) @ chunks_of b @ concat (map chunks_of bls)) [] [] p'"
    and u': "(\<forall>x \<in> set (map (\<lambda>ch. \<not> known p1 ch) (chunks_of b)). \<not> x) \<longrightarrow>
      (\<forall>ch \<in> set (concat (map chunks_of bls)). known p1 ch) \<longrightarrow> totalUniqueNum l' = totalUniqueNum l1"
    using Cons.IH [OF bls Cons.prems(2) at1 r1'] by (elim exE conjE) (rule that; assumption)
  have "totalUniqueNum l' = totalUniqueNum l" if "\<forall>x \<in> set fl. \<not> x" "\<forall>ch \<in> set (concat (map chunks_of (b # bls))). known p ch"
    using that u' kn l1(1) no_uniques [of fl chs] by auto
  then show ?case using step rest r' by (intro exI [of _ cl'] exI [of _ l'] exI [of _ p']) simp
qed

end

lemma client_at_start: "client_at evp [] [] (set_cl_type UPLOADBODY cl) (locals_start rb) []"
  by (simp add: client_at_def is_body_def set_cl_type_def locals_start_def)

lemma fileend_frame_ok: "\<exists>cl' f. fileend_frame cl = (cl', f) \<and> end_frame f"
proof -
  define m where "m = (cl_outMsgBuffer (set_cl_type FILEEND cl))\<lparr>header :=
    (header (cl_outMsgBuffer (set_cl_type FILEEND cl)))\<lparr>hdr_size := of_nat sizeof_DataMsg\<rparr>\<rparr>"
  have "end_frame (msg_bytes m sizeof_DataMsg)"
    unfolding end_frame_def by (intro exI [of _ m]) (simp add: m_def set_cl_type_def)
  then show ?thesis by (simp add: fileend_frame_def Let_def m_def)
qed

context upload_peer
begin

lemma loop_file:
  assumes "rcv (k + length (chunks_of bs)) [] [] [] p" "\<forall>b \<in> set (blocks_of bs). ok (chunks_of b)" "ok []"
  shows "\<exists>rbs cl' l' p'. read_data evp malloc (Some bs) = Inr rbs \<and>
           upload_loop peer rbs (set_cl_type UPLOADBODY cl, locals_start rb) (p, []) = Inr ((cl', l'), (p', [])) \<and>
           rcv k (chunks_of bs) [] [] p' \<and>
           ((\<forall>ch \<in> set (chunks_of bs). known p ch) \<longrightarrow> totalUniqueNum l' = 0)"
proof -
  obtain rbs where rbs: "read_loop evp malloc bs = Inr rbs" "list_all2 (buffer_of evp) (blocks_of bs) rbs"
    using read_loop_ok [OF digests [OF assms(1)]] by blast
  have "\<forall>b \<in> set (blocks_of bs). ok (chunks_of b) \<and> chunks_of b \<noteq> [] \<and> length (chunks_of b) \<le> BATCHSIZE \<and>
      length b \<le> CHUNKSIZE * BATCHSIZE"
    using assms(2) blocks_of_facts by blast
  note loop = loop_all [OF rbs(2) this assms(3) client_at_start, of k "[]" p cl rb, unfolded chunks_of_blocks]
  obtain cl' l' p' where "upload_loop peer rbs (set_cl_type UPLOADBODY cl, locals_start rb) (p, []) = Inr ((cl', l'), (p', []))"
    "rcv k (chunks_of bs) [] [] p'"
    "(\<forall>ch \<in> set (chunks_of bs). known p ch) \<longrightarrow> totalUniqueNum l' = 0"
    using loop assms(1) by (auto simp: locals_start_def)
  then show ?thesis using rbs(1) by (auto simp: read_data_def)
qed

lemma file_uploaded:
  assumes ready: "ready (Suc (length (chunks_of bs))) p" and fname: "get_file_name (cl_file_path cl) = fname"
    and ok: "\<forall>b \<in> set (blocks_of bs). ok (chunks_of b)" "ok []"
  shows "\<exists>cl' p'. upload_file evp malloc peer (Some bs) cl (p, []) = Inr (cl', (p', [])) \<and> stored (chunks_of bs) p'"
proof -
  obtain p1 m where req: "peer (send_control_message malloc UPLOAD fname NONE) p =
      Inr (p1, [send_control_message m UPLOADREP [] UNIQUE])" and r1: "rcv (1 + length (chunks_of bs)) [] [] [] p1"
    using request [OF ready] by auto
  define uninit where "uninit = \<lparr>dataBuffer = malloc, hashBuffer = malloc, rb_chunkNum = 0, rb_dataSize = 0\<rparr>"
  obtain rbs cl2 l2 p2 where rd: "read_data evp malloc (Some bs) = Inr rbs"
    and loop: "upload_loop peer rbs (set_cl_type UPLOADBODY cl, locals_start uninit) (p1, []) = Inr ((cl2, l2), (p2, []))"
    and r2: "rcv (Suc 0) (chunks_of bs) [] [] p2"
    using loop_file [OF r1 ok, of cl uninit] by auto
  obtain cl3 f where f: "fileend_frame cl2 = (cl3, f)" "end_frame f" using fileend_frame_ok by blast
  obtain p3 where p3: "peer f p2 = Inr (p3, [])" "stored (chunks_of bs) p3" using finish [OF r2 f(2)] by blast
  have "receive_control_msg malloc (send_control_message m UPLOADREP [] UNIQUE) [] 0 =
      Inr (order_val UPLOADREP, [], status_val UNIQUE)"
    by (rule reply_roundtrip) (simp add: is_reply_def)
  then have "upload_file evp malloc peer (Some bs) cl (p, []) = Inr (cl3, (p3, []))"
    unfolding upload_file_def using req rd loop f(1) p3(1)
    by (simp add: fname net_send_def net_recv_def order_of_def uninit_def [symmetric] Let_def)
  then show ?thesis using p3(2) by blast
qed

end

end
