(* ===== verification/DedupClient_Download.thy ===== *)
theory DedupClient_Download
  imports DedupClient_Upload
begin

text \<open>
  Correctness of the client's side of a download (\<^verbatim>\<open>DedupClient::download_file\<close>) against a server that
  keeps the contract \<open>download_peer\<close>, and the round trip of a file through a server that keeps both
  contracts (\<open>file_server\<close>).
\<close>

section \<open>The receive loop\<close>

lemma load_data_frame:
  assumes "data_frame dat frame" "length dat \<le> cl_in_capacity"
    and b': "b' = load_msg b frame"
  shows "length frame \<le> sizeof_DataMsg + cl_in_capacity \<and> b' = load_msg b frame" "dataMsgType (header b') \<noteq> dataMsgType_val FILEEND"
    "unat (hdr_size (header b') - of_nat sizeof_DataMsg) = length dat" "mem_read (msg_data b') 0 (length dat) = dat"
proof -
  obtain m where m: "frame = msg_bytes m (sizeof_DataMsg + length dat)"
    "dataMsgType (header m) = dataMsgType_val DOWNLOADBODY"
    "hdr_size (header m) = of_nat (sizeof_DataMsg + length dat)" "mem_read (msg_data m) 0 (length dat) = dat"
    using assms(1) by (auto simp: data_frame_def)
  have hdr: "header b' = header m" by (simp add: b' m(1) codec_simps)
  have dat: "msg_data b' = mem_write (msg_data b) 0 dat" by (simp add: b' m(1,4) codec_simps)
  show "length frame \<le> sizeof_DataMsg + cl_in_capacity \<and> b' = load_msg b frame"
    using assms(2,3) by (simp add: m(1))
  show "dataMsgType (header b') \<noteq> dataMsgType_val FILEEND" by (simp add: hdr m(2))
  have "length dat < 2 ^ 64" using assms(2) by (simp add: cl_in_capacity_def config_values)
  then show "unat (hdr_size (header b') - of_nat sizeof_DataMsg) = length dat"
    by (simp add: hdr m(3) unat_of_nat_small)
  show "mem_read (msg_data b') 0 (length dat) = dat" by (simp add: dat mem_read_write_same)
qed

lemma load_end_frame:
  assumes "end_frame frame"
  shows "length frame \<le> sizeof_DataMsg + cl_in_capacity" "dataMsgType (header (load_msg b frame)) = dataMsgType_val FILEEND"
proof -
  obtain m where "frame = msg_bytes m sizeof_DataMsg" "dataMsgType (header m) = dataMsgType_val FILEEND"
    using assms by (auto simp: end_frame_def)
  then show "length frame \<le> sizeof_DataMsg + cl_in_capacity" "dataMsgType (header (load_msg b frame)) = dataMsgType_val FILEEND"
    by (simp_all add: codec_simps)
qed

lemma download_loop_ok:
  assumes "list_all2 data_frame dats frames" "list_all (\<lambda>d. length d \<le> cl_in_capacity) dats" "end_frame endf"
  shows "\<exists>cl'. download_loop cl (frames @ endf # rest) written = Inr (cl', written @ concat dats, rest)"
  using assms
proof (induction dats frames arbitrary: cl written rule: list_all2_induct)
  case Nil
  then show ?case using load_end_frame [OF Nil(2)] by simp
next
  case (Cons d dats f frames)
  have cap: "length d \<le> cl_in_capacity" using Cons.prems by simp
  show ?case
    using load_data_frame [OF Cons.hyps(1) cap refl, where b = "cl_inMsgBuffer cl"] Cons.prems
      Cons.IH [of "cl\<lparr>cl_inMsgBuffer := load_msg (cl_inMsgBuffer cl) f\<rparr>" "written @ d"]
    by (simp add: Let_def)
qed

section \<open>The contracts\<close>

locale download_peer =
  fixes malloc :: mem and peer :: "'p peer" and offers :: "string \<Rightarrow> byte list \<Rightarrow> 'p \<Rightarrow> bool"
  assumes download: "offers fn dat p \<Longrightarrow> \<exists>p' m dats frames endf.
      peer (send_control_message malloc DOWNLOAD fn NONE) p =
        Inr (p', send_control_message m DOWNLOADREP [] EXIST # frames @ [endf]) \<and>
      list_all2 data_frame dats frames \<and> concat dats = dat \<and> list_all (\<lambda>d. length d \<le> cl_in_capacity) dats \<and>
      end_frame endf \<and> offers fn dat p'"
begin

lemma file_downloaded:
  assumes "offers (get_file_name (cl_file_path cl)) dat p"
  shows "\<exists>cl' p'. download_file malloc peer cl (p, []) = Inr (cl', dat, (p', [])) \<and>
           offers (get_file_name (cl_file_path cl)) dat p'"
proof -
  obtain p' m dats frames endf where req: "peer (send_control_message malloc DOWNLOAD (get_file_name (cl_file_path cl)) NONE) p =
      Inr (p', send_control_message m DOWNLOADREP [] EXIST # frames @ [endf])"
    and fr: "list_all2 data_frame dats frames" "concat dats = dat" "list_all (\<lambda>d. length d \<le> cl_in_capacity) dats"
      "end_frame endf" "offers (get_file_name (cl_file_path cl)) dat p'"
    using download [OF assms] by blast
  obtain cl' where loop: "download_loop cl (frames @ [endf]) [] = Inr (cl', dat, [])"
    using download_loop_ok [OF fr(1,3,4), of cl "[]" "[]"] fr(2) by auto
  have "receive_control_msg malloc (send_control_message m DOWNLOADREP [] EXIST) [] 0 =
      Inr (order_val DOWNLOADREP, [], status_val EXIST)"
    by (rule reply_roundtrip) (simp add: is_reply_def)
  then have "download_file malloc peer cl (p, []) = Inr (cl', dat, (p', []))"
    unfolding download_file_def using req loop
    by (simp add: net_send_def net_recv_def order_of_def Let_def)
  then show ?thesis using fr(5) by blast
qed

end

locale file_server = upload_peer evp malloc peer fname ready rcv stored known ok + download_peer malloc peer offers
  for evp malloc and peer :: "'p peer" and fname ready rcv stored known ok offers +
  assumes stored_offered: "stored recs p \<Longrightarrow> offers fname (concat recs) p"
begin

text \<open>A file survives the round trip, and downloading it again gives the same bytes.\<close>

lemma file_roundtrip:
  assumes "ready (Suc (length (chunks_of bs))) p" "get_file_name (cl_file_path cl) = fname"
    "get_file_name (cl_file_path cl2) = fname" "\<forall>b \<in> set (blocks_of bs). ok (chunks_of b)" "ok []"
  shows "\<exists>cl' p1 cl2' p2. upload_file evp malloc peer (Some bs) cl (p, []) = Inr (cl', (p1, [])) \<and>
           download_file malloc peer cl2 (p1, []) = Inr (cl2', bs, (p2, [])) \<and> offers fname bs p2"
proof -
  obtain cl' p1 where up: "upload_file evp malloc peer (Some bs) cl (p, []) = Inr (cl', (p1, []))"
    and st: "stored (chunks_of bs) p1"
    using file_uploaded [OF assms(1,2,4,5)] by blast
  have "offers (get_file_name (cl_file_path cl2)) bs p1"
    using stored_offered [OF st] by (simp add: chunks_of_facts(1) assms(3))
  then show ?thesis using file_downloaded [of cl2 bs p1] up assms(3) by auto
qed

end

end
