(* ===== verification/Dedup_System.thy ===== *)
theory Dedup_System
  imports ClientConn_Download DedupClient_Download
begin

text \<open>
  Client and server together. The server's connection handler keeps the contracts the client relies on:
  the locale \<open>file_server\<close> is interpreted on \<open>conn_receive\<close>, and its lemmas become facts about the
  program. A session is what one run of the client does: connect, log in, transfer, quit.
\<close>

section \<open>The contracts on the server's states\<close>

text \<open>
  \<open>calm\<close>: the connection waits for an order, no other connection has unwritten containers, and up to \<open>k\<close>
  more containers can be started. \<open>keeps\<close>: the recipes \<open>F\<close> of other files are stored.
  \<open>db1\<close> is the database after the row for the new file was inserted.
\<close>

definition calm ::
    "'db ext \<Rightarrow> nat \<Rightarrow> byte list set \<Rightarrow> ('db \<Rightarrow> int \<Rightarrow> string \<Rightarrow> nat) \<Rightarrow> (string \<Rightarrow> string \<Rightarrow> bool) \<Rightarrow> u32 \<Rightarrow>
     nat \<Rightarrow> 'db server \<times> conn \<Rightarrow> bool" where
  "calm ext N C rows same cid k = (\<lambda>(srv, c).
     env_ok ext N C \<and> db_ready ext rows same srv \<and> client_id (m_client_info c) = cid \<and>
     uuid_count srv + k \<le> N \<and> idle ext C Map.empty (srv, c))"

definition keeps :: "string \<Rightarrow> (string \<times> byte list list) set \<Rightarrow> 'db server \<times> conn \<Rightarrow> bool" where
  "keeps name F s \<longleftrightarrow> (\<forall>(n, rs) \<in> F. n \<noteq> name \<and> [] \<notin> set rs \<and> file_stored Map.empty n rs s)"

definition retains :: "(string \<times> byte list list) set \<Rightarrow> 'db server \<times> conn \<Rightarrow> bool" where
  "retains F s \<longleftrightarrow> (\<forall>(n, rs) \<in> F. [] \<notin> set rs \<and> file_stored Map.empty n rs s)"

text \<open>A name that survives the wire and the query buffer, with the byte the client leaves unset.\<close>

definition sendable :: "mem \<Rightarrow> string \<Rightarrow> bool" where
  "sendable malloc fn \<longleftrightarrow> name_ok fn \<and> no_nul fn \<and> malloc (8 + length fn) = 0"

definition accepts_upload ::
    "'db ext \<Rightarrow> mem \<Rightarrow> nat \<Rightarrow> byte list set \<Rightarrow> ('db \<Rightarrow> int \<Rightarrow> string \<Rightarrow> nat) \<Rightarrow> (string \<Rightarrow> string \<Rightarrow> bool) \<Rightarrow> u32 \<Rightarrow>
     string \<Rightarrow> (string \<times> byte list list) set \<Rightarrow> 'db \<Rightarrow> nat \<Rightarrow> 'db server \<times> conn \<times> mode \<Rightarrow> bool" where
  "accepts_upload ext malloc N C rows same cid fn F db1 k = (\<lambda>(srv, c, m).
     m = AwaitOrder \<and> calm ext N C rows same cid k (srv, c) \<and> sendable malloc fn \<and>
     rows (m_db srv) (sint cid) fn = 0 \<and> db1 = fst (x_exec ext (m_db srv) (insert_query cid fn)) \<and>
     keeps (recipe_key ext cid fn) F (srv, c))"

definition receives ::
    "'db ext \<Rightarrow> mem \<Rightarrow> nat \<Rightarrow> byte list set \<Rightarrow> ('db \<Rightarrow> int \<Rightarrow> string \<Rightarrow> nat) \<Rightarrow> (string \<Rightarrow> string \<Rightarrow> bool) \<Rightarrow> u32 \<Rightarrow>
     string \<Rightarrow> (string \<times> byte list list) set \<Rightarrow> 'db \<Rightarrow> nat \<Rightarrow> byte list list \<Rightarrow> byte list list \<Rightarrow> bool list \<Rightarrow>
     'db server \<times> conn \<times> mode \<Rightarrow> bool" where
  "receives ext malloc N C rows same cid fn F db1 k recs chs fl = (\<lambda>(srv, c, m).
     case m of
       Receiving l \<Rightarrow> env_ok ext N C \<and> db_ready ext rows same srv \<and> client_id (m_client_info c) = cid \<and>
         uuid_count srv + k \<le> N \<and> m_db srv = db1 \<and> rows db1 (sint cid) fn = 1 \<and> sendable malloc fn \<and>
         receiving ext C Map.empty (recipe_key ext cid fn) recs chs fl (srv, c, l) \<and>
         keeps (recipe_key ext cid fn) F (srv, c)
     | _ \<Rightarrow> False)"

definition holds_file ::
    "'db ext \<Rightarrow> mem \<Rightarrow> nat \<Rightarrow> byte list set \<Rightarrow> ('db \<Rightarrow> int \<Rightarrow> string \<Rightarrow> nat) \<Rightarrow> (string \<Rightarrow> string \<Rightarrow> bool) \<Rightarrow> u32 \<Rightarrow>
     string \<Rightarrow> (string \<times> byte list list) set \<Rightarrow> 'db \<Rightarrow> byte list list \<Rightarrow> 'db server \<times> conn \<times> mode \<Rightarrow> bool" where
  "holds_file ext malloc N C rows same cid fn F db1 recs = (\<lambda>(srv, c, m).
     m = AwaitOrder \<and> calm ext N C rows same cid 0 (srv, c) \<and> m_db srv = db1 \<and> rows db1 (sint cid) fn = 1 \<and> sendable malloc fn \<and>
     file_stored Map.empty (recipe_key ext cid fn) recs (srv, c) \<and> chunks_ok C recs \<and> indexed ext srv recs \<and>
     keeps (recipe_key ext cid fn) F (srv, c))"

definition offers_file ::
    "'db ext \<Rightarrow> mem \<Rightarrow> nat \<Rightarrow> byte list set \<Rightarrow> ('db \<Rightarrow> int \<Rightarrow> string \<Rightarrow> nat) \<Rightarrow> (string \<Rightarrow> string \<Rightarrow> bool) \<Rightarrow> u32 \<Rightarrow>
     (string \<times> byte list list) set \<Rightarrow> 'db \<Rightarrow> string \<Rightarrow> byte list \<Rightarrow> 'db server \<times> conn \<times> mode \<Rightarrow> bool" where
  "offers_file ext malloc N C rows same cid F db1 fn dat = (\<lambda>(srv, c, m).
     m = AwaitOrder \<and> calm ext N C rows same cid 0 (srv, c) \<and> sendable malloc fn \<and>
     m_db srv = db1 \<and> retains F (srv, c) \<and> 0 < rows (m_db srv) (sint cid) fn \<and> rows (m_db srv) (sint cid) fn < 2 ^ 32 \<and>
     (\<exists>recs. file_stored Map.empty (recipe_key ext cid fn) recs (srv, c) \<and> chunks_ok C recs \<and> dat = concat recs))"

definition knows :: "'db ext \<Rightarrow> 'db server \<times> conn \<times> mode \<Rightarrow> byte list \<Rightarrow> bool" where
  "knows ext = (\<lambda>(srv, c, m) ch. m_all_chunks srv (chunk_key ext ch) \<noteq> None)"

lemma keeps_frame: "keeps name F s \<Longrightarrow> conn_frame Map.empty name k s s' \<Longrightarrow> keeps name F s'"
  by (auto simp: keeps_def intro: file_stored_frame)

lemma knows_frame: "conn_frame oth name k (srv, c) (srv', c') \<Longrightarrow> knows ext (srv, c, m) ch \<Longrightarrow> knows ext (srv', c', m') ch"
  by (auto simp: knows_def conn_frame_def)

lemma sendable_request:
  assumes "sendable malloc fn" "is_request ord"
  shows "receive_control_msg blk (send_control_message malloc ord fn NONE) [] 0 = Inr (order_val ord, fn, 0)"
  using assms by (intro request_decoded) (simp_all add: sendable_def name_ok_def)

section \<open>The server keeps the contracts\<close>

lemma upload_request_law:
  assumes "accepts_upload ext malloc N C rows same cid fn F db1 k p"
  shows "\<exists>p' m. conn_receive ext (send_control_message malloc UPLOAD fn NONE) p =
           Inr (p', [send_control_message m UPLOADREP [] UNIQUE]) \<and>
         receives ext malloc N C rows same cid fn F db1 k [] [] [] p' \<and> (\<forall>ch. knows ext p ch \<longrightarrow> knows ext p' ch)"
proof -
  obtain srv c where p: "p = (srv, c, AwaitOrder)" and ok: "calm ext N C rows same cid k (srv, c)" "sendable malloc fn"
    "rows (m_db srv) (sint cid) fn = 0" "keeps (recipe_key ext cid fn) F (srv, c)"
    "db1 = fst (x_exec ext (m_db srv) (insert_query cid fn))"
    using assms by (cases p) (auto simp: accepts_upload_def)
  have env: "env_ok ext N C" "idle ext C Map.empty (srv, c)" "db_ready ext rows same srv"
    "client_id (m_client_info c) = cid" "uuid_count srv + k \<le> N" and nm: "name_ok fn"
    using ok(1,2) by (simp_all add: calm_def sendable_def)
  have req: "receive_control_msg (x_malloc ext) (send_control_message malloc UPLOAD fn NONE) [] 0 = Inr (order_val UPLOAD, fn, 0)"
    using ok(2) by (rule sendable_request) (simp add: is_request_def)
  obtain srv' c' l where run: "conn_receive ext (send_control_message malloc UPLOAD fn NONE) (srv, c, AwaitOrder) =
      Inr ((srv', c', Receiving l), [send_control_message (x_malloc ext) UPLOADREP [] UNIQUE])"
    and rcv: "receiving ext C Map.empty (recipe_key ext cid fn) [] [] [] (srv', c', l)"
    and db: "db_ready ext rows same srv'" "m_db srv' = fst (x_exec ext (m_db srv) (insert_query cid fn))"
    and fr: "conn_frame Map.empty (recipe_key ext cid fn) 0 (srv\<lparr>m_db := m_db srv', m_mysqlPool := m_mysqlPool srv'\<rparr>, c) (srv', c')"
    using conn_receive_upload [OF env(1-3) nm ok(3) env(4) req] by (elim exE conjE) (rule that; assumption)
  have "m_db srv' = db1" "rows db1 (sint cid) fn = 1"
    using db nm ok(3,5) by (simp_all add: db_ready_def mysql_files_def name_ok_def)
  moreover have "keeps (recipe_key ext cid fn) F (srv\<lparr>m_db := m_db srv', m_mysqlPool := m_mysqlPool srv'\<rparr>, c)"
    using ok(4) by (simp add: keeps_def file_stored_def gstore_def)
  from keeps_frame [OF this fr] have "keeps (recipe_key ext cid fn) F (srv', c')" .
  moreover have "uuid_count srv' + k \<le> N" "client_id (m_client_info c') = cid" "dom (m_all_chunks srv) \<subseteq> dom (m_all_chunks srv')"
    using fr env(4,5) by (simp_all add: conn_frame_def)
  ultimately show ?thesis
    using run rcv env(1) db(1) ok(2) by (auto simp: p receives_def knows_def)
qed

lemma part_law:
  assumes rcv: "receives ext malloc N C rows same cid fn F db1 (k + length chs) recs chs fl p"
    and nx: "chunks_ok C next" "length next \<le> BATCHSIZE" and full: "full_chunks (uniques (zip chs fl))"
    and f: "part_frame (x_evp ext) (uniques (zip chs fl)) next f"
  shows "\<exists>p' out. conn_receive ext f p = Inr (p', out) \<and>
           receives ext malloc N C rows same cid fn F db1 k (recs @ chs) next (map (\<lambda>ch. \<not> knows ext p' ch) next) p' \<and>
           (\<forall>ch. knows ext p ch \<longrightarrow> knows ext p' ch) \<and>
           (if next = [] then out = [] else \<exists>g. out = [g] \<and> flags_frame (map (\<lambda>ch. \<not> knows ext p' ch) next) g)"
proof -
  obtain srv c l where p: "p = (srv, c, Receiving l)"
    using rcv by (cases p; cases "snd (snd p)") (auto simp: receives_def)
  have s: "env_ok ext N C" "receiving ext C Map.empty (recipe_key ext cid fn) recs chs fl (srv, c, l)"
      "uuid_count srv + (k + length chs) \<le> N" "db_ready ext rows same srv" "client_id (m_client_info c) = cid"
      "m_db srv = db1 \<and> rows db1 (sint cid) fn = 1" "keeps (recipe_key ext cid fn) F (srv, c)" "sendable malloc fn"
    using rcv by (simp_all add: receives_def p)
  have uuid: "uuid_count srv + length chs \<le> N" using s(3) by simp
  obtain srv' c' l' out where run: "conn_receive ext f (srv, c, Receiving l) = Inr ((srv', c', Receiving l'), out)"
    and rcv': "receiving ext C Map.empty (recipe_key ext cid fn) (recs @ chs) next (answer_flags ext srv' next) (srv', c', l')"
    and fr: "conn_frame Map.empty (recipe_key ext cid fn) (length chs) (srv, c) (srv', c')"
    and out: "if next = [] then out = [] else \<exists>f. out = [f] \<and> flags_frame (answer_flags ext srv' next) f"
    using conn_receive_part [OF s(1,2) uuid nx f full] by (elim exE conjE) (rule that; assumption)
  have fl: "map (\<lambda>ch. \<not> knows ext (srv', c', Receiving l') ch) next = answer_flags ext srv' next"
    by (simp add: knows_def answer_flags_def)
  have "uuid_count srv' + k \<le> N" "m_mysqlPool srv' = m_mysqlPool srv" "m_db srv' = m_db srv"
    "client_id (m_client_info c') = cid"
    using fr s(3,5) by (simp_all add: conn_frame_def)
  note frame = this keeps_frame [OF s(7) fr]
  have "receives ext malloc N C rows same cid fn F db1 k (recs @ chs) next (answer_flags ext srv' next) (srv', c', Receiving l')"
    using frame s rcv' by (simp add: receives_def db_ready_def)
  moreover have "\<forall>ch. knows ext p ch \<longrightarrow> knows ext (srv', c', Receiving l') ch"
    using knows_frame [OF fr] by (simp add: p)
  ultimately show ?thesis
    unfolding p using run out by (intro exI [of _ "(srv', c', Receiving l')"] exI [of _ out]) (simp add: fl)
qed

lemma end_law:
  assumes rcv: "receives ext malloc N C rows same cid fn F db1 (Suc k) recs [] fl p" and f: "end_frame f"
  shows "\<exists>p'. conn_receive ext f p = Inr (p', []) \<and> holds_file ext malloc N C rows same cid fn F db1 recs p'"
proof -
  obtain srv c l where p: "p = (srv, c, Receiving l)"
    using rcv by (cases p; cases "snd (snd p)") (auto simp: receives_def)
  have s: "env_ok ext N C" "receiving ext C Map.empty (recipe_key ext cid fn) recs [] fl (srv, c, l)"
      "uuid_count srv + Suc k \<le> N" "db_ready ext rows same srv" "client_id (m_client_info c) = cid"
      "m_db srv = db1 \<and> rows db1 (sint cid) fn = 1" "keeps (recipe_key ext cid fn) F (srv, c)" "sendable malloc fn"
    using rcv by (simp_all add: receives_def p)
  obtain srv' c' where run: "conn_receive ext f (srv, c, Receiving l) = Inr ((srv', c', AwaitOrder), [])"
    and i: "idle ext C Map.empty (srv', c')" "file_stored Map.empty (recipe_key ext cid fn) recs (srv', c')"
      "indexed ext srv' recs" and fr: "conn_frame Map.empty (recipe_key ext cid fn) 1 (srv, c) (srv', c')"
    using conn_receive_end [OF s(1,2) _ f] s(3) by auto
  have "uuid_count srv' \<le> N" "m_mysqlPool srv' = m_mysqlPool srv" "m_db srv' = m_db srv"
    "client_id (m_client_info c') = cid"
    using fr s(3,5) by (simp_all add: conn_frame_def)
  note frame = this keeps_frame [OF s(7) fr]
  have "chunks_ok C recs" using s(2) by (simp add: receiving_def chunks_ok_def)
  then have "holds_file ext malloc N C rows same cid fn F db1 recs (srv', c', AwaitOrder)"
    using frame s i by (simp add: holds_file_def calm_def db_ready_def)
  then show ?thesis using run p by blast
qed

lemma download_law:
  assumes "offers_file ext malloc N C rows same cid F db1 fn dat p"
  shows "\<exists>p' m dats frames endf. conn_receive ext (send_control_message malloc DOWNLOAD fn NONE) p =
           Inr (p', send_control_message m DOWNLOADREP [] EXIST # frames @ [endf]) \<and>
         list_all2 data_frame dats frames \<and> concat dats = dat \<and> list_all (\<lambda>d. length d \<le> cl_in_capacity) dats \<and>
         end_frame endf \<and> offers_file ext malloc N C rows same cid F db1 fn dat p'"
proof -
  obtain srv c recs where p: "p = (srv, c, AwaitOrder)" and ok: "calm ext N C rows same cid 0 (srv, c)" "sendable malloc fn"
    "0 < rows (m_db srv) (sint cid) fn" "rows (m_db srv) (sint cid) fn < 2 ^ 32"
    "file_stored Map.empty (recipe_key ext cid fn) recs (srv, c)" "chunks_ok C recs" "dat = concat recs"
    "m_db srv = db1" "retains F (srv, c)"
    using assms by (cases p) (auto simp: offers_file_def)
  have env: "env_ok ext N C" "idle ext C Map.empty (srv, c)" "db_ready ext rows same srv"
    "client_id (m_client_info c) = cid" "uuid_count srv \<le> N" and nm: "name_ok fn"
    using ok(1,2) by (simp_all add: calm_def sendable_def)
  have req: "receive_control_msg (x_malloc ext) (send_control_message malloc DOWNLOAD fn NONE) [] 0 = Inr (order_val DOWNLOAD, fn, 0)"
    using ok(2) by (rule sendable_request) (simp add: is_request_def)
  obtain q c' dats frames endf where run: "conn_receive ext (send_control_message malloc DOWNLOAD fn NONE) (srv, c, AwaitOrder) =
      Inr ((srv\<lparr>m_mysqlPool := q\<rparr>, c', AwaitOrder), send_control_message (x_malloc ext) DOWNLOADREP [] EXIST # frames @ [endf])"
    and fr: "list_all2 data_frame dats frames" "concat dats = concat recs" "list_all (\<lambda>d. length d \<le> out_capacity) dats"
      "end_frame endf"
    and s': "idle ext C Map.empty (srv\<lparr>m_mysqlPool := q\<rparr>, c')" "db_ready ext rows same (srv\<lparr>m_mysqlPool := q\<rparr>)"
      "out_only c (c'\<lparr>m_recipeNameHash := m_recipeNameHash c\<rparr>)"
    using conn_receive_download [OF env(1-3) nm ok(3,4) env(4) req ok(5,6)] by (elim exE conjE) (rule that; assumption)
  have st: "gstore Map.empty (srv\<lparr>m_mysqlPool := q\<rparr>) c' = gstore Map.empty srv c"
    using idle_frame(2) [OF env(2) s'(3) refl, of q "m_recipeNameHash c'"] by simp
  have info: "m_client_info c' = m_client_info c" using idle_frame(3) [OF env(2) s'(3) refl] by simp
  have "file_stored Map.empty (recipe_key ext cid fn) recs (srv\<lparr>m_mysqlPool := q\<rparr>, c')"
    using ok(5) by (simp add: file_stored_def st)
  moreover have "retains F (srv\<lparr>m_mysqlPool := q\<rparr>, c')"
    using ok(9) by (simp add: retains_def file_stored_def st)
  ultimately have "offers_file ext malloc N C rows same cid F db1 fn dat (srv\<lparr>m_mysqlPool := q\<rparr>, c', AwaitOrder)"
    using ok env s' info by (auto simp: offers_file_def calm_def)
  then show ?thesis using run fr ok(7) by (auto simp: p cl_in_capacity_def out_capacity_def)
qed

lemma receives_digests: "receives ext malloc N C rows same cid fn F db1 k recs chs fl p \<Longrightarrow> evp_total (x_evp ext)"
  by (cases p; cases "snd (snd p)") (auto simp: receives_def env_ok_def)

lemma holds_offers:
  "holds_file ext malloc N C rows same cid fn F db1 recs p \<Longrightarrow>
   offers_file ext malloc N C rows same cid F db1 fn (concat recs) p"
  by (cases p) (auto simp: holds_file_def offers_file_def keeps_def retains_def)

interpretation up: upload_peer "x_evp ext" malloc "conn_receive ext" fn "accepts_upload ext malloc N C rows same cid fn F db1"
    "receives ext malloc N C rows same cid fn F db1" "holds_file ext malloc N C rows same cid fn F db1" "knows ext" "chunks_ok C"
  for ext :: "'db ext" and malloc N C rows same cid fn F db1
proof unfold_locales
qed (fact upload_request_law part_law end_law receives_digests)+

interpretation down: download_peer malloc "conn_receive ext" "offers_file ext malloc N C rows same cid F db1"
  for ext :: "'db ext" and malloc N C rows same cid F db1
  by unfold_locales (fact download_law)

interpretation sys: file_server "x_evp ext" malloc "conn_receive ext" fn "accepts_upload ext malloc N C rows same cid fn F db1"
    "receives ext malloc N C rows same cid fn F db1" "holds_file ext malloc N C rows same cid fn F db1" "knows ext" "chunks_ok C"
    "offers_file ext malloc N C rows same cid F db1"
  for ext :: "'db ext" and malloc N C rows same cid fn F db1
  by unfold_locales (fact holds_offers)

section \<open>Sessions\<close>

text \<open>
  A client connects: the server accepts and creates the connection object, a worker of the pool runs it,
  and the client runs. \<open>server_ok\<close> is the server between sessions.
\<close>

definition session ::
    "'db ext \<Rightarrow> mem \<Rightarrow> int \<Rightarrow> ClientInfo_t \<Rightarrow> byte list option \<Rightarrow> client \<Rightarrow> 'db server \<Rightarrow>
     crash + client \<times> byte list option \<times> ('db server \<times> conn \<times> mode) net" where
  "session ext malloc sockfd info file cl srv =
     bindR (ClientConn_new ext sockfd info srv) (\<lambda>(srv, c).
     client_run (x_evp ext) malloc (conn_receive ext) file cl ((srv, c, AwaitLogin), []))"

definition server_ok ::
    "'db ext \<Rightarrow> nat \<Rightarrow> byte list set \<Rightarrow> ('db \<Rightarrow> int \<Rightarrow> string \<Rightarrow> nat) \<Rightarrow> (string \<Rightarrow> string \<Rightarrow> bool) \<Rightarrow> nat \<Rightarrow>
     'db server \<Rightarrow> bool" where
  "server_ok ext N C rows same k srv \<longleftrightarrow> env_ok ext N C \<and> db_ready ext rows same srv \<and> uuid_count srv + k \<le> N \<and>
     dom (containers_dir srv) \<subseteq> x_uuid ext ` {..<uuid_count srv} \<and>
     index_sound ext C (containers_dir srv) (m_all_chunks srv)"

definition on_disk :: "string \<Rightarrow> byte list list \<Rightarrow> 'db server \<Rightarrow> bool" where
  "on_disk name recs srv \<longleftrightarrow>
     (\<exists>as. recipes_dir srv name = Some (u32_bytes (of_nat (length as)) @ concat (map enc_addr as)) \<and>
        list_all2 (resolves (containers_dir srv)) as recs)"

lemma ClientConn_new_reset: "ClientConn_new ext sockfd info srv = reset_upload ext (srv, uninit_conn ext sockfd info)"
  by (simp add: ClientConn_new_def reset_upload_def new_container_def new_recipe_def Let_def uninit_conn_def
      undone_def BlockQueue_new_def bindR_def split: sum.splits)

lemma ClientConn_new_ok:
  assumes "server_ok ext N C rows same (Suc k) srv"
  shows "\<exists>c. ClientConn_new ext sockfd info srv = Inr (srv\<lparr>uuid_count := uuid_count srv + 1\<rparr>, c) \<and>
           idle ext C Map.empty (srv\<lparr>uuid_count := uuid_count srv + 1\<rparr>, c) \<and> m_client_info c = info \<and>
           store_keeps (containers_dir srv) (gstore Map.empty (srv\<lparr>uuid_count := uuid_count srv + 1\<rparr>) c)"
proof -
  have env: "env_ok ext N C" and uuid: "uuid_count srv < N"
    using assms by (simp_all add: server_ok_def)
  let ?c = "(uninit_conn ext sockfd info)"
  have "\<exists>c'. reset_upload ext (srv, ?c) = Inr (srv\<lparr>uuid_count := uuid_count srv + 1\<rparr>, c') \<and>
      idle ext C Map.empty (srv\<lparr>uuid_count := uuid_count srv + 1\<rparr>, c') \<and> m_client_info c' = m_client_info ?c \<and>
      store_keeps (Map.empty ++ containers_dir srv) (gstore Map.empty (srv\<lparr>uuid_count := uuid_count srv + 1\<rparr>) c')"
    using assms by (intro reset_upload_ok [OF env uuid])
      (simp_all add: server_ok_def drained_def uninit_conn_def Let_def BlockQueue_new_def bq_inv_def)
  then show ?thesis unfolding ClientConn_new_reset by (auto simp: uninit_conn_def Let_def)
qed

end
