(* ===== verification/Dedup_Session.thy ===== *)
theory Dedup_Session
  imports Dedup_System
begin

text \<open>
  Whole sessions: what one run of the client program leaves on a server that was in a good state, and what a
  later run of any client finds there. The properties of the deduplicating store are stated here, over
  \<open>session\<close>, \<open>conn_receive\<close> and the two transfer functions of the client.
\<close>

section \<open>Login and quit\<close>

lemma login_received:
  "conn_receive ext (login_frame malloc cid) (srv, c, AwaitLogin) =
   Inr ((srv, c\<lparr>m_client_info := (m_client_info c)\<lparr>client_id := cid\<rparr>\<rparr>, AwaitOrder), [])"
proof -
  define m where "m = \<lparr>header = (dec_header (mem_read malloc 0 40))\<lparr>dataMsgType := dataMsgType_val LOGIN,
       hdr_size := of_nat (sizeof_DataMsg + sizeof_LoginInfo)\<rparr>, msg_data = mem_write (\<lambda>i. malloc (40 + i)) 0 (u32_bytes cid)\<rparr>"
  have dat: "mem_read (msg_data m) 0 4 = u32_bytes cid"
    using mem_read_write_same [of _ 0 "u32_bytes cid"] by (simp add: m_def)
  have fr: "login_frame malloc cid = msg_bytes m 44"
    by (simp add: login_frame_def m_def sizeofs Let_def)
  have split: "msg_bytes m 44 = enc_header (header m) @ u32_bytes cid"
    using dat by (simp add: msg_bytes_def sizeofs)
  have "mem_read (mem_write blk 0 (login_frame malloc cid)) 40 4 = u32_bytes cid" for blk
    unfolding fr split by (simp add: mem_simps mem_write_append)
  then show ?thesis
    by (simp add: conn_receive_def receive_login_def fr sizeofs codec_simps)
qed

lemma quit_received:
  "conn_receive ext (send_control_message malloc QUIT [] NONE) (srv, c, AwaitOrder) =
   Inr ((srv, c, Closed), [send_control_message (x_malloc ext) QUITREP [] NONE])"
  by (simp add: conn_receive_def handle_order_def quit_answered order_of_def)

text \<open>A session is the constructor, the login, the transfer and the quit.\<close>

lemma session_upload_eq:
  assumes "ClientConn_new ext sockfd info srv = Inr (srv1, c1)" "cl_op cl = CHR ''u''"
    and "upload_file (x_evp ext) malloc (conn_receive ext) file cl
      ((srv1, c1\<lparr>m_client_info := (m_client_info c1)\<lparr>client_id := cl_client_id cl\<rparr>\<rparr>, AwaitOrder), []) =
      Inr (cl', ((srv2, c2, AwaitOrder), []))"
  shows "session ext malloc sockfd info file cl srv = Inr (cl', None, ((srv2, c2, Closed), []))"
  using assms
  by (simp add: session_def client_run_def net_send_def net_recv_def login_received quit_received quit_answered)

lemma session_download_eq:
  assumes "ClientConn_new ext sockfd info srv = Inr (srv1, c1)" "cl_op cl = CHR ''d''"
    and "download_file malloc (conn_receive ext) cl
      ((srv1, c1\<lparr>m_client_info := (m_client_info c1)\<lparr>client_id := cl_client_id cl\<rparr>\<rparr>, AwaitOrder), []) =
      Inr (cl', dat, ((srv2, c2, AwaitOrder), []))"
  shows "session ext malloc sockfd info file cl srv = Inr (cl', Some dat, ((srv2, c2, Closed), []))"
  using assms
  by (simp add: session_def client_run_def net_send_def net_recv_def login_received quit_received quit_answered)

section \<open>Between sessions\<close>

text \<open>What the server is when a client has logged in, and what it is when the connection is left.\<close>

lemma logged_in:
  assumes "server_ok ext N C rows same (Suc k) srv"
  shows "\<exists>c. ClientConn_new ext sockfd info srv = Inr (srv\<lparr>uuid_count := uuid_count srv + 1\<rparr>, c) \<and>
           calm ext N C rows same cid k
             (srv\<lparr>uuid_count := uuid_count srv + 1\<rparr>, c\<lparr>m_client_info := (m_client_info c)\<lparr>client_id := cid\<rparr>\<rparr>) \<and>
           (\<forall>n rs. on_disk n rs srv \<longrightarrow> [] \<notin> set rs \<longrightarrow> file_stored Map.empty n rs
             (srv\<lparr>uuid_count := uuid_count srv + 1\<rparr>, c\<lparr>m_client_info := (m_client_info c)\<lparr>client_id := cid\<rparr>\<rparr>))"
proof -
  let ?srv = "srv\<lparr>uuid_count := uuid_count srv + 1\<rparr>"
  obtain c where c: "ClientConn_new ext sockfd info srv = Inr (?srv, c)" "idle ext C Map.empty (?srv, c)"
    "store_keeps (containers_dir srv) (gstore Map.empty ?srv c)"
    using ClientConn_new_ok [OF assms] by blast
  define d where "d = c\<lparr>m_client_info := (m_client_info c)\<lparr>client_id := cid\<rparr>\<rparr>"
  have st: "gstore Map.empty ?srv d = gstore Map.empty ?srv c" by (simp add: d_def gstore_def)
  have "idle ext C Map.empty (?srv, d)"
    using c(2) unfolding idle_def cont_inv_def prod.case st by (simp add: d_def rec_ok_def drained_def)
  then have "calm ext N C rows same cid k (?srv, d)"
    using assms by (simp add: calm_def server_ok_def db_ready_def d_def)
  moreover have "file_stored Map.empty n rs (?srv, d)" if "on_disk n rs srv" "[] \<notin> set rs" for n rs
    using that resolves_list_keeps [OF c(3)] unfolding on_disk_def file_stored_def prod.case st by auto
  ultimately show ?thesis using c(1) by (auto simp: d_def)
qed

lemma session_starts:
  assumes "server_ok ext N C rows same (Suc k) srv"
  obtains srv1 c d where "ClientConn_new ext sockfd info srv = Inr (srv1, c)"
    "d = c\<lparr>m_client_info := (m_client_info c)\<lparr>client_id := cid\<rparr>\<rparr>"
    "calm ext N C rows same cid k (srv1, d)" "m_db srv1 = m_db srv"
    "\<forall>n rs. on_disk n rs srv \<longrightarrow> [] \<notin> set rs \<longrightarrow> file_stored Map.empty n rs (srv1, d)"
  using logged_in [OF assms, of sockfd info cid] by auto

lemma left_server:
  assumes "calm ext N C rows same cid k (srv, c)"
  shows "server_ok ext N C rows same k srv"
    and "file_stored Map.empty n rs (srv, c) \<Longrightarrow> [] \<notin> set rs \<Longrightarrow> on_disk n rs srv"
proof -
  have i: "idle ext C Map.empty (srv, c)" "env_ok ext N C" using assms by (simp_all add: calm_def)
  show "file_stored Map.empty n rs (srv, c) \<Longrightarrow> [] \<notin> set rs \<Longrightarrow> on_disk n rs srv"
    using idle_stored_on_disk [OF i(1)] by (simp add: on_disk_def)
  have st: "gstore Map.empty srv c = (containers_dir srv)(containerID (m_containerBuffer c) \<mapsto> [])"
    using i(1) by (simp add: gstore_def idle_def drained_def container_bytes_def)
  then have "store_keeps (gstore Map.empty srv c) (containers_dir srv)"
    by (auto simp: store_keeps_def dest: resolves_drop_empty)
  then have "index_sound ext C (containers_dir srv) (m_all_chunks srv)"
    using index_sound_keeps i by (fastforce simp: idle_def env_ok_def)
  moreover have "dom (containers_dir srv) \<subseteq> dom (gstore Map.empty srv c)" by (auto simp: st)
  ultimately show "server_ok ext N C rows same k srv"
    using assms i(1) by (auto simp: server_ok_def calm_def idle_def cont_inv_def)
qed

lemma env_ok_mono: "env_ok ext N C \<Longrightarrow> M \<le> N \<Longrightarrow> env_ok ext M C"
  by (auto simp: env_ok_def intro: inj_on_subset)

lemma server_ok_budget:
  "server_ok ext N C rows same (j + k) srv \<longleftrightarrow> k \<le> N \<and> env_ok ext N C \<and> server_ok ext (N - k) C rows same j srv"
  using env_ok_mono [of ext N C "N - k"] by (auto simp: server_ok_def)

section \<open>Requests that are refused\<close>

lemma calm_frame:
  assumes "calm ext N C rows same cid k (srv, c)" "pool_ok p" "m_connpool p \<noteq> []"
  shows "calm ext N C rows same cid k (srv\<lparr>m_mysqlPool := p\<rparr>, c\<lparr>m_recipeNameHash := n\<rparr>)"
    and "gstore Map.empty (srv\<lparr>m_mysqlPool := p\<rparr>) (c\<lparr>m_recipeNameHash := n\<rparr>) = gstore Map.empty srv c"
proof -
  have "out_only c c" by (auto simp: out_only_def intro!: exI [of _ "m_chunkAddrs c"] exI [of _ "m_outMsgBuffer c"])
  moreover have "idle ext C Map.empty (srv, c)" using assms by (simp add: calm_def)
  ultimately have "idle ext C Map.empty (srv\<lparr>m_mysqlPool := p\<rparr>, c\<lparr>m_recipeNameHash := n\<rparr>)"
    by (intro idle_frame(1) [OF _ _ refl])
  then show "calm ext N C rows same cid k (srv\<lparr>m_mysqlPool := p\<rparr>, c\<lparr>m_recipeNameHash := n\<rparr>)"
    "gstore Map.empty (srv\<lparr>m_mysqlPool := p\<rparr>) (c\<lparr>m_recipeNameHash := n\<rparr>) = gstore Map.empty srv c"
    using assms by (simp_all add: calm_def db_ready_def gstore_def)
qed

lemma upload_request_refused:
  assumes ok: "env_ok ext N C" "db_ready ext rows same srv" "client_id (m_client_info c) = cid" and fn: "sendable malloc fn"
    and found: "0 < rows (m_db srv) (sint cid) fn" "rows (m_db srv) (sint cid) fn < 2 ^ 32"
  shows "\<exists>p. conn_receive ext (send_control_message malloc UPLOAD fn NONE) (srv, c, AwaitOrder) =
      Inr ((srv\<lparr>m_mysqlPool := p\<rparr>, c\<lparr>m_recipeNameHash := recipe_key ext cid fn\<rparr>, AwaitOrder),
           [send_control_message (x_malloc ext) UPLOADREP [] DUPLICATE]) \<and> pool_ok p \<and> m_connpool p \<noteq> []"
proof -
  have env: "env_ok ext N C" "mysql_files (x_exec ext) rows same" "pool_ok (m_mysqlPool srv)"
    "m_connpool (m_mysqlPool srv) \<noteq> []" "client_id (m_client_info c) = cid"
    and nm: "plain_name fn" "length fn \<le> 190"
    using ok fn by (simp_all add: db_ready_def sendable_def name_ok_def)
  obtain p where "isFileUnique ext cid fn srv = Inr (False, srv\<lparr>m_mysqlPool := p\<rparr>)" "pool_ok p" "m_connpool p \<noteq> []"
    using isFileUnique_Inr [OF env(2) nm env(3,4), of cid] u32_of_nat_nonzero [OF found] by auto
  moreover have "receive_control_msg (x_malloc ext) (send_control_message malloc UPLOAD fn NONE) [] 0 = Inr (order_val UPLOAD, fn, 0)"
    using fn by (rule sendable_request) (simp add: is_request_def)
  ultimately show ?thesis
    using env by (intro exI [of _ p])
      (simp add: conn_receive_def handle_order_def receive_file_begin_def order_of_def recipe_file_eq [OF env(1)])
qed

lemma upload_refused:
  assumes "calm ext N C rows same cid k (srv, c)" "sendable malloc fn"
    and "0 < rows (m_db srv) (sint cid) fn" "rows (m_db srv) (sint cid) fn < 2 ^ 32"
  shows "\<exists>p. conn_receive ext (send_control_message malloc UPLOAD fn NONE) (srv, c, AwaitOrder) =
      Inr ((srv\<lparr>m_mysqlPool := p\<rparr>, c\<lparr>m_recipeNameHash := recipe_key ext cid fn\<rparr>, AwaitOrder),
           [send_control_message (x_malloc ext) UPLOADREP [] DUPLICATE]) \<and> pool_ok p \<and> m_connpool p \<noteq> []"
proof -
  have "env_ok ext N C" "db_ready ext rows same srv" "client_id (m_client_info c) = cid"
    using assms(1) by (simp_all add: calm_def)
  from upload_request_refused [OF this assms(2-4)] show ?thesis .
qed

lemma download_request_refused:
  assumes ok: "env_ok ext N C" "db_ready ext rows same srv" "client_id (m_client_info c) = cid" and fn: "sendable malloc fn"
    and found: "rows (m_db srv) (sint cid) fn = 0"
  shows "\<exists>p. conn_receive ext (send_control_message malloc DOWNLOAD fn NONE) (srv, c, AwaitOrder) =
      Inr ((srv\<lparr>m_mysqlPool := p\<rparr>, c\<lparr>m_recipeNameHash := recipe_key ext cid fn\<rparr>, AwaitOrder),
           [send_control_message (x_malloc ext) DOWNLOADREP [] NOTEXIST]) \<and> pool_ok p \<and> m_connpool p \<noteq> []"
proof -
  have env: "env_ok ext N C" "mysql_files (x_exec ext) rows same" "pool_ok (m_mysqlPool srv)"
    "m_connpool (m_mysqlPool srv) \<noteq> []" "client_id (m_client_info c) = cid"
    and nm: "plain_name fn" "length fn \<le> 190"
    using ok fn by (simp_all add: db_ready_def sendable_def name_ok_def)
  obtain p where "isFileUnique ext cid fn srv = Inr (True, srv\<lparr>m_mysqlPool := p\<rparr>)" "pool_ok p" "m_connpool p \<noteq> []"
    using isFileUnique_Inr [OF env(2) nm env(3,4), of cid] found by auto
  moreover have "receive_control_msg (x_malloc ext) (send_control_message malloc DOWNLOAD fn NONE) [] 0 = Inr (order_val DOWNLOAD, fn, 0)"
    using fn by (rule sendable_request) (simp add: is_request_def)
  ultimately show ?thesis
    using env by (intro exI [of _ p])
      (simp add: conn_receive_def handle_order_def send_file_def isFileExist_def order_of_def recipe_file_eq [OF env(1)])
qed

lemma download_refused:
  assumes ok: "calm ext N C rows same cid k (srv, c)" and fn: "sendable malloc fn"
    and found: "rows (m_db srv) (sint cid) fn = 0"
  shows "\<exists>p. conn_receive ext (send_control_message malloc DOWNLOAD fn NONE) (srv, c, AwaitOrder) =
      Inr ((srv\<lparr>m_mysqlPool := p\<rparr>, c\<lparr>m_recipeNameHash := recipe_key ext cid fn\<rparr>, AwaitOrder),
           [send_control_message (x_malloc ext) DOWNLOADREP [] NOTEXIST]) \<and> pool_ok p \<and> m_connpool p \<noteq> []"
proof -
  have "env_ok ext N C" "db_ready ext rows same srv" "client_id (m_client_info c) = cid" using ok by (simp_all add: calm_def)
  from download_request_refused [OF this fn found] show ?thesis .
qed

lemma upload_file_refused:
  assumes "peer (send_control_message malloc UPLOAD (get_file_name (cl_file_path cl)) NONE) p =
     Inr (p', [send_control_message m UPLOADREP [] DUPLICATE])"
  shows "upload_file evp malloc peer file cl (p, []) = Inr (cl, (p', []))"
  using assms reply_roundtrip [of UPLOADREP]
  by (simp add: upload_file_def net_send_def net_recv_def is_reply_def order_of_def Let_def)

lemma download_file_refused:
  assumes "peer (send_control_message malloc DOWNLOAD (get_file_name (cl_file_path cl)) NONE) p =
     Inr (p', [send_control_message m DOWNLOADREP [] NOTEXIST])"
  shows "download_file malloc peer cl (p, []) = Inr (cl, [], (p', []))"
  using assms reply_roundtrip [of DOWNLOADREP]
  by (simp add: download_file_def net_send_def net_recv_def is_reply_def order_of_def Let_def)

section \<open>Sessions that transfer a file\<close>

lemma chunks_of_ok:
  assumes "set (chunks_of bs) \<subseteq> C"
  shows "\<forall>b \<in> set (blocks_of bs). chunks_ok C (chunks_of b)" "chunks_ok C (chunks_of bs)" "chunks_ok C []"
proof -
  have "ch \<in> set (chunks_of b) \<Longrightarrow> length ch \<le> CHUNKSIZE" for ch b
    using split_every_elem [of ch CHUNKSIZE b] by (simp add: chunks_of_def config_values)
  moreover have "set (chunks_of bs) = (\<Union>b \<in> set (blocks_of bs). set (chunks_of b))"
    by (subst chunks_of_blocks [symmetric]) simp
  ultimately show "\<forall>b \<in> set (blocks_of bs). chunks_ok C (chunks_of b)" "chunks_ok C (chunks_of bs)" "chunks_ok C []"
    using assms by (auto simp: chunks_ok_def)
qed

lemma session_uploads_exact:
  assumes srv: "server_ok ext N C rows same (Suc (Suc (length (chunks_of bs)))) srv" and op: "cl_op cl = CHR ''u''"
    and fn: "fn = get_file_name (cl_file_path cl)" "sendable malloc fn" and cid: "cid = cl_client_id cl"
    and new: "rows (m_db srv) (sint cid) fn = 0" and C: "set (chunks_of bs) \<subseteq> C"
  shows "\<exists>cl' srv' c'. session ext malloc sockfd info (Some bs) cl srv = Inr (cl', None, ((srv', c', Closed), [])) \<and>
           server_ok ext N C rows same 0 srv' \<and> m_db srv' = fst (x_exec ext (m_db srv) (insert_query cid fn)) \<and>
           on_disk (recipe_key ext cid fn) (chunks_of bs) srv' \<and> indexed ext srv' (chunks_of bs) \<and>
           (\<forall>n rs. on_disk n rs srv \<longrightarrow> n \<noteq> recipe_key ext cid fn \<longrightarrow> [] \<notin> set rs \<longrightarrow> on_disk n rs srv')"
proof -
  let ?key = "recipe_key ext cid fn"
  define F where "F = {(n, rs). on_disk n rs srv \<and> n \<noteq> ?key \<and> [] \<notin> set rs}"
  define db1 where "db1 = fst (x_exec ext (m_db srv) (insert_query cid fn))"
  obtain srv1 c d where conn: "ClientConn_new ext sockfd info srv = Inr (srv1, c)"
    and d: "d = c\<lparr>m_client_info := (m_client_info c)\<lparr>client_id := cid\<rparr>\<rparr>"
    and calm: "calm ext N C rows same cid (Suc (length (chunks_of bs))) (srv1, d)" "m_db srv1 = m_db srv"
    and kept: "\<forall>n rs. on_disk n rs srv \<longrightarrow> [] \<notin> set rs \<longrightarrow> file_stored Map.empty n rs (srv1, d)"
    using srv by (rule session_starts)
  have acc: "accepts_upload ext malloc N C rows same cid fn F db1 (Suc (length (chunks_of bs))) (srv1, d, AwaitOrder)"
    using calm fn(2) new kept by (auto simp: accepts_upload_def db1_def keeps_def F_def)
  obtain cl' p where up: "upload_file (x_evp ext) malloc (conn_receive ext) (Some bs) cl ((srv1, d, AwaitOrder), []) = Inr (cl', (p, []))"
    and st: "holds_file ext malloc N C rows same cid fn F db1 (chunks_of bs) p"
    using up.file_uploaded [OF acc fn(1) [symmetric] chunks_of_ok(1,3) [OF C]] by blast
  obtain srv2 c2 where p: "p = (srv2, c2, AwaitOrder)" and done2: "calm ext N C rows same cid 0 (srv2, c2)" "m_db srv2 = db1"
      "file_stored Map.empty ?key (chunks_of bs) (srv2, c2)" "indexed ext srv2 (chunks_of bs)" "keeps ?key F (srv2, c2)"
    using st by (cases p) (auto simp: holds_file_def)
  have "session ext malloc sockfd info (Some bs) cl srv = Inr (cl', None, ((srv2, c2, Closed), []))"
    using session_upload_eq [OF conn op] up by (simp add: d cid p)
  moreover have "\<forall>n rs. on_disk n rs srv \<longrightarrow> n \<noteq> ?key \<longrightarrow> [] \<notin> set rs \<longrightarrow> on_disk n rs srv2"
    using done2(5) left_server(2) [OF done2(1)] by (auto simp: keeps_def F_def)
  moreover note left_server [OF done2(1)] done2(2,3,4) chunks_of_facts(3) [of bs]
  ultimately show ?thesis unfolding db1_def by blast
qed

lemma session_uploads:
  assumes srv: "server_ok ext N C rows same (Suc (Suc (length (chunks_of bs))) + k) srv" and op: "cl_op cl = CHR ''u''"
    and fn: "fn = get_file_name (cl_file_path cl)" "sendable malloc fn" and cid: "cid = cl_client_id cl"
    and new: "rows (m_db srv) (sint cid) fn = 0" and C: "set (chunks_of bs) \<subseteq> C"
  shows "\<exists>cl' srv' c'. session ext malloc sockfd info (Some bs) cl srv = Inr (cl', None, ((srv', c', Closed), [])) \<and>
           server_ok ext N C rows same k srv' \<and> m_db srv' = fst (x_exec ext (m_db srv) (insert_query cid fn)) \<and>
           on_disk (recipe_key ext cid fn) (chunks_of bs) srv' \<and> indexed ext srv' (chunks_of bs) \<and>
           (\<forall>n rs. on_disk n rs srv \<longrightarrow> n \<noteq> recipe_key ext cid fn \<longrightarrow> [] \<notin> set rs \<longrightarrow> on_disk n rs srv')"
proof -
  have s: "k \<le> N" "env_ok ext N C" "server_ok ext (N - k) C rows same (Suc (Suc (length (chunks_of bs)))) srv"
    using srv by (simp_all only: server_ok_budget)
  show ?thesis
    using session_uploads_exact [OF s(3) op fn cid new C, of sockfd info] server_ok_budget [of ext N C rows same 0 k] s(1,2) by auto
qed

text \<open>What a refused request leaves: only the pool of database connections and the recipe name changed.\<close>

lemma refused_leaves:
  assumes calm: "calm ext N C rows same cid k (srv1, d)" "m_db srv1 = m_db srv" and p: "pool_ok p" "m_connpool p \<noteq> []"
    and kept: "\<forall>n rs. on_disk n rs srv \<longrightarrow> [] \<notin> set rs \<longrightarrow> file_stored Map.empty n rs (srv1, d)"
    and srv': "srv' = srv1\<lparr>m_mysqlPool := p\<rparr>"
  shows "server_ok ext N C rows same k srv' \<and> m_db srv' = m_db srv \<and>
         (\<forall>n rs. on_disk n rs srv \<longrightarrow> [] \<notin> set rs \<longrightarrow> on_disk n rs srv')"
proof -
  note calm' = calm_frame [OF calm(1) p, of "m_recipeNameHash d", folded srv']
  have "on_disk n rs srv'" if "on_disk n rs srv" "[] \<notin> set rs" for n rs
    using kept that calm'(2) by (intro left_server(2) [OF calm'(1)]) (simp_all add: file_stored_def srv')
  then show ?thesis using left_server(1) [OF calm'(1)] calm(2) by (simp add: srv')
qed

lemma session_upload_refused:
  assumes srv: "server_ok ext N C rows same (Suc k) srv" and op: "cl_op cl = CHR ''u''"
    and fn: "fn = get_file_name (cl_file_path cl)" "sendable malloc fn" and cid: "cid = cl_client_id cl"
    and found: "0 < rows (m_db srv) (sint cid) fn" "rows (m_db srv) (sint cid) fn < 2 ^ 32"
  shows "\<exists>cl' srv' c'. session ext malloc sockfd info file cl srv = Inr (cl', None, ((srv', c', Closed), [])) \<and>
           server_ok ext N C rows same k srv' \<and> m_db srv' = m_db srv \<and>
           (\<forall>n rs. on_disk n rs srv \<longrightarrow> [] \<notin> set rs \<longrightarrow> on_disk n rs srv')"
proof -
  obtain srv1 c d where conn: "ClientConn_new ext sockfd info srv = Inr (srv1, c)"
    and d: "d = c\<lparr>m_client_info := (m_client_info c)\<lparr>client_id := cid\<rparr>\<rparr>"
    and calm: "calm ext N C rows same cid k (srv1, d)" "m_db srv1 = m_db srv"
    and kept: "\<forall>n rs. on_disk n rs srv \<longrightarrow> [] \<notin> set rs \<longrightarrow> file_stored Map.empty n rs (srv1, d)"
    using srv by (rule session_starts)
  obtain p where req: "conn_receive ext (send_control_message malloc UPLOAD fn NONE) (srv1, d, AwaitOrder) =
      Inr ((srv1\<lparr>m_mysqlPool := p\<rparr>, d\<lparr>m_recipeNameHash := recipe_key ext cid fn\<rparr>, AwaitOrder),
           [send_control_message (x_malloc ext) UPLOADREP [] DUPLICATE])" and p: "pool_ok p" "m_connpool p \<noteq> []"
    using upload_refused [OF calm(1) fn(2)] found calm(2) by auto
  have "session ext malloc sockfd info file cl srv =
      Inr (cl, None, ((srv1\<lparr>m_mysqlPool := p\<rparr>, d\<lparr>m_recipeNameHash := recipe_key ext cid fn\<rparr>, Closed), []))"
    using upload_file_refused req fn(1) by (intro session_upload_eq [OF conn op]) (simp add: d cid)
  then show ?thesis using refused_leaves [OF calm p kept refl] by blast
qed

lemma session_download_refused:
  assumes srv: "server_ok ext N C rows same (Suc k) srv" and op: "cl_op cl = CHR ''d''"
    and fn: "fn = get_file_name (cl_file_path cl)" "sendable malloc fn" and cid: "cid = cl_client_id cl"
    and found: "rows (m_db srv) (sint cid) fn = 0"
  shows "\<exists>cl' srv' c'. session ext malloc sockfd info file cl srv = Inr (cl', Some [], ((srv', c', Closed), [])) \<and>
           server_ok ext N C rows same k srv' \<and> m_db srv' = m_db srv \<and>
           (\<forall>n rs. on_disk n rs srv \<longrightarrow> [] \<notin> set rs \<longrightarrow> on_disk n rs srv')"
proof -
  obtain srv1 c d where conn: "ClientConn_new ext sockfd info srv = Inr (srv1, c)"
    and d: "d = c\<lparr>m_client_info := (m_client_info c)\<lparr>client_id := cid\<rparr>\<rparr>"
    and calm: "calm ext N C rows same cid k (srv1, d)" "m_db srv1 = m_db srv"
    and kept: "\<forall>n rs. on_disk n rs srv \<longrightarrow> [] \<notin> set rs \<longrightarrow> file_stored Map.empty n rs (srv1, d)"
    using srv by (rule session_starts)
  obtain p where req: "conn_receive ext (send_control_message malloc DOWNLOAD fn NONE) (srv1, d, AwaitOrder) =
      Inr ((srv1\<lparr>m_mysqlPool := p\<rparr>, d\<lparr>m_recipeNameHash := recipe_key ext cid fn\<rparr>, AwaitOrder),
           [send_control_message (x_malloc ext) DOWNLOADREP [] NOTEXIST])" and p: "pool_ok p" "m_connpool p \<noteq> []"
    using download_refused [OF calm(1) fn(2)] found calm(2) by auto
  have "session ext malloc sockfd info file cl srv =
      Inr (cl, Some [], ((srv1\<lparr>m_mysqlPool := p\<rparr>, d\<lparr>m_recipeNameHash := recipe_key ext cid fn\<rparr>, Closed), []))"
    using download_file_refused req fn(1) by (intro session_download_eq [OF conn op]) (simp add: d cid)
  then show ?thesis using refused_leaves [OF calm p kept refl] by blast
qed

lemma session_downloads_exact:
  assumes srv: "server_ok ext N C rows same (Suc 0) srv" and op: "cl_op cl = CHR ''d''"
    and fn: "fn = get_file_name (cl_file_path cl)" "sendable malloc fn" and cid: "cid = cl_client_id cl"
    and found: "0 < rows (m_db srv) (sint cid) fn" "rows (m_db srv) (sint cid) fn < 2 ^ 32"
    and disk: "on_disk (recipe_key ext cid fn) recs srv" "chunks_ok C recs"
  shows "\<exists>cl' srv' c'. session ext malloc sockfd info file cl srv = Inr (cl', Some (concat recs), ((srv', c', Closed), [])) \<and>
           server_ok ext N C rows same 0 srv' \<and> m_db srv' = m_db srv \<and>
           (\<forall>n rs. on_disk n rs srv \<longrightarrow> [] \<notin> set rs \<longrightarrow> on_disk n rs srv')"
proof -
  define F where "F = {(n, rs). on_disk n rs srv \<and> [] \<notin> set rs}"
  have ne: "[] \<notin> set recs" using srv disk(2) by (auto simp: server_ok_def env_ok_def chunks_ok_def)
  obtain srv1 c d where conn: "ClientConn_new ext sockfd info srv = Inr (srv1, c)"
    and d: "d = c\<lparr>m_client_info := (m_client_info c)\<lparr>client_id := cid\<rparr>\<rparr>"
    and calm: "calm ext N C rows same cid 0 (srv1, d)" "m_db srv1 = m_db srv"
    and kept: "\<forall>n rs. on_disk n rs srv \<longrightarrow> [] \<notin> set rs \<longrightarrow> file_stored Map.empty n rs (srv1, d)"
    using srv by (rule session_starts)
  have offers: "offers_file ext malloc N C rows same cid F (m_db srv) fn (concat recs) (srv1, d, AwaitOrder)"
    using calm found disk fn(2) kept ne by (auto simp: offers_file_def retains_def F_def)
  have "\<exists>cl' p. download_file malloc (conn_receive ext) cl ((srv1, d, AwaitOrder), []) = Inr (cl', concat recs, (p, [])) \<and>
      offers_file ext malloc N C rows same cid F (m_db srv) fn (concat recs) p"
    unfolding fn(1) by (rule down.file_downloaded [OF offers [unfolded fn(1)]])
  then obtain cl' srv2 c2 where dl: "download_file malloc (conn_receive ext) cl ((srv1, d, AwaitOrder), []) =
      Inr (cl', concat recs, ((srv2, c2, AwaitOrder), []))" and off2: "calm ext N C rows same cid 0 (srv2, c2)"
      "m_db srv2 = m_db srv" "retains F (srv2, c2)"
    by (auto simp: offers_file_def)
  have "session ext malloc sockfd info file cl srv = Inr (cl', Some (concat recs), ((srv2, c2, Closed), []))"
    using session_download_eq [OF conn op] dl by (simp add: d cid)
  moreover have "\<forall>n rs. on_disk n rs srv \<longrightarrow> [] \<notin> set rs \<longrightarrow> on_disk n rs srv2"
    using off2(3) left_server(2) [OF off2(1)] by (auto simp: retains_def F_def)
  moreover note left_server(1) [OF off2(1)] off2(2)
  ultimately show ?thesis by blast
qed

lemma session_downloads:
  assumes srv: "server_ok ext N C rows same (Suc k) srv" and op: "cl_op cl = CHR ''d''"
    and fn: "fn = get_file_name (cl_file_path cl)" "sendable malloc fn" and cid: "cid = cl_client_id cl"
    and found: "0 < rows (m_db srv) (sint cid) fn" "rows (m_db srv) (sint cid) fn < 2 ^ 32"
    and disk: "on_disk (recipe_key ext cid fn) recs srv" "chunks_ok C recs"
  shows "\<exists>cl' srv' c'. session ext malloc sockfd info file cl srv = Inr (cl', Some (concat recs), ((srv', c', Closed), [])) \<and>
           server_ok ext N C rows same k srv' \<and> m_db srv' = m_db srv \<and>
           (\<forall>n rs. on_disk n rs srv \<longrightarrow> [] \<notin> set rs \<longrightarrow> on_disk n rs srv')"
proof -
  have s: "k \<le> N" "env_ok ext N C" "server_ok ext (N - k) C rows same (Suc 0) srv"
    using srv server_ok_budget [of ext N C rows same "Suc 0" k srv] by simp_all
  show ?thesis
    using session_downloads_exact [OF s(3) op fn cid found disk]
      server_ok_budget [of ext N C rows same 0 k] s(1,2) by auto
qed

end
