(* ===== verification/File_Store.thy ===== *)
theory File_Store
  imports Dedup_Session
begin

text \<open>
  The abstract specification of the system, and the refinement. To its users the system is a table from a
  client id and a file name to the file's content: an upload adds an entry unless there is one, a download
  returns the content. Chunking, digests, containers, recipes, the database and both message buffers
  are implementation. \<open>runs_refine\<close> states that every history of client sessions gives the results of the table.
\<close>

section \<open>The specification\<close>

type_synonym file_table = "u32 \<times> string \<rightharpoonup> byte list"

datatype command = Upload u32 string "byte list" | Download u32 string

fun spec_command :: "command \<Rightarrow> file_table \<Rightarrow> file_table \<times> byte list option" where
  "spec_command (Upload cid path bs) files =
     (let k = (cid, get_file_name path) in (if files k = None then files(k \<mapsto> bs) else files, None))"
| "spec_command (Download cid path) files =
     (files, Some (case files (cid, get_file_name path) of None \<Rightarrow> [] | Some bs \<Rightarrow> bs))"

fun spec_run :: "command list \<Rightarrow> file_table \<Rightarrow> file_table \<times> byte list option list" where
  "spec_run [] files = (files, [])"
| "spec_run (cmd # cmds) files =
     (let (files, out) = spec_command cmd files; (files, outs) = spec_run cmds files in (files, out # outs))"

section \<open>The implementation\<close>

text \<open>
  A command line: the client program with the server address and port of \<^verbatim>\<open>ClientConfig\<close>, run against the server.
\<close>

definition client_of :: "mem \<Rightarrow> u32 \<Rightarrow> char \<Rightarrow> string \<Rightarrow> client" where
  "client_of malloc cid op path = DedupClient_new malloc cid ''127.0.0.1'' 12345 op path"

definition run_command ::
    "'db ext \<Rightarrow> mem \<Rightarrow> int \<Rightarrow> ClientInfo_t \<Rightarrow> command \<Rightarrow> 'db server \<Rightarrow> crash + 'db server \<times> byte list option" where
  "run_command ext malloc sockfd info cmd srv =
     bindR (case cmd of
              Upload cid path bs \<Rightarrow> session ext malloc sockfd info (Some bs) (client_of malloc cid CHR ''u'' path) srv
            | Download cid path \<Rightarrow> session ext malloc sockfd info None (client_of malloc cid CHR ''d'' path) srv)
       (\<lambda>(cl, written, (srv, c, m), inbox). Inr (srv, written))"

fun run_commands ::
    "'db ext \<Rightarrow> mem \<Rightarrow> int \<Rightarrow> ClientInfo_t \<Rightarrow> command list \<Rightarrow> 'db server \<Rightarrow> crash + 'db server \<times> byte list option list" where
  "run_commands ext malloc sockfd info [] srv = Inr (srv, [])"
| "run_commands ext malloc sockfd info (cmd # cmds) srv =
     bindR (run_command ext malloc sockfd info cmd srv) (\<lambda>(srv, out).
     bindR (run_commands ext malloc sockfd info cmds srv) (\<lambda>(srv, outs).
     Inr (srv, out # outs)))"

section \<open>The refinement relation\<close>

text \<open>
  \<open>K\<close> are the pairs of client and file name in use. The code needs their recipe names not to collide, and the
  collation of the database to distinguish the names of one client.
\<close>

definition names_ok ::
    "'db ext \<Rightarrow> mem \<Rightarrow> (string \<Rightarrow> string \<Rightarrow> bool) \<Rightarrow> (u32 \<times> string) set \<Rightarrow> bool" where
  "names_ok ext malloc same K \<longleftrightarrow> (\<forall>cid fn. (cid, fn) \<in> K \<longrightarrow> sendable malloc fn) \<and>
     inj_on (\<lambda>(cid, fn). recipe_key ext cid fn) K \<and>
     (\<forall>cid fn fn'. (cid, fn) \<in> K \<longrightarrow> (cid, fn') \<in> K \<longrightarrow> same fn fn' \<longrightarrow> fn = fn')"

definition represents ::
    "'db ext \<Rightarrow> nat \<Rightarrow> byte list set \<Rightarrow> ('db \<Rightarrow> int \<Rightarrow> string \<Rightarrow> nat) \<Rightarrow> (string \<Rightarrow> string \<Rightarrow> bool) \<Rightarrow>
     (u32 \<times> string) set \<Rightarrow> nat \<Rightarrow> 'db server \<Rightarrow> file_table \<Rightarrow> bool" where
  "represents ext N C rows same K k srv files \<longleftrightarrow> server_ok ext N C rows same k srv \<and>
     (\<forall>cid fn. (cid, fn) \<in> K \<longrightarrow> (case files (cid, fn) of
        None \<Rightarrow> rows (m_db srv) (sint cid) fn = 0
      | Some bs \<Rightarrow> rows (m_db srv) (sint cid) fn = 1 \<and> set (chunks_of bs) \<subseteq> C \<and>
          on_disk (recipe_key ext cid fn) (chunks_of bs) srv))"

fun command_ok :: "(u32 \<times> string) set \<Rightarrow> byte list set \<Rightarrow> command \<Rightarrow> bool" where
  "command_ok K C (Upload cid path bs) \<longleftrightarrow> (cid, get_file_name path) \<in> K \<and> set (chunks_of bs) \<subseteq> C"
| "command_ok K C (Download cid path) \<longleftrightarrow> (cid, get_file_name path) \<in> K"

text \<open>How many containers a command can create.\<close>

fun cost :: "command \<Rightarrow> nat" where
  "cost (Upload cid path bs) = Suc (Suc (length (chunks_of bs)))"
| "cost (Download cid path) = 1"

lemma client_of_simps [simp]:
  "cl_op (client_of malloc cid op path) = op" "cl_file_path (client_of malloc cid op path) = path"
  "cl_client_id (client_of malloc cid op path) = cid"
  by (simp_all add: client_of_def DedupClient_new_def Let_def)

section \<open>The simulation\<close>

lemma represents_entry:
  assumes "represents ext N C rows same K k srv files" "(cid, fn) \<in> K"
  shows "files (cid, fn) = None \<Longrightarrow> rows (m_db srv) (sint cid) fn = 0"
    and "files (cid, fn) = Some bs \<Longrightarrow> rows (m_db srv) (sint cid) fn = 1 \<and> set (chunks_of bs) \<subseteq> C \<and>
           on_disk (recipe_key ext cid fn) (chunks_of bs) srv"
proof -
  have "case files (cid, fn) of None \<Rightarrow> rows (m_db srv) (sint cid) fn = 0
      | Some bs \<Rightarrow> rows (m_db srv) (sint cid) fn = 1 \<and> set (chunks_of bs) \<subseteq> C \<and>
          on_disk (recipe_key ext cid fn) (chunks_of bs) srv"
    using assms by (simp add: represents_def)
  then show "files (cid, fn) = None \<Longrightarrow> rows (m_db srv) (sint cid) fn = 0"
    "files (cid, fn) = Some bs \<Longrightarrow> rows (m_db srv) (sint cid) fn = 1 \<and> set (chunks_of bs) \<subseteq> C \<and>
           on_disk (recipe_key ext cid fn) (chunks_of bs) srv"
    by simp_all
qed

text \<open>A session that changes no entry keeps the relation.\<close>

lemma represents_same:
  assumes "represents ext N C rows same K j srv files" "server_ok ext N C rows same k srv'" "m_db srv' = m_db srv"
    and "\<forall>n rs. on_disk n rs srv \<longrightarrow> [] \<notin> set rs \<longrightarrow> on_disk n rs srv'"
  shows "represents ext N C rows same K k srv' files"
  using assms chunks_of_facts(3) by (fastforce simp: represents_def split: option.splits)

text \<open>A session that adds one file.\<close>

lemma represents_upload:
  assumes rep: "represents ext N C rows same K j srv files" and names: "names_ok ext malloc same K"
    and K: "(cid, fn) \<in> K" "files (cid, fn) = None" and ok: "server_ok ext N C rows same k srv'"
    and db: "m_db srv' = fst (x_exec ext (m_db srv) (insert_query cid fn))"
    and disk: "on_disk (recipe_key ext cid fn) (chunks_of bs) srv'" "set (chunks_of bs) \<subseteq> C"
    and kept: "\<forall>n rs. on_disk n rs srv \<longrightarrow> n \<noteq> recipe_key ext cid fn \<longrightarrow> [] \<notin> set rs \<longrightarrow> on_disk n rs srv'"
  shows "represents ext N C rows same K k srv' (files((cid, fn) \<mapsto> bs))"
proof -
  have my: "mysql_files (x_exec ext) rows same" "plain_name fn"
    using ok names K(1) by (auto simp: server_ok_def db_ready_def names_ok_def sendable_def name_ok_def)
  then have rows: "rows (m_db srv') i n = rows (m_db srv) i n + (if i = sint cid \<and> same n fn then 1 else 0)" for i n
    by (simp add: db mysql_files_def)
  have refl: "same fn fn" using my(1) by (simp add: mysql_files_def)
  have "case (files((cid, fn) \<mapsto> bs)) (cid', fn') of
        None \<Rightarrow> rows (m_db srv') (sint cid') fn' = 0
      | Some bs \<Rightarrow> rows (m_db srv') (sint cid') fn' = 1 \<and> set (chunks_of bs) \<subseteq> C \<and>
          on_disk (recipe_key ext cid' fn') (chunks_of bs) srv'" if K': "(cid', fn') \<in> K" for cid' fn'
  proof (cases "(cid', fn') = (cid, fn)")
    case True
    then show ?thesis using disk rows refl represents_entry(1) [OF rep K] by simp
  next
    case False
    then have "recipe_key ext cid' fn' \<noteq> recipe_key ext cid fn"
      using names K(1) K' inj_onD [of "\<lambda>(cid, fn). recipe_key ext cid fn" K "(cid', fn')" "(cid, fn)"]
      by (auto simp: names_ok_def)
    moreover have "\<not> (sint cid' = sint cid \<and> same fn' fn)"
      using False names K(1) K' by (auto simp: names_ok_def dest: signed_word_eqI)
    ultimately show ?thesis
      using False kept rows represents_entry [OF rep K'] chunks_of_facts(3) by (auto split: option.splits)
  qed
  then show ?thesis using ok by (auto simp: represents_def)
qed

lemma upload_refines:
  assumes rep: "represents ext N C rows same K (cost (Upload cid path bs) + k) srv files" and names: "names_ok ext malloc same K"
    and cmd: "command_ok K C (Upload cid path bs)"
  shows "\<exists>srv'. run_command ext malloc sockfd info (Upload cid path bs) srv = Inr (srv', snd (spec_command (Upload cid path bs) files)) \<and>
           represents ext N C rows same K k srv' (fst (spec_command (Upload cid path bs) files))"
proof -
  define fn where "fn = get_file_name path"
  have K: "(cid, fn) \<in> K" "set (chunks_of bs) \<subseteq> C" and snd: "sendable malloc fn"
    using cmd names by (auto simp: fn_def names_ok_def)
  have ok: "server_ok ext N C rows same (Suc (Suc (length (chunks_of bs))) + k) srv" using rep by (simp add: represents_def)
  let ?cl = "client_of malloc cid CHR ''u'' path"
  have cl: "cl_op ?cl = CHR ''u''" "fn = get_file_name (cl_file_path ?cl)" "cid = cl_client_id ?cl" by (simp_all add: fn_def)
  show ?thesis
  proof (cases "files (cid, fn)")
    case None
    obtain cl' srv' c' where "session ext malloc sockfd info (Some bs) ?cl srv = Inr (cl', None, ((srv', c', Closed), []))"
      and s: "server_ok ext N C rows same k srv'" "m_db srv' = fst (x_exec ext (m_db srv) (insert_query cid fn))"
        "on_disk (recipe_key ext cid fn) (chunks_of bs) srv'"
        "\<forall>n rs. on_disk n rs srv \<longrightarrow> n \<noteq> recipe_key ext cid fn \<longrightarrow> [] \<notin> set rs \<longrightarrow> on_disk n rs srv'"
      using session_uploads [OF ok cl(1,2) snd cl(3) represents_entry(1) [OF rep K(1) None] K(2)] by blast
    then show ?thesis
      using represents_upload [OF rep names K(1) None s(1,2,3) K(2) s(4)] None
      by (simp add: run_command_def fn_def [symmetric] Let_def)
  next
    case (Some old)
    have ok: "server_ok ext N C rows same (Suc k) srv" using ok by (simp add: server_ok_def)
    have "0 < rows (m_db srv) (sint cid) fn" "rows (m_db srv) (sint cid) fn < 2 ^ 32"
      using represents_entry(2) [OF rep K(1) Some] by simp_all
    note refused = session_upload_refused [OF ok cl(1,2) snd cl(3) this]
    obtain cl' srv' c' where "session ext malloc sockfd info (Some bs) ?cl srv = Inr (cl', None, ((srv', c', Closed), []))"
      and s: "server_ok ext N C rows same k srv'" "m_db srv' = m_db srv"
        "\<forall>n rs. on_disk n rs srv \<longrightarrow> [] \<notin> set rs \<longrightarrow> on_disk n rs srv'"
      using refused by blast
    then show ?thesis
      using represents_same [OF rep s] Some by (simp add: run_command_def fn_def [symmetric] Let_def)
  qed
qed

lemma download_refines:
  assumes rep: "represents ext N C rows same K (cost (Download cid path) + k) srv files" and names: "names_ok ext malloc same K"
    and cmd: "command_ok K C (Download cid path)"
  shows "\<exists>srv'. run_command ext malloc sockfd info (Download cid path) srv = Inr (srv', snd (spec_command (Download cid path) files)) \<and>
           represents ext N C rows same K k srv' (fst (spec_command (Download cid path) files))"
proof -
  define fn where "fn = get_file_name path"
  have K: "(cid, fn) \<in> K" and snd: "sendable malloc fn"
    using cmd names by (auto simp: fn_def names_ok_def)
  have ok: "server_ok ext N C rows same (Suc k) srv" using rep by (simp add: represents_def)
  let ?cl = "client_of malloc cid CHR ''d'' path"
  have cl: "cl_op ?cl = CHR ''d''" "fn = get_file_name (cl_file_path ?cl)" "cid = cl_client_id ?cl" by (simp_all add: fn_def)
  have "\<exists>cl' srv' c'. session ext malloc sockfd info None ?cl srv =
      Inr (cl', Some (case files (cid, fn) of None \<Rightarrow> [] | Some bs \<Rightarrow> bs), ((srv', c', Closed), [])) \<and>
      server_ok ext N C rows same k srv' \<and> m_db srv' = m_db srv \<and>
      (\<forall>n rs. on_disk n rs srv \<longrightarrow> [] \<notin> set rs \<longrightarrow> on_disk n rs srv')"
  proof (cases "files (cid, fn)")
    case None
    then show ?thesis
      using session_download_refused [OF ok cl(1,2) snd cl(3) represents_entry(1) [OF rep K None]] by simp
  next
    case (Some bs)
    note e = represents_entry(2) [OF rep K Some]
    then show ?thesis
      using session_downloads [OF ok cl(1,2) snd cl(3), of "chunks_of bs"] chunks_of_ok(2) chunks_of_facts(1) [of bs] Some
      by simp
  qed
  then show ?thesis
    using represents_same [OF rep]
    by (fastforce simp: run_command_def fn_def [symmetric])
qed

lemma command_refines:
  assumes "represents ext N C rows same K (cost cmd + k) srv files" "names_ok ext malloc same K" "command_ok K C cmd"
  shows "\<exists>srv'. run_command ext malloc sockfd info cmd srv = Inr (srv', snd (spec_command cmd files)) \<and>
           represents ext N C rows same K k srv' (fst (spec_command cmd files))"
proof (cases cmd)
  case (Upload cid path bs)
  then show ?thesis using upload_refines assms by metis
next
  case (Download cid path)
  then show ?thesis using download_refines assms by metis
qed

lemma run_commands_refine:
  assumes "represents ext N C rows same K (sum_list (map cost cmds) + k) srv files" "names_ok ext malloc same K"
    "\<forall>cmd \<in> set cmds. command_ok K C cmd"
  shows "\<exists>srv'. run_commands ext malloc sockfd info cmds srv = Inr (srv', snd (spec_run cmds files)) \<and>
           represents ext N C rows same K k srv' (fst (spec_run cmds files))"
  using assms
proof (induction cmds arbitrary: srv files)
  case (Cons cmd cmds)
  have "represents ext N C rows same K (cost cmd + (sum_list (map cost cmds) + k)) srv files" "command_ok K C cmd"
    using Cons.prems by (simp_all add: add.assoc)
  then obtain srv1 where one: "run_command ext malloc sockfd info cmd srv = Inr (srv1, snd (spec_command cmd files))"
    and rep: "represents ext N C rows same K (sum_list (map cost cmds) + k) srv1 (fst (spec_command cmd files))"
    using command_refines Cons.prems(2) by blast
  then show ?case using Cons.IH [OF rep Cons.prems(2)] Cons.prems(3) by (auto simp: split_beta Let_def)
qed simp

text \<open>A server that has just been installed represents the empty table.\<close>

definition fresh_server :: "('db \<Rightarrow> int \<Rightarrow> string \<Rightarrow> nat) \<Rightarrow> 'db server \<Rightarrow> bool" where
  "fresh_server rows srv \<longleftrightarrow> m_all_chunks srv = Map.empty \<and> containers_dir srv = Map.empty \<and>
     recipes_dir srv = Map.empty \<and> uuid_count srv = 0 \<and> (\<forall>i n. rows (m_db srv) i n = 0)"

lemma fresh_represents:
  assumes "fresh_server rows srv" "env_ok ext N C" "db_ready ext rows same srv" "k \<le> N"
  shows "represents ext N C rows same K k srv Map.empty"
  using assms by (simp add: represents_def fresh_server_def server_ok_def index_sound_def)

section \<open>Environments for the examples\<close>

lemma chunks_of_short: "bs \<noteq> [] \<Longrightarrow> length bs \<le> CHUNKSIZE \<Longrightarrow> chunks_of bs = [bs]"
  by (simp add: chunks_of_def split_every_step config_values)

lemma demo_env_ok:
  assumes "[] \<notin> C" "inj_on (\<lambda>bs. take 32 (bs @ replicate 32 0)) C" "N \<le> 100"
  shows "env_ok demo_ext N C"
proof -
  have "inj_on (\<lambda>k. char_of (65 + k :: nat)) {..<N}"
    using assms(3) by (intro inj_onI) (auto simp: char_of_eq_iff take_bit_eq_mod)
  then show ?thesis
    using assms by (auto simp: env_ok_def demo_ext_def evp_total_def digest_def no_nul_def inj_on_def
        char_of_eq_iff take_bit_eq_mod eq_commute [of "CHR 0x00"])
qed

definition demo_names :: "(u32 \<times> string) set" where
  "demo_names = {(1, ''a''), (2, ''a''), (1, ''b'')}"

definition demo_chunks :: "byte list set" where
  "demo_chunks = {[1, 2, 3], [9]}"

lemma demo_names_ok: "names_ok demo_ext (\<lambda>_. 0) (=) demo_names"
proof -
  have n: "recipe_name 1 ''a'' = ''1a''" "recipe_name 2 ''a'' = ''2a''" "recipe_name 1 ''b'' = ''1b''"
    by code_simp+
  have "inj_on (\<lambda>(cid, fn). digest (x_evp demo_ext) (str_bytes (recipe_name cid fn))) demo_names"
    by (simp add: inj_on_def demo_names_def n demo_ext_def digest_def str_bytes_def)
  moreover have "evp_total (x_evp demo_ext)" by (auto simp: demo_ext_def evp_total_def)
  ultimately show ?thesis
    by (auto simp: names_ok_def inj_on_def recipe_key_def chunk_key_def convert_eq_iff generate_hash_total(2)
        sendable_def name_ok_def plain_name_def no_nul_def demo_names_def)
qed

lemma demo_represents:
  "k \<le> 60 \<Longrightarrow> represents demo_ext 60 demo_chunks sql_demo_rows (=) K k demo_server Map.empty"
  by (rule fresh_represents)
     (auto intro!: demo_env_ok simp: fresh_server_def demo_server_def demo_chunks_def db_ready_def sql_demo_files
        pool_ok_def two_conns_def demo_ext_def [THEN arg_cong, of x_exec, simplified])

section \<open>The properties\<close>

text \<open>
  C2: the system refines the table of files. Whatever clients upload and download one after the other, no
  session crashes, every download returns exactly what the table says (the content of the first upload under
  that name by that client, and nothing if there was none), and the server again represents the table. It is
  assumed that the digests of the chunks in use and the recipe names do not collide, that the UUIDs are
  distinct, and that names are short, without quotes and followed by a zero byte.
\<close>

theorem runs_refine:
  assumes "represents ext N C rows same K (sum_list (map cost cmds) + k) srv files"
    and "names_ok ext malloc same K" and "\<forall>cmd \<in> set cmds. command_ok K C cmd"
  shows "\<exists>srv'. run_commands ext malloc sockfd info cmds srv = Inr (srv', snd (spec_run cmds files)) \<and>
           represents ext N C rows same K k srv' (fst (spec_run cmds files))"
  using assms by (rule run_commands_refine)

theorem runs_refine_witness:
  "\<exists>srv'. run_commands demo_ext (\<lambda>_. 0) 5 (ClientInfo_new 7 ''10.0.0.1'' 4000)
     [Upload 1 ''a'' [1, 2, 3], Upload 2 ''a'' [9], Upload 1 ''a'' [9], Download 1 ''a'', Download 2 ''a'',
      Download 1 ''b''] demo_server = Inr (srv', [None, None, None, Some [1, 2, 3], Some [9], Some []])"
proof -
  have gfn: "get_file_name ''a'' = ''a''" "get_file_name ''b'' = ''b''" by code_simp+
  have ch: "chunks_of [1, 2, 3 :: byte] = [[1, 2, 3]]" "chunks_of [9 :: byte] = [[9]]"
    by (simp_all add: chunks_of_short config_values)
  show ?thesis
    using runs_refine [OF demo_represents demo_names_ok, where k = 0 and sockfd = 5 and info = "ClientInfo_new 7 ''10.0.0.1'' 4000" and
        cmds = "[Upload 1 ''a'' [1, 2, 3], Upload 2 ''a'' [9], Upload 1 ''a'' [9], Download 1 ''a'', Download 2 ''a'',
      Download 1 ''b'']"]
    by (auto simp: gfn ch demo_names_def demo_chunks_def Let_def)
qed

end
