(* ===== verification/ThreadPool.thy ===== *)
theory ThreadPool
  imports BlockQueue "HOL-Library.Multiset"
begin

text \<open>
  The thread pool of \<^verbatim>\<open>include/ThreadPool.h\<close> and \<^verbatim>\<open>src/comm/ThreadPool.cc\<close>.

  A worker is in \<open>pop\<close>, executes a request, or has returned from \<open>run\<close>. \<open>tp_step\<close> lets the owner
  append requests, the workers fetch and finish them and the destructor start, in any order. Function
  pointers are names of type \<open>'f\<close>; that a function returns is the step \<open>finish\<close>. The ghost fields record what
  was appended, fetched and finished.
\<close>

section \<open>The pool\<close>

record ('f, 'a) Request =
  req_func :: 'f
  req_arg :: 'a

datatype 'r worker = Fetching | Executing 'r | Returned

record ('f, 'a) ThreadPool =
  m_threads :: "('f, 'a) Request worker list"
  m_requests :: "('f, 'a) Request BlockQueue"
  m_thread_num :: nat

fun start_threads :: "nat \<Rightarrow> 'r worker list \<Rightarrow> 'r worker list" where
  "start_threads 0 ths = ths"
| "start_threads (Suc n) ths = start_threads n (ths @ [Fetching])"

definition ThreadPool_new :: "nat \<Rightarrow> nat \<Rightarrow> ('f, 'a) ThreadPool" where
  "ThreadPool_new thread_num queue_size =
     \<lparr>m_threads = start_threads thread_num [], m_requests = BlockQueue_new queue_size, m_thread_num = thread_num\<rparr>"

text \<open>\<open>None\<close> while the caller waits for room in the queue.\<close>

definition tp_append :: "('f, 'a) Request \<Rightarrow> ('f, 'a) ThreadPool \<Rightarrow> ('f, 'a) ThreadPool option" where
  "tp_append req p = map_option (\<lambda>q. p\<lparr>m_requests := q\<rparr>) (push req (m_requests p))"

text \<open>
  The two halves of the loop of \<open>run\<close> in worker \<open>i\<close>: the call of \<open>pop\<close>, which returns from \<open>run\<close> when it is
  \<open>false\<close>, and the return of the request's function.
\<close>

definition tp_fetch :: "nat \<Rightarrow> ('f, 'a) ThreadPool \<Rightarrow> ('f, 'a) ThreadPool option" where
  "tp_fetch i p =
     (case pop (m_requests p) of
        Popped req q \<Rightarrow> Some (p\<lparr>m_requests := q, m_threads := (m_threads p)[i := Executing req]\<rparr>)
      | PopFalse \<Rightarrow> Some (p\<lparr>m_threads := (m_threads p)[i := Returned]\<rparr>)
      | PopWait \<Rightarrow> None)"

definition tp_finish :: "nat \<Rightarrow> ('f, 'a) ThreadPool \<Rightarrow> ('f, 'a) ThreadPool" where
  "tp_finish i p = p\<lparr>m_threads := (m_threads p)[i := Fetching]\<rparr>"

text \<open>The destructor announces the end; its joins return when every worker has returned.\<close>

definition tp_shutdown :: "('f, 'a) ThreadPool \<Rightarrow> ('f, 'a) ThreadPool" where
  "tp_shutdown p = p\<lparr>m_requests := set_done (m_requests p)\<rparr>"

definition tp_joined :: "('f, 'a) ThreadPool \<Rightarrow> bool" where
  "tp_joined p \<longleftrightarrow> (\<forall>th \<in> set (m_threads p). th = Returned)"

section \<open>All interleavings\<close>

record ('f, 'a) tp_sys =
  tp :: "('f, 'a) ThreadPool"
  appended :: "('f, 'a) Request list"
  fetched :: "('f, 'a) Request list"
  finished :: "('f, 'a) Request list"

definition tp_init :: "nat \<Rightarrow> nat \<Rightarrow> ('f, 'a) tp_sys" where
  "tp_init n k = \<lparr>tp = ThreadPool_new n k, appended = [], fetched = [], finished = []\<rparr>"

text \<open>An object is not used any more once its destructor runs, so nothing is appended after \<open>set_done\<close>.\<close>

inductive tp_step :: "('f, 'a) tp_sys \<Rightarrow> ('f, 'a) tp_sys \<Rightarrow> bool" where
  append: "\<not> m_done (m_requests (tp s)) \<Longrightarrow> tp_append req (tp s) = Some p \<Longrightarrow>
    tp_step s (s\<lparr>tp := p, appended := appended s @ [req]\<rparr>)"
| fetch: "i < length (m_threads (tp s)) \<Longrightarrow> m_threads (tp s) ! i = Fetching \<Longrightarrow> tp_fetch i (tp s) = Some p \<Longrightarrow>
    m_threads p ! i = Executing req \<Longrightarrow> tp_step s (s\<lparr>tp := p, fetched := fetched s @ [req]\<rparr>)"
| return: "i < length (m_threads (tp s)) \<Longrightarrow> m_threads (tp s) ! i = Fetching \<Longrightarrow> tp_fetch i (tp s) = Some p \<Longrightarrow>
    m_threads p ! i = Returned \<Longrightarrow> tp_step s (s\<lparr>tp := p\<rparr>)"
| finish: "i < length (m_threads (tp s)) \<Longrightarrow> m_threads (tp s) ! i = Executing req \<Longrightarrow>
    tp_step s (s\<lparr>tp := tp_finish i (tp s), finished := finished s @ [req]\<rparr>)"
| shutdown: "\<not> m_done (m_requests (tp s)) \<Longrightarrow> tp_step s (s\<lparr>tp := tp_shutdown (tp s)\<rparr>)"

inductive tp_reachable :: "nat \<Rightarrow> nat \<Rightarrow> ('f, 'a) tp_sys \<Rightarrow> bool" for n k where
  start: "tp_reachable n k (tp_init n k)"
| step: "tp_reachable n k s \<Longrightarrow> tp_step s s' \<Longrightarrow> tp_reachable n k s'"

inductive_cases tp_stepE: "tp_step s s'"

fun running :: "'r worker list \<Rightarrow> 'r list" where
  "running [] = []"
| "running (Executing r # ths) = r # running ths"
| "running (_ # ths) = running ths"

definition tp_inv :: "nat \<Rightarrow> ('f, 'a) tp_sys \<Rightarrow> bool" where
  "tp_inv n s \<longleftrightarrow> bq_inv (m_requests (tp s)) \<and> length (m_threads (tp s)) = n \<and> m_thread_num (tp s) = n \<and>
     fetched s @ m_queue (m_requests (tp s)) = appended s \<and>
     mset (finished s) + mset (running (m_threads (tp s))) = mset (fetched s) \<and>
     (Returned \<in> set (m_threads (tp s)) \<longrightarrow> m_done (m_requests (tp s)) \<and> m_queue (m_requests (tp s)) = [])"

lemma start_threads_eq: "start_threads n ths = ths @ replicate n Fetching"
  by (induction n ths rule: start_threads.induct) (simp_all add: replicate_append_same)

lemma running_append [simp]: "running (xs @ ys) = running xs @ running ys"
  by (induction xs rule: running.induct) simp_all

lemma running_replicate [simp]: "running (replicate n Fetching) = []"
  by (induction n) simp_all

lemma mset_running_update:
  assumes "i < length ths"
  shows "mset (running (ths[i := th])) + mset (running [ths ! i]) = mset (running ths) + mset (running [th])"
proof -
  have "ths = take i ths @ ths ! i # drop (Suc i) ths" using assms by (rule id_take_nth_drop)
  then have "running ths = running (take i ths) @ running [ths ! i] @ running (drop (Suc i) ths)"
    by (metis append_Cons append_Nil running_append)
  moreover have "running (ths[i := th]) = running (take i ths) @ running [th] @ running (drop (Suc i) ths)"
    using assms by (metis append_Cons append_Nil running_append upd_conv_take_nth_drop)
  ultimately show ?thesis by simp
qed

lemma tp_inv_init: "tp_inv n (tp_init n k)"
  by (simp add: tp_inv_def tp_init_def ThreadPool_new_def start_threads_eq bq_inv_new)
     (simp add: BlockQueue_new_def)

lemma tp_fetch_Executing:
  assumes "tp_fetch i p = Some p'" "m_threads p' ! i = Executing req" "i < length (m_threads p)"
  shows "\<exists>q. pop (m_requests p) = Popped req q \<and> p' = p\<lparr>m_requests := q, m_threads := (m_threads p)[i := Executing req]\<rparr>"
  using assms by (auto simp: tp_fetch_def split: pop_result.splits)

lemma tp_fetch_Returned:
  assumes "tp_fetch i p = Some p'" "m_threads p' ! i = Returned" "i < length (m_threads p)"
  shows "m_queue (m_requests p) = [] \<and> m_done (m_requests p) \<and> p' = p\<lparr>m_threads := (m_threads p)[i := Returned]\<rparr>"
  using assms by (auto simp: tp_fetch_def pop_PopFalse split: pop_result.splits)

lemma returned_update: "Returned \<in> set (ths[i := th]) \<Longrightarrow> th \<noteq> Returned \<Longrightarrow> Returned \<in> set ths"
  using set_update_subset_insert [of ths i th] by auto

lemma tp_step_inv: "tp_step s s' \<Longrightarrow> tp_inv n s \<Longrightarrow> tp_inv n s'"
proof (induction rule: tp_step.induct)
  case (append s req p)
  then obtain q where q: "push req (m_requests (tp s)) = Some q" "p = (tp s)\<lparr>m_requests := q\<rparr>"
    by (auto simp: tp_append_def)
  then show ?case using append push_Some [OF q(1)] by (auto simp: tp_inv_def)
next
  case (fetch i s p req)
  obtain q where q: "pop (m_requests (tp s)) = Popped req q"
    "p = (tp s)\<lparr>m_requests := q, m_threads := (m_threads (tp s))[i := Executing req]\<rparr>"
    using tp_fetch_Executing [OF fetch(3,4,1)] by blast
  have "mset (running ((m_threads (tp s))[i := Executing req])) = mset (running (m_threads (tp s))) + {#req#}"
    using mset_running_update [OF fetch(1), of "Executing req"] fetch(2) by simp
  then show ?case
    using fetch.prems pop_Popped [OF q(1)] by (auto simp: tp_inv_def q(2) dest: returned_update)
next
  case (return i s p)
  note r = tp_fetch_Returned [OF return(3,4,1)]
  have "mset (running ((m_threads (tp s))[i := Returned])) = mset (running (m_threads (tp s)))"
    using mset_running_update [OF return(1), of Returned] return(2) by simp
  then show ?case using return.prems r by (simp add: tp_inv_def)
next
  case (finish i s req)
  have "mset (running (m_threads (tp s))) = mset (running ((m_threads (tp s))[i := Fetching])) + {#req#}"
    using mset_running_update [OF finish(1), of Fetching] finish(2) by simp
  then show ?case
    using finish.prems by (auto simp: tp_inv_def tp_finish_def dest: returned_update)
next
  case (shutdown s)
  then show ?case by (auto simp: tp_inv_def tp_shutdown_def set_done_def bq_inv_def)
qed

lemma tp_reachable_inv: "tp_reachable n k s \<Longrightarrow> tp_inv n s"
  by (induction rule: tp_reachable.induct) (auto intro: tp_inv_init tp_step_inv)

lemma length_running: "length (running ths) \<le> length ths"
  by (induction ths rule: running.induct) simp_all

text \<open>
  C16: in every interleaving the workers start the requests in the order in which they were appended, each once,
  a request that was fetched is running in exactly one worker or has finished, and no more requests run at
  the same time than there are threads.
\<close>

theorem thread_pool_exactly_once:
  assumes "tp_reachable n k s"
  shows "fetched s @ m_queue (m_requests (tp s)) = appended s \<and>
         mset (fetched s) = mset (finished s) + mset (running (m_threads (tp s))) \<and>
         length (running (m_threads (tp s))) \<le> n"
  using tp_reachable_inv [OF assms] length_running [of "m_threads (tp s)"] by (simp add: tp_inv_def)

lemma running_joined: "\<forall>th \<in> set ths. th = Returned \<Longrightarrow> running ths = []"
  by (induction ths rule: running.induct) simp_all

text \<open>
  C17: when the destructor's joins have returned, every request that was ever appended has been executed to the
  end, provided the pool has a thread.
\<close>

theorem thread_pool_join_drains:
  assumes "tp_reachable n k s" "tp_joined (tp s)" "0 < n"
  shows "mset (finished s) = mset (appended s) \<and> m_queue (m_requests (tp s)) = []"
proof -
  have inv: "tp_inv n s" using assms(1) by (rule tp_reachable_inv)
  then have "Returned \<in> set (m_threads (tp s))"
    using assms(2,3) by (cases "m_threads (tp s)") (auto simp: tp_inv_def tp_joined_def)
  then show ?thesis using inv assms(2) by (auto simp: tp_inv_def tp_joined_def running_joined)
qed

section \<open>The destructor ends\<close>

text \<open>What is left to do: two steps per queued request, one per running one, one return per worker.\<close>

definition tp_left :: "('f, 'a) ThreadPool \<Rightarrow> nat" where
  "tp_left p = 2 * length (m_queue (m_requests p)) + length (running (m_threads p)) +
     length (filter (\<lambda>th. th \<noteq> Returned) (m_threads p))"

lemma length_filter_update:
  assumes "i < length xs"
  shows "length (filter P (xs[i := y])) + (if P (xs ! i) then 1 else 0) = length (filter P xs) + (if P y then 1 else 0)"
proof -
  have "filter P xs = filter P (take i xs) @ filter P [xs ! i] @ filter P (drop (Suc i) xs)"
    using id_take_nth_drop [OF assms] by (metis append_Cons append_Nil filter_append)
  moreover have "filter P (xs[i := y]) = filter P (take i xs) @ filter P [y] @ filter P (drop (Suc i) xs)"
    using assms by (metis append_Cons append_Nil filter_append upd_conv_take_nth_drop)
  ultimately show ?thesis by simp
qed

lemma length_running_update:
  "i < length ths \<Longrightarrow>
   length (running (ths[i := th])) + length (running [ths ! i]) = length (running ths) + length (running [th])"
  using mset_running_update [of i ths th] by (metis size_mset size_union)

lemma tp_step_left: "tp_step s s' \<Longrightarrow> m_done (m_requests (tp s)) \<Longrightarrow> tp_left (tp s') < tp_left (tp s)"
proof (induction rule: tp_step.induct)
  case (fetch i s p req)
  obtain q where q: "pop (m_requests (tp s)) = Popped req q"
    "p = (tp s)\<lparr>m_requests := q, m_threads := (m_threads (tp s))[i := Executing req]\<rparr>"
    using tp_fetch_Executing [OF fetch(3,4,1)] by blast
  then show ?case
    using pop_Popped [OF q(1)] fetch(2) length_running_update [OF fetch(1), of "Executing req"]
      length_filter_update [OF fetch(1), of "\<lambda>th. th \<noteq> Returned" "Executing req"]
    by (simp add: tp_left_def)
next
  case (return i s p)
  then show ?case
    using tp_fetch_Returned [OF return(3,4,1)] length_running_update [OF return(1), of Returned]
      length_filter_update [OF return(1), of "\<lambda>th. th \<noteq> Returned" Returned]
    by (simp add: tp_left_def)
next
  case (finish i s req)
  then show ?case
    using length_running_update [OF finish(1), of Fetching]
      length_filter_update [OF finish(1), of "\<lambda>th. th \<noteq> Returned" Fetching]
    by (simp add: tp_left_def tp_finish_def)
qed simp_all

lemma tp_step_progress:
  assumes "m_done (m_requests (tp s))" "\<not> tp_joined (tp s)"
  shows "\<exists>s'. tp_step s s' \<and> m_done (m_requests (tp s'))"
proof -
  obtain i where i: "i < length (m_threads (tp s))" "m_threads (tp s) ! i \<noteq> Returned"
    using assms(2) by (auto simp: tp_joined_def in_set_conv_nth)
  show ?thesis
  proof (cases "m_threads (tp s) ! i")
    case Fetching
    show ?thesis
    proof (cases "pop (m_requests (tp s))")
      case (Popped req q)
      let ?p = "(tp s)\<lparr>m_requests := q, m_threads := (m_threads (tp s))[i := Executing req]\<rparr>"
      have "tp_step s (s\<lparr>tp := ?p, fetched := fetched s @ [req]\<rparr>)"
        using Popped i Fetching by (intro fetch [of i]) (simp_all add: tp_fetch_def)
      then show ?thesis using pop_Popped [OF Popped] assms(1) by fastforce
    next
      case PopFalse
      let ?p = "(tp s)\<lparr>m_threads := (m_threads (tp s))[i := Returned]\<rparr>"
      have "tp_step s (s\<lparr>tp := ?p\<rparr>)"
        using PopFalse i Fetching by (intro return [of i]) (simp_all add: tp_fetch_def)
      then show ?thesis using assms(1) by fastforce
    next
      case PopWait
      then show ?thesis using assms(1) by (simp add: pop_PopWait)
    qed
  next
    case (Executing req)
    then have "tp_step s (s\<lparr>tp := tp_finish i (tp s), finished := finished s @ [req]\<rparr>)"
      using i by (intro finish)
    then show ?thesis using assms(1) by (fastforce simp: tp_finish_def)
  qed (use i in simp)
qed

text \<open>
  C18: after \<open>set_done\<close> the destructor cannot wait forever if the functions of the requests return: as long as
  some worker has not returned, some worker can make a step (none is left waiting on the queue), and every
  step decreases what is left to do.
\<close>

theorem thread_pool_shutdown_ends:
  assumes "m_done (m_requests (tp s))"
  shows "(tp_joined (tp s) \<or> (\<exists>s'. tp_step s s' \<and> m_done (m_requests (tp s')))) \<and>
         (\<forall>s'. tp_step s s' \<longrightarrow> tp_left (tp s') < tp_left (tp s))"
  using tp_step_progress [OF assms] tp_step_left assms by blast

section \<open>A run\<close>

text \<open>One worker executes one request and is joined.\<close>

definition demo_request :: "(nat, nat) Request" where
  "demo_request = \<lparr>req_func = 0, req_arg = 7\<rparr>"

definition demo_pool :: "(nat, nat) Request worker \<Rightarrow> (nat, nat) Request list \<Rightarrow> bool \<Rightarrow> (nat, nat) ThreadPool" where
  "demo_pool w q d = \<lparr>m_threads = [w], m_requests = \<lparr>m_queue = q, m_size = 2, m_isEmpty = (q = []), m_done = d\<rparr>,
     m_thread_num = 1\<rparr>"

definition demo_run :: "(nat, nat) Request worker \<Rightarrow> (nat, nat) Request list \<Rightarrow> bool \<Rightarrow> (nat, nat) Request list \<Rightarrow>
    (nat, nat) Request list \<Rightarrow> (nat, nat) tp_sys" where
  "demo_run w q d fet fin = \<lparr>tp = demo_pool w q d, appended = fet @ q, fetched = fet, finished = fin\<rparr>"

lemma demo_run_reachable:
  "tp_reachable 1 2 (demo_run (Executing demo_request) [] False [demo_request] [])"
  "tp_reachable 1 2 (demo_run Returned [] True [demo_request] [demo_request])"
proof -
  note defs = demo_run_def demo_pool_def
  have s0: "tp_reachable 1 2 (demo_run Fetching [] False [] [])"
    using tp_reachable.start [of 1 2, where 'f = nat and 'a = nat]
    by (simp add: defs tp_init_def ThreadPool_new_def BlockQueue_new_def)
  have s1: "tp_reachable 1 2 (demo_run Fetching [demo_request] False [] [])"
    using tp_reachable.step [OF s0 append [where req = demo_request]] by (simp add: defs tp_append_def push_def)
  show s2: "tp_reachable 1 2 (demo_run (Executing demo_request) [] False [demo_request] [])"
    using tp_reachable.step [OF s1 fetch [where i = 0 and req = demo_request]] by (simp add: defs tp_fetch_def pop_def)
  have s3: "tp_reachable 1 2 (demo_run Fetching [] False [demo_request] [demo_request])"
    using tp_reachable.step [OF s2 finish [where i = 0 and req = demo_request]] by (simp add: defs tp_finish_def)
  have s4: "tp_reachable 1 2 (demo_run Fetching [] True [demo_request] [demo_request])"
    using tp_reachable.step [OF s3 shutdown] by (simp add: defs tp_shutdown_def set_done_def)
  show "tp_reachable 1 2 (demo_run Returned [] True [demo_request] [demo_request])"
    using tp_reachable.step [OF s4 return [where i = 0]] by (simp add: defs tp_fetch_def pop_def)
qed

theorem thread_pool_exactly_once_witness:
  "length (running (m_threads (tp (demo_run (Executing demo_request) [] False [demo_request] [])))) \<le> 1 \<and>
   fetched (demo_run (Executing demo_request) [] False [demo_request] []) = [demo_request]"
  using thread_pool_exactly_once [OF demo_run_reachable(1)] by (simp add: demo_run_def demo_pool_def)

theorem thread_pool_join_drains_witness:
  "mset (finished (demo_run Returned [] True [demo_request] [demo_request])) = {#demo_request#} \<and>
   tp_joined (demo_pool Returned [] True)"
  using thread_pool_join_drains [OF demo_run_reachable(2)]
  by (simp add: demo_run_def demo_pool_def tp_joined_def)

theorem thread_pool_shutdown_ends_witness:
  "\<exists>s'. tp_step (demo_run Fetching [demo_request] True [] []) s' \<and>
        tp_left (tp s') < tp_left (tp (demo_run Fetching [demo_request] True [] []))"
  using thread_pool_shutdown_ends [of "demo_run Fetching [demo_request] True [] []"]
  by (auto simp: demo_run_def demo_pool_def tp_joined_def)

end
