(* ===== verification/Logger.thy ===== *)
theory Logger
  imports BlockQueue
begin

text \<open>
  The log of \<^verbatim>\<open>include/Logger.h\<close> and \<^verbatim>\<open>src/comm/Logger.cc\<close>: records are formatted, the file is changed on a new day
  and after every \<open>m_split_lines\<close> records, and a record is written at once or handed to a writer thread.

  The file system is a map from paths to contents; \<open>creatable\<close> says which paths can be opened. The time is a parameter
  of the calls. \<open>write_log\<close> takes the text that \<open>vsprintf\<close> produces for its format and arguments.
\<close>

section \<open>Formatting\<close>

record tm =
  tm_year :: int
  tm_mon :: int
  tm_mday :: int
  tm_hour :: int
  tm_min :: int
  tm_sec :: int

datatype Level = DEBUG | INFO | WARN | ERROR

text \<open>\<open>%02d\<close>.\<close>

definition fmt02 :: "int \<Rightarrow> string" where
  "fmt02 i = (let s = to_string i in replicate (2 - length s) (CHR ''0'') @ s)"

text \<open>The name of a file of the day: directory, date and log name.\<close>

definition day_path :: "string \<Rightarrow> tm \<Rightarrow> string \<Rightarrow> string" where
  "day_path dir t name =
     dir @ to_string (tm_year t + 1900) @ ''_'' @ fmt02 (tm_mon t + 1) @ ''_'' @ fmt02 (tm_mday t) @ ''_'' @ name"

definition split_path :: "string \<Rightarrow> tm \<Rightarrow> string \<Rightarrow> u64 \<Rightarrow> string" where
  "split_path dir t name k = day_path dir t name @ ''.'' @ to_string (sint k)"

fun level_text :: "Level \<Rightarrow> string" where
  "level_text DEBUG = ''[debug]:''"
| "level_text INFO = ''[info]:''"
| "level_text WARN = ''[warn]:''"
| "level_text ERROR = ''[error]:''"

definition LOGBUFSIZE :: nat where "LOGBUFSIZE = 1024"

definition log_prefix :: "Level \<Rightarrow> tm \<Rightarrow> string" where
  "log_prefix level t =
     to_string (tm_year t + 1900) @ ''-'' @ fmt02 (tm_mon t + 1) @ ''-'' @ fmt02 (tm_mday t) @ '' '' @
     fmt02 (tm_hour t) @ ''-'' @ fmt02 (tm_min t) @ ''-'' @ fmt02 (tm_sec t) @ '' '' @ level_text level"

text \<open>
  The record is built in an array of 1024 characters; with the line end and the NUL it has to fit, which nothing
  checks.
\<close>

definition one_log :: "Level \<Rightarrow> tm \<Rightarrow> string \<Rightarrow> crash + string" where
  "one_log level t msg =
     (let rec = log_prefix level t @ msg
      in if length rec + 2 \<le> LOGBUFSIZE then Inr (takeWhile (\<lambda>c. c \<noteq> CHR 0x00) (rec @ [CHR 0x0A]))
         else Inl BufferOverflow)"

section \<open>File streams\<close>

text \<open>
  \<open>std::ofstream\<close> with mode \<open>out\<close>: opening truncates; opening an open stream or a path that cannot be created sets the
  error state, a successful \<open>open\<close> clears it, and while it is set nothing is written.
\<close>

type_synonym fsys = "string \<rightharpoonup> string"

record filestream =
  fs_path :: "string option"
  fs_fail :: bool

definition fs_open :: "(string \<Rightarrow> bool) \<Rightarrow> string \<Rightarrow> filestream \<times> fsys \<Rightarrow> filestream \<times> fsys" where
  "fs_open creatable path = (\<lambda>(st, d).
     if fs_path st \<noteq> None \<or> \<not> creatable path then (st\<lparr>fs_fail := True\<rparr>, d)
     else (\<lparr>fs_path = Some path, fs_fail = False\<rparr>, d(path \<mapsto> [])))"

definition fs_close :: "filestream \<Rightarrow> filestream" where
  "fs_close st = (if fs_path st = None then st\<lparr>fs_fail := True\<rparr> else st\<lparr>fs_path := None\<rparr>)"

definition fs_write :: "string \<Rightarrow> filestream \<times> fsys \<Rightarrow> filestream \<times> fsys" where
  "fs_write s = (\<lambda>(st, d).
     case fs_path st of
       None \<Rightarrow> (st\<lparr>fs_fail := True\<rparr>, d)
     | Some path \<Rightarrow>
         if fs_fail st then (st, d)
         else (st, d(path \<mapsto> (case d path of None \<Rightarrow> [] | Some old \<Rightarrow> old) @ s)))"

section \<open>State\<close>

text \<open>The writer thread: not started, in \<open>pop\<close>, holding a record that is not written yet, or returned.\<close>

datatype log_writer = NoThread | LogPopping | LogHolding string | LogReturned

record Logger =
  m_dir_name :: string
  m_log_name :: string
  m_log_filestream :: filestream
  m_log_queue :: "string BlockQueue"
  m_write_thread :: log_writer
  m_count :: u64
  m_split_lines :: u64
  m_is_async :: bool
  m_today :: int
  m_close_log :: bool

text \<open>The instance of \<open>get_instance\<close> is a static object, so its members start as zero.\<close>

definition Logger_instance :: Logger where
  "Logger_instance =
     \<lparr>m_dir_name = [], m_log_name = [], m_log_filestream = \<lparr>fs_path = None, fs_fail = False\<rparr>,
      m_log_queue = BlockQueue_new 0, m_write_thread = NoThread, m_count = 0, m_split_lines = 0,
      m_is_async = False, m_today = 0, m_close_log = False\<rparr>"

definition with_stream :: "(filestream \<times> fsys \<Rightarrow> filestream \<times> fsys) \<Rightarrow> Logger \<times> fsys \<Rightarrow> Logger \<times> fsys" where
  "with_stream f = (\<lambda>(lg, d). let (st, d) = f (m_log_filestream lg, d) in (lg\<lparr>m_log_filestream := st\<rparr>, d))"

section \<open>init\<close>

text \<open>What \<open>strrchr\<close> splits a path into: the directory with its slash, and the rest.\<close>

definition dir_part :: "string \<Rightarrow> string" where
  "dir_part p = rev (dropWhile (\<lambda>c. c \<noteq> CHR ''/'') (rev p))"

definition name_part :: "string \<Rightarrow> string" where
  "name_part p = rev (takeWhile (\<lambda>c. c \<noteq> CHR ''/'') (rev p))"

definition logger_init ::
    "(string \<Rightarrow> bool) \<Rightarrow> tm \<Rightarrow> string \<Rightarrow> bool \<Rightarrow> u64 \<Rightarrow> nat \<Rightarrow> Logger \<times> fsys \<Rightarrow> crash + Logger \<times> fsys" where
  "logger_init creatable t file_path close_log split_lines queue_size = (\<lambda>(lg, d).
     (let (lg, full_log_path) =
        (if CHR ''/'' \<notin> set file_path then (lg\<lparr>m_log_name := file_path\<rparr>, day_path [] t file_path)
         else (lg\<lparr>m_log_name := name_part file_path, m_dir_name := dir_part file_path\<rparr>,
               day_path (dir_part file_path) t (name_part file_path)))
      in bindR (guardR BufferOverflow (length full_log_path + 1 \<le> 256)) (\<lambda>_.
         (let (lg, d) = with_stream (fs_open creatable full_log_path) (lg, d);
              lg = lg\<lparr>m_today := tm_mday t, m_count := 0, m_is_async := False,
                      m_split_lines := split_lines, m_close_log := close_log\<rparr>
          in if 0 < queue_size then
               if m_write_thread lg = NoThread
               then Inr (lg\<lparr>m_log_queue := BlockQueue_new queue_size, m_is_async := True,
                            m_write_thread := LogPopping\<rparr>, d)
               else Inl (ErrExit ''std::terminate'')
             else Inr (lg, d)))))"

section \<open>write_log\<close>

text \<open>The critical section: the record is counted and the file is changed if it is time to.\<close>

definition rotation_path :: "tm \<Rightarrow> Logger \<Rightarrow> string" where
  "rotation_path t lg =
     (if tm_mday t \<noteq> m_today lg then day_path (m_dir_name lg) t (m_log_name lg)
      else split_path (m_dir_name lg) t (m_log_name lg) (m_count lg div m_split_lines lg))"

definition rotate :: "(string \<Rightarrow> bool) \<Rightarrow> tm \<Rightarrow> Logger \<times> fsys \<Rightarrow> crash + Logger \<times> fsys" where
  "rotate creatable t = (\<lambda>(lg, d).
     (let path = rotation_path t lg
      in bindR (guardR BufferOverflow (length path + 1 \<le> 256)) (\<lambda>_.
         (let lg = (if tm_mday t \<noteq> m_today lg then lg\<lparr>m_count := 0, m_today := tm_mday t\<rparr> else lg)
          in bindR (guardR Waits (m_is_async lg \<longrightarrow> bq_empty (m_log_queue lg))) (\<lambda>_.
             Inr (with_stream (\<lambda>(st, d). fs_open creatable path (fs_close st, d)) (lg, d)))))))"

definition count_record :: "(string \<Rightarrow> bool) \<Rightarrow> tm \<Rightarrow> Logger \<times> fsys \<Rightarrow> crash + Logger \<times> fsys" where
  "count_record creatable t = (\<lambda>(lg, d).
     (let lg = lg\<lparr>m_count := m_count lg + 1\<rparr>
      in if tm_mday t \<noteq> m_today lg then rotate creatable t (lg, d)
         else if m_split_lines lg = 0 then Inl DivByZero
         else if m_count lg mod m_split_lines lg = 0 then rotate creatable t (lg, d)
         else Inr (lg, d)))"

text \<open>After it: the record is queued for the writer thread or written here.\<close>

definition emit :: "string \<Rightarrow> Logger \<times> fsys \<Rightarrow> crash + Logger \<times> fsys" where
  "emit str_log = (\<lambda>(lg, d).
     if m_is_async lg then
       (case push str_log (m_log_queue lg) of
          None \<Rightarrow> Inl Waits
        | Some q \<Rightarrow> Inr (lg\<lparr>m_log_queue := q\<rparr>, d))
     else Inr (with_stream (fs_write str_log) (lg, d)))"

definition write_log ::
    "(string \<Rightarrow> bool) \<Rightarrow> tm \<Rightarrow> Level \<Rightarrow> string \<Rightarrow> Logger \<times> fsys \<Rightarrow> crash + Logger \<times> fsys" where
  "write_log creatable t level msg s =
     (if m_close_log (fst s) then Inr s
      else bindR (one_log level t msg) (\<lambda>str_log.
           bindR (count_record creatable t s) (emit str_log)))"

section \<open>The writer thread and the destructor\<close>

definition async_fetch :: "Logger \<Rightarrow> Logger option" where
  "async_fetch lg =
     (case pop (m_log_queue lg) of
        Popped s q \<Rightarrow> Some (lg\<lparr>m_log_queue := q, m_write_thread := LogHolding s\<rparr>)
      | PopFalse \<Rightarrow> Some (lg\<lparr>m_write_thread := LogReturned\<rparr>)
      | PopWait \<Rightarrow> None)"

definition async_store :: "string \<Rightarrow> Logger \<times> fsys \<Rightarrow> Logger \<times> fsys" where
  "async_store s = (\<lambda>(lg, d). with_stream (fs_write s) (lg\<lparr>m_write_thread := LogPopping\<rparr>, d))"

text \<open>The thread run until it waits or returns; \<open>async_write_log\<close> starts in \<open>pop\<close> or with a record in hand.\<close>

definition async_write_log :: "Logger \<times> fsys \<Rightarrow> Logger \<times> fsys" where
  "async_write_log = (\<lambda>(lg, d).
     (let (st, d) = (case m_write_thread lg of LogHolding s \<Rightarrow> fs_write s (m_log_filestream lg, d) | _ \<Rightarrow> (m_log_filestream lg, d));
          (q, st, d) = consume fs_write (m_log_queue lg) (st, d)
      in (lg\<lparr>m_log_filestream := st, m_log_queue := q,
             m_write_thread := (if m_done q then LogReturned else LogPopping)\<rparr>, d)))"

text \<open>The destructor lets the thread empty the queue, joins it and closes the file.\<close>

definition Logger_destroy :: "Logger \<times> fsys \<Rightarrow> Logger \<times> fsys" where
  "Logger_destroy = (\<lambda>(lg, d).
     (let (lg, d) = (if m_is_async lg then async_write_log (lg\<lparr>m_log_queue := set_done (m_log_queue lg)\<rparr>, d) else (lg, d))
      in (lg\<lparr>m_log_filestream := fs_close (m_log_filestream lg)\<rparr>, d)))"

section \<open>Splitting\<close>

lemma u64_div_mod:
  assumes "a < 2 ^ 64" "b < 2 ^ 64"
  shows "(of_nat a :: u64) div of_nat b = of_nat (a div b)" "(of_nat a :: u64) mod of_nat b = 0 \<longleftrightarrow> a mod b = 0"
proof -
  have u: "unat (of_nat a :: u64) = a" "unat (of_nat b :: u64) = b"
    using assms by (simp_all add: unat_of_nat_small)
  have "unat ((of_nat a :: u64) div of_nat b) = a div b" "unat ((of_nat a :: u64) mod of_nat b) = a mod b"
    by (simp_all add: unat_div unat_mod u)
  moreover have "unat (of_nat (a div b) :: u64) = a div b"
    using assms(1) by (intro unat_of_nat_small le_less_trans [OF div_le_dividend])
  ultimately show "(of_nat a :: u64) div of_nat b = of_nat (a div b)" "(of_nat a :: u64) mod of_nat b = 0 \<longleftrightarrow> a mod b = 0"
    by (simp_all add: word_unat_eq_iff)
qed

definition same_day :: "tm \<Rightarrow> tm \<Rightarrow> bool" where
  "same_day t t' \<longleftrightarrow> tm_year t = tm_year t' \<and> tm_mon t = tm_mon t' \<and> tm_mday t = tm_mday t'"

text \<open>The files of a day, numbered from the one that \<open>init\<close> opens, and which records belong into file \<open>j\<close>.\<close>

definition log_file :: "Logger \<Rightarrow> tm \<Rightarrow> nat \<Rightarrow> string" where
  "log_file lg t j =
     (if j = 0 then day_path (m_dir_name lg) t (m_log_name lg)
      else split_path (m_dir_name lg) t (m_log_name lg) (of_nat j))"

definition log_content :: "nat \<Rightarrow> string list \<Rightarrow> nat \<Rightarrow> string" where
  "log_content S recs j = concat (map (\<lambda>k. recs ! k) (filter (\<lambda>k. Suc k div S = j) [0..<length recs]))"

lemma log_content_Nil [simp]: "log_content S [] j = []"
  by (simp add: log_content_def)

lemma log_content_snoc:
  "log_content S (recs @ [r]) j = log_content S recs j @ (if Suc (length recs) div S = j then r else [])"
proof -
  have "map ((!) (recs @ [r])) (filter P [0..<length recs]) = map ((!) recs) (filter P [0..<length recs])" for P
    by (auto simp: nth_append)
  then show ?thesis by (simp add: log_content_def del: map_eq_conv)
qed

lemma log_content_future: "length recs div S < j \<Longrightarrow> log_content S recs j = []"
proof -
  assume "length recs div S < j"
  then have "\<forall>k < length recs. Suc k div S \<noteq> j" by (metis Suc_leI div_le_mono leD)
  then have "filter (\<lambda>k. Suc k div S = j) [0..<length recs] = []" by (simp add: filter_empty_conv)
  then show ?thesis by (simp add: log_content_def)
qed

lemma log_file_same_day: "same_day t t' \<Longrightarrow> log_file lg t j = log_file lg t' j"
  by (simp add: log_file_def day_path_def split_path_def same_day_def)

lemma sint_u64_of_nat: "n < 2 ^ 63 \<Longrightarrow> sint (of_nat n :: u64) = int n"
  by (simp add: signed_of_nat signed_take_bit_int_eq_self)

lemma log_file_inj:
  assumes "i < 2 ^ 63" "j < 2 ^ 63" "log_file lg t i = log_file lg t j"
  shows "i = j"
  using assms by (auto simp: log_file_def split_path_def sint_u64_of_nat inj_to_string split: if_splits)


text \<open>
  \<open>logging\<close>: the state of a logger without a thread after \<open>recs\<close> were written on the day of \<open>t\<close> since \<open>init\<close>.
\<close>

definition logging :: "tm \<Rightarrow> nat \<Rightarrow> string list \<Rightarrow> Logger \<times> fsys \<Rightarrow> bool" where
  "logging t S recs = (\<lambda>(lg, d).
     \<not> m_close_log lg \<and> \<not> m_is_async lg \<and> m_split_lines lg = of_nat S \<and> m_today lg = tm_mday t \<and>
     m_count lg = of_nat (length recs) \<and>
     m_log_filestream lg = \<lparr>fs_path = Some (log_file lg t (length recs div S)), fs_fail = False\<rparr> \<and>
     (\<forall>j \<le> length recs div S. d (log_file lg t j) = Some (log_content S recs j)))"

text \<open>The critical section leaves the stream at the file the record belongs into.\<close>

lemma count_record_ok:
  assumes inv: "logging t S recs (lg, d)" and t: "same_day t' t" and S: "0 < S" "S < 2 ^ 63" "Suc (length recs) < 2 ^ 63"
    and path: "creatable (log_file lg t (Suc (length recs) div S))" "length (log_file lg t (Suc (length recs) div S)) < 256"
    and j: "j = Suc (length recs) div S"
  shows "\<exists>d'. count_record creatable t' (lg, d) =
           Inr (lg\<lparr>m_count := of_nat (Suc (length recs)), m_log_filestream := \<lparr>fs_path = Some (log_file lg t j), fs_fail = False\<rparr>\<rparr>, d') \<and>
         (\<forall>i \<le> j. d' (log_file lg t i) = Some (log_content S recs i))"
proof -
  let ?n = "Suc (length recs)"
  have lg: "\<not> m_is_async lg" "m_split_lines lg = of_nat S" "m_today lg = tm_mday t" "m_count lg = of_nat (length recs)"
    "m_log_filestream lg = \<lparr>fs_path = Some (log_file lg t (length recs div S)), fs_fail = False\<rparr>"
    and d: "\<And>i. i \<le> length recs div S \<Longrightarrow> d (log_file lg t i) = Some (log_content S recs i)"
    using inv by (auto simp: logging_def)
  have day: "tm_mday t' = tm_mday t" using t by (simp add: same_day_def)
  have S64: "(of_nat S :: u64) \<noteq> 0" using S(1,2) u64_of_nat_eq_0 [of S] by simp
  have w: "(of_nat ?n :: u64) mod of_nat S = 0 \<longleftrightarrow> ?n mod S = 0" "(of_nat ?n :: u64) div of_nat S = of_nat (?n div S)"
    using S u64_div_mod [of ?n S] by simp_all
  show ?thesis
  proof (cases "?n mod S = 0")
    case True
    then have jn: "j = Suc (length recs div S)" by (simp add: j div_Suc)
    let ?lg = "lg\<lparr>m_count := of_nat ?n\<rparr>"
    have p: "rotation_path t' ?lg = log_file lg t j"
      using log_file_same_day [OF t, of lg j] day jn
      by (simp add: rotation_path_def lg w(2) log_file_def j [symmetric] del: of_nat_Suc)
    have "count_record creatable t' (lg, d) = rotate creatable t' (?lg, d)"
      using True w(1) S64 by (simp add: count_record_def lg day Let_def add.commute)
    also have "\<dots> = Inr (?lg\<lparr>m_log_filestream := \<lparr>fs_path = Some (log_file lg t j), fs_fail = False\<rparr>\<rparr>, d(log_file lg t j \<mapsto> []))"
      using path by (simp add: rotate_def Let_def p day lg with_stream_def fs_open_def fs_close_def j [symmetric] del: of_nat_Suc)
    finally have run: "count_record creatable t' (lg, d) =
      Inr (?lg\<lparr>m_log_filestream := \<lparr>fs_path = Some (log_file lg t j), fs_fail = False\<rparr>\<rparr>, d(log_file lg t j \<mapsto> []))" .
    have jb: "j < 2 ^ 63" using S(3) unfolding j by (rule le_less_trans [OF div_le_dividend])
    have "(d(log_file lg t j \<mapsto> [])) (log_file lg t i) = Some (log_content S recs i)" if "i \<le> j" for i
      using that d [of i] log_file_inj [of i j lg t] jb log_content_future [of recs S j] jn by (cases "i = j") auto
    with run show ?thesis by (intro exI [of _ "d(log_file lg t j \<mapsto> [])"]) simp
  next
    case False
    then have "j = length recs div S" by (simp add: j div_Suc)
    moreover have "count_record creatable t' (lg, d) = Inr (lg\<lparr>m_count := of_nat ?n\<rparr>, d)"
      using False w(1) S64 by (simp add: count_record_def lg day Let_def add.commute)
    moreover have "lg\<lparr>m_count := of_nat ?n\<rparr> = lg\<lparr>m_count := of_nat ?n, m_log_filestream := m_log_filestream lg\<rparr>" by simp
    ultimately show ?thesis using d lg(5) by (intro exI [of _ d]) simp
  qed
qed


lemma write_log_ok:
  assumes inv: "logging t S recs (lg, d)" and t: "same_day t' t" and S: "0 < S" "S < 2 ^ 63" "Suc (length recs) < 2 ^ 63"
    and path: "creatable (log_file lg t (Suc (length recs) div S))" "length (log_file lg t (Suc (length recs) div S)) < 256"
    and r: "one_log level t' msg = Inr r"
  shows "\<exists>lg' d'. write_log creatable t' level msg (lg, d) = Inr (lg', d') \<and> logging t S (recs @ [r]) (lg', d') \<and>
           m_dir_name lg' = m_dir_name lg \<and> m_log_name lg' = m_log_name lg"
proof -
  define j where "j = Suc (length recs) div S"
  define lg' where "lg' = lg\<lparr>m_count := of_nat (Suc (length recs)), m_log_filestream := \<lparr>fs_path = Some (log_file lg t j), fs_fail = False\<rparr>\<rparr>"
  obtain d1 where c: "count_record creatable t' (lg, d) = Inr (lg', d1)" "\<And>i. i \<le> j \<Longrightarrow> d1 (log_file lg t i) = Some (log_content S recs i)"
    using count_record_ok [where creatable = creatable, OF inv t S path j_def] by (auto simp: lg'_def)
  have lg: "\<not> m_close_log lg" "\<not> m_is_async lg" "m_split_lines lg = of_nat S" "m_today lg = tm_mday t"
    using inv by (simp_all add: logging_def)
  define d2 where "d2 = d1(log_file lg t j \<mapsto> log_content S recs j @ r)"
  have run: "write_log creatable t' level msg (lg, d) = Inr (lg', d2)"
    using lg(1,2) r c by (simp add: write_log_def emit_def with_stream_def fs_write_def d2_def) (simp add: lg'_def)
  have files: "log_file lg' t i = log_file lg t i" for i by (simp add: log_file_def lg'_def)
  have jb: "j < 2 ^ 63" using S(3) unfolding j_def by (rule le_less_trans [OF div_le_dividend])
  have "d2 (log_file lg t i) = Some (log_content S (recs @ [r]) i)" if "i \<le> j" for i
    using that c(2) [OF that] log_file_inj [of i j lg t] jb by (auto simp: d2_def log_content_snoc j_def [symmetric])
  then have "logging t S (recs @ [r]) (lg', d2)"
    using lg by (simp add: logging_def files j_def [symmetric]) (simp add: lg'_def)
  then show ?thesis using run by (auto simp: lg'_def)
qed

fun write_logs :: "(string \<Rightarrow> bool) \<Rightarrow> (tm \<times> Level \<times> string) list \<Rightarrow> Logger \<times> fsys \<Rightarrow> crash + Logger \<times> fsys" where
  "write_logs creatable [] s = Inr s"
| "write_logs creatable ((t, level, msg) # calls) s =
     bindR (write_log creatable t level msg s) (write_logs creatable calls)"

lemma write_logs_ok:
  assumes "logging t S recs (lg, d)" "0 < S" "S < 2 ^ 63" "length recs + length calls < 2 ^ 63"
    and "\<forall>j. creatable (log_file lg t j)" "\<forall>j \<le> (length recs + length calls) div S. length (log_file lg t j) < 256"
    and "list_all2 (\<lambda>(t', level, msg) r. same_day t' t \<and> one_log level t' msg = Inr r) calls rs"
  shows "\<exists>lg' d'. write_logs creatable calls (lg, d) = Inr (lg', d') \<and> logging t S (recs @ rs) (lg', d') \<and>
           m_dir_name lg' = m_dir_name lg \<and> m_log_name lg' = m_log_name lg"
  using assms(7,1,4-6)
proof (induction calls rs arbitrary: recs lg d rule: list_all2_induct)
  case (Cons c calls r rs)
  obtain t' level msg where c: "c = (t', level, msg)" by (cases c)
  have "Suc (length recs) div S \<le> (length recs + length (c # calls)) div S" by (simp add: div_le_mono)
  then obtain lg1 d1 where one: "write_log creatable t' level msg (lg, d) = Inr (lg1, d1)" "logging t S (recs @ [r]) (lg1, d1)"
      "m_dir_name lg1 = m_dir_name lg" "m_log_name lg1 = m_log_name lg"
    using write_log_ok [OF Cons.prems(1) _ assms(2,3), of t' creatable level msg r] Cons.hyps(1) Cons.prems by (auto simp: c)
  have files: "log_file lg1 t j = log_file lg t j" for j by (simp add: log_file_def one)
  show ?case using Cons.IH [OF one(2)] Cons.prems one by (auto simp: c files)
qed simp

text \<open>The path of file \<open>j\<close> of a day, from the path given to \<open>init\<close>.\<close>

definition log_path :: "string \<Rightarrow> tm \<Rightarrow> nat \<Rightarrow> string" where
  "log_path path t j =
     (if j = 0 then day_path (dir_part path) t (name_part path)
      else split_path (dir_part path) t (name_part path) (of_nat j))"

lemma parts_no_slash: "CHR ''/'' \<notin> set p \<Longrightarrow> dir_part p = [] \<and> name_part p = p"
proof -
  assume "CHR ''/'' \<notin> set p"
  then have tw: "takeWhile (\<lambda>c. c \<noteq> CHR ''/'') (rev p) = rev p" by (subst takeWhile_eq_all_conv) auto
  have dw: "dropWhile (\<lambda>c. c \<noteq> CHR ''/'') (rev p) = []" using \<open>CHR ''/'' \<notin> set p\<close> by (subst dropWhile_eq_Nil_conv) auto
  show ?thesis unfolding dir_part_def name_part_def tw dw by simp
qed

lemma logger_init_sync:
  assumes "creatable (log_path path t 0)" "length (log_path path t 0) < 256"
    and lg: "fs_path (m_log_filestream lg) = None" "m_dir_name lg = []"
  shows "\<exists>lg'. logger_init creatable t path False split 0 (lg, d) = Inr (lg', d(log_path path t 0 \<mapsto> [])) \<and>
           m_dir_name lg' = dir_part path \<and> m_log_name lg' = name_part path \<and> \<not> m_close_log lg' \<and> \<not> m_is_async lg' \<and>
           m_split_lines lg' = split \<and> m_today lg' = tm_mday t \<and> m_count lg' = 0 \<and>
           m_log_filestream lg' = \<lparr>fs_path = Some (log_path path t 0), fs_fail = False\<rparr>"
  using assms parts_no_slash [of path]
  by (cases "CHR ''/'' \<in> set path")
     (simp_all add: logger_init_def log_path_def with_stream_def fs_open_def Let_def)

lemma logger_init_logging:
  assumes "creatable (log_path path t 0)" "length (log_path path t 0) < 256"
  shows "\<exists>lg' d'. logger_init creatable t path False (of_nat S) 0 (Logger_instance, d) = Inr (lg', d') \<and>
           logging t S [] (lg', d') \<and> (\<forall>j. log_file lg' t j = log_path path t j)"
proof -
  obtain lg' where run: "logger_init creatable t path False (of_nat S) 0 (Logger_instance, d) =
      Inr (lg', d(log_path path t 0 \<mapsto> []))" and lg': "m_dir_name lg' = dir_part path" "m_log_name lg' = name_part path"
      "\<not> m_close_log lg'" "\<not> m_is_async lg'" "m_split_lines lg' = of_nat S" "m_today lg' = tm_mday t" "m_count lg' = 0"
      "m_log_filestream lg' = \<lparr>fs_path = Some (log_path path t 0), fs_fail = False\<rparr>"
    using logger_init_sync [where creatable = creatable, OF assms, of Logger_instance "of_nat S" d] by (auto simp: Logger_instance_def)
  have files: "log_file lg' t j = log_path path t j" for j by (simp add: log_file_def log_path_def lg')
  have "logging t S [] (lg', d(log_path path t 0 \<mapsto> []))" by (simp add: logging_def files) (simp add: lg')
  then show ?thesis using run files by blast
qed


definition demo_tm :: tm where
  "demo_tm = \<lparr>tm_year = 124, tm_mon = 4, tm_mday = 9, tm_hour = 10, tm_min = 0, tm_sec = 7\<rparr>"



section \<open>Bounds\<close>

definition tm_ok :: "tm \<Rightarrow> bool" where
  "tm_ok t \<longleftrightarrow> -900 \<le> tm_year t \<and> tm_year t \<le> 8099 \<and> 0 \<le> tm_mon t \<and> tm_mon t < 12 \<and> 1 \<le> tm_mday t \<and> tm_mday t \<le> 31 \<and>
     0 \<le> tm_hour t \<and> tm_hour t < 24 \<and> 0 \<le> tm_min t \<and> tm_min t < 60 \<and> 0 \<le> tm_sec t \<and> tm_sec t \<le> 60"

lemma length_dec_digits_exact: "10 ^ k \<le> n \<Longrightarrow> n < 10 ^ Suc k \<Longrightarrow> length (dec_digits n) = Suc k"
proof (induction k arbitrary: n)
  case 0
  then show ?case by (simp add: dec_digits.simps)
next
  case (Suc k)
  have "(10 :: nat) ^ 1 \<le> 10 ^ Suc k" by (intro power_increasing) simp_all
  then have "\<not> n < 10" using Suc.prems(1) by (metis leD le_trans power_one_right)
  moreover have "10 ^ k \<le> n div 10" "n div 10 < 10 ^ Suc k"
    using Suc.prems by (simp_all add: div_less_iff_less_mult less_eq_div_iff_mult_less_eq)
  ultimately show ?case using Suc.IH [of "n div 10"] by (simp add: dec_digits.simps [of n])
qed

lemma length_fmt02: "0 \<le> i \<Longrightarrow> i < 100 \<Longrightarrow> length (fmt02 i) = 2"
proof -
  assume i: "0 \<le> i" "i < 100"
  then have "nat i < 10 ^ 2" by simp
  then have "length (dec_digits (nat i)) \<le> 2" by (intro length_dec_digits) simp_all
  then show ?thesis using i by (simp add: fmt02_def to_string_def Let_def)
qed

lemma length_log_prefix:
  assumes "tm_ok t"
  shows "length (log_prefix level t) = 20 + length (level_text level)"
proof -
  have "1000 \<le> nat (tm_year t + 1900)" "nat (tm_year t + 1900) < 10000" "\<not> tm_year t + 1900 < 0"
    using assms by (auto simp: tm_ok_def)
  then have "length (to_string (tm_year t + 1900)) = 4"
    using length_dec_digits_exact [of 3 "nat (tm_year t + 1900)"] by (simp add: to_string_def)
  moreover have "length (fmt02 (tm_mon t + 1)) = 2" "length (fmt02 (tm_mday t)) = 2" "length (fmt02 (tm_hour t)) = 2"
    "length (fmt02 (tm_min t)) = 2" "length (fmt02 (tm_sec t)) = 2"
    using assms by (simp_all add: tm_ok_def length_fmt02)
  ultimately show ?thesis by (simp add: log_prefix_def)
qed

text \<open>
  C26: the buffer of a record. At any time of the years 1000 to 9999 a message fits exactly when it has at most 1002
  characters less the length of the level tag; a longer one is written past the end of the array.
\<close>

theorem log_record_bound:
  assumes "tm_ok t"
  shows "((\<exists>r. one_log level t msg = Inr r) \<longleftrightarrow> length msg + length (level_text level) \<le> 1002) \<and>
         (one_log level t msg = Inl BufferOverflow \<longleftrightarrow> 1002 < length msg + length (level_text level))"
  using length_log_prefix [OF assms, of level] by (auto simp: one_log_def Let_def LOGBUFSIZE_def)


theorem log_record_bound_witness:
  "(\<exists>r. one_log INFO demo_tm (replicate 995 (CHR ''x'')) = Inr r) \<and>
   one_log INFO demo_tm (replicate 996 (CHR ''x'')) = Inl BufferOverflow"
  using log_record_bound [of demo_tm INFO "replicate 995 (CHR ''x'')"]
    log_record_bound [of demo_tm INFO "replicate 996 (CHR ''x'')"]
  by (simp add: tm_ok_def demo_tm_def)

section \<open>The writer thread\<close>

lemma fold_fs_write:
  assumes "fs_path st = Some path" "\<not> fs_fail st" "d path = Some old"
  shows "\<exists>d'. fold fs_write rs (st, d) = (st, d') \<and> d' path = Some (old @ concat rs) \<and> (\<forall>p. p \<noteq> path \<longrightarrow> d' p = d p)"
  using assms(3)
proof (induction rs arbitrary: d old)
  case (Cons r rs)
  have "fs_write r (st, d) = (st, d(path \<mapsto> old @ r))" using assms(1,2) Cons.prems by (simp add: fs_write_def)
  moreover obtain d' where "fold fs_write rs (st, d(path \<mapsto> old @ r)) = (st, d')" "d' path = Some ((old @ r) @ concat rs)"
      "\<forall>p. p \<noteq> path \<longrightarrow> d' p = (d(path \<mapsto> old @ r)) p"
    using Cons.IH [of "d(path \<mapsto> old @ r)" "old @ r", OF fun_upd_same] by blast
  ultimately show ?case by simp
qed simp

text \<open>
  C25: no queued record is lost at the end. When the logger is destroyed while its file is open, the record the writer
  thread holds and all queued records are appended to the file in order before it is closed.
\<close>

theorem logger_destroy_drains:
  assumes "m_is_async lg" "m_log_filestream lg = \<lparr>fs_path = Some path, fs_fail = False\<rparr>" "d path = Some old"
    and "m_write_thread lg = LogHolding s"
  shows "\<exists>lg' d'. Logger_destroy (lg, d) = (lg', d') \<and> d' path = Some (old @ s @ concat (m_queue (m_log_queue lg))) \<and>
           m_write_thread lg' = LogReturned \<and> m_queue (m_log_queue lg') = [] \<and> fs_path (m_log_filestream lg') = None"
proof -
  let ?st = "\<lparr>fs_path = Some path, fs_fail = False\<rparr>"
  let ?q = "set_done (m_log_queue lg)"
  obtain d' where d': "fold fs_write (m_queue (m_log_queue lg)) (?st, d(path \<mapsto> old @ s)) = (?st, d')"
    "d' path = Some ((old @ s) @ concat (m_queue (m_log_queue lg)))"
    using fold_fs_write [of ?st path "d(path \<mapsto> old @ s)" "old @ s"] by auto
  obtain q where q: "consume fs_write ?q (?st, d(path \<mapsto> old @ s)) = (q, ?st, d')" "m_queue q = []" "m_done q"
    using consume_fold [of fs_write ?q "(?st, d(path \<mapsto> old @ s))"] d'(1)
    by (cases "consume fs_write ?q (?st, d(path \<mapsto> old @ s))") (auto simp: set_done_def)
  show ?thesis
    using assms d'(2) q by (simp add: Logger_destroy_def async_write_log_def fs_write_def fs_close_def Let_def)
qed


definition demo_async :: Logger where
  "demo_async = Logger_instance\<lparr>m_is_async := True, m_split_lines := 10, m_today := 9,
     m_log_filestream := \<lparr>fs_path = Some ''log'', fs_fail = False\<rparr>, m_write_thread := LogHolding ''a'',
     m_log_queue := \<lparr>m_queue = [''b'', ''c''], m_size = 5, m_isEmpty = False, m_done = False\<rparr>\<rparr>"

theorem logger_destroy_drains_witness:
  "\<exists>lg' d'. Logger_destroy (demo_async, [''log'' \<mapsto> ''0'']) = (lg', d') \<and> d' ''log'' = Some ''0abc''"
  using logger_destroy_drains [of demo_async "''log''" "[''log'' \<mapsto> ''0'']" "''0''" "''a''"]
  by (auto simp: demo_async_def)

section \<open>Defects\<close>

text \<open>
  Changing the file does not wait for the writer thread. The queue is empty as soon as its last record has been
  popped, so a record the thread still holds is not in the old file when it is closed, and ends up in the new one.
\<close>

theorem late_record_in_new_file:
  assumes "m_is_async lg" "m_write_thread lg = LogHolding s" "bq_empty (m_log_queue lg)"
    and "m_log_filestream lg = \<lparr>fs_path = Some old, fs_fail = False\<rparr>" "tm_mday t \<noteq> m_today lg"
    and "new = day_path (m_dir_name lg) t (m_log_name lg)" "creatable new" "length new < 256" "new \<noteq> old"
  shows "\<exists>lg' d'. count_record creatable t (lg, d) = Inr (lg', d') \<and> d' old = d old \<and>
           snd (async_store s (lg', d')) old = d old \<and> snd (async_store s (lg', d')) new = Some s"
  using assms
  by (simp add: count_record_def rotate_def rotation_path_def with_stream_def fs_open_def fs_close_def async_store_def
      fs_write_def Let_def)

theorem late_record_in_new_file_witness:
  "\<exists>lg' d'. count_record (\<lambda>_. True) (demo_tm\<lparr>tm_mday := 10\<rparr>)
      (demo_async\<lparr>m_log_queue := BlockQueue_new 5\<rparr>, [''log'' \<mapsto> ''0'']) = Inr (lg', d') \<and>
     snd (async_store ''a'' (lg', d')) ''log'' = Some ''0'' \<and>
     snd (async_store ''a'' (lg', d')) ''2024_05_10_'' = Some ''a''"
proof -
  have p: "day_path [] (demo_tm\<lparr>tm_mday := 10\<rparr>) [] = ''2024_05_10_''" by code_simp
  show ?thesis
    using late_record_in_new_file [of "demo_async\<lparr>m_log_queue := BlockQueue_new 5\<rparr>" "''a''" "''log''" "demo_tm\<lparr>tm_mday := 10\<rparr>"
        "''2024_05_10_''" "\<lambda>_. True" "[''log'' \<mapsto> ''0'']"] p
    by (auto simp: demo_async_def Logger_instance_def BlockQueue_new_def bq_empty_def demo_tm_def)
qed

text \<open>
  A record written before \<open>init\<close> (the connection pool logs its errors in the server's constructor) goes to a file
  named after the date only, in the working directory, and the later \<open>init\<close> cannot open the log file any more:
  the stream is still open, so its error state is set and the next records are dropped.
\<close>

theorem log_before_init:
  assumes "tm_mday t \<noteq> 0" "creatable (day_path [] t [])" "length (day_path [] t []) < 256" "one_log level t msg = Inr r"
    and "length (log_path path t 0) < 256"
  shows "\<exists>lg lg'. write_log creatable t level msg (Logger_instance, d) = Inr (lg, d(day_path [] t [] \<mapsto> r)) \<and>
           logger_init creatable t path False split 0 (lg, d(day_path [] t [] \<mapsto> r)) = Inr (lg', d(day_path [] t [] \<mapsto> r)) \<and>
           (\<forall>x. emit x (lg', d(day_path [] t [] \<mapsto> r)) = Inr (lg', d(day_path [] t [] \<mapsto> r)))"
proof -
  define lg where "lg = Logger_instance\<lparr>m_today := tm_mday t, m_log_filestream := \<lparr>fs_path = Some (day_path [] t []), fs_fail = False\<rparr>\<rparr>"
  have one: "write_log creatable t level msg (Logger_instance, d) = Inr (lg, d(day_path [] t [] \<mapsto> r))"
    using assms(1-4) by (simp add: write_log_def count_record_def rotate_def rotation_path_def with_stream_def fs_open_def
        fs_close_def emit_def fs_write_def Logger_instance_def lg_def Let_def)
  have "length (day_path [] t path) < 256" if "CHR ''/'' \<notin> set path"
    using assms(5) parts_no_slash [OF that] by (simp add: log_path_def)
  then show ?thesis
    using one assms(5)
    by (cases "CHR ''/'' \<in> set path")
       (simp_all add: logger_init_def lg_def Logger_instance_def with_stream_def fs_open_def log_path_def Let_def emit_def fs_write_def)
qed

theorem log_before_init_witness:
  "\<exists>lg lg'. write_log (\<lambda>_. True) demo_tm ERROR ''x'' (Logger_instance, Map.empty) =
      Inr (lg, [''2024_05_09_'' \<mapsto> ''2024-05-09 10-00-07 [error]:x'' @ [CHR 0x0A]]) \<and>
    logger_init (\<lambda>_. True) demo_tm ''logs/x'' False 10 0
      (lg, [''2024_05_09_'' \<mapsto> ''2024-05-09 10-00-07 [error]:x'' @ [CHR 0x0A]]) =
      Inr (lg', [''2024_05_09_'' \<mapsto> ''2024-05-09 10-00-07 [error]:x'' @ [CHR 0x0A]])"
proof -
  have p: "day_path [] demo_tm [] = ''2024_05_09_''" "log_path ''logs/x'' demo_tm 0 = ''logs/2024_05_09_x''"
    "one_log ERROR demo_tm ''x'' = Inr (''2024-05-09 10-00-07 [error]:x'' @ [CHR 0x0A])" by code_simp+
  show ?thesis
    using log_before_init [of demo_tm "\<lambda>_. True" ERROR "''x''" "''2024-05-09 10-00-07 [error]:x'' @ [CHR 0x0A]"
        "''logs/x''" Map.empty 10] p by (auto simp: demo_tm_def)
qed


text \<open>
  Starting again on the same day loses the log. The file is opened for writing without appending, so after \<open>init\<close> the
  records an earlier run wrote to the file of the day are gone; other files are kept.
\<close>

theorem log_restart_truncates:
  assumes "creatable (log_path path t 0)" "length (log_path path t 0) < 256"
  shows "\<exists>lg. logger_init creatable t path False split 0 (Logger_instance, d(log_path path t 0 \<mapsto> old)) =
           Inr (lg, d(log_path path t 0 \<mapsto> []))"
  using logger_init_sync [where creatable = creatable, OF assms, of Logger_instance split "d(log_path path t 0 \<mapsto> old)"]
  by (auto simp: Logger_instance_def)

theorem log_restart_truncates_witness:
  "\<exists>lg. logger_init (\<lambda>_. True) demo_tm ''logs/x'' False 10 0 (Logger_instance, [log_path ''logs/x'' demo_tm 0 \<mapsto> ''old records'']) =
     Inr (lg, [log_path ''logs/x'' demo_tm 0 \<mapsto> []])"
proof -
  have "log_path ''logs/x'' demo_tm 0 = ''logs/2024_05_09_x''" by code_simp
  then have "length (log_path ''logs/x'' demo_tm 0) < 256" by simp
  then show ?thesis using log_restart_truncates [of "\<lambda>_. True" "''logs/x''" demo_tm 10 Map.empty] by blast
qed

end
