(* ===== verification/Server_Loop.thy ===== *)
theory Server_Loop
  imports ClientConn ThreadPool Logger
begin

text \<open>
  The server around the connections: \<^verbatim>\<open>DedupServer\<close>'s constructor, \<open>init\<close>, \<open>run\<close> and \<open>stub\<close> in \<^verbatim>\<open>src/server/DedupServer.cc\<close>,
  and the worker threads that execute \<^verbatim>\<open>ClientConn::run\<close>.

  \<open>heap\<close> are the live \<open>ClientConn\<close> objects with the state of their handler, addressed by number; \<open>m_clients\<close> maps a
  socket to an address. An event is what \<open>epoll_wait\<close> reports together with what \<open>accept\<close> returns for it. A
  request of the pool has the address as its argument; \<open>worker_receive\<close> is a worker that executes \<open>stub\<close> and
  receives the next message. The kernel removes a descriptor from the epoll set when it is closed.
\<close>

section \<open>State\<close>

datatype loop_event =
    Incoming int ClientInfo_t   \<comment> \<open>the listening socket is readable and \<open>accept\<close> returns this\<close>
  | Ready int u32               \<comment> \<open>another descriptor with its events\<close>

datatype wait_result = WaitError bool | WaitEvents "loop_event list"   \<comment> \<open>\<open>-1\<close> (interrupted or not), or the events\<close>

datatype stub_fn = stub

record 'db loop =
  m_listenfd :: int
  m_epoll :: epoll
  m_clients :: "int \<rightharpoonup> nat"
  heap :: "nat \<rightharpoonup> conn \<times> mode"
  next_obj :: nat
  m_threadPool :: "(stub_fn, nat) ThreadPool"
  m_server :: "'db server"

section \<open>Constructor, init and run\<close>

text \<open>
  The index of chunks starts empty; \<open>db\<close>, \<open>containers\<close>, \<open>recipes\<close> and \<open>drawn\<close> are what earlier runs left in the
  database, on the disk and in the source of UUIDs.
\<close>

definition DedupServer_new ::
    "(nat \<Rightarrow> nat option) \<Rightarrow> (nat \<Rightarrow> bool) \<Rightarrow> nat \<Rightarrow> nat \<Rightarrow> 'db \<Rightarrow> (string \<rightharpoonup> byte list) \<Rightarrow> (string \<rightharpoonup> byte list) \<Rightarrow>
     nat \<Rightarrow> crash + 'db loop" where
  "DedupServer_new mysql_init mysql_real_connect thread_num queue_size db containers recipes drawn =
     bindR (MysqlConnPool_new mysql_init mysql_real_connect 8) (\<lambda>conns.
     Inr \<lparr>m_listenfd = 0, m_epoll = Map.empty, m_clients = Map.empty, heap = Map.empty, next_obj = 0,
          m_threadPool = ThreadPool_new thread_num queue_size,
          m_server = \<lparr>m_all_chunks = Map.empty, m_mysqlPool = conns, m_db = db, containers_dir = containers,
                      recipes_dir = recipes, uuid_count = drawn\<rparr>\<rparr>)"

definition server_init ::
    "(string \<Rightarrow> bool) \<Rightarrow> tm \<Rightarrow> int \<Rightarrow> 'db loop \<Rightarrow> Logger \<times> fsys \<Rightarrow> crash + 'db loop \<times> Logger \<times> fsys" where
  "server_init creatable t listenfd L lg =
     bindR (logger_init creatable t ''logs/ServerLog'' CLOSELOG (of_nat LOGLINES) 100 lg) (\<lambda>lg.
     Inr (L\<lparr>m_listenfd := listenfd, m_epoll := epoll_ctl_add Map.empty listenfd EPOLLIN\<rparr>, lg))"

text \<open>\<open>std::map::insert\<close> keeps an entry that is there.\<close>

definition insert_client :: "int \<Rightarrow> nat \<Rightarrow> 'db loop \<Rightarrow> 'db loop" where
  "insert_client fd p L = (case m_clients L fd of None \<Rightarrow> L\<lparr>m_clients := (m_clients L)(fd \<mapsto> p)\<rparr> | Some _ \<Rightarrow> L)"

definition accept_client :: "'db ext \<Rightarrow> int \<Rightarrow> ClientInfo_t \<Rightarrow> 'db loop \<Rightarrow> crash + 'db loop" where
  "accept_client ext sockfd info L =
     bindR (ClientConn_new ext sockfd info (m_server L)) (\<lambda>(srv, c).
     (let p = next_obj L;
          L = L\<lparr>m_server := srv, heap := (heap L)(p \<mapsto> (c, AwaitLogin)), next_obj := p + 1\<rparr>;
          L = insert_client sockfd p L;
          L = L\<lparr>m_epoll := addfd (m_epoll L) sockfd\<rparr>
      in case tp_append \<lparr>req_func = stub, req_arg = p\<rparr> (m_threadPool L) of
           None \<Rightarrow> Inl Waits
         | Some threads \<Rightarrow> Inr (L\<lparr>m_threadPool := threads\<rparr>)))"

text \<open>\<open>m_clients[eventfd]\<close> is null when there is no entry, and deleting null does nothing.\<close>

definition drop_client :: "int \<Rightarrow> 'db loop \<Rightarrow> crash + 'db loop" where
  "drop_client fd L =
     (let L = L\<lparr>m_epoll := delfd (m_epoll L) fd\<rparr>
      in bindR (case m_clients L fd of
                  None \<Rightarrow> Inr L
                | Some p \<Rightarrow> if heap L p = None then Inl UseAfterFree else Inr (L\<lparr>heap := (heap L)(p := None)\<rparr>))
         (\<lambda>L. Inr (L\<lparr>m_clients := (m_clients L)(fd := None)\<rparr>)))"

fun handle_event :: "'db ext \<Rightarrow> loop_event \<Rightarrow> 'db loop \<Rightarrow> crash + 'db loop" where
  "handle_event ext (Incoming sockfd info) L = accept_client ext sockfd info L"
| "handle_event ext (Ready fd events) L = (if events AND EPOLLRDHUP \<noteq> 0 then drop_client fd L else Inr L)"

fun handle_events :: "'db ext \<Rightarrow> loop_event list \<Rightarrow> 'db loop \<Rightarrow> crash + 'db loop" where
  "handle_events ext [] L = Inr L"
| "handle_events ext (ev # evs) L = bindR (handle_event ext ev L) (handle_events ext evs)"

text \<open>The loop over the results of successive calls of \<open>epoll_wait\<close>.\<close>

fun server_run :: "'db ext \<Rightarrow> wait_result list \<Rightarrow> 'db loop \<Rightarrow> crash + 'db loop" where
  "server_run ext [] L = Inr L"
| "server_run ext (WaitError eintr # ws) L =
     (if eintr then server_run ext ws L else errExit ''epoll_wait() failed'')"
| "server_run ext (WaitEvents evs # ws) L = bindR (handle_events ext evs L) (server_run ext ws)"

section \<open>The workers\<close>

definition worker_fetch :: "nat \<Rightarrow> 'db loop \<Rightarrow> 'db loop option" where
  "worker_fetch i L = map_option (\<lambda>threads. L\<lparr>m_threadPool := threads\<rparr>) (tp_fetch i (m_threadPool L))"

text \<open>After \<open>QUIT\<close> the handler closes its socket and \<open>stub\<close> returns; the object stays.\<close>

definition close_fd :: "int \<Rightarrow> 'db loop \<Rightarrow> 'db loop" where
  "close_fd fd L = L\<lparr>m_epoll := (m_epoll L)(fd := None)\<rparr>"

definition worker_receive :: "'db ext \<Rightarrow> nat \<Rightarrow> byte list \<Rightarrow> 'db loop \<Rightarrow> crash + 'db loop \<times> byte list list" where
  "worker_receive ext i frame L =
     (case m_threads (m_threadPool L) ! i of
        Executing req \<Rightarrow>
          (case heap L (req_arg req) of
             None \<Rightarrow> Inl UseAfterFree
           | Some (c, m) \<Rightarrow>
               bindR (conn_receive ext frame (m_server L, c, m)) (\<lambda>((srv, c, m), out).
               (let L = L\<lparr>m_server := srv, heap := (heap L)(req_arg req \<mapsto> (c, m))\<rparr>
                in Inr (if m = Closed
                        then (close_fd (m_sockfd c) L)\<lparr>m_threadPool := tp_finish i (m_threadPool L)\<rparr>
                        else L, out))))
      | _ \<Rightarrow> Inr (L, []))"


section \<open>No double delete\<close>

text \<open>
  Every entry of \<open>m_clients\<close> is a live object, no two entries share one, and addresses are not used twice.
\<close>

definition loop_inv :: "'db loop \<Rightarrow> bool" where
  "loop_inv L \<longleftrightarrow> ran (m_clients L) \<subseteq> dom (heap L) \<and> inj_on (m_clients L) (dom (m_clients L)) \<and>
     (\<forall>p \<in> dom (heap L). p < next_obj L)"

lemma loop_inv_accept:
  assumes "loop_inv L" "accept_client ext sockfd info L = Inr L'"
  shows "loop_inv L'"
proof -
  obtain srv c threads where L': "L' = (insert_client sockfd (next_obj L)
      (L\<lparr>m_server := srv, heap := (heap L)(next_obj L \<mapsto> (c, AwaitLogin)), next_obj := next_obj L + 1\<rparr>))
      \<lparr>m_epoll := addfd (m_epoll L) sockfd, m_threadPool := threads\<rparr>"
    using assms(2) by (auto simp: accept_client_def insert_client_def bindR_eq_Inr_iff Let_def split: option.splits)
  have fresh: "next_obj L \<notin> ran (m_clients L)" using assms(1) by (auto simp: loop_inv_def)
  have "inj_on ((m_clients L)(sockfd \<mapsto> next_obj L)) (dom ((m_clients L)(sockfd \<mapsto> next_obj L)))"
    if "m_clients L sockfd = None"
    using assms(1) fresh that by (auto simp: loop_inv_def inj_on_def ran_def)
  then show ?thesis
    using assms(1) by (auto simp: loop_inv_def L' insert_client_def less_Suc_eq split: option.splits)
qed

lemma loop_inv_drop:
  assumes "loop_inv L"
  shows "\<exists>L'. drop_client fd L = Inr L' \<and> loop_inv L'"
proof (cases "m_clients L fd")
  case None
  then show ?thesis using assms by (simp add: drop_client_def loop_inv_def fun_upd_idem)
next
  case (Some p)
  then have p: "heap L p \<noteq> None" using assms by (auto simp: loop_inv_def ran_def)
  have "m_clients L a \<noteq> Some p" if "a \<noteq> fd" for a
    using that assms Some inj_onD [of "m_clients L" "dom (m_clients L)" a fd] by (auto simp: loop_inv_def)
  then have "ran ((m_clients L)(fd := None)) \<subseteq> dom ((heap L)(p := None))"
    using assms by (auto simp: loop_inv_def ran_def)
  moreover have "inj_on ((m_clients L)(fd := None)) (dom ((m_clients L)(fd := None)))"
    using assms by (auto simp: loop_inv_def inj_on_def)
  ultimately show ?thesis using assms Some p by (auto simp: drop_client_def loop_inv_def Let_def)
qed

lemma ClientConn_new_no_uaf: "ClientConn_new ext sockfd info srv \<noteq> Inl UseAfterFree"
  by (auto simp: ClientConn_new_def new_container_def bindR_def guardR_def Let_def split: sum.splits)

lemma handle_event_inv:
  assumes "loop_inv L"
  shows "handle_event ext ev L \<noteq> Inl UseAfterFree" "handle_event ext ev L = Inr L' \<Longrightarrow> loop_inv L'"
proof -
  show "handle_event ext ev L \<noteq> Inl UseAfterFree"
  proof (cases ev)
    case (Incoming sockfd info)
    then show ?thesis
      using ClientConn_new_no_uaf [of ext sockfd info "m_server L"]
      by (auto simp: accept_client_def bindR_def Let_def split: sum.splits option.splits)
  next
    case (Ready fd events)
    then show ?thesis using loop_inv_drop [OF assms, of fd] by auto
  qed
  show "handle_event ext ev L = Inr L' \<Longrightarrow> loop_inv L'"
  proof (cases ev)
    case (Ready fd events)
    then show "handle_event ext ev L = Inr L' \<Longrightarrow> loop_inv L'"
      using loop_inv_drop [OF assms, of fd] assms by (auto split: if_splits)
  qed (use assms loop_inv_accept in auto)
qed

lemma handle_events_inv:
  "loop_inv L \<Longrightarrow> handle_events ext evs L \<noteq> Inl UseAfterFree \<and> (\<forall>L'. handle_events ext evs L = Inr L' \<longrightarrow> loop_inv L')"
proof (induction evs arbitrary: L)
  case (Cons ev evs)
  show ?case
  proof (cases "handle_event ext ev L")
    case (Inl e)
    then show ?thesis using handle_event_inv(1) [OF Cons.prems, of ext ev] by simp
  next
    case (Inr L1)
    then show ?thesis using Cons.IH handle_event_inv(2) [OF Cons.prems Inr] by simp
  qed
qed simp

lemma worker_receive_inv:
  assumes "loop_inv L" "worker_receive ext i frame L = Inr (L', out)"
  shows "loop_inv L'"
proof (cases "m_threads (m_threadPool L) ! i")
  case (Executing req)
  then obtain c m where h: "heap L (req_arg req) = Some (c, m)"
    using assms(2) by (auto simp: worker_receive_def split: option.splits)
  then obtain srv c' m' where "m_clients L' = m_clients L" "next_obj L' = next_obj L" "heap L' = (heap L)(req_arg req \<mapsto> (c', m'))"
    using assms(2) Executing by (auto simp: worker_receive_def bindR_eq_Inr_iff Let_def close_fd_def split: if_splits)
  then show ?thesis using assms(1) h by (auto simp: loop_inv_def)
qed (use assms in \<open>auto simp: worker_receive_def\<close>)

text \<open>
  C20: the event loop never deletes a connection twice and never deletes one that is not there, whatever events arrive and
  whatever \<open>accept\<close> returns; every entry of \<open>m_clients\<close> stays a live object.
\<close>

theorem event_loop_no_double_delete:
  assumes "loop_inv L"
  shows "server_run ext ws L \<noteq> Inl UseAfterFree \<and> (\<forall>L'. server_run ext ws L = Inr L' \<longrightarrow> loop_inv L')"
  using assms
proof (induction ws arbitrary: L)
  case (Cons w ws)
  show ?case
  proof (cases w)
    case (WaitEvents evs)
    then show ?thesis
      using Cons.IH handle_events_inv [OF Cons.prems, of ext evs] by (cases "handle_events ext evs L") auto
  qed (use Cons in auto)
qed simp

definition demo_loop :: "(string \<times> string) list loop" where
  "demo_loop = \<lparr>m_listenfd = 3, m_epoll = [3 \<mapsto> EPOLLIN], m_clients = Map.empty, heap = Map.empty, next_obj = 0,
     m_threadPool = ThreadPool_new 8 20, m_server = demo_server\<rparr>"

lemma demo_loop_inv: "loop_inv demo_loop"
  by (simp add: loop_inv_def demo_loop_def)

theorem event_loop_no_double_delete_witness:
  "server_run demo_ext [WaitError True, WaitEvents [Incoming 7 (ClientInfo_new 0 ''10.0.0.1'' 5), Ready 7 EPOLLRDHUP],
     WaitEvents [Ready 7 EPOLLRDHUP]] demo_loop \<noteq> Inl UseAfterFree"
  using event_loop_no_double_delete [OF demo_loop_inv] by blast

section \<open>Accepting a client\<close>

text \<open>
  C21: a new client on a free descriptor gets a connection object that waits for the login, is registered under its socket
  and in the epoll set, and is queued for a worker behind the earlier requests; nothing else changes.
\<close>

theorem client_accepted:
  assumes "ClientConn_new ext sockfd info (m_server L) = Inr (srv, c)" "m_clients L sockfd = None" "m_epoll L sockfd = None"
    and "length (m_queue (m_requests (m_threadPool L))) < m_size (m_requests (m_threadPool L))"
  shows "\<exists>L'. handle_event ext (Incoming sockfd info) L = Inr L' \<and> m_clients L' = (m_clients L)(sockfd \<mapsto> next_obj L) \<and>
           heap L' = (heap L)(next_obj L \<mapsto> (c, AwaitLogin)) \<and> m_epoll L' = (m_epoll L)(sockfd \<mapsto> EPOLLRDHUP) \<and>
           m_queue (m_requests (m_threadPool L')) = m_queue (m_requests (m_threadPool L)) @ [\<lparr>req_func = stub, req_arg = next_obj L\<rparr>] \<and>
           m_threads (m_threadPool L') = m_threads (m_threadPool L) \<and> m_server L' = srv"
  using assms
  by (simp add: accept_client_def insert_client_def addfd_def epoll_ctl_add_def tp_append_def push_def Let_def)

section \<open>Defects of the registry\<close>

lemma worker_quits:
  assumes "m_threads (m_threadPool L) ! i = Executing req" "heap L (req_arg req) = Some (c, AwaitOrder)"
    and "receive_control_msg (x_malloc ext) frame [] 0 = Inr (order_val QUIT, fn, st)"
  shows "worker_receive ext i frame L =
    Inr ((close_fd (m_sockfd c) (L\<lparr>heap := (heap L)(req_arg req \<mapsto> (c, Closed))\<rparr>))\<lparr>m_threadPool := tp_finish i (m_threadPool L)\<rparr>,
         [send_control_message (x_malloc ext) QUITREP [] NONE])"
  using assms by (simp add: worker_receive_def conn_receive_def handle_order_def order_of_def Let_def)

lemma accept_registered:
  assumes "m_clients L fd = Some p" "ClientConn_new ext fd info (m_server L) = Inr (srv, c)"
    and "length (m_queue (m_requests (m_threadPool L))) < m_size (m_requests (m_threadPool L))"
  shows "\<exists>L1. handle_event ext (Incoming fd info) L = Inr L1 \<and> m_clients L1 = m_clients L \<and>
           heap L1 = (heap L)(next_obj L \<mapsto> (c, AwaitLogin))"
  using assms by (simp add: accept_client_def insert_client_def tp_append_def push_def Let_def)

lemma drop_registered:
  assumes "m_clients L fd = Some p" "heap L p \<noteq> None"
  shows "\<exists>L1. handle_event ext (Ready fd EPOLLRDHUP) L = Inr L1 \<and> m_clients L1 = (m_clients L)(fd := None) \<and>
           heap L1 = (heap L)(p := None)"
  using assms by (auto simp: drop_client_def EPOLLRDHUP_def Let_def)

text \<open>
  C32: a connection that ends with \<open>QUIT\<close> is never removed. The worker closes the socket, so the kernel forgets the
  descriptor, but the entry and the object stay. When the next client gets the same descriptor, \<open>insert\<close> keeps
  the old entry, and when that client goes away the old object is deleted and the new one is leaked.
\<close>

theorem reused_descriptor_leaks:
  assumes run: "m_threads (m_threadPool L) ! i = Executing req" "req_arg req = p" "heap L p = Some (c, AwaitOrder)"
    and quit: "receive_control_msg (x_malloc ext) frame [] 0 = Inr (order_val QUIT, fn, st)"
    and reg: "m_clients L (m_sockfd c) = Some p" "p < next_obj L" and fd: "fd = m_sockfd c"
    and new: "ClientConn_new ext fd info (m_server L) = Inr (srv, c2)"
    and room: "length (m_queue (m_requests (m_threadPool L))) < m_size (m_requests (m_threadPool L))"
  shows "\<exists>L0 L1 L2. worker_receive ext i frame L = Inr (L0, [send_control_message (x_malloc ext) QUITREP [] NONE]) \<and>
           m_clients L0 fd = Some p \<and> heap L0 p \<noteq> None \<and> m_epoll L0 fd = None \<and>
           handle_event ext (Incoming fd info) L0 = Inr L1 \<and> m_clients L1 fd = Some p \<and>
           handle_event ext (Ready fd EPOLLRDHUP) L1 = Inr L2 \<and> heap L2 p = None \<and>
           heap L2 (next_obj L) = Some (c2, AwaitLogin) \<and> m_clients L2 fd = None"
proof -
  define L0 where "L0 = (close_fd (m_sockfd c) (L\<lparr>heap := (heap L)(p \<mapsto> (c, Closed))\<rparr>))\<lparr>m_threadPool := tp_finish i (m_threadPool L)\<rparr>"
  have q: "worker_receive ext i frame L = Inr (L0, [send_control_message (x_malloc ext) QUITREP [] NONE])"
    using worker_quits [OF run(1) _ quit] run(2,3) by (simp add: L0_def)
  have L0: "m_clients L0 fd = Some p" "heap L0 p \<noteq> None" "m_epoll L0 fd = None" "next_obj L0 = next_obj L" "m_server L0 = m_server L"
      "m_requests (m_threadPool L0) = m_requests (m_threadPool L)"
    using reg fd by (simp_all add: L0_def close_fd_def tp_finish_def)
  obtain L1 where L1: "handle_event ext (Incoming fd info) L0 = Inr L1" "m_clients L1 = m_clients L0"
    "heap L1 = (heap L0)(next_obj L \<mapsto> (c2, AwaitLogin))"
    using accept_registered [OF L0(1)] new room L0(4-6) by fastforce
  obtain L2 where "handle_event ext (Ready fd EPOLLRDHUP) L1 = Inr L2" "m_clients L2 = (m_clients L1)(fd := None)" "heap L2 = (heap L1)(p := None)"
  proof -
    have "m_clients L1 fd = Some p" "heap L1 p \<noteq> None" using L1(2,3) L0(1,2) by auto
    from drop_registered [OF this, of ext] show ?thesis using that by blast
  qed
  then show ?thesis using q L0(1-3) L1 reg(2) by auto
qed

text \<open>
  C31: a client that disconnects while a worker serves it makes the worker use freed memory. The event loop deletes the
  object as soon as \<open>EPOLLRDHUP\<close> is reported; the next message the worker handles dereferences it.
\<close>

theorem disconnect_frees_running_connection:
  assumes "m_clients L fd = Some p" "heap L p = Some cm" "m_threads (m_threadPool L) ! i = Executing req" "req_arg req = p"
  shows "\<exists>L1. handle_event ext (Ready fd EPOLLRDHUP) L = Inr L1 \<and> m_threads (m_threadPool L1) ! i = Executing req \<and>
           worker_receive ext i frame L1 = Inl UseAfterFree"
  using assms by (simp add: drop_client_def EPOLLRDHUP_def worker_receive_def Let_def)

text \<open>
  When the queue of the pool is full the event loop itself waits, so until a worker fetches a request no event is
  handled any more, in particular no disconnection.
\<close>

theorem full_queue_blocks_event_loop:
  assumes "ClientConn_new ext sockfd info (m_server L) = Inr (srv, c)"
    and "length (m_queue (m_requests (m_threadPool L))) = m_size (m_requests (m_threadPool L))"
  shows "server_run ext (WaitEvents (Incoming sockfd info # evs) # ws) L = Inl Waits"
  using assms by (simp add: accept_client_def insert_client_def tp_append_def push_def Let_def split: option.splits)

section \<open>A connected client\<close>

text \<open>The demonstration server after it accepted a client on descriptor 7 and a worker logged it in.\<close>

definition demo_conn :: conn where
  "demo_conn = uninit_conn demo_ext 7 (ClientInfo_new 1 ''10.0.0.1'' 5)"

definition busy_loop :: "(string \<times> string) list loop" where
  "busy_loop = demo_loop\<lparr>m_epoll := [3 \<mapsto> EPOLLIN, 7 \<mapsto> EPOLLRDHUP], m_clients := [7 \<mapsto> 0], heap := [0 \<mapsto> (demo_conn, AwaitOrder)],
     next_obj := 1, m_threadPool := \<lparr>m_threads = [Executing \<lparr>req_func = stub, req_arg = 0\<rparr>], m_requests = BlockQueue_new 1, m_thread_num = 1\<rparr>\<rparr>"

lemma demo_new_conn:
  obtains srv c where "ClientConn_new demo_ext fd info demo_server = Inr (srv, c)"
  by (simp add: ClientConn_new_def new_container_def demo_ext_def demo_server_def uninit_conn_def Let_def)

theorem client_accepted_witness:
  "\<exists>L' c. handle_event demo_ext (Incoming 7 (ClientInfo_new 0 ''10.0.0.1'' 5)) demo_loop = Inr L' \<and>
     m_clients L' = [7 \<mapsto> 0] \<and> heap L' = [0 \<mapsto> (c, AwaitLogin)]"
proof -
  obtain srv c where "ClientConn_new demo_ext 7 (ClientInfo_new 0 ''10.0.0.1'' 5) (m_server demo_loop) = Inr (srv, c)"
    by (rule demo_new_conn) (simp add: demo_loop_def)
  then show ?thesis
    using client_accepted [of demo_ext 7 "ClientInfo_new 0 ''10.0.0.1'' 5" demo_loop srv c]
    by (auto simp: demo_loop_def ThreadPool_new_def BlockQueue_new_def)
qed

theorem reused_descriptor_leaks_witness:
  "\<exists>L0 L1 L2 out. worker_receive demo_ext 0 (send_control_message (\<lambda>_. 0) QUIT [] NONE) busy_loop = Inr (L0, out) \<and>
     handle_event demo_ext (Incoming 7 (ClientInfo_new 0 ''10.0.0.2'' 6)) L0 = Inr L1 \<and> m_clients L1 7 = Some 0 \<and>
     handle_event demo_ext (Ready 7 EPOLLRDHUP) L1 = Inr L2 \<and> heap L2 0 = None \<and> heap L2 1 \<noteq> None \<and> m_clients L2 7 = None"
proof -
  obtain srv c2 where new: "ClientConn_new demo_ext 7 (ClientInfo_new 0 ''10.0.0.2'' 6) (m_server busy_loop) = Inr (srv, c2)"
    by (rule demo_new_conn) (simp add: busy_loop_def demo_loop_def)
  have fd: "7 = m_sockfd demo_conn" by (simp add: demo_conn_def uninit_conn_def Let_def)
  have q: "receive_control_msg (x_malloc demo_ext) (send_control_message (\<lambda>_. 0) QUIT [] NONE) [] 0 = Inr (order_val QUIT, [], 0)"
    by (rule quit_answered) simp
  have "\<exists>L0 L1 L2. worker_receive demo_ext 0 (send_control_message (\<lambda>_. 0) QUIT [] NONE) busy_loop =
        Inr (L0, [send_control_message (x_malloc demo_ext) QUITREP [] NONE]) \<and>
      m_clients L0 7 = Some 0 \<and> heap L0 0 \<noteq> None \<and> m_epoll L0 7 = None \<and>
      handle_event demo_ext (Incoming 7 (ClientInfo_new 0 ''10.0.0.2'' 6)) L0 = Inr L1 \<and> m_clients L1 7 = Some 0 \<and>
      handle_event demo_ext (Ready 7 EPOLLRDHUP) L1 = Inr L2 \<and> heap L2 0 = None \<and>
      heap L2 (next_obj busy_loop) = Some (c2, AwaitLogin) \<and> m_clients L2 7 = None"
    by (rule reused_descriptor_leaks [where req = "\<lparr>req_func = stub, req_arg = 0\<rparr>", OF _ _ _ q _ _ fd new])
       (simp_all add: busy_loop_def demo_loop_def BlockQueue_new_def fd [symmetric])
  moreover have "next_obj busy_loop = 1" by (simp add: busy_loop_def)
  ultimately show ?thesis by (metis option.distinct(1))
qed

theorem disconnect_frees_running_connection_witness:
  "\<exists>L1. handle_event demo_ext (Ready 7 EPOLLRDHUP) busy_loop = Inr L1 \<and> worker_receive demo_ext 0 [] L1 = Inl UseAfterFree"
  using disconnect_frees_running_connection [of busy_loop 7 0 "(demo_conn, AwaitOrder)" 0 "\<lparr>req_func = stub, req_arg = 0\<rparr>" demo_ext "[]"]
  by (auto simp: busy_loop_def)

theorem full_queue_blocks_event_loop_witness:
  "server_run demo_ext [WaitEvents [Incoming 8 (ClientInfo_new 0 ''10.0.0.2'' 6), Ready 7 EPOLLRDHUP]]
     (demo_loop\<lparr>m_threadPool := ThreadPool_new 8 0\<rparr>) = Inl Waits"
proof -
  obtain srv c where "ClientConn_new demo_ext 8 (ClientInfo_new 0 ''10.0.0.2'' 6) (m_server demo_loop) = Inr (srv, c)"
    by (rule demo_new_conn) (simp add: demo_loop_def)
  then show ?thesis
    by (intro full_queue_blocks_event_loop) (simp_all add: demo_loop_def ThreadPool_new_def BlockQueue_new_def)
qed

end
