(* ===== verification/Served_Session.thy ===== *)
theory Served_Session
  imports Server_Loop Dedup_Session
begin

text \<open>
  The session of theory \<open>Dedup_System\<close> talks to the connection handler directly. Here the same client talks to the whole
  server: the event loop accepts it, the pool queues the request, a worker fetches it and serves the
  messages. \<open>peer_map\<close> is the interface: two servers whose states are related by a function and which
  answer alike are the same to the client. \<open>session_served\<close> concludes that the whole server gives exactly
  the session.
\<close>

section \<open>Servers that answer alike\<close>

definition mapR :: "('a \<Rightarrow> 'b) \<Rightarrow> 'e + 'a \<Rightarrow> 'e + 'b" where
  "mapR h m = bindR m (\<lambda>x. Inr (h x))"

lemma mapR_simps [simp]: "mapR h (Inl e) = Inl e" "mapR h (Inr x) = Inr (h x)"
  by (simp_all add: mapR_def)

lemma bindR_mapR: "bindR (mapR h m) f = bindR m (\<lambda>x. f (h x))"
  by (cases m) simp_all

lemma mapR_bindR: "mapR h (bindR m f) = bindR m (\<lambda>x. mapR h (f x))"
  by (cases m) simp_all

lemma if_results:
  "mapR h (if b then x else y) = (if b then mapR h x else mapR h y)"
  "bindR (if b then x else y) f = (if b then bindR x f else bindR y f)"
  by simp_all

definition net_map :: "('p \<Rightarrow> 'q) \<Rightarrow> 'p net \<Rightarrow> 'q net" where
  "net_map g = (\<lambda>(p, inbox). (g p, inbox))"

lemma net_map_simps [simp]: "net_map g (p, inbox) = (g p, inbox)" "snd (net_map g net) = snd net" "fst (net_map g net) = g (fst net)"
  by (simp_all add: net_map_def split_beta)

locale peer_map =
  fixes peer :: "'p peer" and peer' :: "'q peer" and g :: "'p \<Rightarrow> 'q"
  assumes answers: "peer' f (g p) = mapR (\<lambda>(p, out). (g p, out)) (peer f p)"
begin

lemma net_send_map: "net_send peer' f (net_map g net) = mapR (net_map g) (net_send peer f net)"
  by (cases net) (simp add: net_send_def answers bindR_mapR mapR_bindR split_beta)

lemma net_recv_map: "net_recv (net_map g net) = mapR (\<lambda>(f, net). (f, net_map g net)) (net_recv net)"
  by (cases net) (simp add: net_recv_def split: list.splits)

lemmas net_maps = net_send_map net_recv_map bindR_mapR mapR_bindR case_prod_beta'

lemma upload_loop_map:
  "upload_loop peer' rbs s (net_map g net) = mapR (\<lambda>(s, net). (s, net_map g net)) (upload_loop peer rbs s net)"
proof (induction rbs arbitrary: s net)
  case Nil
  obtain cl l where s: "s = (cl, l)" by (cases s)
  show ?case
    unfolding s by (subst (1 2) upload_loop.simps) (simp add: net_maps bindR_assoc if_results cong: if_cong)
next
  case (Cons rb rbs)
  obtain cl l where s: "s = (cl, l)" by (cases s)
  show ?case
    unfolding s by (subst (1 2) upload_loop.simps) (simp add: net_maps bindR_assoc Cons.IH if_results cong: if_cong)
qed

lemma upload_file_map:
  "upload_file evp malloc peer' content cl (net_map g net) =
   mapR (\<lambda>(cl, net). (cl, net_map g net)) (upload_file evp malloc peer content cl net)"
  by (simp add: upload_file_def Let_def net_maps upload_loop_map if_results cong: if_cong)

lemma download_file_map:
  "download_file malloc peer' cl (net_map g net) =
   mapR (\<lambda>(cl, written, net). (cl, written, net_map g net)) (download_file malloc peer cl net)"
  by (simp add: download_file_def Let_def net_maps if_results cong: if_cong)

lemma client_run_map:
  "client_run evp malloc peer' content cl (net_map g net) =
   mapR (\<lambda>(cl, written, net). (cl, written, net_map g net)) (client_run evp malloc peer content cl net)"
  by (simp add: client_run_def net_maps upload_file_map download_file_map bindR_assoc if_results cong: if_cong)

end


section \<open>The whole server serves the session\<close>

text \<open>
  The server's state while a worker executes the connection at address \<open>p\<close>, from the state of the connection
  handler. The workers before and behind it are \<open>pre\<close> and \<open>post\<close>, so it is worker number \<open>length pre\<close>.
\<close>

definition serving ::
    "(stub_fn, nat) Request worker list \<Rightarrow> (stub_fn, nat) Request worker list \<Rightarrow> nat \<Rightarrow> 'db loop \<Rightarrow>
     'db server \<times> conn \<times> mode \<Rightarrow> 'db loop" where
  "serving pre post p L = (\<lambda>(srv, c, m).
     (let w = (if m = Closed then Fetching else Executing \<lparr>req_func = stub, req_arg = p\<rparr>);
          L = L\<lparr>m_server := srv, heap := (heap L)(p \<mapsto> (c, m)),
                m_threadPool := (m_threadPool L)\<lparr>m_threads := pre @ w # post\<rparr>\<rparr>
      in if m = Closed then close_fd (m_sockfd c) L else L))"

lemma worker_answers:
  "worker_receive ext (length pre) f (serving pre post p L s) =
   mapR (\<lambda>(s, out). (serving pre post p L s, out)) (conn_receive ext f s)"
proof -
  obtain srv c m where s: "s = (srv, c, m)" by (cases s)
  show ?thesis
  proof (cases "m = Closed")
    case True
    then show ?thesis by (simp add: s serving_def worker_receive_def close_fd_def conn_receive_def Let_def)
  next
    case False
    then show ?thesis
      by (cases "conn_receive ext f s") (auto simp: s serving_def worker_receive_def close_fd_def tp_finish_def Let_def)
  qed
qed

interpretation served: peer_map "conn_receive ext" "worker_receive ext (length pre)" "serving pre post p L"
  for ext :: "'db ext" and pre post p and L :: "'db loop"
  by unfold_locales (rule worker_answers)

lemma session_in_pool:
  assumes conn: "ClientConn_new ext sockfd info (m_server L) = Inr (srv, c)"
    and empty: "m_queue (m_requests (m_threadPool L)) = []" "0 < m_size (m_requests (m_threadPool L))"
    and workers: "m_threads (m_threadPool L) = pre @ Fetching # post"
  shows "\<exists>L1 L2. handle_event ext (Incoming sockfd info) L = Inr L1 \<and> worker_fetch (length pre) L1 = Some L2 \<and>
           next_obj L2 = next_obj L + 1 \<and> heap L2 = (heap L)(next_obj L \<mapsto> (c, AwaitLogin)) \<and>
           m_size (m_requests (m_threadPool L2)) = m_size (m_requests (m_threadPool L)) \<and>
           m_done (m_requests (m_threadPool L2)) = m_done (m_requests (m_threadPool L)) \<and>
           m_queue (m_requests (m_threadPool L2)) = [] \<and> m_threads (m_threadPool L1) = m_threads (m_threadPool L) \<and>
           m_threads (m_threadPool L2) = pre @ Executing \<lparr>req_func = stub, req_arg = next_obj L\<rparr> # post \<and>
           (bq_inv (m_requests (m_threadPool L)) \<longrightarrow> bq_inv (m_requests (m_threadPool L2))) \<and>
           client_run (x_evp ext) malloc (worker_receive ext (length pre)) content cl (L2, []) =
             mapR (\<lambda>(cl, written, net). (cl, written, net_map (serving pre post (next_obj L) L2) net))
               (session ext malloc sockfd info content cl (m_server L))"
proof -
  obtain L1 where L1: "handle_event ext (Incoming sockfd info) L = Inr L1" "m_server L1 = srv"
    "heap L1 = (heap L)(next_obj L \<mapsto> (c, AwaitLogin))" "m_threads (m_threadPool L1) = pre @ Fetching # post"
    "m_requests (m_threadPool L1) = (m_requests (m_threadPool L))\<lparr>m_queue := [\<lparr>req_func = stub, req_arg = next_obj L\<rparr>], m_isEmpty := False\<rparr>"
    "next_obj L1 = next_obj L + 1"
    using conn empty workers
    by (cases "m_clients L sockfd") (simp_all add: accept_client_def insert_client_def tp_append_def push_def Let_def)
  define q where "q = (m_requests (m_threadPool L))\<lparr>m_queue := [], m_isEmpty := True\<rparr>"
  have q: "pop (m_requests (m_threadPool L1)) = Popped \<lparr>req_func = stub, req_arg = next_obj L\<rparr> q"
    using L1(5) by (simp add: pop_def q_def)
  define L2 where "L2 = L1\<lparr>m_threadPool := (m_threadPool L1)\<lparr>m_requests := q, m_threads := pre @ Executing \<lparr>req_func = stub, req_arg = next_obj L\<rparr> # post\<rparr>\<rparr>"
  have fetch: "worker_fetch (length pre) L1 = Some L2"
    using L1(4) by (simp add: worker_fetch_def tp_fetch_def q L2_def)
  have "serving pre post (next_obj L) L2 (srv, c, AwaitLogin) = L2"
    using L1(2,3) by (simp add: serving_def L2_def fun_upd_idem Let_def)
  then have "client_run (x_evp ext) malloc (worker_receive ext (length pre)) content cl (L2, []) =
      mapR (\<lambda>(cl, written, net). (cl, written, net_map (serving pre post (next_obj L) L2) net))
        (client_run (x_evp ext) malloc (conn_receive ext) content cl ((srv, c, AwaitLogin), []))"
    using served.client_run_map [of "x_evp ext" malloc ext pre content cl post "next_obj L" L2 "((srv, c, AwaitLogin), [])"]
    by simp
  moreover have "next_obj L2 = next_obj L + 1" "heap L2 = (heap L)(next_obj L \<mapsto> (c, AwaitLogin))" "m_requests (m_threadPool L2) = q"
    "m_threads (m_threadPool L1) = m_threads (m_threadPool L)"
    "m_threads (m_threadPool L2) = pre @ Executing \<lparr>req_func = stub, req_arg = next_obj L\<rparr> # post"
    using L1(3,4,6) workers by (simp_all add: L2_def)
  moreover have "bq_inv (m_requests (m_threadPool L)) \<longrightarrow> bq_inv q" by (simp add: bq_inv_def q_def)
  ultimately show ?thesis using L1(1) fetch conn by (auto simp: session_def q_def)
qed

text \<open>
  C10: the whole server serves exactly the session. If the event loop accepts a client while the queue is empty and a worker
  fetches the request, then the client's run against that worker returns what \<open>session\<close> returns, and the
  server's state afterwards is the session's state put into place.
\<close>

theorem session_served:
  assumes conn: "ClientConn_new ext sockfd info (m_server L) = Inr (srv, c)"
    and empty: "m_queue (m_requests (m_threadPool L)) = []" "0 < m_size (m_requests (m_threadPool L))"
    and workers: "m_threads (m_threadPool L) = pre @ Fetching # post"
  shows "\<exists>L1 L2. handle_event ext (Incoming sockfd info) L = Inr L1 \<and> worker_fetch (length pre) L1 = Some L2 \<and>
           client_run (x_evp ext) malloc (worker_receive ext (length pre)) content cl (L2, []) =
             mapR (\<lambda>(cl, written, net). (cl, written, net_map (serving pre post (next_obj L) L2) net))
               (session ext malloc sockfd info content cl (m_server L))"
  using session_in_pool [OF assms] by blast

theorem session_served_witness:
  "\<exists>L1 L2. handle_event demo_ext (Incoming 7 (ClientInfo_new 0 ''10.0.0.1'' 5)) demo_loop = Inr L1 \<and> worker_fetch 0 L1 = Some L2 \<and>
     client_run (x_evp demo_ext) (\<lambda>_. 0) (worker_receive demo_ext 0) (Some [1, 2, 3])
         (DedupClient_new (\<lambda>_. 0) 1 ''127.0.0.1'' 12345 (CHR ''u'') ''a'') (L2, []) =
       mapR (\<lambda>(cl, written, net). (cl, written, net_map (serving [] (replicate 7 Fetching) 0 L2) net))
         (session demo_ext (\<lambda>_. 0) 7 (ClientInfo_new 0 ''10.0.0.1'' 5) (Some [1, 2, 3])
            (DedupClient_new (\<lambda>_. 0) 1 ''127.0.0.1'' 12345 (CHR ''u'') ''a'') demo_server)"
proof -
  obtain srv c where new: "ClientConn_new demo_ext 7 (ClientInfo_new 0 ''10.0.0.1'' 5) (m_server demo_loop) = Inr (srv, c)"
    by (rule demo_new_conn) (simp add: demo_loop_def)
  have "m_threads (m_threadPool demo_loop) = [] @ Fetching # replicate 7 Fetching"
    by (simp add: demo_loop_def ThreadPool_new_def start_threads_eq flip: replicate_Suc)
  moreover have "m_queue (m_requests (m_threadPool demo_loop)) = []" "0 < m_size (m_requests (m_threadPool demo_loop))"
    "m_server demo_loop = demo_server" "next_obj demo_loop = 0"
    by (simp_all add: demo_loop_def ThreadPool_new_def BlockQueue_new_def)
  ultimately show ?thesis using session_served [OF new] by fastforce
qed

end
