(* ===== verification/Argparse_Literals.thy ===== *)
theory Argparse_Literals
  imports Dedup_Prelude
begin

text \<open>
  The texts \<^verbatim>\<open>include/argparse.hpp\<close> reads and prints: what looks like an option, numbers for \<open>scan\<close>, and the printed form of a
  default value. Exceptions and \<open>std::exit\<close> are values of \<open>arg_error\<close>.

  \<open>decimal_literal_grammar\<close> shows that the jumps of \<open>is_decimal_literal\<close> accept the language of the grammar in its comment.
  Integers are read as \<open>std::from_chars\<close> does; \<open>strtof\<close>, \<open>strtod\<close> and \<open>strtold\<close> are the parameter \<open>strtod\<close>.
\<close>

section \<open>Results\<close>

datatype arg_error =
    RuntimeError string      \<comment> \<open>\<open>std::runtime_error\<close>\<close>
  | RangeError string        \<comment> \<open>\<open>std::range_error\<close>, a \<open>runtime_error\<close>\<close>
  | LogicError string        \<comment> \<open>\<open>std::logic_error\<close>\<close>
  | InvalidArgument string   \<comment> \<open>\<open>std::invalid_argument\<close>, a \<open>logic_error\<close>\<close>
  | OutOfRange string        \<comment> \<open>\<open>std::out_of_range\<close>, a \<open>logic_error\<close>\<close>
  | BadAnyCast
  | ExitZero string          \<comment> \<open>\<open>std::exit(0)\<close> after printing the text\<close>
  | Undefined                \<comment> \<open>undefined behaviour\<close>

datatype integer_type = SChar | SShort | SInt | SLong | SLongLong | UChar | UShort | UInt | ULong | ULongLong

datatype float_type = Float | Double | LongDouble

datatype float_value = Finite int int | Infinite bool | NotANumber   \<comment> \<open>\<open>Finite m e\<close> is \<open>m * 2 ^ e\<close>\<close>

datatype cpp_type = TString | TBool | TInteger integer_type | TFloating float_type | TContainer cpp_type

text \<open>What a \<open>std::any\<close> holds; a container has the type of its elements.\<close>

datatype any_value =
    AString string
  | ABool bool
  | AInteger integer_type int
  | AFloating float_type float_value
  | AContainer cpp_type "any_value list"

fun type_of :: "any_value \<Rightarrow> cpp_type" where
  "type_of (AString _) = TString"
| "type_of (ABool _) = TBool"
| "type_of (AInteger T _) = TInteger T"
| "type_of (AFloating T _) = TFloating T"
| "type_of (AContainer T _) = TContainer T"

text \<open>\<open>std::any_cast\<close>; \<open>None\<close> is an empty \<open>std::any\<close>.\<close>

definition any_cast :: "cpp_type \<Rightarrow> any_value option \<Rightarrow> arg_error + any_value" where
  "any_cast T v = (case v of Some x \<Rightarrow> if type_of x = T then Inr x else Inl BadAnyCast | None \<Rightarrow> Inl BadAnyCast)"

section \<open>What looks like an option\<close>

definition is_digit :: "char \<Rightarrow> bool" where
  "is_digit c \<longleftrightarrow> c \<in> set ''0123456789''"

definition consume_digits :: "string \<Rightarrow> string" where
  "consume_digits s = dropWhile is_digit s"

text \<open>\<open>lookahead\<close>: \<open>None\<close> is the end of the text.\<close>

fun lookahead :: "string \<Rightarrow> char option" where
  "lookahead [] = None"
| "lookahead (c # _) = Some c"

definition at_digit :: "string \<Rightarrow> bool" where
  "at_digit s = (case lookahead s of None \<Rightarrow> False | Some c \<Rightarrow> is_digit c)"

text \<open>The labels of \<open>is_decimal_literal\<close>, from the last to the first.\<close>

definition post_e :: "string \<Rightarrow> bool" where
  "post_e s =
     (let s = (if lookahead s = Some (CHR ''-'') \<or> lookahead s = Some (CHR ''+'') then drop 1 s else s)
      in at_digit s \<and> consume_digits s = [])"

definition exponent_part_opt :: "string \<Rightarrow> bool" where
  "exponent_part_opt s =
     (case lookahead s of
        None \<Rightarrow> True
      | Some c \<Rightarrow> (c = CHR ''e'' \<or> c = CHR ''E'') \<and> post_e (drop 1 s))"

definition post_decimal_point :: "string \<Rightarrow> bool" where
  "post_decimal_point s \<longleftrightarrow> at_digit s \<and> exponent_part_opt (consume_digits s)"

definition integer_part_consumed :: "string \<Rightarrow> bool" where
  "integer_part_consumed s =
     (case lookahead s of
        None \<Rightarrow> False
      | Some c \<Rightarrow>
          if c = CHR ''.'' then
            (let s = drop 1 s in if at_digit s then post_decimal_point s else exponent_part_opt s)
          else (c = CHR ''e'' \<or> c = CHR ''E'') \<and> post_e (drop 1 s))"

definition is_decimal_literal :: "string \<Rightarrow> bool" where
  "is_decimal_literal s =
     (case lookahead s of
        None \<Rightarrow> False
      | Some c \<Rightarrow>
          if c = CHR ''0'' then
            (let s = drop 1 s in if s = [] then True else integer_part_consumed (consume_digits s))
          else if is_digit c then
            (let s = consume_digits s in if s = [] then True else integer_part_consumed s)
          else if c = CHR ''.'' then post_decimal_point (drop 1 s)
          else False)"

definition is_positional :: "string \<Rightarrow> string \<Rightarrow> bool" where
  "is_positional name prefix_chars =
     (case lookahead name of
        None \<Rightarrow> True
      | Some c \<Rightarrow>
          if c \<in> set prefix_chars then
            (let name = drop 1 name in if name = [] then True else is_decimal_literal name)
          else True)"

definition is_optional :: "string \<Rightarrow> string \<Rightarrow> bool" where
  "is_optional name prefix_chars = (\<not> is_positional name prefix_chars)"

section \<open>The grammar of decimal literals\<close>

inductive digit_sequence :: "string \<Rightarrow> bool" where
  "is_digit c \<Longrightarrow> digit_sequence [c]"
| "is_digit c \<Longrightarrow> digit_sequence s \<Longrightarrow> digit_sequence (c # s)"

inductive exponent_part :: "string \<Rightarrow> bool" where
  "e \<in> {CHR ''e'', CHR ''E''} \<Longrightarrow> digit_sequence d \<Longrightarrow> exponent_part (e # d)"
| "e \<in> {CHR ''e'', CHR ''E''} \<Longrightarrow> sign \<in> {CHR ''+'', CHR ''-''} \<Longrightarrow> digit_sequence d \<Longrightarrow> exponent_part (e # sign # d)"

inductive fractional_part :: "string \<Rightarrow> bool" where
  "digit_sequence d \<Longrightarrow> fractional_part (CHR ''.'' # d)"
| "digit_sequence d \<Longrightarrow> exponent_part e \<Longrightarrow> fractional_part (CHR ''.'' # d @ e)"

inductive decimal_literal :: "string \<Rightarrow> bool" where
  zero: "decimal_literal ''0''"
| integer: "is_digit c \<Longrightarrow> c \<noteq> CHR ''0'' \<Longrightarrow> d = [] \<or> digit_sequence d \<Longrightarrow> decimal_literal (c # d)"
| fraction: "fractional_part f \<Longrightarrow> decimal_literal f"
| mixed: "digit_sequence i \<Longrightarrow> fractional_part f \<Longrightarrow> decimal_literal (i @ f)"
| point: "digit_sequence i \<Longrightarrow> decimal_literal (i @ ''.'')"
| point_exponent: "digit_sequence i \<Longrightarrow> exponent_part e \<Longrightarrow> decimal_literal (i @ CHR ''.'' # e)"
| exponent: "digit_sequence i \<Longrightarrow> exponent_part e \<Longrightarrow> decimal_literal (i @ e)"

lemma digit_sequence_iff: "digit_sequence s \<longleftrightarrow> s \<noteq> [] \<and> (\<forall>c \<in> set s. is_digit c)"
proof
  show "digit_sequence s \<Longrightarrow> s \<noteq> [] \<and> (\<forall>c \<in> set s. is_digit c)" by (induction rule: digit_sequence.induct) auto
  show "s \<noteq> [] \<and> (\<forall>c \<in> set s. is_digit c) \<Longrightarrow> digit_sequence s"
  proof (induction s)
    case (Cons c s)
    show ?case
    proof (cases "s = []")
      case True
      then show ?thesis using Cons.prems by (auto intro: digit_sequence.intros(1))
    next
      case False
      then show ?thesis using Cons by (auto intro: digit_sequence.intros(2))
    qed
  qed simp
qed

lemma not_digit [simp]:
  "\<not> is_digit (CHR ''.'')" "\<not> is_digit (CHR ''e'')" "\<not> is_digit (CHR ''E'')" "\<not> is_digit (CHR ''+'')" "\<not> is_digit (CHR ''-'')"
  by (simp_all add: is_digit_def)

lemma lookahead_Some: "lookahead s = Some c \<longleftrightarrow> (\<exists>t. s = c # t)"
  by (cases s) auto

lemma lookahead_None: "lookahead s = None \<longleftrightarrow> s = []"
  by (cases s) auto

lemma all_digits: "at_digit s \<and> consume_digits s = [] \<longleftrightarrow> digit_sequence s"
  by (cases s) (auto simp: at_digit_def consume_digits_def digit_sequence_iff dropWhile_eq_Nil_conv split: if_splits)

lemma digits_then: "digit_sequence d \<Longrightarrow> \<not> at_digit t \<Longrightarrow> at_digit (d @ t) \<and> consume_digits (d @ t) = t"
  by (cases d; cases t) (auto simp: digit_sequence_iff consume_digits_def at_digit_def dropWhile_append3)

lemma digits_split: "at_digit s \<Longrightarrow> \<exists>d. digit_sequence d \<and> s = d @ consume_digits s \<and> \<not> at_digit (consume_digits s)"
proof -
  assume "at_digit s"
  then obtain c t where s: "s = c # t" "is_digit c" by (cases s) (auto simp: at_digit_def)
  have "digit_sequence (takeWhile is_digit s)" using s by (auto simp: digit_sequence_iff dest: set_takeWhileD)
  moreover have "s = takeWhile is_digit s @ consume_digits s" by (simp add: consume_digits_def)
  moreover have "\<not> at_digit (consume_digits s)"
    unfolding consume_digits_def by (induction s) (auto simp: at_digit_def)
  ultimately show ?thesis by blast
qed

lemma exponent_part_iff: "exponent_part s \<longleftrightarrow> (\<exists>c t. s = c # t \<and> (c = CHR ''e'' \<or> c = CHR ''E'') \<and> post_e t)"
proof -
  have sign: "post_e t \<longleftrightarrow> digit_sequence t \<or> (\<exists>g d. t = g # d \<and> (g = CHR ''+'' \<or> g = CHR ''-'') \<and> digit_sequence d)" for t
    by (cases t) (auto simp: post_e_def all_digits digit_sequence_iff)
  show ?thesis
  proof
    show "exponent_part s \<Longrightarrow> \<exists>c t. s = c # t \<and> (c = CHR ''e'' \<or> c = CHR ''E'') \<and> post_e t"
      unfolding sign by (erule exponent_part.cases) auto
    show "\<exists>c t. s = c # t \<and> (c = CHR ''e'' \<or> c = CHR ''E'') \<and> post_e t \<Longrightarrow> exponent_part s"
      unfolding sign by (auto intro: exponent_part.intros)
  qed
qed

lemma exponent_part_opt_iff: "exponent_part_opt s \<longleftrightarrow> s = [] \<or> exponent_part s"
  by (cases s) (auto simp: exponent_part_opt_def exponent_part_iff)

lemma exponent_not_digit: "exponent_part s \<Longrightarrow> \<not> at_digit s"
  by (auto simp: exponent_part_iff at_digit_def)

lemma post_decimal_point_iff:
  "post_decimal_point s \<longleftrightarrow> (\<exists>d e. s = d @ e \<and> digit_sequence d \<and> (e = [] \<or> exponent_part e))"
proof
  show "post_decimal_point s \<Longrightarrow> \<exists>d e. s = d @ e \<and> digit_sequence d \<and> (e = [] \<or> exponent_part e)"
    using digits_split [of s] by (auto simp: post_decimal_point_def exponent_part_opt_iff)
  assume "\<exists>d e. s = d @ e \<and> digit_sequence d \<and> (e = [] \<or> exponent_part e)"
  then obtain d e where "s = d @ e" "digit_sequence d" "e = [] \<or> exponent_part e" by blast
  moreover have "\<not> at_digit e" using calculation(3) exponent_not_digit by (auto simp: at_digit_def)
  ultimately show "post_decimal_point s" using digits_then by (simp add: post_decimal_point_def exponent_part_opt_iff)
qed

lemma fractional_part_iff: "fractional_part s \<longleftrightarrow> (\<exists>t. s = CHR ''.'' # t \<and> post_decimal_point t)"
  unfolding fractional_part.simps post_decimal_point_iff by (metis append_Nil2)

lemma integer_part_consumed_iff:
  "integer_part_consumed s \<longleftrightarrow>
     fractional_part s \<or> s = ''.'' \<or> (\<exists>e. s = CHR ''.'' # e \<and> exponent_part e) \<or> exponent_part s"
proof (cases s)
  case (Cons c t)
  have "post_decimal_point t \<Longrightarrow> at_digit t" by (simp add: post_decimal_point_def)
  then show ?thesis
    using exponent_not_digit [of t]
    by (auto simp: Cons integer_part_consumed_def fractional_part_iff exponent_part_iff [of "c # t"] exponent_part_opt_iff at_digit_def)
qed (simp add: integer_part_consumed_def fractional_part_iff exponent_part_iff)

lemma integer_part_not_digit: "integer_part_consumed s \<Longrightarrow> \<not> at_digit s"
  by (auto simp: integer_part_consumed_iff fractional_part_iff exponent_part_iff at_digit_def)

lemma decimal_literal_iff:
  "decimal_literal s \<longleftrightarrow>
     s = ''0'' \<or> (digit_sequence s \<and> lookahead s \<noteq> Some (CHR ''0'')) \<or> fractional_part s \<or>
     (\<exists>i t. s = i @ t \<and> digit_sequence i \<and> integer_part_consumed t)" (is "_ \<longleftrightarrow> ?r s")
proof
  show "decimal_literal s \<Longrightarrow> ?r s"
    by (induction rule: decimal_literal.induct) (auto simp: integer_part_consumed_iff digit_sequence_iff)
  have "digit_sequence s \<and> lookahead s \<noteq> Some (CHR ''0'') \<Longrightarrow> decimal_literal s"
    by (cases s) (auto simp: digit_sequence_iff intro!: decimal_literal.integer)
  moreover have "digit_sequence i \<and> integer_part_consumed t \<Longrightarrow> decimal_literal (i @ t)" for i t
    by (auto simp: integer_part_consumed_iff intro: decimal_literal.intros)
  ultimately show "?r s \<Longrightarrow> decimal_literal s" by (auto intro: decimal_literal.zero decimal_literal.fraction)
qed

text \<open>The number after the digits, whatever they are: the rest is what follows them.\<close>

lemma number_then:
  "at_digit s \<Longrightarrow> (\<exists>i t. s = i @ t \<and> digit_sequence i \<and> integer_part_consumed t) \<longleftrightarrow> integer_part_consumed (consume_digits s)"
  using digits_split [of s] digits_then integer_part_not_digit by metis

text \<open>
  C27: the jumps of \<open>is_decimal_literal\<close>, which decide whether a text that starts with a minus is a number or an option, accept
  exactly the words of the grammar of decimal literals: zero, an integer without a leading zero, or digits, a point and an exponent
  with at least one digit before or after the point, where a lone integer needs its point or exponent to have leading zeros.
\<close>

theorem decimal_literal_grammar: "is_decimal_literal s \<longleftrightarrow> decimal_literal s"
proof (cases s)
  case (Cons c t)
  consider (zero) "c = CHR ''0''" | (digit) "is_digit c" "c \<noteq> CHR ''0''" | (other) "\<not> is_digit c" by blast
  then show ?thesis
  proof cases
    case zero
    then have d: "is_digit c" "at_digit s" "consume_digits s = consume_digits t" by (auto simp: Cons is_digit_def at_digit_def consume_digits_def)
    have "\<not> integer_part_consumed []" by (simp add: integer_part_consumed_def)
    then show ?thesis
      using d(3) number_then [OF d(2)]
      by (auto simp: decimal_literal_iff is_decimal_literal_def Cons zero fractional_part_iff consume_digits_def)
  next
    case digit
    then have d: "at_digit s" by (simp add: Cons at_digit_def)
    have "c \<noteq> CHR ''.''" using digit(1) by auto
    then show ?thesis
      using number_then [OF d] all_digits [of s] d digit
      by (auto simp: decimal_literal_iff is_decimal_literal_def Cons fractional_part_iff)
  next
    case other
    have "c \<noteq> CHR ''0''" using other by (auto simp: is_digit_def)
    moreover have "\<not> (\<exists>i t. s = i @ t \<and> digit_sequence i \<and> integer_part_consumed t)" "\<not> digit_sequence s"
      using other by (auto simp: Cons digit_sequence_iff append_eq_Cons_conv Cons_eq_append_conv)
    ultimately show ?thesis using other by (auto simp: decimal_literal_iff is_decimal_literal_def Cons fractional_part_iff)
  qed
qed (auto simp: is_decimal_literal_def decimal_literal_iff digit_sequence_iff fractional_part_iff integer_part_consumed_def)

section \<open>Printed values\<close>

text \<open>\<open>details::repr\<close>, by the kinds of values it distinguishes; \<open>RStream\<close> has the text of the output operator.\<close>

datatype repr_value = RBool bool | RText string | RContainer "repr_value list" | RStream string | ROther

definition repr_max_container_size :: nat where
  "repr_max_container_size = 5"

fun repr :: "repr_value \<Rightarrow> string" where
  "repr (RBool b) = (if b then ''true'' else ''false'')"
| "repr (RText s) = CHR 0x22 # s @ [CHR 0x22]"
| "repr (RContainer vs) =
     (let size = length vs; texts = map repr vs
      in ''{'' @
         (if 1 < size
          then hd texts @ concat (map (\<lambda>t. '' '' @ t) (take (min size repr_max_container_size - 2) (tl texts))) @
               (if size \<le> repr_max_container_size then '' '' else ''...'')
          else []) @
         (if 0 < size then last texts else []) @ ''}'')"
| "repr (RStream s) = s"
| "repr ROther = ''<not representable>''"

fun join :: "string list \<Rightarrow> string \<Rightarrow> string" where
  "join [] separator = []"
| "join (s # ss) separator = s @ concat (map (\<lambda>t. separator @ t) ss)"

section \<open>Integers\<close>

definition standard_signed_integer :: "integer_type \<Rightarrow> bool" where
  "standard_signed_integer T \<longleftrightarrow> T \<in> {SChar, SShort, SInt, SLong, SLongLong}"

definition standard_unsigned_integer :: "integer_type \<Rightarrow> bool" where
  "standard_unsigned_integer T \<longleftrightarrow> T \<in> {UChar, UShort, UInt, ULong, ULongLong}"

fun int_bits :: "integer_type \<Rightarrow> nat" where
  "int_bits SChar = 8" | "int_bits UChar = 8" | "int_bits SShort = 16" | "int_bits UShort = 16" | "int_bits SInt = 32" | "int_bits UInt = 32"
| "int_bits SLong = 64" | "int_bits ULong = 64" | "int_bits SLongLong = 64" | "int_bits ULongLong = 64"

definition in_range :: "integer_type \<Rightarrow> int \<Rightarrow> bool" where
  "in_range T v \<longleftrightarrow>
     (if standard_signed_integer T then - (2 ^ (int_bits T - 1)) \<le> v \<and> v < 2 ^ (int_bits T - 1) else 0 \<le> v \<and> v < 2 ^ int_bits T)"

definition digit_value :: "char \<Rightarrow> nat option" where
  "digit_value c =
     (let n = of_char c
      in if 48 \<le> n \<and> n \<le> 57 then Some (n - 48) else if 97 \<le> n \<and> n \<le> 122 then Some (n - 87)
         else if 65 \<le> n \<and> n \<le> 90 then Some (n - 55) else None)"

definition digit_in :: "nat \<Rightarrow> char \<Rightarrow> bool" where
  "digit_in base c = (case digit_value c of Some d \<Rightarrow> d < base | None \<Rightarrow> False)"

definition digits_value :: "nat \<Rightarrow> string \<Rightarrow> nat" where
  "digits_value base s = foldl (\<lambda>a c. base * a + the (digit_value c)) 0 s"

text \<open>
  \<open>std::from_chars\<close>: a minus for signed types only, then the longest sequence of digits, with no white space, plus sign or prefix.
\<close>

datatype from_chars_result = NoMatch | NotRepresentable | Matched int string

definition from_chars :: "integer_type \<Rightarrow> nat \<Rightarrow> string \<Rightarrow> from_chars_result" where
  "from_chars T base s =
     (let neg = (standard_signed_integer T \<and> lookahead s = Some (CHR ''-''));
          s = (if neg then drop 1 s else s);
          ds = takeWhile (digit_in base) s;
          v = (if neg then - int (digits_value base ds) else int (digits_value base ds))
      in if ds = [] then NoMatch
         else if in_range T v then Matched v (dropWhile (digit_in base) s)
         else NotRepresentable)"

definition do_from_chars :: "integer_type \<Rightarrow> nat \<Rightarrow> string \<Rightarrow> arg_error + any_value" where
  "do_from_chars T base s =
     (case from_chars T base s of
        Matched x rest \<Rightarrow>
          if rest = [] then Inr (AInteger T x) else Inl (InvalidArgument ''pattern does not match to the end'')
      | NoMatch \<Rightarrow> Inl (InvalidArgument ''pattern not found'')
      | NotRepresentable \<Rightarrow> Inl (RangeError ''not representable''))"

definition starts_with :: "string \<Rightarrow> string \<Rightarrow> bool" where
  "starts_with prefix s \<longleftrightarrow> take (length prefix) s = prefix"

definition consume_hex_prefix :: "string \<Rightarrow> bool \<times> string" where
  "consume_hex_prefix s = (if starts_with ''0x'' s \<or> starts_with ''0X'' s then (True, drop 2 s) else (False, s))"

text \<open>\<open>parse_number\<close> for integers: with a radix, with radix 16 (prefix required), and with the radix taken from the text.\<close>

definition parse_number :: "integer_type \<Rightarrow> nat \<Rightarrow> string \<Rightarrow> arg_error + any_value" where
  "parse_number T radix s = do_from_chars T radix s"

definition parse_number_16 :: "integer_type \<Rightarrow> string \<Rightarrow> arg_error + any_value" where
  "parse_number_16 T s =
     (let (ok, rest) = consume_hex_prefix s
      in if ok then do_from_chars T 16 rest else Inl (InvalidArgument ''pattern not found''))"

definition parse_number_any :: "integer_type \<Rightarrow> string \<Rightarrow> arg_error + any_value" where
  "parse_number_any T s =
     (let (ok, rest) = consume_hex_prefix s
      in if ok then do_from_chars T 16 rest
         else if starts_with ''0'' s then do_from_chars T 8 rest
         else do_from_chars T 10 rest)"

section \<open>Floating point numbers\<close>

text \<open>
  What \<open>strtof\<close>, \<open>strtod\<close> or \<open>strtold\<close> gives for a text: the value, how many characters it has read, and whether \<open>errno\<close> is \<open>ERANGE\<close>.
\<close>

type_synonym strtod = "float_type \<Rightarrow> string \<Rightarrow> float_value \<times> nat \<times> bool"

definition is_space :: "char \<Rightarrow> bool" where
  "is_space c \<longleftrightarrow> (let n = of_char c :: nat in n = 32 \<or> 9 \<le> n \<and> n \<le> 13)"

text \<open>Element 0 of an empty \<open>std::string\<close> is the terminating NUL.\<close>

definition do_strtod :: "strtod \<Rightarrow> float_type \<Rightarrow> string \<Rightarrow> arg_error + any_value" where
  "do_strtod strtod T s =
     (let c = (case s of [] \<Rightarrow> CHR 0x00 | c # _ \<Rightarrow> c)
      in if is_space c \<or> c = CHR ''+'' then Inl (InvalidArgument ''pattern not found'')
         else (let (x, n, erange) = strtod T s
               in if erange then Inl (RangeError ''not representable'')
                  else if n = length s then Inr (AFloating T x)
                  else Inl (InvalidArgument ''pattern does not match to the end'')))"

datatype chars_format = Scientific | Fixed | Hex | General

definition has_exponent_char :: "string \<Rightarrow> bool" where
  "has_exponent_char s \<longleftrightarrow> CHR ''e'' \<in> set s \<or> CHR ''E'' \<in> set s"

definition parse_float :: "strtod \<Rightarrow> float_type \<Rightarrow> chars_format \<Rightarrow> string \<Rightarrow> arg_error + any_value" where
  "parse_float strtod T format s =
     (let hex = fst (consume_hex_prefix s)
      in case format of
           General \<Rightarrow>
             if hex then Inl (InvalidArgument ''chars_format::general does not parse hexfloat'') else do_strtod strtod T s
         | Hex \<Rightarrow>
             if \<not> hex then Inl (InvalidArgument ''chars_format::hex parses hexfloat'') else do_strtod strtod T s
         | Scientific \<Rightarrow>
             if hex then Inl (InvalidArgument ''chars_format::scientific does not parse hexfloat'')
             else if \<not> has_exponent_char s then Inl (InvalidArgument ''chars_format::scientific requires exponent part'')
             else do_strtod strtod T s
         | Fixed \<Rightarrow>
             if hex then Inl (InvalidArgument ''chars_format::fixed does not parse hexfloat'')
             else if has_exponent_char s then Inl (InvalidArgument ''chars_format::fixed does not parse exponent part'')
             else do_strtod strtod T s)"

text \<open>\<open>scan<Shape, T>\<close> chooses the function; \<open>None\<close> is the failing \<open>static_assert\<close>.\<close>

datatype arithmetic_type = Integer integer_type | Floating float_type | OtherArithmetic

definition scan_function :: "strtod \<Rightarrow> char \<Rightarrow> arithmetic_type \<Rightarrow> (string \<Rightarrow> arg_error + any_value) option" where
  "scan_function strtod shape T =
     (case T of
        Integer I \<Rightarrow>
          if shape = CHR ''d'' then Some (parse_number I 10)
          else if shape = CHR ''i'' then Some (parse_number_any I)
          else if shape = CHR ''u'' \<and> standard_unsigned_integer I then Some (parse_number I 10)
          else if shape = CHR ''o'' \<and> standard_unsigned_integer I then Some (parse_number I 8)
          else if shape \<in> set ''xX'' \<and> standard_unsigned_integer I then Some (parse_number_16 I)
          else None
      | Floating F \<Rightarrow>
          if shape \<in> set ''aA'' then Some (parse_float strtod F Hex)
          else if shape \<in> set ''eE'' then Some (parse_float strtod F Scientific)
          else if shape \<in> set ''fF'' then Some (parse_float strtod F Fixed)
          else if shape \<in> set ''gG'' then Some (parse_float strtod F General)
          else None
      | OtherArithmetic \<Rightarrow> None)"

section \<open>Printed integers are read back\<close>

lemma digit_chars:
  "char_of (48 :: nat) = CHR ''0''" "char_of (49 :: nat) = CHR ''1''" "char_of (50 :: nat) = CHR ''2''" "char_of (51 :: nat) = CHR ''3''"
  "char_of (52 :: nat) = CHR ''4''" "char_of (53 :: nat) = CHR ''5''" "char_of (54 :: nat) = CHR ''6''" "char_of (55 :: nat) = CHR ''7''"
  "char_of (56 :: nat) = CHR ''8''" "char_of (57 :: nat) = CHR ''9''"
  by code_simp+

lemma digit_code: "is_digit c \<longleftrightarrow> 48 \<le> (of_char c :: nat) \<and> of_char c < (58 :: nat)"
proof
  show "is_digit c \<Longrightarrow> 48 \<le> (of_char c :: nat) \<and> of_char c < (58 :: nat)" by (auto simp: is_digit_def)
  assume "48 \<le> (of_char c :: nat) \<and> of_char c < (58 :: nat)"
  then have "of_char c \<in> set (map (\<lambda>i. 48 + i) [0..<10 :: nat])" by (auto simp: image_iff intro!: bexI [of _ "of_char c - 48"])
  then have "c \<in> char_of ` set (map (\<lambda>i. 48 + i) [0..<10 :: nat])" by (metis char_of_char imageI)
  then show "is_digit c" by (simp add: is_digit_def upt_rec digit_chars)
qed

lemma dec_digits_digit: "c \<in> set (dec_digits n) \<Longrightarrow> is_digit c"
  using dec_digits_chars by (simp add: digit_code)

lemma digit_in_10: "is_digit c \<Longrightarrow> digit_in 10 c \<and> digit_value c = Some (of_char c - 48)"
  by (auto simp: digit_code digit_in_def digit_value_def Let_def)

lemma digits_value_dec: "digits_value 10 (dec_digits n) = n"
proof -
  have "foldl (\<lambda>a c. 10 * a + the (digit_value c)) b s = foldl (\<lambda>a c. 10 * a + (of_char c - 48)) b s"
    if "\<forall>c \<in> set s. is_digit c" for b s
    using that by (induction s arbitrary: b) (auto simp: digit_in_10)
  then show ?thesis using dec_value_digits [of n] dec_digits_digit by (simp add: digits_value_def dec_value_def)
qed

lemma dec_digits_leading: "lookahead (dec_digits n) = Some (CHR ''0'') \<longleftrightarrow> n = 0"
proof (induction n rule: dec_digits.induct)
  case (1 n)
  show ?case
  proof (cases "n < 10")
    case True
    then have "n \<in> set [0..<10]" by simp
    then show ?thesis by (auto simp: dec_digits.simps [of n] upt_rec digit_chars)
  next
    case False
    then show ?thesis using 1 dec_digits_not_Nil [of "n div 10"] by (cases "dec_digits (n div 10)") (auto simp: dec_digits.simps [of n])
  qed
qed

lemma digit_sequence_dec: "digit_sequence (dec_digits n)"
  by (auto simp: digit_sequence_iff dec_digits_not_Nil dec_digits_digit)

lemma dec_digits_literal: "is_decimal_literal (dec_digits n)"
  using digit_sequence_dec [of n] dec_digits_leading [of n]
  by (cases "n = 0") (auto simp: decimal_literal_grammar decimal_literal_iff dec_digits.simps [of 0])

text \<open>Also a negative number does not look like an option.\<close>

lemma to_string_positional: "is_positional (to_string i) ''-''"
proof (cases "i < 0")
  case True
  then show ?thesis using dec_digits_literal by (simp add: to_string_def is_positional_def)
next
  case False
  then show ?thesis using dec_digits_digit [of "CHR ''-''" "nat i"] dec_digits_not_Nil
    by (cases "dec_digits (nat i)") (auto simp: to_string_def is_positional_def)
qed

lemma parse_decimal:
  "parse_number T 10 (to_string i) =
     (if in_range T i then Inr (AInteger T i)
      else if i < 0 \<and> \<not> standard_signed_integer T then Inl (InvalidArgument ''pattern not found'')
      else Inl (RangeError ''not representable''))"
proof -
  have all: "takeWhile (digit_in 10) (dec_digits n) = dec_digits n" "dropWhile (digit_in 10) (dec_digits n) = []" for n
    using dec_digits_digit digit_in_10 by (auto simp: takeWhile_eq_all_conv dropWhile_eq_Nil_conv)
  have minus: "lookahead (dec_digits n) \<noteq> Some (CHR ''-'')" for n
    using dec_digits_digit [of "CHR ''-''" n] by (cases "dec_digits n") auto
  have unsigned: "\<not> in_range T i" if "i < 0" "\<not> standard_signed_integer T" using that by (simp add: in_range_def)
  have neg: "\<not> digit_in 10 (CHR ''-'')" by code_simp
  show ?thesis
    using minus unsigned
    by (auto simp: parse_number_def do_from_chars_def from_chars_def to_string_def Let_def all digits_value_dec dec_digits_not_Nil neg)
qed

end
