(* ===== verification/Argparse_Argument.thy ===== *)
theory Argparse_Argument
  imports Argparse_Literals
begin

text \<open>
  The class \<open>Argument\<close> of \<^verbatim>\<open>include/argparse.hpp\<close>: the setters, \<open>consume\<close>, \<open>validate\<close>, the typed getters and the lines of the help
  output. A thrown exception is a value of \<open>arg_error\<close>; the state the object has then is dropped, since nothing reads it.
\<close>

section \<open>State\<close>

text \<open>
  An action is called with one text. The actions of \<^verbatim>\<open>--help\<close> and \<^verbatim>\<open>--version\<close> capture the parser that has registered them; the
  parser's address is the number. \<open>console\<close> has what they print.
\<close>

datatype arg_action =
    is_store: StoreText
  | ValuedAction "string \<Rightarrow> arg_error + any_value"
  | VoidAction "string \<Rightarrow> arg_error + unit"
  | HelpAction nat
  | VersionAction nat

record console =
  printed_help :: "nat \<Rightarrow> string"
  printed_version :: "nat \<Rightarrow> string"

record Argument =
  m_names :: "string list"
  m_used_name :: string
  m_help :: string
  m_metavar :: string
  m_default_value :: "any_value option"
  m_default_value_repr :: string
  m_implicit_value :: "any_value option"
  m_action :: arg_action
  m_values :: "any_value option list"   \<comment> \<open>\<open>None\<close> is an empty \<open>std::any\<close>\<close>
  num_args_min :: nat
  num_args_max :: nat
  m_accepts_optional_like_value :: bool
  m_is_optional :: bool
  m_is_required :: bool
  m_is_repeatable :: bool
  m_is_used :: bool
  m_arg_prefix :: string

definition size_max :: nat where
  "size_max = 2 ^ 64 - 1"

text \<open>Names are sorted by length, then by their characters.\<close>

fun chars_less :: "string \<Rightarrow> string \<Rightarrow> bool" where
  "chars_less [] [] = False"
| "chars_less [] (_ # _) = True"
| "chars_less (_ # _) [] = False"
| "chars_less (c # s) (d # t) \<longleftrightarrow> of_char c < (of_char d :: nat) \<or> (c = d \<and> chars_less s t)"

definition name_less :: "string \<Rightarrow> string \<Rightarrow> bool" where
  "name_less a b = (if length a = length b then chars_less a b else length a < length b)"

fun insert_name :: "string \<Rightarrow> string list \<Rightarrow> string list" where
  "insert_name n [] = [n]"
| "insert_name n (m # ms) = (if name_less n m then n # m # ms else m # insert_name n ms)"

definition sort_names :: "string list \<Rightarrow> string list" where
  "sort_names names = fold insert_name names []"

definition Argument_new :: "string \<Rightarrow> string list \<Rightarrow> Argument" where
  "Argument_new prefix_chars names =
     \<lparr>m_names = sort_names names, m_used_name = [], m_help = [], m_metavar = [], m_default_value = None, m_default_value_repr = [],
      m_implicit_value = None, m_action = StoreText, m_values = [], num_args_min = 1, num_args_max = 1,
      m_accepts_optional_like_value = False, m_is_optional = (\<exists>n \<in> set names. is_optional n prefix_chars), m_is_required = False,
      m_is_repeatable = False, m_is_used = False, m_arg_prefix = prefix_chars\<rparr>"

section \<open>Setters\<close>

definition arg_help :: "string \<Rightarrow> Argument \<Rightarrow> Argument" where
  "arg_help text a = a\<lparr>m_help := text\<rparr>"

definition arg_metavar :: "string \<Rightarrow> Argument \<Rightarrow> Argument" where
  "arg_metavar text a = a\<lparr>m_metavar := text\<rparr>"

text \<open>The default is given as \<open>repr\<close> sees it and as the value that is stored.\<close>

definition arg_default_value :: "repr_value \<Rightarrow> any_value \<Rightarrow> Argument \<Rightarrow> Argument" where
  "arg_default_value r v a = a\<lparr>m_default_value_repr := repr r, m_default_value := Some v\<rparr>"

definition arg_required :: "Argument \<Rightarrow> Argument" where
  "arg_required a = a\<lparr>m_is_required := True\<rparr>"

definition arg_implicit_value :: "any_value \<Rightarrow> Argument \<Rightarrow> Argument" where
  "arg_implicit_value v a = a\<lparr>m_implicit_value := Some v, num_args_min := 0, num_args_max := 0\<rparr>"

definition set_action :: "arg_action \<Rightarrow> Argument \<Rightarrow> Argument" where
  "set_action f a = a\<lparr>m_action := f\<rparr>"

definition arg_append :: "Argument \<Rightarrow> Argument" where
  "arg_append a = a\<lparr>m_is_repeatable := True\<rparr>"

definition arg_scan :: "strtod \<Rightarrow> char \<Rightarrow> arithmetic_type \<Rightarrow> Argument \<Rightarrow> Argument option" where
  "arg_scan strtod shape T a = map_option (\<lambda>f. set_action (ValuedAction f) a) (scan_function strtod shape T)"

definition arg_nargs :: "nat \<Rightarrow> Argument \<Rightarrow> Argument" where
  "arg_nargs n a = a\<lparr>num_args_min := n, num_args_max := n\<rparr>"

definition arg_nargs_range :: "nat \<Rightarrow> nat \<Rightarrow> Argument \<Rightarrow> arg_error + Argument" where
  "arg_nargs_range minimum maximum a =
     (if minimum > maximum then Inl (LogicError ''Range of number of arguments is invalid'')
      else Inr (a\<lparr>num_args_min := minimum, num_args_max := maximum\<rparr>))"

datatype nargs_pattern = NOptional | NAny | NAtLeastOne

fun arg_nargs_pattern :: "nargs_pattern \<Rightarrow> Argument \<Rightarrow> Argument" where
  "arg_nargs_pattern NOptional a = a\<lparr>num_args_min := 0, num_args_max := 1\<rparr>"
| "arg_nargs_pattern NAny a = a\<lparr>num_args_min := 0, num_args_max := size_max\<rparr>"
| "arg_nargs_pattern NAtLeastOne a = a\<lparr>num_args_min := 1, num_args_max := size_max\<rparr>"

definition arg_remaining :: "Argument \<Rightarrow> Argument" where
  "arg_remaining a = arg_nargs_pattern NAny (a\<lparr>m_accepts_optional_like_value := True\<rparr>)"

section \<open>Consuming values\<close>

definition call_action :: "console \<Rightarrow> arg_action \<Rightarrow> string \<Rightarrow> arg_error + unit" where
  "call_action con f s =
     (case f of
        StoreText \<Rightarrow> Inr ()
      | ValuedAction g \<Rightarrow> bindR (g s) (\<lambda>_. Inr ())
      | VoidAction g \<Rightarrow> g s
      | HelpAction k \<Rightarrow> Inl (ExitZero (printed_help con k))
      | VersionAction k \<Rightarrow> Inl (ExitZero (printed_version con k)))"

fun mapR :: "('a \<Rightarrow> 'e + 'b) \<Rightarrow> 'a list \<Rightarrow> 'e + 'b list" where
  "mapR f [] = Inr []"
| "mapR f (x # xs) = bindR (f x) (\<lambda>y. bindR (mapR f xs) (\<lambda>ys. Inr (y # ys)))"

text \<open>\<open>resize\<close> of the vector of values.\<close>

definition resize_values :: "nat \<Rightarrow> any_value option list \<Rightarrow> any_value option list" where
  "resize_values n vs = take n vs @ replicate (n - length vs) None"

text \<open>\<open>ActionApply\<close> on the values taken.\<close>

definition apply_action :: "console \<Rightarrow> string list \<Rightarrow> Argument \<Rightarrow> arg_error + Argument" where
  "apply_action con vals a =
     (case m_action a of
        StoreText \<Rightarrow> Inr (a\<lparr>m_values := m_values a @ map (\<lambda>v. Some (AString v)) vals\<rparr>)
      | ValuedAction f \<Rightarrow> bindR (mapR f vals) (\<lambda>vs. Inr (a\<lparr>m_values := m_values a @ map Some vs\<rparr>))
      | f \<Rightarrow>
          bindR (mapR (call_action con f) vals) (\<lambda>_.
          Inr (if m_default_value a = None \<and> \<not> m_accepts_optional_like_value a
               then a\<lparr>m_values := resize_values (length vals) (m_values a)\<rparr> else a)))"

text \<open>\<open>consume\<close> takes values from the front of the arguments and returns the ones left.\<close>

definition consume_arg :: "console \<Rightarrow> string list \<Rightarrow> string \<Rightarrow> Argument \<Rightarrow> arg_error + Argument \<times> string list" where
  "consume_arg con args used_name a =
     (if \<not> m_is_repeatable a \<and> m_is_used a then Inl (RuntimeError ''Duplicate argument'')
      else
        (let a = a\<lparr>m_is_used := True, m_used_name := used_name\<rparr>
         in if num_args_max a = 0 then
              bindR (call_action con (m_action a) []) (\<lambda>_. Inr (a\<lparr>m_values := m_values a @ [m_implicit_value a]\<rparr>, args))
            else if num_args_min a \<le> length args then
              (let vals = take (num_args_max a) args;
                   vals = (if m_accepts_optional_like_value a then vals
                           else takeWhile (\<lambda>s. \<not> is_optional s (m_arg_prefix a)) vals)
               in if \<not> m_accepts_optional_like_value a \<and> length vals < num_args_min a
                  then Inl (RuntimeError ''Too few arguments'')
                  else bindR (apply_action con vals a) (\<lambda>a. Inr (a, drop (length vals) args)))
            else if m_default_value a \<noteq> None then Inr (a, args)
            else Inl (RuntimeError (''Too few arguments for '' @ [CHR 0x27] @ used_name @ [CHR 0x27] @ ''.''))))"

lemma consume_arg_suffix: "consume_arg con args n a = Inr (a', rest) \<Longrightarrow> \<exists>vals. args = vals @ rest"
  by (auto simp: consume_arg_def Let_def bindR_eq_Inr_iff split: if_splits intro: append_take_drop_id [symmetric] exI [of _ "[]"])

section \<open>Validation\<close>

definition num_args_text :: "Argument \<Rightarrow> string" where
  "num_args_text a =
     (if num_args_min a = num_args_max a then to_string (int (num_args_min a))
      else if num_args_max a < size_max then to_string (int (num_args_min a)) @ '' to '' @ to_string (int (num_args_max a))
      else to_string (int (num_args_min a)) @ '' or more'')"

definition nargs_range_error :: "Argument \<Rightarrow> arg_error" where
  "nargs_range_error a =
     RuntimeError ((if m_used_name a \<noteq> [] then m_used_name a else hd (m_names a)) @ '': '' @ num_args_text a @
       '' argument(s) expected. '' @ to_string (int (length (m_values a))) @ '' provided.'')"

definition required_not_used_error :: "Argument \<Rightarrow> arg_error" where
  "required_not_used_error a = RuntimeError (hd (m_names a) @ '': required.'')"

definition required_no_value_error :: "Argument \<Rightarrow> arg_error" where
  "required_no_value_error a = RuntimeError (m_used_name a @ '': no value provided.'')"

definition validate :: "Argument \<Rightarrow> arg_error + unit" where
  "validate a =
     (if m_is_optional a then
        if \<not> m_is_used a \<and> m_default_value a = None \<and> m_is_required a then Inl (required_not_used_error a)
        else if m_is_used a \<and> m_is_required a \<and> m_values a = [] then Inl (required_no_value_error a)
        else Inr ()
      else if \<not> (num_args_min a \<le> length (m_values a) \<and> length (m_values a) \<le> num_args_max a) \<and> m_default_value a = None
      then Inl (nargs_range_error a)
      else Inr ())"

section \<open>Typed access\<close>

definition any_cast_container :: "cpp_type \<Rightarrow> any_value option list \<Rightarrow> arg_error + any_value" where
  "any_cast_container elem operand = bindR (mapR (any_cast elem) operand) (\<lambda>vs. Inr (AContainer elem vs))"

definition arg_get :: "cpp_type \<Rightarrow> Argument \<Rightarrow> arg_error + any_value" where
  "arg_get T a =
     (if m_values a \<noteq> [] then
        (case T of TContainer elem \<Rightarrow> any_cast_container elem (m_values a) | _ \<Rightarrow> any_cast T (hd (m_values a)))
      else if m_default_value a \<noteq> None then any_cast T (m_default_value a)
      else
        (case T of
           TContainer elem \<Rightarrow>
             if \<not> m_accepts_optional_like_value a then any_cast_container elem (m_values a)
             else Inl (LogicError (''No value provided for '' @ [CHR 0x27] @ last (m_names a) @ [CHR 0x27] @ ''.''))
         | _ \<Rightarrow> Inl (LogicError (''No value provided for '' @ [CHR 0x27] @ last (m_names a) @ [CHR 0x27] @ ''.''))))"

definition arg_present :: "cpp_type \<Rightarrow> Argument \<Rightarrow> arg_error + any_value option" where
  "arg_present T a =
     (if m_default_value a \<noteq> None then Inl (LogicError ''Argument with default value always presents'')
      else if m_values a = [] then Inr None
      else
        (case T of
           TContainer elem \<Rightarrow> bindR (any_cast_container elem (m_values a)) (\<lambda>v. Inr (Some v))
         | _ \<Rightarrow> bindR (any_cast T (hd (m_values a))) (\<lambda>v. Inr (Some v))))"

text \<open>\<open>operator==\<close> with a value of known type; \<open>operator!=\<close> is its negation.\<close>

definition arg_equals :: "any_value \<Rightarrow> Argument \<Rightarrow> arg_error + bool" where
  "arg_equals rhs a = bindR (arg_get (type_of rhs) a) (\<lambda>lhs. Inr (lhs = rhs))"

section \<open>Help output\<close>

definition longest_name :: "string list \<Rightarrow> string" where
  "longest_name names = fold (\<lambda>s longest. if length longest < length s then s else longest) names (hd names)"

definition get_inline_usage :: "Argument \<Rightarrow> string" where
  "get_inline_usage a =
     (if \<not> m_is_required a then ''['' else []) @ longest_name (m_names a) @
     (if 0 < num_args_max a
      then '' '' @ (if m_metavar a \<noteq> [] then m_metavar a else ''VAR'') @ (if 1 < num_args_max a then ''...'' else [])
      else []) @
     (if \<not> m_is_required a then '']'' else [])"

definition exactly_one :: "Argument \<Rightarrow> bool" where
  "exactly_one a \<longleftrightarrow> num_args_min a = 1 \<and> num_args_max a = 1"

definition get_arguments_length :: "Argument \<Rightarrow> nat" where
  "get_arguments_length a =
     (let names_size = sum_list (map length (m_names a))
      in if is_positional (hd (m_names a)) (m_arg_prefix a) then
           (if m_metavar a \<noteq> [] then 2 + length (m_metavar a) else 2 + names_size + (length (m_names a) - 1))
         else
           names_size + 2 * (length (m_names a) - 1) +
           (if m_metavar a \<noteq> [] \<and> exactly_one a then length (m_metavar a) + 1 else 0) + 2)"

definition name_text :: "Argument \<Rightarrow> string" where
  "name_text a =
     ''  '' @
     (if is_positional (hd (m_names a)) (m_arg_prefix a)
      then (if m_metavar a \<noteq> [] then m_metavar a else join (m_names a) '' '')
      else join (m_names a) '', '' @ (if m_metavar a \<noteq> [] \<and> exactly_one a then '' '' @ m_metavar a else []))"

definition nargs_spec :: "Argument \<Rightarrow> string" where
  "nargs_spec a =
     (if num_args_min a = num_args_max a
      then (if num_args_min a \<noteq> 0 \<and> num_args_min a \<noteq> 1 then ''[nargs: '' @ to_string (int (num_args_min a)) @ ''] '' else [])
      else if num_args_max a = size_max then ''[nargs: '' @ to_string (int (num_args_min a)) @ '' or more] ''
      else ''[nargs='' @ to_string (int (num_args_min a)) @ ''..'' @ to_string (int (num_args_max a)) @ ''] '')"

text \<open>Text in a field of the stream's width, to the left.\<close>

definition pad :: "nat \<Rightarrow> string \<Rightarrow> string" where
  "pad width s = s @ replicate (width - length s) (CHR '' '')"

definition show_argument :: "nat \<Rightarrow> Argument \<Rightarrow> string" where
  "show_argument width a =
     pad width (name_text a) @ [CHR 0x09] @ m_help a @ (if m_help a \<noteq> [] then '' '' else []) @ nargs_spec a @
     (if m_default_value a \<noteq> None \<and> \<not> (num_args_min a = 0 \<and> num_args_max a = 0) then ''[default: '' @ m_default_value_repr a @ '']''
      else if m_is_required a then ''[required]'' else []) @ [CHR 0x0A]"

text \<open>\<open>get_arguments_length\<close> is the length of what is printed, though the two are computed apart.\<close>

lemma length_join: "ss \<noteq> [] \<Longrightarrow> length (join ss sep) = sum_list (map length ss) + length sep * (length ss - 1)"
  by (cases ss) (auto simp: length_concat comp_def sum_list_addf sum_list_triv)

lemma length_name_text: "m_names a \<noteq> [] \<Longrightarrow> length (name_text a) = get_arguments_length a"
  by (simp add: name_text_def get_arguments_length_def length_join Let_def)

end
