(* ===== verification/Argparse.thy ===== *)
theory Argparse
  imports Argparse_Argument
begin

text \<open>
  The class \<open>ArgumentParser\<close> of \<^verbatim>\<open>include/argparse.hpp\<close>: registering arguments, parents and sub-parsers, the help output, the splitting
  of \<^verbatim>\<open>--name=value\<close>, both parse loops with compound short options and sub-commands, and the getters.

  Parsers refer to each other, so they live in a list, and an address is a position in it. The arguments of a parser live in a list of
  their own; a position in it stands for the iterators of \<^verbatim>\<open>m_argument_map\<close>. The maps are association lists in the order of \<open>std::map\<close>.
  The first text of a command line is the name of the program; without it, \<open>std::next\<close> leaves the vector, which is \<open>Undefined\<close>.
\<close>

section \<open>State\<close>

record ArgumentParser =
  m_program_name :: string
  m_version :: string
  m_description :: string
  m_epilog :: string
  m_prefix_chars :: string
  m_assign_chars :: string
  m_is_parsed :: bool
  arguments :: "Argument list"
  m_positional_arguments :: "nat list"
  m_optional_arguments :: "nat list"
  m_argument_map :: "(string \<times> nat) list"
  m_parser_path :: string
  m_subparsers :: "nat list"
  m_subparser_map :: "(string \<times> nat) list"
  m_subparser_used :: "(string \<times> bool) list"

type_synonym parsers = "ArgumentParser list"

fun insert_or_assign :: "string \<Rightarrow> 'a \<Rightarrow> (string \<times> 'a) list \<Rightarrow> (string \<times> 'a) list" where
  "insert_or_assign k v [] = [(k, v)]"
| "insert_or_assign k v ((k', v') # m) =
     (if k = k' then (k, v) # m else if chars_less k k' then (k, v) # (k', v') # m else (k', v') # insert_or_assign k v m)"

definition lookup_argument :: "ArgumentParser \<Rightarrow> string \<Rightarrow> nat option" where
  "lookup_argument p name = map_of (m_argument_map p) name"

lemma map_of_insert_or_assign: "map_of (insert_or_assign k v m) = (map_of m)(k \<mapsto> v)"
  by (induction k v m rule: insert_or_assign.induct) (auto simp: fun_upd_twist)

section \<open>Registering\<close>

definition index_argument :: "nat \<Rightarrow> ArgumentParser \<Rightarrow> ArgumentParser" where
  "index_argument k p = p\<lparr>m_argument_map := fold (\<lambda>n m. insert_or_assign n k m) (m_names (arguments p ! k)) (m_argument_map p)\<rparr>"

text \<open>\<open>f\<close> are the setters that are chained to the call.\<close>

definition add_argument :: "string list \<Rightarrow> (Argument \<Rightarrow> Argument) \<Rightarrow> ArgumentParser \<Rightarrow> ArgumentParser" where
  "add_argument names f p =
     (let a = Argument_new (m_prefix_chars p) names; k = length (arguments p);
          p = p\<lparr>arguments := arguments p @ [a]\<rparr>;
          p = (if m_is_optional a then p\<lparr>m_optional_arguments := m_optional_arguments p @ [k]\<rparr>
               else p\<lparr>m_positional_arguments := m_positional_arguments p @ [k]\<rparr>);
          p = index_argument k p
      in p\<lparr>arguments := (arguments p)[k := f (arguments p ! k)]\<rparr>)"

datatype default_arguments = ArgsNone | ArgsHelp | ArgsVersion | ArgsAll

text \<open>The constructor, for a parser at the address \<open>this\<close>.\<close>

definition ArgumentParser_new :: "nat \<Rightarrow> string \<Rightarrow> string \<Rightarrow> default_arguments \<Rightarrow> ArgumentParser" where
  "ArgumentParser_new this program_name version add_args =
     (let p = \<lparr>m_program_name = program_name, m_version = version, m_description = [], m_epilog = [], m_prefix_chars = ''-'',
               m_assign_chars = ''='', m_is_parsed = False, arguments = [], m_positional_arguments = [], m_optional_arguments = [],
               m_argument_map = [], m_parser_path = program_name, m_subparsers = [], m_subparser_map = [], m_subparser_used = []\<rparr>;
          p = (if add_args \<in> {ArgsHelp, ArgsAll}
               then add_argument [''-h'', ''--help'']
                      (arg_nargs 0 \<circ> arg_implicit_value (ABool True) \<circ> arg_help ''shows help message and exits'' \<circ>
                       arg_default_value (RBool False) (ABool False) \<circ> set_action (HelpAction this)) p
               else p)
      in if add_args \<in> {ArgsVersion, ArgsAll}
         then add_argument [''-v'', ''--version'']
                (arg_nargs 0 \<circ> arg_implicit_value (ABool True) \<circ> arg_help ''prints version information and exits'' \<circ>
                 arg_default_value (RBool False) (ABool False) \<circ> set_action (VersionAction this)) p
         else p)"

text \<open>The copy constructor: the copied arguments are indexed anew, and no sub-command is used.\<close>

definition ArgumentParser_copy :: "parsers \<Rightarrow> ArgumentParser \<Rightarrow> ArgumentParser" where
  "ArgumentParser_copy ps other =
     (let p = other\<lparr>m_argument_map := [], m_subparser_map := [], m_subparser_used := []\<rparr>;
          p = fold index_argument (m_positional_arguments p) p;
          p = fold index_argument (m_optional_arguments p) p
      in p\<lparr>m_subparser_map := fold (\<lambda>j m. insert_or_assign (m_program_name (ps ! j)) j m) (m_subparsers p) [],
           m_subparser_used := fold (\<lambda>j m. insert_or_assign (m_program_name (ps ! j)) False m) (m_subparsers p) []\<rparr>)"

definition add_parent_argument :: "bool \<Rightarrow> Argument \<Rightarrow> ArgumentParser \<Rightarrow> ArgumentParser" where
  "add_parent_argument positional a p =
     (let k = length (arguments p); p = p\<lparr>arguments := arguments p @ [a]\<rparr>;
          p = (if positional then p\<lparr>m_positional_arguments := m_positional_arguments p @ [k]\<rparr>
               else p\<lparr>m_optional_arguments := m_optional_arguments p @ [k]\<rparr>)
      in index_argument k p)"

definition add_parents :: "ArgumentParser list \<Rightarrow> ArgumentParser \<Rightarrow> ArgumentParser" where
  "add_parents parents p =
     fold (\<lambda>parent p.
       fold (\<lambda>k. add_parent_argument False (arguments parent ! k)) (m_optional_arguments parent)
         (fold (\<lambda>k. add_parent_argument True (arguments parent ! k)) (m_positional_arguments parent) p)) parents p"

definition add_description :: "string \<Rightarrow> ArgumentParser \<Rightarrow> ArgumentParser" where
  "add_description text p = p\<lparr>m_description := text\<rparr>"

definition add_epilog :: "string \<Rightarrow> ArgumentParser \<Rightarrow> ArgumentParser" where
  "add_epilog text p = p\<lparr>m_epilog := text\<rparr>"

definition set_assign_chars :: "string \<Rightarrow> ArgumentParser \<Rightarrow> ArgumentParser" where
  "set_assign_chars cs p = p\<lparr>m_assign_chars := cs\<rparr>"

text \<open>\<open>add_subparser\<close> of the parser \<open>k\<close> with the parser \<open>j\<close>.\<close>

definition add_subparser :: "nat \<Rightarrow> nat \<Rightarrow> parsers \<Rightarrow> parsers" where
  "add_subparser k j ps =
     (let ps = ps[j := (ps ! j)\<lparr>m_parser_path := m_program_name (ps ! k) @ '' '' @ m_program_name (ps ! j)\<rparr>]
      in ps[k := (ps ! k)\<lparr>m_subparsers := m_subparsers (ps ! k) @ [j],
                m_subparser_map := insert_or_assign (m_program_name (ps ! j)) j (m_subparser_map (ps ! k)),
                m_subparser_used := insert_or_assign (m_program_name (ps ! j)) False (m_subparser_used (ps ! k))\<rparr>])"

section \<open>Help output\<close>

definition nl :: string where
  "nl = [CHR 0x0A]"

definition usage :: "ArgumentParser \<Rightarrow> string" where
  "usage p =
     ''Usage: '' @ m_program_name p @
     concat (map (\<lambda>k. '' '' @ get_inline_usage (arguments p ! k)) (m_optional_arguments p)) @
     concat (map (\<lambda>k. let a = arguments p ! k in '' '' @ (if m_metavar a \<noteq> [] then m_metavar a else hd (m_names a)))
       (m_positional_arguments p)) @
     (if m_subparser_map p \<noteq> [] then '' {'' @ join (map fst (m_subparser_map p)) '','' @ ''}'' else [])"

definition get_length_of_longest_argument :: "ArgumentParser \<Rightarrow> nat" where
  "get_length_of_longest_argument p =
     (if m_argument_map p = [] then 0
      else fold max (map (length \<circ> fst) (m_subparser_map p))
             (fold max (map (\<lambda>(_, k). get_arguments_length (arguments p ! k)) (m_argument_map p)) 0))"

text \<open>
  A line for a sub-command. The field of \<open>std::setw\<close> is \<open>longest_arg_length - 2\<close>; when the subtraction wraps around, the cast to
  \<open>int\<close> makes it negative, and no field is used.
\<close>

definition show_subcommand :: "nat \<Rightarrow> string \<Rightarrow> ArgumentParser \<Rightarrow> string" where
  "show_subcommand longest command sub = ''  '' @ pad (longest - 2) command @ '' '' @ m_description sub @ nl"

definition help_text :: "parsers \<Rightarrow> ArgumentParser \<Rightarrow> string" where
  "help_text ps p =
     (let longest = get_length_of_longest_argument p
      in usage p @ nl @ nl @
         (if m_description p \<noteq> [] then m_description p @ nl @ nl else []) @
         (if m_positional_arguments p \<noteq> [] then ''Positional arguments:'' @ nl else []) @
         concat (map (\<lambda>k. show_argument longest (arguments p ! k)) (m_positional_arguments p)) @
         (if m_optional_arguments p \<noteq> [] then (if m_positional_arguments p = [] then [] else nl) @ ''Optional arguments:'' @ nl else []) @
         concat (map (\<lambda>k. show_argument longest (arguments p ! k)) (m_optional_arguments p)) @
         (if m_subparser_map p \<noteq> []
          then (if m_positional_arguments p = [] \<and> m_optional_arguments p = [] then [] else nl) @ ''Subcommands:'' @ nl @
               concat (map (\<lambda>(command, j). show_subcommand longest command (ps ! j)) (m_subparser_map p))
          else []) @
         (if m_epilog p \<noteq> [] then nl @ m_epilog p @ nl @ nl else []))"

text \<open>What the actions of \<^verbatim>\<open>--help\<close> and \<^verbatim>\<open>--version\<close> print.\<close>

definition console_of :: "parsers \<Rightarrow> console" where
  "console_of ps = \<lparr>printed_help = (\<lambda>k. help_text ps (ps ! k)), printed_version = (\<lambda>k. m_version (ps ! k) @ nl)\<rparr>"

section \<open>Preprocessing\<close>

definition is_valid_prefix_char :: "ArgumentParser \<Rightarrow> char \<Rightarrow> bool" where
  "is_valid_prefix_char p c \<longleftrightarrow> c \<in> set (m_prefix_chars p)"

text \<open>Element 0 of an empty \<open>std::string\<close> is the terminating NUL.\<close>

definition get_any_valid_prefix_char :: "ArgumentParser \<Rightarrow> char" where
  "get_any_valid_prefix_char p = (case m_prefix_chars p of [] \<Rightarrow> CHR 0x00 | c # _ \<Rightarrow> c)"

definition starts_with_prefix :: "ArgumentParser \<Rightarrow> string \<Rightarrow> bool" where
  "starts_with_prefix p a =
     (case a of
        [] \<Rightarrow> False
      | c # rest \<Rightarrow>
          if is_valid_prefix_char p (CHR ''/'') then is_valid_prefix_char p c
          else (case rest of [] \<Rightarrow> False | d # _ \<Rightarrow> is_valid_prefix_char p c \<and> is_valid_prefix_char p d))"

text \<open>\<^verbatim>\<open>--name=value\<close> becomes two arguments when \<^verbatim>\<open>--name\<close> is known.\<close>

definition split_assign :: "ArgumentParser \<Rightarrow> string \<Rightarrow> string list" where
  "split_assign p arg =
     (let opt_name = takeWhile (\<lambda>c. c \<notin> set (m_assign_chars p)) arg
      in if lookup_argument p arg = None \<and> starts_with_prefix p arg \<and> opt_name \<noteq> arg \<and> lookup_argument p opt_name \<noteq> None
         then [opt_name, drop (length opt_name + 1) arg]
         else [arg])"

definition preprocess_arguments :: "ArgumentParser \<Rightarrow> string list \<Rightarrow> string list" where
  "preprocess_arguments p raw = concat (map (split_assign p) raw)"

section \<open>The parse loops\<close>

text \<open>One argument object consumes.\<close>

definition consume_at :: "console \<Rightarrow> nat \<Rightarrow> string list \<Rightarrow> string \<Rightarrow> ArgumentParser \<Rightarrow> arg_error + ArgumentParser \<times> string list" where
  "consume_at con k args used_name p =
     bindR (consume_arg con args used_name (arguments p ! k)) (\<lambda>(a, rest).
     Inr (p\<lparr>arguments := (arguments p)[k := a]\<rparr>, rest))"

definition is_compound :: "ArgumentParser \<Rightarrow> string \<Rightarrow> bool" where
  "is_compound p cur = (case cur of c # d # _ \<Rightarrow> is_valid_prefix_char p c \<and> \<not> is_valid_prefix_char p d | _ \<Rightarrow> False)"

text \<open>The loop over the letters of a compound argument.\<close>

fun compound_loop :: "console \<Rightarrow> string \<Rightarrow> string \<Rightarrow> ArgumentParser \<times> string list \<Rightarrow> arg_error + ArgumentParser \<times> string list" where
  "compound_loop con cur [] s = Inr s"
| "compound_loop con cur (c # cs) (p, args) =
     (case lookup_argument p [CHR ''-'', c] of
        None \<Rightarrow> Inl (RuntimeError (''Unknown argument: '' @ cur))
      | Some k \<Rightarrow> bindR (consume_at con k args [CHR ''-'', c] p) (compound_loop con cur cs))"

text \<open>What an iteration ends with: the state of the next one, or a sub-command and its arguments.\<close>

datatype step = Next ArgumentParser "nat list" "string list" | Command ArgumentParser nat "string list"

definition use_subparser :: "string \<Rightarrow> ArgumentParser \<Rightarrow> ArgumentParser" where
  "use_subparser command p = p\<lparr>m_is_parsed := True, m_subparser_used := insert_or_assign command True (m_subparser_used p)\<rparr>"

definition parse_step :: "console \<Rightarrow> string \<Rightarrow> string list \<Rightarrow> nat list \<Rightarrow> ArgumentParser \<Rightarrow> arg_error + step" where
  "parse_step con cur rest pos p =
     (if is_positional cur (m_prefix_chars p) then
        (case pos of
           [] \<Rightarrow>
             (case map_of (m_subparser_map p) cur of
                Some j \<Rightarrow> Inr (Command (use_subparser cur p) j (cur # rest))
              | None \<Rightarrow> Inl (RuntimeError ''Maximum number of positional arguments exceeded''))
         | k # pos' \<Rightarrow> bindR (consume_at con k (cur # rest) [] p) (\<lambda>(p, args). Inr (Next p pos' args)))
      else
        (case lookup_argument p cur of
           Some k \<Rightarrow> bindR (consume_at con k rest cur p) (\<lambda>(p, args). Inr (Next p pos args))
         | None \<Rightarrow>
             if is_compound p cur then bindR (compound_loop con cur (tl cur) (p, rest)) (\<lambda>(p, args). Inr (Next p pos args))
             else Inl (RuntimeError (''Unknown argument: '' @ cur))))"

lemma consume_at_suffix: "consume_at con k args n p = Inr (p', rest) \<Longrightarrow> \<exists>vals. args = vals @ rest"
  by (auto simp: consume_at_def bindR_eq_Inr_iff dest: consume_arg_suffix)

lemma compound_loop_suffix: "compound_loop con cur cs (p, args) = Inr (p', rest) \<Longrightarrow> \<exists>vals. args = vals @ rest"
proof (induction con cur cs "(p, args)" arbitrary: p args rule: compound_loop.induct)
  case (2 con cur c cs p args)
  then show ?case by (fastforce simp: bindR_eq_Inr_iff dest: consume_at_suffix split: option.splits)
qed simp

text \<open>The arguments that are left are at the end of what there was; a positional argument that takes nothing is used up.\<close>

lemma parse_step_suffix:
  "parse_step con cur rest pos p = Inr (Next p' pos' args') \<Longrightarrow>
   \<exists>vals. cur # rest = vals @ args' \<and> (vals \<noteq> [] \<and> length pos' \<le> length pos \<or> length pos' < length pos)"
  by (fastforce simp: parse_step_def bindR_eq_Inr_iff Cons_eq_append_conv dest!: consume_at_suffix compound_loop_suffix
      split: if_splits list.splits option.splits)

lemma parse_step_shrinks:
  "parse_step con cur rest pos p = Inr (Next p' pos' args') \<Longrightarrow> length args' + length pos' < Suc (length rest) + length pos"
  by (drule parse_step_suffix) (auto simp: Cons_eq_append_conv)

lemma bindR_fundef_cong [fundef_cong]:
  "m = m' \<Longrightarrow> (\<And>x. m' = Inr x \<Longrightarrow> f x = g x) \<Longrightarrow> bindR m f = bindR m' g"
  by (cases m') auto

text \<open>The loop of \<open>parse_args_internal\<close>, up to its end or to a sub-command.\<close>

function parse_loop ::
    "console \<Rightarrow> string list \<Rightarrow> nat list \<Rightarrow> ArgumentParser \<Rightarrow> arg_error + ArgumentParser \<times> (nat \<times> string list) option" where
  "parse_loop con [] pos p = Inr (p\<lparr>m_is_parsed := True\<rparr>, None)"
| "parse_loop con (cur # rest) pos p =
     bindR (parse_step con cur rest pos p) (\<lambda>s.
       case s of Next p pos args \<Rightarrow> parse_loop con args pos p | Command p j args \<Rightarrow> Inr (p, Some (j, args)))"
  by pat_completeness auto
termination
  by (relation "measure (\<lambda>(con, args, pos, p). length args + length pos)") (auto dest: parse_step_shrinks)

definition set_program_name :: "string list \<Rightarrow> ArgumentParser \<Rightarrow> ArgumentParser" where
  "set_program_name args p = (if m_program_name p = [] then p\<lparr>m_program_name := hd args\<rparr> else p)"

text \<open>What the parser \<open>k\<close> itself does with a command line.\<close>

definition parse_own :: "parsers \<Rightarrow> nat \<Rightarrow> string list \<Rightarrow> arg_error + ArgumentParser \<times> (nat \<times> string list) option" where
  "parse_own ps k raw =
     (let args = preprocess_arguments (ps ! k) raw
      in if args = [] \<or> length ps \<le> k then Inl Undefined
         else
           (let p = set_program_name args (ps ! k)
            in parse_loop (console_of (ps[k := p])) (tl args) (m_positional_arguments p) p))"

fun validate_all :: "Argument list \<Rightarrow> arg_error + unit" where
  "validate_all [] = Inr ()"
| "validate_all (a # as) = bindR (validate a) (\<lambda>_. validate_all as)"

definition validate_map :: "ArgumentParser \<Rightarrow> arg_error + unit" where
  "validate_map p = validate_all (map (\<lambda>(_, k). arguments p ! k) (m_argument_map p))"

text \<open>
  A command line gets shorter from a parser to its sub-command, where splitting a text in two counts as keeping the length: the
  character that is dropped makes up for it.
\<close>

definition line_size :: "string list \<Rightarrow> nat" where
  "line_size args = sum_list (map (\<lambda>a. Suc (length a)) args)"

lemma line_size_simps [simp]:
  "line_size [] = 0" "line_size (a # as) = Suc (length a) + line_size as" "line_size (xs @ ys) = line_size xs + line_size ys"
  by (simp_all add: line_size_def)

lemma split_assign_size: "line_size (split_assign p a) = Suc (length a)"
proof -
  let ?n = "takeWhile (\<lambda>c. c \<notin> set (m_assign_chars p)) a"
  have "length ?n < length a \<or> ?n = a"
    using length_takeWhile_le [of "\<lambda>c. c \<notin> set (m_assign_chars p)" a] by (metis le_neq_implies_less takeWhile_eq_take take_all_iff le_refl)
  then show ?thesis
  proof
    assume "length ?n < length a"
    then show ?thesis by (cases a) (simp_all add: split_assign_def Let_def del: takeWhile_eq_all_conv)
  next
    assume "?n = a"
    then show ?thesis by (simp add: split_assign_def Let_def)
  qed
qed

lemma preprocess_size: "line_size (preprocess_arguments p raw) = line_size raw"
  by (induction raw) (simp_all add: preprocess_arguments_def split_assign_size)

lemma parse_loop_suffix: "parse_loop con args pos p = Inr (p', Some (j, rest)) \<Longrightarrow> \<exists>vals. args = vals @ rest"
proof (induction con args pos p rule: parse_loop.induct)
  case (2 con cur rest' pos p)
  then obtain s where s: "parse_step con cur rest' pos p = Inr s" by (auto simp: bindR_eq_Inr_iff)
  show ?case
  proof (cases s)
    case (Next q pos' args)
    then show ?thesis using "2.IH" [OF s, of q pos' args] "2.prems" s parse_step_suffix [of con cur rest' pos p q pos' args] by auto
  next
    case (Command q i args)
    then have "args = cur # rest'" using s by (auto simp: parse_step_def bindR_eq_Inr_iff split: if_splits list.splits option.splits)
    then show ?thesis using "2.prems" s Command by auto
  qed
qed simp

lemma parse_own_shrinks: "parse_own ps k raw = Inr (p, Some (j, rest)) \<Longrightarrow> line_size rest < line_size raw"
proof -
  assume own: "parse_own ps k raw = Inr (p, Some (j, rest))"
  let ?args = "preprocess_arguments (ps ! k) raw"
  have "?args \<noteq> []" using own by (auto simp: parse_own_def Let_def split: if_splits)
  then obtain a as where a: "?args = a # as" by (cases ?args) auto
  then obtain vals where "as = vals @ rest" using own by (auto simp: parse_own_def Let_def split: if_splits dest: parse_loop_suffix)
  then show ?thesis using a preprocess_size [of "ps ! k" raw] by simp
qed

text \<open>\<open>parse_args\<close>: a sub-command is parsed by its own parser, and each parser validates its arguments afterwards.\<close>

function parse_args :: "parsers \<Rightarrow> nat \<Rightarrow> string list \<Rightarrow> arg_error + parsers" where
  "parse_args ps k raw =
     bindR (parse_own ps k raw) (\<lambda>s.
     bindR (case s of (p, None) \<Rightarrow> Inr (ps[k := p]) | (p, Some (j, rest)) \<Rightarrow> parse_args (ps[k := p]) j rest) (\<lambda>ps.
     bindR (validate_map (ps ! k)) (\<lambda>_. Inr ps)))"
  by pat_completeness auto
termination
  by (relation "measure (\<lambda>(ps, k, raw). line_size raw)") (auto dest: parse_own_shrinks)

declare parse_args.simps [simp del]

section \<open>The loop that keeps unknown arguments\<close>

text \<open>The result also says whether the letters went on to the end.\<close>

fun known_compound_loop :: "console \<Rightarrow> string \<Rightarrow> ArgumentParser \<times> string list \<Rightarrow> arg_error + (ArgumentParser \<times> string list) \<times> bool" where
  "known_compound_loop con [] s = Inr (s, True)"
| "known_compound_loop con (c # cs) (p, args) =
     (case lookup_argument p [CHR ''-'', c] of
        None \<Rightarrow> Inr ((p, args), False)
      | Some k \<Rightarrow> bindR (consume_at con k args [CHR ''-'', c] p) (known_compound_loop con cs))"

text \<open>One iteration, with the arguments it adds to the unknown ones.\<close>

definition known_step :: "console \<Rightarrow> string \<Rightarrow> string list \<Rightarrow> nat list \<Rightarrow> ArgumentParser \<Rightarrow> arg_error + step \<times> string list" where
  "known_step con cur rest pos p =
     (if is_positional cur (m_prefix_chars p) then
        (case pos of
           [] \<Rightarrow>
             (case map_of (m_subparser_map p) cur of
                Some j \<Rightarrow> Inr (Command (use_subparser cur p) j (cur # rest), [])
              | None \<Rightarrow> Inr (Next p pos rest, [cur]))
         | k # pos' \<Rightarrow> bindR (consume_at con k (cur # rest) [] p) (\<lambda>(p, args). Inr (Next p pos' args, [])))
      else
        (case lookup_argument p cur of
           Some k \<Rightarrow> bindR (consume_at con k rest cur p) (\<lambda>(p, args). Inr (Next p pos args, []))
         | None \<Rightarrow>
             if is_compound p cur then
               bindR (known_compound_loop con (tl cur) (p, rest)) (\<lambda>((p, args), all).
               Inr (Next p pos args, if all then [] else [cur]))
             else Inr (Next p pos rest, [cur])))"

lemma known_compound_loop_suffix: "known_compound_loop con cs (p, args) = Inr ((p', rest), all) \<Longrightarrow> \<exists>vals. args = vals @ rest"
proof (induction con cs "(p, args)" arbitrary: p args rule: known_compound_loop.induct)
  case (2 con c cs p args)
  then show ?case by (fastforce simp: bindR_eq_Inr_iff dest: consume_at_suffix split: option.splits)
qed simp

lemma known_step_suffix:
  "known_step con cur rest pos p = Inr (Next p' pos' args', unknown) \<Longrightarrow>
   (\<exists>vals. cur # rest = vals @ args' \<and> (vals \<noteq> [] \<and> length pos' \<le> length pos \<or> unknown = [] \<and> length pos' < length pos)) \<and>
   unknown \<in> {[], [cur]}"
  by (fastforce simp: known_step_def bindR_eq_Inr_iff Cons_eq_append_conv dest!: consume_at_suffix known_compound_loop_suffix
      split: if_splits list.splits option.splits)

lemma known_step_shrinks:
  "known_step con cur rest pos p = Inr (Next p' pos' args', unknown) \<Longrightarrow> length args' + length pos' < Suc (length rest) + length pos"
  by (drule known_step_suffix) (auto simp: Cons_eq_append_conv)

text \<open>The unknown arguments of a parser that hands over to a sub-command are dropped: its \<open>return\<close> gives those of the sub-parser.\<close>

function known_loop ::
    "console \<Rightarrow> string list \<Rightarrow> nat list \<Rightarrow> ArgumentParser \<Rightarrow> arg_error + ArgumentParser \<times> string list \<times> (nat \<times> string list) option" where
  "known_loop con [] pos p = Inr (p\<lparr>m_is_parsed := True\<rparr>, [], None)"
| "known_loop con (cur # rest) pos p =
     bindR (known_step con cur rest pos p) (\<lambda>(s, unknown).
       case s of
         Next p pos args \<Rightarrow> bindR (known_loop con args pos p) (\<lambda>(p, more, call). Inr (p, unknown @ more, call))
       | Command p j args \<Rightarrow> Inr (p, unknown, Some (j, args)))"
  by pat_completeness auto
termination
  by (relation "measure (\<lambda>(con, args, pos, p). length args + length pos)") (auto dest: known_step_shrinks)

definition known_own ::
    "parsers \<Rightarrow> nat \<Rightarrow> string list \<Rightarrow> arg_error + ArgumentParser \<times> string list \<times> (nat \<times> string list) option" where
  "known_own ps k raw =
     (let args = preprocess_arguments (ps ! k) raw
      in if args = [] \<or> length ps \<le> k then Inl Undefined
         else
           (let p = set_program_name args (ps ! k)
            in known_loop (console_of (ps[k := p])) (tl args) (m_positional_arguments p) p))"

lemma known_loop_suffix: "known_loop con args pos p = Inr (p', unknown, Some (j, rest)) \<Longrightarrow> \<exists>vals. args = vals @ rest"
proof (induction con args pos p arbitrary: unknown rule: known_loop.induct)
  case (2 con cur rest' pos p)
  then obtain s u where s: "known_step con cur rest' pos p = Inr (s, u)" by (auto simp: bindR_eq_Inr_iff)
  show ?case
  proof (cases s)
    case (Next q pos' args)
    then show ?thesis
      using "2.IH" [OF s refl, of q pos' args] "2.prems" s known_step_suffix [of con cur rest' pos p q pos' args u]
      by (auto simp: bindR_eq_Inr_iff)
  next
    case (Command q i args)
    then have "args = cur # rest'" using s by (auto simp: known_step_def bindR_eq_Inr_iff split: if_splits list.splits option.splits)
    then show ?thesis using "2.prems" s Command by auto
  qed
qed simp

lemma known_own_shrinks: "known_own ps k raw = Inr (p, unknown, Some (j, rest)) \<Longrightarrow> line_size rest < line_size raw"
proof -
  assume own: "known_own ps k raw = Inr (p, unknown, Some (j, rest))"
  let ?args = "preprocess_arguments (ps ! k) raw"
  have "?args \<noteq> []" using own by (auto simp: known_own_def Let_def split: if_splits)
  then obtain a as where a: "?args = a # as" by (cases ?args) auto
  then obtain vals where "as = vals @ rest" using own by (auto simp: known_own_def Let_def split: if_splits dest: known_loop_suffix)
  then show ?thesis using a preprocess_size [of "ps ! k" raw] by simp
qed

text \<open>A sub-command is parsed by \<open>parse_known_args_internal\<close> of its parser, which does not validate.\<close>

function parse_known_args_internal :: "parsers \<Rightarrow> nat \<Rightarrow> string list \<Rightarrow> arg_error + parsers \<times> string list" where
  "parse_known_args_internal ps k raw =
     bindR (known_own ps k raw) (\<lambda>s.
       case s of
         (p, unknown, None) \<Rightarrow> Inr (ps[k := p], unknown)
       | (p, unknown, Some (j, rest)) \<Rightarrow> parse_known_args_internal (ps[k := p]) j rest)"
  by pat_completeness auto
termination
  by (relation "measure (\<lambda>(ps, k, raw). line_size raw)") (auto dest: known_own_shrinks)

declare parse_known_args_internal.simps [simp del]

definition parse_known_args :: "parsers \<Rightarrow> nat \<Rightarrow> string list \<Rightarrow> arg_error + parsers \<times> string list" where
  "parse_known_args ps k raw =
     bindR (parse_known_args_internal ps k raw) (\<lambda>(ps, unknown).
     bindR (validate_map (ps ! k)) (\<lambda>_. Inr (ps, unknown)))"

section \<open>Getters\<close>

text \<open>\<open>operator[]\<close> also tries the name with one and with two prefix characters; \<open>front()\<close> of an empty name is undefined.\<close>

definition find_argument :: "ArgumentParser \<Rightarrow> string \<Rightarrow> arg_error + nat" where
  "find_argument p name =
     (case lookup_argument p name of
        Some k \<Rightarrow> Inr k
      | None \<Rightarrow>
          if name = [] then Inl Undefined
          else if is_valid_prefix_char p (hd name) then Inl (LogicError (''No such argument: '' @ name))
          else
            (let c = get_any_valid_prefix_char p
             in case lookup_argument p (c # name) of
                  Some k \<Rightarrow> Inr k
                | None \<Rightarrow>
                    (case lookup_argument p (c # c # name) of
                       Some k \<Rightarrow> Inr k
                     | None \<Rightarrow> Inl (LogicError (''No such argument: '' @ name)))))"

definition parser_get :: "cpp_type \<Rightarrow> ArgumentParser \<Rightarrow> string \<Rightarrow> arg_error + any_value" where
  "parser_get T p name =
     (if \<not> m_is_parsed p then Inl (LogicError ''Nothing parsed, no arguments are available.'')
      else bindR (find_argument p name) (\<lambda>k. arg_get T (arguments p ! k)))"

definition parser_present :: "cpp_type \<Rightarrow> ArgumentParser \<Rightarrow> string \<Rightarrow> arg_error + any_value option" where
  "parser_present T p name = bindR (find_argument p name) (\<lambda>k. arg_present T (arguments p ! k))"

definition is_used :: "ArgumentParser \<Rightarrow> string \<Rightarrow> arg_error + bool" where
  "is_used p name = bindR (find_argument p name) (\<lambda>k. Inr (m_is_used (arguments p ! k)))"

definition is_subcommand_used :: "ArgumentParser \<Rightarrow> string \<Rightarrow> arg_error + bool" where
  "is_subcommand_used p name =
     (case map_of (m_subparser_used p) name of Some b \<Rightarrow> Inr b | None \<Rightarrow> Inl (OutOfRange ''map::at''))"

definition at_subparser :: "ArgumentParser \<Rightarrow> string \<Rightarrow> arg_error + nat" where
  "at_subparser p name =
     (case map_of (m_subparser_map p) name of Some j \<Rightarrow> Inr j | None \<Rightarrow> Inl (LogicError (''No such subparser: '' @ name)))"

text \<open>\<open>operator bool\<close>.\<close>

definition parser_bool :: "ArgumentParser \<Rightarrow> bool" where
  "parser_bool p \<longleftrightarrow>
     m_is_parsed p \<and> (list_ex (\<lambda>(_, k). m_is_used (arguments p ! k)) (m_argument_map p) \<or> list_ex snd (m_subparser_used p))"

end
