(* ===== verification/Config.thy ===== *)
theory Config
  imports Argparse
begin

text \<open>
  The configurations of the two programs, \<^verbatim>\<open>include/Config.h\<close> and \<^verbatim>\<open>src/comm/Config.cc\<close>. An exception that nobody catches ends
  the program (\<open>ErrExit ''std::terminate''\<close>); \<^verbatim>\<open>--help\<close> and \<^verbatim>\<open>--version\<close> end it with \<open>ErrExit\<close> and the text
  that was printed.
\<close>

section \<open>State and defaults\<close>

record ServerConfig =
  scfg_port :: int
  scfg_thread_num :: nat
  scfg_queue_size :: nat

record ClientConfig =
  ccfg_server_addr :: string
  ccfg_port :: int
  ccfg_op :: char
  ccfg_file_path :: string
  ccfg_client_id :: int

definition ServerConfig_new :: ServerConfig where
  "ServerConfig_new = \<lparr>scfg_port = 12345, scfg_thread_num = 8, scfg_queue_size = 20\<rparr>"

definition ClientConfig_new :: "char \<Rightarrow> int \<Rightarrow> ClientConfig" where
  "ClientConfig_new uninit_op uninit_id =
     \<lparr>ccfg_server_addr = ''127.0.0.1'', ccfg_port = 12345, ccfg_op = uninit_op, ccfg_file_path = [], ccfg_client_id = uninit_id\<rparr>"

text \<open>The server's \<open>parse_args\<close> has an empty body: its command line is ignored.\<close>

definition ServerConfig_parse_args :: "string list \<Rightarrow> ServerConfig \<Rightarrow> ServerConfig" where
  "ServerConfig_parse_args argv cfg = cfg"

section \<open>std::stoi\<close>

definition stoi :: "string \<Rightarrow> arg_error + int" where
  "stoi s =
     (let s = dropWhile is_space s;
          neg = (lookahead s = Some (CHR ''-''));
          s = (if neg \<or> lookahead s = Some (CHR ''+'') then drop 1 s else s);
          ds = takeWhile is_digit s;
          v = (if neg then - int (dec_value ds) else int (dec_value ds))
      in if ds = [] then Inl (InvalidArgument ''stoi'')
         else if v < - (2 ^ 31) \<or> 2 ^ 31 \<le> v then Inl (OutOfRange ''stoi'')
         else Inr v)"

section \<open>The client's command line\<close>

definition tabs :: string where
  "tabs = [CHR 0x09, CHR 0x09, CHR 0x09]"

definition client_parser :: ArgumentParser where
  "client_parser =
     add_argument [''-f'', ''--file''] (arg_required \<circ> arg_help ''(path of file to be uploaded) or (path of file to be saved)'')
       (add_argument [''-o'', ''--operation'']
         (arg_required \<circ> arg_help (''specifies operations to be done'' @ nl @ tabs @ '' u:upload the file'' @ nl @ tabs @ '' d:download the file''))
         (add_argument [''-i'', ''--identity''] (arg_required \<circ> arg_help ''client id'') (ArgumentParser_new 0 ''client'' ''1.0'' ArgsAll)))"

definition uncaught :: "arg_error + 'a \<Rightarrow> crash + 'a" where
  "uncaught r =
     (case r of
        Inr x \<Rightarrow> Inr x
      | Inl (ExitZero text) \<Rightarrow> Inl (ErrExit (''exit(0): '' @ text))
      | Inl Undefined \<Rightarrow> Inl BufferOverread
      | Inl _ \<Rightarrow> Inl (ErrExit ''std::terminate''))"

definition catch_runtime :: "arg_error + 'a \<Rightarrow> crash + 'a" where
  "catch_runtime r =
     (case r of
        Inl (RuntimeError _) \<Rightarrow> Inl (ErrExit ''parse arguments failed.'')
      | Inl (RangeError _) \<Rightarrow> Inl (ErrExit ''parse arguments failed.'')
      | _ \<Rightarrow> uncaught r)"

text \<open>\<open>program.get<std::string>\<close>.\<close>

fun the_text :: "any_value \<Rightarrow> string" where
  "the_text (AString s) = s"
| "the_text _ = []"

definition get_text :: "ArgumentParser \<Rightarrow> string \<Rightarrow> crash + string" where
  "get_text p name = bindR (uncaught (parser_get TString p name)) (\<lambda>v. Inr (the_text v))"

text \<open>Element 0 of an empty \<open>std::string\<close> is the terminating NUL.\<close>

definition ClientConfig_parse_args :: "string list \<Rightarrow> ClientConfig \<Rightarrow> crash + ClientConfig" where
  "ClientConfig_parse_args argv cfg =
     bindR (catch_runtime (parse_args [client_parser] 0 argv)) (\<lambda>ps.
     (let program = ps ! 0
      in bindR (get_text program ''--operation'') (\<lambda>op.
         bindR (get_text program ''--file'') (\<lambda>path.
         bindR (get_text program ''--identity'') (\<lambda>ident.
         bindR (uncaught (stoi ident)) (\<lambda>cid.
         Inr (cfg\<lparr>ccfg_op := (case op of [] \<Rightarrow> CHR 0x00 | c # _ \<Rightarrow> c), ccfg_file_path := path, ccfg_client_id := cid\<rparr>)))))))"

section \<open>Parsing options\<close>

text \<open>An option that takes one value and has not been used.\<close>

definition fresh_option :: "Argument \<Rightarrow> bool" where
  "fresh_option a \<longleftrightarrow> \<not> m_is_used a \<and> is_store (m_action a) \<and> num_args_min a = 1 \<and> num_args_max a = 1 \<and>
     \<not> m_accepts_optional_like_value a \<and> m_arg_prefix a = ''-'' \<and> m_values a = [] \<and> m_is_optional a"

definition took :: "string \<Rightarrow> string \<Rightarrow> Argument \<Rightarrow> Argument" where
  "took n v a = a\<lparr>m_is_used := True, m_used_name := n, m_values := [Some (AString v)]\<rparr>"

lemma consume_option:
  assumes "fresh_option a" "is_positional v ''-''"
  shows "consume_arg con (v # rest) n a = Inr (took n v a, rest)"
  using assms by (cases "m_action a") (simp_all add: consume_arg_def fresh_option_def took_def apply_action_def is_optional_def Let_def)

lemma parse_option:
  assumes "lookup_argument p n = Some k" "fresh_option (arguments p ! k)" "is_positional v ''-''"
    and "m_prefix_chars p = ''-''" "\<not> is_positional n ''-''"
  shows "parse_loop con (n # v # rest) pos p =
         parse_loop con rest pos (p\<lparr>arguments := (arguments p)[k := took n v (arguments p ! k)]\<rparr>)"
  using assms by (simp add: parse_step_def consume_at_def consume_option)

lemma lookup_argument_update [simp]:
  "lookup_argument (p\<lparr>arguments := as\<rparr>) n = lookup_argument p n" "lookup_argument (p\<lparr>m_is_parsed := b\<rparr>) n = lookup_argument p n"
  by (simp_all add: lookup_argument_def)

definition opt_args :: "(string \<times> string) list \<Rightarrow> string list" where
  "opt_args opts = concat (map (\<lambda>(n, v). [n, v]) opts)"

lemma parse_options:
  assumes "m_prefix_chars p = ''-''" "\<forall>(n, v) \<in> set opts. is_positional v ''-'' \<and> \<not> is_positional n ''-''"
    and "list_all2 (\<lambda>nv k. lookup_argument p (fst nv) = Some k \<and> fresh_option (arguments p ! k)) opts ks" "distinct ks"
  shows "parse_loop con (opt_args opts) pos p =
         Inr (p\<lparr>arguments := fold (\<lambda>(nv, k) as. as[k := took (fst nv) (snd nv) (arguments p ! k)]) (zip opts ks) (arguments p),
                m_is_parsed := True\<rparr>, None)"
  using assms
proof (induction opts arbitrary: ks p)
  case (Cons nv opts)
  obtain n v where nv: "nv = (n, v)" by (cases nv)
  obtain k ks' where ks: "ks = k # ks'" using Cons.prems(3) by (cases ks) auto
  let ?p = "p\<lparr>arguments := (arguments p)[k := took n v (arguments p ! k)]\<rparr>"
  have same: "arguments ?p ! j = arguments p ! j" if "j \<in> set ks'" for j
    using Cons.prems(4) that by (cases "j = k") (auto simp: ks)
  have rest: "list_all2 (\<lambda>nv k. lookup_argument ?p (fst nv) = Some k \<and> fresh_option (arguments ?p ! k)) opts ks'"
  proof -
    have "list_all2 (\<lambda>nv k. lookup_argument p (fst nv) = Some k \<and> fresh_option (arguments p ! k)) opts ks'"
      using Cons.prems(3) by (simp add: ks)
    then show ?thesis using same by (auto elim!: list.rel_mono_strong)
  qed
  have "fold (\<lambda>(nv, k) as. as[k := took (fst nv) (snd nv) (arguments ?p ! k)]) (zip opts ks') as =
        fold (\<lambda>(nv, k) as. as[k := took (fst nv) (snd nv) (arguments p ! k)]) (zip opts ks') as" for as
    using same by (intro fold_cong) (auto dest: set_zip_rightD)
  moreover have "parse_loop con (opt_args (nv # opts)) pos p = parse_loop con (opt_args opts) pos ?p"
    using parse_option [of p n k v con "opt_args opts" pos] Cons.prems by (simp add: nv ks opt_args_def)
  ultimately show ?case using Cons.IH [of ?p ks'] Cons.prems rest by (simp add: nv ks)
qed (simp add: opt_args_def)

lemma split_known: "lookup_argument p n \<noteq> None \<Longrightarrow> split_assign p n = [n]"
  by (auto simp: split_assign_def Let_def)

lemma split_value:
  assumes "is_positional v ''-''" "m_prefix_chars p = ''-''"
  shows "split_assign p v = [v]"
proof -
  have "\<not> starts_with_prefix p v"
    using assms by (auto simp: starts_with_prefix_def is_valid_prefix_char_def is_positional_def is_decimal_literal_def is_digit_def
        split: list.splits)
  then show ?thesis by (simp add: split_assign_def Let_def)
qed

lemma preprocess_options:
  assumes "m_prefix_chars p = ''-''" "\<forall>(n, v) \<in> set opts. is_positional v ''-'' \<and> lookup_argument p n \<noteq> None"
  shows "concat (map (split_assign p) (opt_args opts)) = opt_args opts"
  using assms(2) by (induction opts) (auto simp: opt_args_def split_value [OF _ assms(1)] split_known)

lemma validate_all_iff: "validate_all as = Inr () \<longleftrightarrow> (\<forall>a \<in> set as. validate a = Inr ())"
  by (induction as) (auto simp: bindR_eq_Inr_iff)

lemma validate_error: "validate a \<noteq> Inr () \<Longrightarrow> \<exists>m. validate a = Inl (RuntimeError m)"
  by (cases "m_is_optional a") (auto simp: validate_def required_not_used_error_def required_no_value_error_def nargs_range_error_def split: if_splits)

lemma validate_all_error: "\<exists>a \<in> set as. validate a \<noteq> Inr () \<Longrightarrow> \<exists>m. validate_all as = Inl (RuntimeError m)"
proof (induction as)
  case (Cons a as)
  then show ?case using validate_error [of a] by (cases "validate a = Inr ()") auto
qed simp

lemma validate_took: "fresh_option a \<Longrightarrow> validate (took n v a) = Inr ()"
  by (simp add: validate_def took_def fresh_option_def)

section \<open>The client's options\<close>

lemma client_parser_facts:
  "m_prefix_chars client_parser = ''-''" "m_program_name client_parser = ''client''" "m_positional_arguments client_parser = []"
  "length (arguments client_parser) = 5" "set (map snd (m_argument_map client_parser)) = {0, 1, 2, 3, 4}"
  by code_simp+

definition option_of :: "string \<Rightarrow> nat option" where
  "option_of n =
     (if n \<in> set [''-i'', ''--identity''] then Some 2 else if n \<in> set [''-o'', ''--operation''] then Some 3
      else if n \<in> set [''-f'', ''--file''] then Some 4 else None)"

lemma client_options:
  assumes "option_of n = Some k"
  shows "lookup_argument client_parser n = Some k" "\<not> is_positional n ''-''" "k \<in> {2, 3, 4}"
proof -
  have m: "lookup_argument client_parser ''-i'' = Some 2" "lookup_argument client_parser ''--identity'' = Some 2"
    "lookup_argument client_parser ''-o'' = Some 3" "lookup_argument client_parser ''--operation'' = Some 3"
    "lookup_argument client_parser ''-f'' = Some 4" "lookup_argument client_parser ''--file'' = Some 4" by code_simp+
  have p: "\<not> is_positional ''-i'' ''-''" "\<not> is_positional ''--identity'' ''-''" "\<not> is_positional ''-o'' ''-''"
    "\<not> is_positional ''--operation'' ''-''" "\<not> is_positional ''-f'' ''-''" "\<not> is_positional ''--file'' ''-''" by code_simp+
  show "lookup_argument client_parser n = Some k" "\<not> is_positional n ''-''" "k \<in> {2, 3, 4}"
    using assms m p by (auto simp: option_of_def split: if_splits)
qed

lemma client_arguments:
  "k \<in> {2, 3, 4} \<Longrightarrow> fresh_option (arguments client_parser ! k) \<and> validate (arguments client_parser ! k) \<noteq> Inr ()"
  "k < 2 \<Longrightarrow> validate (arguments client_parser ! k) = Inr ()"
proof -
  have "fresh_option (arguments client_parser ! 2)" "fresh_option (arguments client_parser ! 3)" "fresh_option (arguments client_parser ! 4)"
    "validate (arguments client_parser ! 2) \<noteq> Inr ()" "validate (arguments client_parser ! 3) \<noteq> Inr ()"
    "validate (arguments client_parser ! 4) \<noteq> Inr ()" by code_simp+
  then show "k \<in> {2, 3, 4} \<Longrightarrow> fresh_option (arguments client_parser ! k) \<and> validate (arguments client_parser ! k) \<noteq> Inr ()" by auto
  have "validate (arguments client_parser ! 0) = Inr ()" "validate (arguments client_parser ! 1) = Inr ()" by code_simp+
  then show "k < 2 \<Longrightarrow> validate (arguments client_parser ! k) = Inr ()" by (auto simp: less_2_cases_iff)
qed


text \<open>The parser after the options \<open>opts\<close>, given once each.\<close>

definition parsed :: "(string \<times> string) list \<Rightarrow> nat list \<Rightarrow> Argument list" where
  "parsed opts ks =
     fold (\<lambda>(nv, k) as. as[k := took (fst nv) (snd nv) (arguments client_parser ! k)]) (zip opts ks) (arguments client_parser)"

lemma fold_update_nth:
  assumes "distinct (map snd xs)" "length as = m" "k < m"
  shows "fold (\<lambda>(x, k) as. as[k := f x k]) xs as ! k = (case map_of (map (\<lambda>(x, k). (k, x)) xs) k of None \<Rightarrow> as ! k | Some x \<Rightarrow> f x k)"
  using assms(1,2)
proof (induction xs arbitrary: as)
  case (Cons y ys)
  obtain x j where y: "y = (x, j)" by (cases y)
  have "map_of (map (\<lambda>(x, k). (k, x)) ys) j = None"
    using Cons.prems(1) by (force simp: y map_of_eq_None_iff)
  then show ?case using Cons.IH [of "as[j := f x j]"] Cons.prems assms(3) by (auto simp: y split: option.splits)
qed simp

lemma client_parse:
  assumes "\<forall>(n, v) \<in> set opts. is_positional v ''-''" "map (option_of \<circ> fst) opts = map Some ks" "distinct ks"
    and prog: "split_assign client_parser prog = [prog]"
  shows "parse_own [client_parser] 0 (prog # opt_args opts) = Inr (client_parser\<lparr>arguments := parsed opts ks, m_is_parsed := True\<rparr>, None)"
    and "k < 5 \<Longrightarrow> parsed opts ks ! k = (case map_of (zip ks opts) k of None \<Rightarrow> arguments client_parser ! k
      | Some (n, v) \<Rightarrow> took n v (arguments client_parser ! k))" and "length (parsed opts ks) = 5"
proof -
  have len: "length opts = length ks" using assms(2) by (metis length_map)
  have opt: "option_of (fst (opts ! i)) = Some (ks ! i)" if "i < length ks" for i
    using assms(2) that len by (metis (no_types, lifting) comp_apply length_map nth_map)
  have known: "\<forall>(n, v) \<in> set opts. is_positional v ''-'' \<and> lookup_argument client_parser n \<noteq> None \<and> \<not> is_positional n ''-''"
    using assms(1) opt client_options(1,2) len by (fastforce simp: in_set_conv_nth)
  have "list_all2 (\<lambda>nv k. lookup_argument client_parser (fst nv) = Some k \<and> fresh_option (arguments client_parser ! k)) opts ks"
  proof -
    have "lookup_argument client_parser (fst (opts ! i)) = Some (ks ! i)" "fresh_option (arguments client_parser ! (ks ! i))"
      if "i < length ks" for i
      using client_options(1) [OF opt [OF that]] client_arguments(1) [OF client_options(3) [OF opt [OF that]]] by simp_all
    then show ?thesis using len by (simp add: list_all2_conv_all_nth)
  qed
  then have "parse_loop con (opt_args opts) [] client_parser = Inr (client_parser\<lparr>arguments := parsed opts ks, m_is_parsed := True\<rparr>, None)"
    for con using known client_parser_facts(1) assms(3) unfolding parsed_def by (intro parse_options) auto
  moreover have "concat (map (split_assign client_parser) (opt_args opts)) = opt_args opts"
    using known by (intro preprocess_options client_parser_facts) auto
  ultimately show "parse_own [client_parser] 0 (prog # opt_args opts) =
      Inr (client_parser\<lparr>arguments := parsed opts ks, m_is_parsed := True\<rparr>, None)"
    using prog by (simp add: parse_own_def set_program_name_def preprocess_arguments_def client_parser_facts)
  have "map (\<lambda>(x, k). (k, x)) (zip opts ks) = zip ks opts" by (rule nth_equalityI) (simp_all add: len)
  then show "k < 5 \<Longrightarrow> parsed opts ks ! k = (case map_of (zip ks opts) k of None \<Rightarrow> arguments client_parser ! k
      | Some (n, v) \<Rightarrow> took n v (arguments client_parser ! k))"
    using fold_update_nth [of "zip opts ks" "arguments client_parser" 5 k "\<lambda>nv k. took (fst nv) (snd nv) (arguments client_parser ! k)"]
      assms(3) len client_parser_facts(4) by (cases "map_of (zip ks opts) k") (simp_all add: parsed_def split_beta del: map_of_zip_is_None)
  have "length (fold (\<lambda>(nv, k) as. as[k := took (fst nv) (snd nv) (arguments client_parser ! k)]) xs as) = length as" for xs as
    by (induction xs arbitrary: as) auto
  then show "length (parsed opts ks) = 5" by (simp add: parsed_def client_parser_facts)
qed

text \<open>Whatever the order of the options, the parsed parser is good exactly when all three are there, and gives their values back.\<close>

text \<open>Every argument has a name, so the loop over the map validates all of them.\<close>

lemma validate_client:
  assumes "length as = 5"
  shows "(\<forall>k < 5. validate (as ! k) = Inr ()) \<Longrightarrow> validate_map (client_parser\<lparr>arguments := as, m_is_parsed := True\<rparr>) = Inr ()"
    and "k < 5 \<Longrightarrow> validate (as ! k) \<noteq> Inr () \<Longrightarrow>
      \<exists>m. validate_map (client_parser\<lparr>arguments := as, m_is_parsed := True\<rparr>) = Inl (RuntimeError m)"
proof -
  have keys: "snd ` set (m_argument_map client_parser) = {0, 1, 2, 3, 4}" using client_parser_facts(5) by simp
  show "validate_map (client_parser\<lparr>arguments := as, m_is_parsed := True\<rparr>) = Inr ()" if ok: "\<forall>k < 5. validate (as ! k) = Inr ()"
  proof -
    have "validate (as ! k) = Inr ()" if "(n, k) \<in> set (m_argument_map client_parser)" for n k
    proof -
      have "k \<in> snd ` set (m_argument_map client_parser)" using that by force
      then have "k < 5" unfolding keys by auto
      then show ?thesis using ok by blast
    qed
    then show ?thesis by (auto simp: validate_map_def validate_all_iff)
  qed
  assume k: "k < 5" "validate (as ! k) \<noteq> Inr ()"
  have "k \<in> snd ` set (m_argument_map client_parser)" using k(1) by (auto simp: keys)
  then obtain n where "(n, k) \<in> set (m_argument_map client_parser)" by auto
  then show "\<exists>m. validate_map (client_parser\<lparr>arguments := as, m_is_parsed := True\<rparr>) = Inl (RuntimeError m)"
    unfolding validate_map_def using k(2) by (intro validate_all_error) (auto intro!: bexI [of _ "(n, k)"])
qed

lemma client_validate:
  assumes "\<forall>(n, v) \<in> set opts. is_positional v ''-''" "map (option_of \<circ> fst) opts = map Some ks" "distinct ks"
    and "split_assign client_parser prog = [prog]"
  shows "{2, 3, 4} \<subseteq> set ks \<Longrightarrow> validate_map (client_parser\<lparr>arguments := parsed opts ks, m_is_parsed := True\<rparr>) = Inr ()"
    and "\<not> {2, 3, 4} \<subseteq> set ks \<Longrightarrow>
      \<exists>m. validate_map (client_parser\<lparr>arguments := parsed opts ks, m_is_parsed := True\<rparr>) = Inl (RuntimeError m)"
proof -
  have len: "length opts = length ks" using assms(2) by (metis length_map)
  note nth = client_parse(2) [OF assms]
  have dom: "map_of (zip ks opts) k = None \<longleftrightarrow> k \<notin> set ks" for k
    by (rule map_of_zip_is_None) (simp add: len)
  have given: "validate (parsed opts ks ! k) = Inr ()" if "k < 5" "k \<in> set ks" "k \<in> {2, 3, 4}" for k
    using that nth [of k] dom [of k] client_arguments(1) [of k] by (auto simp: validate_took split: prod.splits)
  have missing: "validate (parsed opts ks ! k) \<noteq> Inr ()" if "k \<notin> set ks" "k \<in> {2, 3, 4}" for k
    using that nth [of k] dom [of k] client_arguments(1) [of k] by auto
  have low: "validate (parsed opts ks ! k) = Inr ()" if "k < 2" for k
  proof -
    have "k \<notin> set ks"
    proof
      assume "k \<in> set ks"
      then have "Some k \<in> set (map (option_of \<circ> fst) opts)" by (simp add: assms(2))
      then obtain n where "option_of n = Some k" by auto
      then show False using client_options(3) [of n k] that by auto
    qed
    then show ?thesis using that nth [of k] dom [of k] client_arguments(2) [of k] by simp
  qed
  have "validate (parsed opts ks ! k) = Inr ()" if "{2, 3, 4} \<subseteq> set ks" "k < 5" for k
  proof (cases "k < 2")
    case False
    with that have "k = 2 \<or> k = 3 \<or> k = 4" by linarith
    then show ?thesis using given that by auto
  qed (simp add: low)
  then show "{2, 3, 4} \<subseteq> set ks \<Longrightarrow> validate_map (client_parser\<lparr>arguments := parsed opts ks, m_is_parsed := True\<rparr>) = Inr ()"
    using validate_client(1) [OF client_parse(3) [OF assms]] by blast
  show "\<exists>m. validate_map (client_parser\<lparr>arguments := parsed opts ks, m_is_parsed := True\<rparr>) = Inl (RuntimeError m)" if lacks: "\<not> {2, 3, 4} \<subseteq> set ks"
  proof -
    obtain k where k: "k \<in> {2, 3, 4}" "k \<notin> set ks" using lacks by (meson subsetI)
    then have "k < 5" by auto
    from validate_client(2) [OF client_parse(3) [OF assms] this missing [OF k(2,1)]] show ?thesis .
  qed
qed

section \<open>What the client's command line means\<close>

text \<open>
  A specification that does not mention the parser: the value of the option that \<open>k\<close> stands for, and the configuration
  that the three values give.
\<close>

definition given_value :: "(string \<times> string) list \<Rightarrow> nat \<Rightarrow> string option" where
  "given_value opts k = map_option snd (find (\<lambda>(n, v). option_of n = Some k) opts)"

definition client_reference :: "(string \<times> string) list \<Rightarrow> ClientConfig \<Rightarrow> crash + ClientConfig" where
  "client_reference opts cfg =
     (case (given_value opts 2, given_value opts 3, given_value opts 4) of
        (Some ident, Some op, Some path) \<Rightarrow>
          (case stoi ident of
             Inl _ \<Rightarrow> Inl (ErrExit ''std::terminate'')
           | Inr cid \<Rightarrow> Inr (cfg\<lparr>ccfg_op := (case op of [] \<Rightarrow> CHR 0x00 | c # _ \<Rightarrow> c), ccfg_file_path := path, ccfg_client_id := cid\<rparr>))
      | _ \<Rightarrow> Inl (ErrExit ''parse arguments failed.''))"

lemma given_value_map_of:
  assumes "map (option_of \<circ> fst) opts = map Some ks"
  shows "given_value opts k = map_option snd (map_of (zip ks opts) k)"
  using assms
proof (induction opts arbitrary: ks)
  case (Cons nv opts)
  then show ?case by (cases ks) (auto simp: given_value_def split_beta)
qed (simp add: given_value_def)

lemma given_value_iff:
  assumes "map (option_of \<circ> fst) opts = map Some ks"
  shows "given_value opts k \<noteq> None \<longleftrightarrow> k \<in> set ks"
proof -
  have "length ks = length opts" using assms by (metis length_map)
  then show ?thesis by (metis assms given_value_map_of map_of_zip_is_None option.map_disc_iff)
qed

lemma program_name_kept: "take 2 prog \<noteq> ''--'' \<Longrightarrow> split_assign client_parser prog = [prog]"
  by (auto simp: split_assign_def Let_def starts_with_prefix_def is_valid_prefix_char_def client_parser_facts numeral_2_eq_2
      split: list.splits if_splits)

lemma client_get:
  assumes "\<forall>(n, v) \<in> set opts. is_positional v ''-''" "map (option_of \<circ> fst) opts = map Some ks" "distinct ks"
    and "split_assign client_parser prog = [prog]"
    and "option_of name = Some k" "given_value opts k = Some v"
  shows "get_text (client_parser\<lparr>arguments := parsed opts ks, m_is_parsed := True\<rparr>) name = Inr v"
proof -
  obtain n where "map_of (zip ks opts) k = Some (n, v)"
    using assms(6) given_value_map_of [OF assms(2)] by auto
  moreover have "k < 5" using client_options(3) [OF assms(5)] by auto
  ultimately have "parsed opts ks ! k = took n v (arguments client_parser ! k)"
    using client_parse(2) [OF assms(1-4)] by simp
  then show ?thesis using client_options(1) [OF assms(5)]
    by (simp add: get_text_def uncaught_def parser_get_def find_argument_def arg_get_def any_cast_def took_def)
qed

lemma client_parse_reference:
  assumes "\<forall>(n, v) \<in> set opts. is_positional v ''-'' \<and> option_of n \<noteq> None" "distinct (map (option_of \<circ> fst) opts)"
    and "take 2 prog \<noteq> ''--''"
  shows "ClientConfig_parse_args (prog # opt_args opts) cfg = client_reference opts cfg"
proof -
  let ?ks = "map (the \<circ> option_of \<circ> fst) opts"
  have ks: "map (option_of \<circ> fst) opts = map Some ?ks" using assms(1) by auto
  have pre: "\<forall>(n, v) \<in> set opts. is_positional v ''-''" "map (option_of \<circ> fst) opts = map Some ?ks" "distinct ?ks"
    "split_assign client_parser prog = [prog]"
    using assms(1) ks assms(2) [unfolded ks] program_name_kept [OF assms(3)] distinct_map [of Some ?ks] by auto
  show ?thesis
  proof (cases "{2, 3, 4} \<subseteq> set ?ks")
    case True
    then obtain ident op path where v: "given_value opts 2 = Some ident" "given_value opts 3 = Some op" "given_value opts 4 = Some path"
      using given_value_iff [OF ks] by fastforce
    have "option_of ''--identity'' = Some 2" "option_of ''--operation'' = Some 3" "option_of ''--file'' = Some 4" by code_simp+
    note get = this [THEN client_get [OF pre]]
    have "parse_args [client_parser] 0 (prog # opt_args opts) = Inr [client_parser\<lparr>arguments := parsed opts ?ks, m_is_parsed := True\<rparr>]"
      using client_parse(1) [OF pre] client_validate(1) [OF pre True] by (simp add: parse_args.simps)
    then show ?thesis using v get
      by (cases "stoi ident") (auto simp: ClientConfig_parse_args_def client_reference_def catch_runtime_def uncaught_def stoi_def Let_def split: if_splits)
  next
    case False
    then have "given_value opts 2 = None \<or> given_value opts 3 = None \<or> given_value opts 4 = None"
      using given_value_iff [OF ks] by blast
    then show ?thesis using client_parse(1) [OF pre] client_validate(2) [OF pre False]
      by (auto simp: ClientConfig_parse_args_def client_reference_def parse_args.simps [of _ 0] catch_runtime_def split: option.splits)
  qed
qed

text \<open>
  C22: the client's command line. For every list of the options \<^verbatim>\<open>-i/--identity\<close>, \<^verbatim>\<open>-o/--operation\<close>, \<^verbatim>\<open>-f/--file\<close>, each at most
  once and in any order, with values that do not look like options, parsing agrees with the reference: the configuration
  has the number of the identity, the first character of the operation and the path when all three are given, the
  program exits with a message when one is missing, and it dies of an uncaught exception when the identity is not an \<open>int\<close>.
\<close>

theorem client_command_line:
  assumes "\<forall>(n, v) \<in> set opts. is_positional v ''-'' \<and> option_of n \<noteq> None" "distinct (map (option_of \<circ> fst) opts)"
    and "take 2 prog \<noteq> ''--''"
  shows "ClientConfig_parse_args (prog # opt_args opts) cfg = client_reference opts cfg"
  using assms by (rule client_parse_reference)

theorem client_command_line_witness:
  "ClientConfig_parse_args [''client'', ''-o'', ''upload'', ''--file'', ''/tmp/a.txt'', ''-i'', ''12''] (ClientConfig_new (CHR ''x'') 0) =
     Inr \<lparr>ccfg_server_addr = ''127.0.0.1'', ccfg_port = 12345, ccfg_op = CHR ''u'', ccfg_file_path = ''/tmp/a.txt'', ccfg_client_id = 12\<rparr> \<and>
   ClientConfig_parse_args [''client'', ''-o'', ''d'', ''-i'', ''12''] (ClientConfig_new (CHR ''x'') 0) = Inl (ErrExit ''parse arguments failed.'') \<and>
   ClientConfig_parse_args [''client'', ''-o'', ''d'', ''-f'', ''a'', ''-i'', ''me''] (ClientConfig_new (CHR ''x'') 0) = Inl (ErrExit ''std::terminate'')"
proof -
  let ?a = "[(''-o'', ''upload''), (''--file'', ''/tmp/a.txt''), (''-i'', ''12'')]" and ?b = "[(''-o'', ''d''), (''-i'', ''12'')]"
    and ?c = "[(''-o'', ''d''), (''-f'', ''a''), (''-i'', ''me'')]"
  have "\<forall>(n, v) \<in> set ?a. is_positional v ''-'' \<and> option_of n \<noteq> None" "distinct (map (option_of \<circ> fst) ?a)"
    "\<forall>(n, v) \<in> set ?b. is_positional v ''-'' \<and> option_of n \<noteq> None" "distinct (map (option_of \<circ> fst) ?b)"
    "\<forall>(n, v) \<in> set ?c. is_positional v ''-'' \<and> option_of n \<noteq> None" "distinct (map (option_of \<circ> fst) ?c)"
    "take 2 ''client'' \<noteq> ''--''" by code_simp+
  note run = client_command_line [OF this(1,2,7)] client_command_line [OF this(3,4,7)] client_command_line [OF this(5,6,7)]
  have v: "given_value ?a 2 = Some ''12''" "given_value ?a 3 = Some ''upload''" "given_value ?a 4 = Some ''/tmp/a.txt''"
    "given_value ?b 4 = None" "given_value ?c 2 = Some ''me''" "given_value ?c 3 = Some ''d''" "given_value ?c 4 = Some ''a''"
    "stoi ''12'' = Inr 12" "stoi ''me'' = Inl (InvalidArgument ''stoi'')" by code_simp+
  show ?thesis
    using run [where cfg = "ClientConfig_new (CHR ''x'') 0"]
    by (simp add: opt_args_def client_reference_def v ClientConfig_new_def split: option.splits)
qed

section \<open>The client's help\<close>

definition client_help :: string where
  "client_help =
     ''Usage: client [--help] [--version] --identity VAR --operation VAR --file VAR'' @ nl @ nl @
     ''Optional arguments:'' @ nl @
     ''  -h, --help     '' @ [CHR 0x09] @ ''shows help message and exits '' @ nl @
     ''  -v, --version  '' @ [CHR 0x09] @ ''prints version information and exits '' @ nl @
     ''  -i, --identity '' @ [CHR 0x09] @ ''client id [required]'' @ nl @
     ''  -o, --operation'' @ [CHR 0x09] @ ''specifies operations to be done'' @ nl @ tabs @ '' u:upload the file'' @ nl @ tabs @
       '' d:download the file [required]'' @ nl @
     ''  -f, --file     '' @ [CHR 0x09] @ ''(path of file to be uploaded) or (path of file to be saved) [required]'' @ nl"

text \<open>Whatever follows \<^verbatim>\<open>-h\<close> or \<^verbatim>\<open>--help\<close>, the client prints its options and ends.\<close>

lemma client_prints_help:
  assumes "h \<in> {''-h'', ''--help''}" "take 2 prog \<noteq> ''--''"
  shows "ClientConfig_parse_args (prog # h # rest) cfg = Inl (ErrExit (''exit(0): '' @ client_help))"
proof -
  have h: "lookup_argument client_parser h = Some 0" "\<not> is_positional h ''-''" "split_assign client_parser h = [h]"
  proof -
    have "lookup_argument client_parser ''-h'' = Some 0" "lookup_argument client_parser ''--help'' = Some 0" "\<not> is_positional ''-h'' ''-''"
      "\<not> is_positional ''--help'' ''-''" by code_simp+
    then show "lookup_argument client_parser h = Some 0" "\<not> is_positional h ''-''" using assms(1) by auto
    then show "split_assign client_parser h = [h]" by (intro split_known) simp
  qed
  have a: "\<not> m_is_used (arguments client_parser ! 0)" "num_args_max (arguments client_parser ! 0) = 0"
    "case m_action (arguments client_parser ! 0) of HelpAction k \<Rightarrow> k = 0 | _ \<Rightarrow> False" by code_simp+
  have printed: "printed_help (console_of [client_parser]) 0 = client_help" by code_simp
  have "consume_arg (console_of [client_parser]) args h (arguments client_parser ! 0) = Inl (ExitZero client_help)" for args
    using a printed by (auto simp: consume_arg_def call_action_def Let_def split: arg_action.splits)
  then have "parse_step (console_of [client_parser]) h args [] client_parser = Inl (ExitZero client_help)" for args
    using h by (simp add: parse_step_def consume_at_def client_parser_facts)
  then have "parse_own [client_parser] 0 (prog # h # rest) = Inl (ExitZero client_help)"
    using h(3) program_name_kept [OF assms(2)]
    by (simp add: parse_own_def preprocess_arguments_def set_program_name_def client_parser_facts)
  then show ?thesis
    by (simp add: ClientConfig_parse_args_def catch_runtime_def uncaught_def parse_args.simps [of "[client_parser]"])
qed

end
