(* ===== verification/Main_Programs.thy ===== *)
theory Main_Programs
  imports File_Store Served_Session Config
begin

text \<open>
  The two programs, \<^verbatim>\<open>src/app/client.cc\<close> and \<^verbatim>\<open>src/app/server.cc\<close>, from the command line to the disk, and what a restart of
  the server keeps. A \<open>host\<close> is what a program finds on its machine: which log files and downloads can be created, the time,
  whether a server listens at an address, and how the server sees the connection.
\<close>

section \<open>The client program\<close>

record host =
  h_creatable :: "string \<Rightarrow> bool"
  h_writable :: "string \<Rightarrow> bool"
  h_time :: tm
  h_listens :: "string \<Rightarrow> int \<Rightarrow> bool"
  h_sockfd :: int
  h_info :: ClientInfo_t

type_synonym client_disk = "string \<rightharpoonup> byte list"

definition connect_server :: "host \<Rightarrow> client \<Rightarrow> bool" where
  "connect_server h cl = h_listens h (cl_server_addr cl) (cl_port cl)"

text \<open>What the file stream of \<open>download_file\<close> leaves on the client's disk: nothing when the file could not be opened.\<close>

definition save_download :: "host \<Rightarrow> string \<Rightarrow> byte list option \<Rightarrow> client_disk \<Rightarrow> client_disk" where
  "save_download h path written files =
     (case written of None \<Rightarrow> files | Some bs \<Rightarrow> if h_writable h path then files(path \<mapsto> bs) else files)"

definition client_main ::
    "'db ext \<Rightarrow> mem \<Rightarrow> host \<Rightarrow> char \<Rightarrow> int \<Rightarrow> string list \<Rightarrow> client_disk \<Rightarrow> Logger \<times> fsys \<Rightarrow> 'db server \<Rightarrow>
     crash + client_disk \<times> (Logger \<times> fsys) \<times> 'db server" where
  "client_main ext malloc h uninit_op uninit_id argv files lg srv =
     bindR (ClientConfig_parse_args argv (ClientConfig_new uninit_op uninit_id)) (\<lambda>cfg.
     (let cl = DedupClient_new malloc (of_int (ccfg_client_id cfg)) (ccfg_server_addr cfg) (ccfg_port cfg) (ccfg_op cfg)
                 (ccfg_file_path cfg)
      in bindR (logger_init (h_creatable h) (h_time h) ''logs/ClientLog'' CLOSELOG (of_nat LOGLINES) 100 lg) (\<lambda>lg.
         bindR (guardR (ErrExit ''connect to server failed'') (connect_server h cl)) (\<lambda>_.
         bindR (session ext malloc (h_sockfd h) (h_info h) (files (cl_file_path cl)) cl srv) (\<lambda>(_, written, (srv, _, _), _).
         Inr (save_download h (cl_file_path cl) written files, lg, srv))))))"

section \<open>The server program\<close>

text \<open>
  \<open>db\<close>, \<open>containers\<close>, \<open>recipes\<close> and \<open>drawn\<close> are what earlier runs left (see \<open>DedupServer_new\<close>); \<open>ws\<close> are the results of
  \<open>epoll_wait\<close>. The steps of the workers between them are \<open>worker_fetch\<close> and \<open>worker_receive\<close>.
\<close>

definition server_start ::
    "(nat \<Rightarrow> nat option) \<Rightarrow> (nat \<Rightarrow> bool) \<Rightarrow> host \<Rightarrow> int \<Rightarrow> string list \<Rightarrow> Logger \<times> fsys \<Rightarrow> 'db \<Rightarrow> (string \<rightharpoonup> byte list) \<Rightarrow>
     (string \<rightharpoonup> byte list) \<Rightarrow> nat \<Rightarrow> crash + 'db loop \<times> Logger \<times> fsys" where
  "server_start mysql_init mysql_real_connect h listenfd argv lg db containers recipes drawn =
     (let cfg = ServerConfig_parse_args argv ServerConfig_new
      in bindR (DedupServer_new mysql_init mysql_real_connect (scfg_thread_num cfg) (scfg_queue_size cfg) db containers recipes drawn)
           (\<lambda>L. server_init (h_creatable h) (h_time h) listenfd L lg))"

definition server_main ::
    "'db ext \<Rightarrow> (nat \<Rightarrow> nat option) \<Rightarrow> (nat \<Rightarrow> bool) \<Rightarrow> host \<Rightarrow> int \<Rightarrow> string list \<Rightarrow> wait_result list \<Rightarrow> Logger \<times> fsys \<Rightarrow> 'db \<Rightarrow>
     (string \<rightharpoonup> byte list) \<Rightarrow> (string \<rightharpoonup> byte list) \<Rightarrow> nat \<Rightarrow> crash + 'db loop \<times> Logger \<times> fsys" where
  "server_main ext mysql_init mysql_real_connect h listenfd argv ws lg db containers recipes drawn =
     bindR (server_start mysql_init mysql_real_connect h listenfd argv lg db containers recipes drawn) (\<lambda>(L, lg).
     bindR (server_run ext ws L) (\<lambda>L. Inr (L, lg)))"

section \<open>The client program performs its command\<close>

definition command_of :: "string \<Rightarrow> int \<Rightarrow> string \<Rightarrow> byte list \<Rightarrow> command" where
  "command_of op ident path bs = (if hd op = CHR ''u'' then Upload (of_int ident) path bs else Download (of_int ident) path)"

lemma client_reference_given:
  assumes "given_value opts 2 = Some ident" "given_value opts 3 = Some op" "given_value opts 4 = Some path" "stoi ident = Inr cid" "op \<noteq> []"
  shows "client_reference opts cfg = Inr (cfg\<lparr>ccfg_op := hd op, ccfg_file_path := path, ccfg_client_id := cid\<rparr>)"
  using assms by (auto simp: client_reference_def neq_Nil_conv)

lemma client_main_session:
  assumes "ClientConfig_parse_args argv (ClientConfig_new uop uid) =
      Inr ((ClientConfig_new uop uid)\<lparr>ccfg_op := op, ccfg_file_path := path, ccfg_client_id := cid\<rparr>)"
    and "logger_init (h_creatable h) (h_time h) ''logs/ClientLog'' CLOSELOG (of_nat LOGLINES) 100 lg = Inr lg'"
    and "h_listens h ''127.0.0.1'' 12345"
  shows "client_main ext malloc h uop uid argv files lg srv =
     bindR (session ext malloc (h_sockfd h) (h_info h) (files path) (client_of malloc (of_int cid) op path) srv)
       (\<lambda>(_, written, (srv, _, _), _). Inr (save_download h path written files, lg', srv))"
  using assms by (simp add: client_main_def client_of_def connect_server_def ClientConfig_new_def DedupClient_new_def Let_def)

lemma session_download_content:
  "cl_op cl = CHR ''d'' \<Longrightarrow> session ext malloc sockfd info content cl srv = session ext malloc sockfd info None cl srv"
  by (simp add: session_def client_run_def)

lemma session_of_command:
  assumes "op \<noteq> []" "hd op \<in> {CHR ''u'', CHR ''d''}" "hd op = CHR ''u'' \<Longrightarrow> content = Some bs"
  shows "run_command ext malloc sockfd info (command_of op cid path bs) srv =
     bindR (session ext malloc sockfd info content (client_of malloc (of_int cid) (hd op) path) srv)
       (\<lambda>(_, written, (srv, _, _), _). Inr (srv, written))"
  using assms session_download_content [of "client_of malloc (of_int cid) (CHR ''d'') path" ext malloc sockfd info content srv]
  by (auto simp: run_command_def command_of_def)

lemma command_session:
  assumes "op \<noteq> []" "hd op \<in> {CHR ''u'', CHR ''d''}" "hd op = CHR ''u'' \<Longrightarrow> content = Some bs"
    and "run_command ext malloc sockfd info (command_of op cid path bs) srv = Inr (srv', out)"
  shows "\<exists>cl' c m inbox. session ext malloc sockfd info content (client_of malloc (of_int cid) (hd op) path) srv =
           Inr (cl', out, (srv', c, m), inbox)"
  using assms(4) session_of_command [of op content bs ext malloc sockfd info cid path srv, OF assms(1-3)]
  by (cases "session ext malloc sockfd info content (client_of malloc (of_int cid) (hd op) path) srv") auto

text \<open>
  C7: the client program does what its command line says. Given an identity that is a number, an operation that starts with
  u or d and a file, in any order and in the short or the long form, the program ends without a crash, the server
  represents the table after the upload or download, and the disk of the client changes only by a download, whose file
  has exactly the content the table has for it. When the table has none, the file is left empty.
\<close>

theorem client_program_refines:
  assumes "\<forall>(n, v) \<in> set opts. is_positional v ''-'' \<and> option_of n \<noteq> None" "distinct (map (option_of \<circ> fst) opts)"
    and "take 2 prog \<noteq> ''--''"
    and vals: "given_value opts 2 = Some ident" "given_value opts 3 = Some op" "given_value opts 4 = Some path" "stoi ident = Inr cid"
      "op \<noteq> []" and op: "hd op \<in> {CHR ''u'', CHR ''d''}"
    and "logger_init (h_creatable h) (h_time h) ''logs/ClientLog'' CLOSELOG (of_nat LOGLINES) 100 lg = Inr lg'"
    and "h_listens h ''127.0.0.1'' 12345" "h_writable h path"
    and content: "hd op = CHR ''u'' \<Longrightarrow> files path = Some bs"
    and rep: "represents ext N C rows same K (cost (command_of op cid path bs) + k) srv table"
    and "names_ok ext malloc same K" "command_ok K C (command_of op cid path bs)"
  shows "\<exists>srv'. client_main ext malloc h uop uid (prog # opt_args opts) files lg srv =
           Inr (case snd (spec_command (command_of op cid path bs) table) of None \<Rightarrow> files | Some out \<Rightarrow> files(path \<mapsto> out), lg', srv') \<and>
         represents ext N C rows same K k srv' (fst (spec_command (command_of op cid path bs) table))"
proof -
  obtain srv' where run: "run_command ext malloc (h_sockfd h) (h_info h) (command_of op cid path bs) srv =
      Inr (srv', snd (spec_command (command_of op cid path bs) table))"
    and rep': "represents ext N C rows same K k srv' (fst (spec_command (command_of op cid path bs) table))"
    using command_refines [OF rep assms(15,16)] by blast
  have "ClientConfig_parse_args (prog # opt_args opts) (ClientConfig_new uop uid) =
      Inr ((ClientConfig_new uop uid)\<lparr>ccfg_op := hd op, ccfg_file_path := path, ccfg_client_id := cid\<rparr>)"
    using client_parse_reference [OF assms(1-3)] client_reference_given [OF vals] by simp
  note main = client_main_session [OF this assms(10,11)]
  obtain cl' c m inbox where "session ext malloc (h_sockfd h) (h_info h) (files path) (client_of malloc (of_int cid) (hd op) path) srv =
      Inr (cl', snd (spec_command (command_of op cid path bs) table), (srv', c, m), inbox)"
    using command_session [OF vals(5) op content run] by blast
  then show ?thesis using rep' assms(12) by (auto simp: main save_download_def split: option.splits)
qed

definition demo_host :: host where
  "demo_host = \<lparr>h_creatable = (\<lambda>_. True), h_writable = (\<lambda>_. True), h_time = demo_tm,
     h_listens = (\<lambda>addr port. addr = ''127.0.0.1'' \<and> port = 12345), h_sockfd = 5, h_info = ClientInfo_new 7 ''10.0.0.1'' 4000\<rparr>"

lemma demo_log:
  assumes "name \<in> {''logs/ClientLog'', ''logs/ServerLog''}"
  obtains lg' where "logger_init (h_creatable demo_host) (h_time demo_host) name CLOSELOG (of_nat LOGLINES) 100
    (Logger_instance, Map.empty) = Inr lg'"
proof -
  have "dir_part ''logs/ClientLog'' = ''logs/''" "name_part ''logs/ClientLog'' = ''ClientLog''"
    "dir_part ''logs/ServerLog'' = ''logs/''" "name_part ''logs/ServerLog'' = ''ServerLog''" by code_simp+
  moreover have "length (day_path ''logs/'' demo_tm ''ClientLog'') + 1 \<le> 256" "length (day_path ''logs/'' demo_tm ''ServerLog'') + 1 \<le> 256"
    by code_simp+
  ultimately show ?thesis
    using that assms by (auto simp: logger_init_def demo_host_def Let_def split_beta Logger_instance_def with_stream_def)
qed

theorem client_program_refines_witness:
  "\<exists>lg srv1 srv2. client_main demo_ext (\<lambda>_. 0) demo_host (CHR ''x'') 0 [''client'', ''-i'', ''1'', ''-o'', ''upload'', ''-f'', ''a'']
       [''a'' \<mapsto> [1, 2, 3]] (Logger_instance, Map.empty) demo_server = Inr ([''a'' \<mapsto> [1, 2, 3]], lg, srv1) \<and>
     client_main demo_ext (\<lambda>_. 0) demo_host (CHR ''x'') 0 [''client'', ''--file'', ''/tmp/a'', ''-o'', ''d'', ''-i'', ''1'']
       Map.empty (Logger_instance, Map.empty) srv1 = Inr ([''/tmp/a'' \<mapsto> [1, 2, 3]], lg, srv2)"
proof -
  let ?up = "[(''-i'', ''1''), (''-o'', ''upload''), (''-f'', ''a'')]" and ?down = "[(''--file'', ''/tmp/a''), (''-o'', ''d''), (''-i'', ''1'')]"
  obtain lg where lg: "logger_init (h_creatable demo_host) (h_time demo_host) ''logs/ClientLog'' CLOSELOG (of_nat LOGLINES) 100
    (Logger_instance, Map.empty) = Inr lg" by (rule demo_log [of "''logs/ClientLog''"]) simp
  have opts: "\<forall>(n, v) \<in> set ?up. is_positional v ''-'' \<and> option_of n \<noteq> None" "distinct (map (option_of \<circ> fst) ?up)"
    "\<forall>(n, v) \<in> set ?down. is_positional v ''-'' \<and> option_of n \<noteq> None" "distinct (map (option_of \<circ> fst) ?down)"
    "take 2 ''client'' \<noteq> ''--''" by code_simp+
  have vals: "given_value ?up 2 = Some ''1''" "given_value ?up 3 = Some ''upload''" "given_value ?up 4 = Some ''a''"
    "given_value ?down 2 = Some ''1''" "given_value ?down 3 = Some ''d''" "given_value ?down 4 = Some ''/tmp/a''" "stoi ''1'' = Inr 1"
    by code_simp+
  have names: "get_file_name ''a'' = ''a''" "get_file_name ''/tmp/a'' = ''a''" by code_simp+
  have chunks: "chunks_of [1, 2, 3 :: byte] = [[1, 2, 3]]" by (simp add: chunks_of_short config_values)
  have host: "h_listens demo_host ''127.0.0.1'' 12345" "h_writable demo_host path" for path by (simp_all add: demo_host_def)
  have rep: "represents demo_ext 60 demo_chunks sql_demo_rows (=) demo_names (cost (command_of ''upload'' 1 ''a'' [1, 2, 3]) + 1) demo_server Map.empty"
    by (rule demo_represents) (simp add: command_of_def chunks)
  have up: "command_ok demo_names demo_chunks (command_of ''upload'' 1 ''a'' [1, 2, 3])"
    "command_ok demo_names demo_chunks (command_of ''d'' 1 ''/tmp/a'' [])"
    by (simp_all add: command_of_def names chunks demo_names_def demo_chunks_def)
  obtain srv1 where one: "client_main demo_ext (\<lambda>_. 0) demo_host (CHR ''x'') 0 (''client'' # opt_args ?up)
       [''a'' \<mapsto> [1, 2, 3]] (Logger_instance, Map.empty) demo_server = Inr ([''a'' \<mapsto> [1, 2, 3]], lg, srv1)"
    and rep1: "represents demo_ext 60 demo_chunks sql_demo_rows (=) demo_names (cost (command_of ''d'' 1 ''/tmp/a'' []) + 0) srv1
      [(1, ''a'') \<mapsto> [1, 2, 3]]"
    using client_program_refines [OF opts(1,2,5) vals(1-3,7) _ _ lg host _ rep demo_names_ok up(1), where files = "[''a'' \<mapsto> [1, 2, 3]]"]
    by (auto simp: command_of_def names Let_def)
  have "\<exists>srv2. client_main demo_ext (\<lambda>_. 0) demo_host (CHR ''x'') 0 (''client'' # opt_args ?down)
       Map.empty (Logger_instance, Map.empty) srv1 = Inr ([''/tmp/a'' \<mapsto> [1, 2, 3]], lg, srv2)"
    using client_program_refines [OF opts(3,4,5) vals(4-6,7) _ _ lg host _ rep1 demo_names_ok up(2), where files = Map.empty]
    by (auto simp: command_of_def names Let_def)
  then show ?thesis using one by (auto simp: opt_args_def)
qed

section \<open>Restarting the server\<close>

lemma server_start_state:
  assumes "server_start mysql_init mysql_real_connect h listenfd argv lg db containers recipes drawn = Inr (L, lg')"
    and "inj_on mysql_init {..<8}"
  obtains conns where "m_server L = \<lparr>m_all_chunks = Map.empty, m_mysqlPool = conns, m_db = db, containers_dir = containers,
      recipes_dir = recipes, uuid_count = drawn\<rparr>" "pool_ok conns" "m_connpool conns \<noteq> []"
    "m_clients L = Map.empty" "m_threadPool L = ThreadPool_new 8 20"
proof -
  obtain conns where conns: "MysqlConnPool_new mysql_init mysql_real_connect 8 = Inr conns"
    and L: "m_server L = \<lparr>m_all_chunks = Map.empty, m_mysqlPool = conns, m_db = db, containers_dir = containers,
      recipes_dir = recipes, uuid_count = drawn\<rparr>" "m_clients L = Map.empty" "m_threadPool L = ThreadPool_new 8 20"
    using assms(1)
    by (auto simp: server_start_def DedupServer_new_def server_init_def ServerConfig_parse_args_def ServerConfig_new_def Let_def bindR_eq_Inr_iff)
  have "pool_ok conns" "length (m_connpool conns) = 8" using MysqlConnPool_new_ok [OF conns assms(2)] by auto
  then show ?thesis using that [OF L(1) _ _ L(2,3)] by force
qed

lemma restart_represents:
  assumes "represents ext N C rows same K k srv table" "m_db srv' = m_db srv" "containers_dir srv' = containers_dir srv"
    and "recipes_dir srv' = recipes_dir srv" "uuid_count srv' = uuid_count srv" "m_all_chunks srv' = Map.empty"
    and "pool_ok (m_mysqlPool srv')" "m_connpool (m_mysqlPool srv') \<noteq> []"
  shows "represents ext N C rows same K k srv' table"
proof -
  have "on_disk n rs srv' = on_disk n rs srv" for n rs using assms by (simp add: on_disk_def)
  then show ?thesis using assms by (simp add: represents_def server_ok_def db_ready_def index_sound_def cong: option.case_cong)
qed

text \<open>
  C9: a restart of the server loses no file. After the old server is gone and a new one is started on what is left in the database and
  on the disk, every history of uploads and downloads gives the results of the same table as before. The index of
  chunks is empty, so what is stored already is stored again when it is uploaded again.
\<close>

theorem restart_keeps_files:
  assumes rep: "represents ext N C rows same K (sum_list (map cost cmds) + k) srv table"
    and start: "server_start mysql_init mysql_real_connect h listenfd argv lg (m_db srv) (containers_dir srv) (recipes_dir srv)
      (uuid_count srv) = Inr (L, lg')" "inj_on mysql_init {..<8}"
    and cmds: "names_ok ext malloc same K" "\<forall>cmd \<in> set cmds. command_ok K C cmd"
  shows "(\<exists>srv'. run_commands ext malloc sockfd info cmds (m_server L) = Inr (srv', snd (spec_run cmds table)) \<and>
           represents ext N C rows same K k srv' (fst (spec_run cmds table))) \<and> m_all_chunks (m_server L) = Map.empty"
proof -
  obtain conns where L: "m_server L = \<lparr>m_all_chunks = Map.empty, m_mysqlPool = conns, m_db = m_db srv, containers_dir = containers_dir srv,
      recipes_dir = recipes_dir srv, uuid_count = uuid_count srv\<rparr>" "pool_ok conns" "m_connpool conns \<noteq> []"
    using server_start_state [OF start] by metis
  have "represents ext N C rows same K (sum_list (map cost cmds) + k) (m_server L) table"
    by (rule restart_represents [OF rep]) (simp_all add: L)
  then show ?thesis using run_commands_refine [OF _ cmds] by (simp add: L(1))
qed

lemma demo_start:
  obtains L lg' where "server_start Some (\<lambda>_. True) demo_host 3 [] (Logger_instance, Map.empty) db containers recipes drawn = Inr (L, lg')"
proof -
  obtain lg where lg: "logger_init (h_creatable demo_host) (h_time demo_host) ''logs/ServerLog'' CLOSELOG (of_nat LOGLINES) 100
    (Logger_instance, Map.empty) = Inr lg" by (rule demo_log [of "''logs/ServerLog''"]) simp
  obtain conns where "MysqlConnPool_new Some (\<lambda>_. True) 8 = Inr conns" by (simp add: MysqlConnPool_new_def eval_nat_numeral)
  then show ?thesis using that lg
    by (auto simp: server_start_def DedupServer_new_def server_init_def Let_def)
qed

theorem restart_keeps_files_witness:
  "\<exists>srv1 L lg srv2. run_commands demo_ext (\<lambda>_. 0) 5 (ClientInfo_new 7 ''10.0.0.1'' 4000) [Upload 1 ''a'' [1, 2, 3]] demo_server = Inr (srv1, [None]) \<and>
     server_start Some (\<lambda>_. True) demo_host 3 [] (Logger_instance, Map.empty) (m_db srv1) (containers_dir srv1) (recipes_dir srv1)
       (uuid_count srv1) = Inr (L, lg) \<and>
     run_commands demo_ext (\<lambda>_. 0) 5 (ClientInfo_new 7 ''10.0.0.1'' 4000) [Download 1 ''a'', Download 1 ''b''] (m_server L) =
       Inr (srv2, [Some [1, 2, 3], Some []])"
proof -
  let ?info = "ClientInfo_new 7 ''10.0.0.1'' 4000" and ?up = "[Upload 1 ''a'' [1, 2, 3]]" and ?down = "[Download 1 ''a'', Download 1 ''b'']"
  have gfn: "get_file_name ''a'' = ''a''" "get_file_name ''b'' = ''b''" by code_simp+
  have ch: "chunks_of [1, 2, 3 :: byte] = [[1, 2, 3]]" by (simp add: chunks_of_short config_values)
  have ok: "\<forall>cmd \<in> set ?up. command_ok demo_names demo_chunks cmd" "\<forall>cmd \<in> set ?down. command_ok demo_names demo_chunks cmd"
    by (simp_all add: gfn ch demo_names_def demo_chunks_def)
  have "represents demo_ext 60 demo_chunks sql_demo_rows (=) demo_names (sum_list (map cost ?up) + (sum_list (map cost ?down) + 0)) demo_server Map.empty"
    by (rule demo_represents) (simp add: ch)
  from run_commands_refine [OF this demo_names_ok ok(1)] obtain srv1
    where one: "run_commands demo_ext (\<lambda>_. 0) 5 ?info ?up demo_server = Inr (srv1, [None])"
      and rep: "represents demo_ext 60 demo_chunks sql_demo_rows (=) demo_names (sum_list (map cost ?down) + 0) srv1 [(1, ''a'') \<mapsto> [1, 2, 3]]"
    by (auto simp: gfn Let_def)
  obtain L lg where start: "server_start Some (\<lambda>_. True) demo_host 3 [] (Logger_instance, Map.empty) (m_db srv1) (containers_dir srv1)
      (recipes_dir srv1) (uuid_count srv1) = Inr (L, lg)" by (rule demo_start)
  have "\<exists>srv2. run_commands demo_ext (\<lambda>_. 0) 5 ?info ?down (m_server L) = Inr (srv2, [Some [1, 2, 3], Some []])"
    using restart_keeps_files [OF rep start _ demo_names_ok ok(2)] by (auto simp: gfn Let_def)
  with one start show ?thesis by blast
qed

end
