(* ===== verification/Argparse_Commands.thy ===== *)
theory Argparse_Commands
  imports Argparse "HOL-Library.Sublist"
begin

text \<open>
  What the parser of \<^verbatim>\<open>include/argparse.hpp\<close> guarantees: that its addresses stay valid, that the loop which keeps unknown arguments agrees with
  the strict one, what happens to the arguments around a sub-command, that a printed integer is read back, and the columns of the help output.
\<close>

section \<open>Addresses\<close>

definition parser_ok :: "nat \<Rightarrow> ArgumentParser \<Rightarrow> bool" where
  "parser_ok n p \<longleftrightarrow>
     (\<forall>k \<in> set (m_positional_arguments p). k < length (arguments p)) \<and> (\<forall>k \<in> set (m_optional_arguments p). k < length (arguments p)) \<and>
     (\<forall>e \<in> set (m_argument_map p). snd e < length (arguments p)) \<and>
     (\<forall>j \<in> set (m_subparsers p). j < n) \<and> (\<forall>e \<in> set (m_subparser_map p). snd e < n)"

definition parsers_ok :: "parsers \<Rightarrow> bool" where
  "parsers_ok ps \<longleftrightarrow> (\<forall>p \<in> set ps. parser_ok (length ps) p)"

lemma insert_or_assign_all: "\<forall>e \<in> set m. P (snd e) \<Longrightarrow> P k \<Longrightarrow> \<forall>e \<in> set (insert_or_assign n k m). P (snd e)"
  by (induction n k m rule: insert_or_assign.induct) auto

lemma fold_insert_all:
  "\<forall>e \<in> set m. P (snd e) \<Longrightarrow> \<forall>x \<in> set xs. P (g x) \<Longrightarrow> \<forall>e \<in> set (fold (\<lambda>x m. insert_or_assign (f x) (g x) m) xs m). P (snd e)"
proof (induction xs arbitrary: m)
  case (Cons x xs)
  have "\<forall>e \<in> set (insert_or_assign (f x) (g x) m). P (snd e)" using Cons.prems by (intro insert_or_assign_all) simp_all
  then show ?case using Cons.IH Cons.prems(2) by simp
qed simp

lemma index_argument_keeps [simp]:
  "arguments (index_argument k p) = arguments p" "m_positional_arguments (index_argument k p) = m_positional_arguments p"
  "m_optional_arguments (index_argument k p) = m_optional_arguments p" "m_subparsers (index_argument k p) = m_subparsers p"
  "m_subparser_map (index_argument k p) = m_subparser_map p"
  by (simp_all add: index_argument_def)

lemma index_argument_ok: "parser_ok n p \<Longrightarrow> k < length (arguments p) \<Longrightarrow> parser_ok n (index_argument k p)"
proof -
  assume "parser_ok n p" "k < length (arguments p)"
  moreover from this have "\<forall>e \<in> set (m_argument_map (index_argument k p)). snd e < length (arguments p)"
    unfolding index_argument_def by (simp, intro fold_insert_all) (simp_all add: parser_ok_def)
  ultimately show ?thesis unfolding parser_ok_def by simp
qed

lemma parser_ok_arguments: "parser_ok n p \<Longrightarrow> length (arguments p) \<le> length as \<Longrightarrow> parser_ok n (p\<lparr>arguments := as\<rparr>)"
  by (simp add: parser_ok_def) (meson less_le_trans)

text \<open>A new argument at the end, listed and indexed.\<close>

definition list_argument :: "bool \<Rightarrow> Argument \<Rightarrow> ArgumentParser \<Rightarrow> ArgumentParser" where
  "list_argument positional a p =
     (let k = length (arguments p); p = p\<lparr>arguments := arguments p @ [a]\<rparr>
      in index_argument k (if positional then p\<lparr>m_positional_arguments := m_positional_arguments p @ [k]\<rparr>
                           else p\<lparr>m_optional_arguments := m_optional_arguments p @ [k]\<rparr>))"

lemma list_argument_ok: "parser_ok n p \<Longrightarrow> parser_ok n (list_argument b a p)"
  using parser_ok_arguments [of n p "arguments p @ [a]"]
  unfolding list_argument_def Let_def by (intro index_argument_ok) (auto simp: parser_ok_def)

lemma add_argument_list:
  "add_argument names f p =
     (let a = Argument_new (m_prefix_chars p) names; q = list_argument (\<not> m_is_optional a) a p; k = length (arguments p)
      in q\<lparr>arguments := (arguments q)[k := f (arguments q ! k)]\<rparr>)"
  by (simp add: add_argument_def list_argument_def Let_def)

lemma add_argument_ok: "parser_ok n p \<Longrightarrow> parser_ok n (add_argument names f p)"
  by (simp add: add_argument_list Let_def list_argument_ok parser_ok_arguments)

lemma add_parent_argument_ok: "parser_ok n p \<Longrightarrow> parser_ok n (add_parent_argument b a p)"
  using list_argument_ok [of n p b a] by (simp add: add_parent_argument_def list_argument_def Let_def)

lemma fold_ok: "P q \<Longrightarrow> (\<And>x q. x \<in> set xs \<Longrightarrow> P q \<Longrightarrow> P (f x q)) \<Longrightarrow> P (fold f xs q)"
  by (induction xs arbitrary: q) auto

lemma add_parents_ok: "parser_ok n p \<Longrightarrow> parser_ok n (add_parents parents p)"
  unfolding add_parents_def by (intro fold_ok [where P = "parser_ok n"] add_parent_argument_ok)

lemma ArgumentParser_new_ok: "parser_ok n (ArgumentParser_new this name version args)"
proof -
  define p where "p = \<lparr>m_program_name = name, m_version = version, m_description = [], m_epilog = [], m_prefix_chars = ''-'',
    m_assign_chars = ''='', m_is_parsed = False, arguments = [], m_positional_arguments = [], m_optional_arguments = [],
    m_argument_map = [], m_parser_path = name, m_subparsers = [], m_subparser_map = [], m_subparser_used = []\<rparr>"
  have "parser_ok n p" by (simp add: p_def parser_ok_def)
  then show ?thesis unfolding ArgumentParser_new_def Let_def p_def [symmetric] by (simp add: add_argument_ok)
qed

lemma ArgumentParser_copy_ok: "parser_ok n other \<Longrightarrow> parser_ok n (ArgumentParser_copy ps other)"
proof -
  assume ok: "parser_ok n other"
  let ?same = "\<lambda>p. parser_ok n p \<and> arguments p = arguments other \<and> m_optional_arguments p = m_optional_arguments other"
  have index: "?same (fold index_argument ks p)" if "?same p" "\<forall>k \<in> set ks. k < length (arguments other)" for ks p
    using that by (intro fold_ok [where P = ?same]) (simp_all add: index_argument_ok)
  let ?p0 = "other\<lparr>m_argument_map := [], m_subparser_map := [], m_subparser_used := []\<rparr>"
  let ?p1 = "fold index_argument (m_positional_arguments other) ?p0"
  have "?same ?p0" using ok by (simp add: parser_ok_def)
  then have one: "?same ?p1" using ok by (intro index) (simp_all add: parser_ok_def)
  then have two: "?same (fold index_argument (m_optional_arguments other) ?p1)" using ok by (intro index) (simp_all add: parser_ok_def)
  have "parser_ok n (p\<lparr>m_subparser_map := fold (\<lambda>j m. insert_or_assign (m_program_name (ps ! j)) j m) (m_subparsers p) [], m_subparser_used := u\<rparr>)"
    if "parser_ok n p" for p u
  proof -
    have "\<forall>e \<in> set (fold (\<lambda>j m. insert_or_assign (m_program_name (ps ! j)) j m) (m_subparsers p) []). snd e < n"
      using that by (intro fold_insert_all) (simp_all add: parser_ok_def)
    then show ?thesis using that by (simp add: parser_ok_def)
  qed
  then show ?thesis using one two unfolding ArgumentParser_copy_def Let_def by simp
qed

lemma all_update: "\<forall>p \<in> set ps. Q p \<Longrightarrow> Q x \<Longrightarrow> \<forall>p \<in> set (ps[k := x]). Q p"
  using set_update_subset_insert [of ps k x] by blast

lemma add_subparser_ok: "parsers_ok ps \<Longrightarrow> k < length ps \<Longrightarrow> j < length ps \<Longrightarrow> parsers_ok (add_subparser k j ps)"
proof -
  assume ok: "parsers_ok ps" and k: "k < length ps" "j < length ps"
  define qs where "qs = ps[j := (ps ! j)\<lparr>m_parser_path := m_program_name (ps ! k) @ '' '' @ m_program_name (ps ! j)\<rparr>]"
  have "parser_ok (length ps) (ps ! j)" using ok k by (simp add: parsers_ok_def)
  then have "parser_ok (length ps) ((ps ! j)\<lparr>m_parser_path := t\<rparr>)" for t by (simp add: parser_ok_def)
  then have qs: "\<forall>p \<in> set qs. parser_ok (length ps) p" "length qs = length ps"
    using ok unfolding qs_def parsers_ok_def by (intro all_update, simp, blast) simp
  then have "parser_ok (length ps) (qs ! k)" using k by simp
  moreover from this have "\<forall>e \<in> set (insert_or_assign n j (m_subparser_map (qs ! k))). snd e < length ps" for n
    using k by (intro insert_or_assign_all) (simp_all add: parser_ok_def)
  ultimately have "parser_ok (length ps) ((qs ! k)\<lparr>m_subparsers := m_subparsers (qs ! k) @ [j],
      m_subparser_map := insert_or_assign n j (m_subparser_map (qs ! k)), m_subparser_used := u\<rparr>)" for n u
    using k by (auto simp: parser_ok_def)
  note last = all_update [OF qs(1) this]
  show ?thesis
    unfolding add_subparser_def Let_def qs_def [symmetric] parsers_ok_def length_list_update qs(2) by (rule last)
qed

section \<open>Parsing\<close>

text \<open>An action that is called has defined behaviour.\<close>

fun action_ok :: "arg_action \<Rightarrow> bool" where
  "action_ok (ValuedAction g) \<longleftrightarrow> (\<forall>s. g s \<noteq> Inl Undefined)"
| "action_ok (VoidAction g) \<longleftrightarrow> (\<forall>s. g s \<noteq> Inl Undefined)"
| "action_ok _ = True"

definition parser_good :: "nat \<Rightarrow> ArgumentParser \<Rightarrow> bool" where
  "parser_good n p \<longleftrightarrow> parser_ok n p \<and> (\<forall>a \<in> set (arguments p). action_ok (m_action a))"

definition parsers_good :: "parsers \<Rightarrow> bool" where
  "parsers_good ps \<longleftrightarrow> (\<forall>p \<in> set ps. parser_good (length ps) p)"

lemma apply_action_keeps: "apply_action con vals a = Inr a' \<Longrightarrow> \<exists>vs. a' = a\<lparr>m_values := vs\<rparr>"
  by (auto simp: apply_action_def bindR_eq_Inr_iff intro: exI [of _ "m_values a'"] split: arg_action.splits if_splits)

text \<open>Consuming changes nothing of an argument but its use and its values.\<close>

lemma consume_arg_keeps:
  "consume_arg con args n a = Inr (a', rest) \<Longrightarrow> \<exists>vs. a' = a\<lparr>m_is_used := True, m_used_name := n, m_values := vs\<rparr>"
  by (auto simp: consume_arg_def Let_def bindR_eq_Inr_iff split: if_splits intro: exI [of _ "m_values a"] dest!: apply_action_keeps)

lemma mapR_Inl: "mapR f xs = Inl e \<Longrightarrow> \<exists>x \<in> set xs. f x = Inl e"
proof (induction xs)
  case (Cons x xs)
  then show ?case by (cases "f x"; cases "mapR f xs") auto
qed simp

lemma bindR_eq_Inl_iff: "bindR m f = Inl e \<longleftrightarrow> m = Inl e \<or> (\<exists>x. m = Inr x \<and> f x = Inl e)"
  by (cases m) auto

lemma call_action_defined: "action_ok f \<Longrightarrow> call_action con f s \<noteq> Inl Undefined"
  by (cases f) (auto simp: call_action_def bindR_eq_Inl_iff)

lemma apply_action_defined: "action_ok (m_action a) \<Longrightarrow> apply_action con vals a \<noteq> Inl Undefined"
  using call_action_defined by (auto simp: apply_action_def bindR_eq_Inl_iff dest!: mapR_Inl split: arg_action.splits)

lemma consume_arg_defined: "action_ok (m_action a) \<Longrightarrow> consume_arg con args n a \<noteq> Inl Undefined"
  using apply_action_defined call_action_defined by (auto simp: consume_arg_def Let_def bindR_eq_Inl_iff)

lemma parser_good_nth: "parser_good n p \<Longrightarrow> k < length (arguments p) \<Longrightarrow> action_ok (m_action (arguments p ! k))"
  by (simp add: parser_good_def)

text \<open>\<open>same_parser p p'\<close>: parsing has led from \<open>p\<close> to \<open>p'\<close>.\<close>

definition same_parser :: "ArgumentParser \<Rightarrow> ArgumentParser \<Rightarrow> bool" where
  "same_parser p p' \<longleftrightarrow>
     m_prefix_chars p' = m_prefix_chars p \<and> m_assign_chars p' = m_assign_chars p \<and> m_argument_map p' = m_argument_map p \<and>
     m_positional_arguments p' = m_positional_arguments p \<and> m_optional_arguments p' = m_optional_arguments p \<and>
     m_subparsers p' = m_subparsers p \<and> m_subparser_map p' = m_subparser_map p \<and>
     map m_action (arguments p') = map m_action (arguments p)"

lemma same_parser_refl [simp]: "same_parser p p"
  by (simp add: same_parser_def)

lemma same_parser_trans: "same_parser p q \<Longrightarrow> same_parser q r \<Longrightarrow> same_parser p r"
  by (simp add: same_parser_def)

lemma same_parser_length: "same_parser p p' \<Longrightarrow> length (arguments p') = length (arguments p)"
  unfolding same_parser_def by (metis length_map)

lemma same_parser_good: "same_parser p p' \<Longrightarrow> parser_good n p \<Longrightarrow> parser_good n p'"
proof -
  assume same: "same_parser p p'" and good: "parser_good n p"
  have "\<forall>f \<in> set (map m_action (arguments p')). action_ok f" using same good by (simp add: same_parser_def parser_good_def)
  then show ?thesis using same good same_parser_length [OF same] by (simp add: same_parser_def parser_good_def parser_ok_def)
qed

lemma same_lookup: "same_parser p p' \<Longrightarrow> lookup_argument p' = lookup_argument p"
  by (rule ext) (simp add: same_parser_def lookup_argument_def)

lemma use_subparser_same: "same_parser p (use_subparser c p)"
  by (simp add: same_parser_def use_subparser_def)

lemma set_program_name_same: "same_parser p (set_program_name args p)"
  by (simp add: same_parser_def set_program_name_def)

lemma consume_at_same: "consume_at con k args n p = Inr (p', rest) \<Longrightarrow> same_parser p p'"
  by (auto simp: consume_at_def bindR_eq_Inr_iff same_parser_def map_update dest!: consume_arg_keeps)
    (metis list_update_id map_update nth_map list_update_beyond not_le)

lemma consume_at_defined: "parser_good n p \<Longrightarrow> k < length (arguments p) \<Longrightarrow> consume_at con k args m p \<noteq> Inl Undefined"
  using consume_arg_defined parser_good_nth by (auto simp: consume_at_def bindR_eq_Inl_iff)

lemma lookup_bound: "parser_good n p \<Longrightarrow> lookup_argument p name = Some k \<Longrightarrow> k < length (arguments p)"
  by (auto simp: parser_good_def parser_ok_def lookup_argument_def dest!: map_of_SomeD)

lemma compound_loop_same: "compound_loop con cur cs (p, args) = Inr (p', rest) \<Longrightarrow> same_parser p p'"
proof (induction con cur cs "(p, args)" arbitrary: p args rule: compound_loop.induct)
  case (2 con cur c cs p args)
  then show ?case by (fastforce simp: bindR_eq_Inr_iff dest: consume_at_same intro: same_parser_trans split: option.splits)
qed simp

lemma compound_loop_defined: "parser_good n p \<Longrightarrow> compound_loop con cur cs (p, args) \<noteq> Inl Undefined"
proof (induction cs arbitrary: p args)
  case (Cons c cs)
  show ?case
  proof (cases "lookup_argument p [CHR ''-'', c]")
    case (Some k)
    have "compound_loop con cur cs (q, as) \<noteq> Inl Undefined" if "consume_at con k args [CHR ''-'', c] p = Inr (q, as)" for q as
      by (rule Cons.IH [OF same_parser_good [OF consume_at_same [OF that] Cons.prems]])
    then show ?thesis using Some consume_at_defined [OF Cons.prems lookup_bound [OF Cons.prems Some]] by (auto simp: bindR_eq_Inl_iff)
  qed simp
qed simp

fun step_parser :: "step \<Rightarrow> ArgumentParser" where
  "step_parser (Next p pos args) = p"
| "step_parser (Command p j args) = p"

lemma parse_step_same: "parse_step con cur rest pos p = Inr s \<Longrightarrow> same_parser p (step_parser s)"
  by (auto simp: parse_step_def bindR_eq_Inr_iff use_subparser_same dest!: consume_at_same compound_loop_same
      split: if_splits list.splits option.splits)

lemma parse_step_positions: "parse_step con cur rest pos p = Inr (Next p' pos' args) \<Longrightarrow> set pos' \<subseteq> set pos"
  by (auto simp: parse_step_def bindR_eq_Inr_iff split: if_splits list.splits option.splits)

lemma parse_step_command:
  "parse_step con cur rest pos p = Inr (Command p' j args) \<Longrightarrow> p' = use_subparser cur p \<and> map_of (m_subparser_map p) cur = Some j \<and> args = cur # rest"
  by (auto simp: parse_step_def bindR_eq_Inr_iff split: if_splits list.splits option.splits)

lemma parse_step_defined:
  assumes "parser_good n p" "\<forall>k \<in> set pos. k < length (arguments p)"
  shows "parse_step con cur rest pos p \<noteq> Inl Undefined"
  using assms consume_at_defined [OF assms(1)] lookup_bound [OF assms(1)] compound_loop_defined [OF assms(1)]
  by (auto simp: parse_step_def bindR_eq_Inl_iff split: list.splits option.splits)

lemma parse_loop_good:
  assumes "parser_good n p" "\<forall>k \<in> set pos. k < length (arguments p)"
  shows "parse_loop con args pos p \<noteq> Inl Undefined"
    and "parse_loop con args pos p = Inr (p', call) \<Longrightarrow> same_parser p p' \<and> m_is_parsed p' \<and>
      (\<forall>j rest. call = Some (j, rest) \<longrightarrow> j < n \<and> rest \<noteq> [])"
proof -
  have "parse_loop con args pos p \<noteq> Inl Undefined \<and> (\<forall>p' call. parse_loop con args pos p = Inr (p', call) \<longrightarrow> same_parser p p' \<and>
      m_is_parsed p' \<and> (\<forall>j rest. call = Some (j, rest) \<longrightarrow> j < n \<and> rest \<noteq> []))"
    using assms
  proof (induction con args pos p rule: parse_loop.induct)
    case (2 con cur rest pos p)
    note defined = parse_step_defined [OF "2.prems", of con cur rest]
    show ?case
    proof (cases "parse_step con cur rest pos p")
      case (Inr s)
      note same = parse_step_same [OF Inr]
      show ?thesis
      proof (cases s)
        case (Next q pos' args')
        have q: "parser_good n q" "\<forall>k \<in> set pos'. k < length (arguments q)"
          using same_parser_good [OF same "2.prems"(1)] parse_step_positions [OF Inr [unfolded Next]] "2.prems"(2) same_parser_length [OF same]
          by (auto simp: Next)
        then show ?thesis using "2.IH" [OF Inr Next q] same same_parser_trans by (auto simp: Inr Next)
      next
        case (Command q j args')
        have "j < n" "args' \<noteq> []" "m_is_parsed q"
          using parse_step_command [OF Inr [unfolded Command]] "2.prems"(1) by (auto simp: parser_good_def parser_ok_def use_subparser_def dest!: map_of_SomeD)
        then show ?thesis using same by (simp add: Inr Command)
      qed
    qed (use defined in simp)
  qed (simp add: same_parser_def)
  then show "parse_loop con args pos p \<noteq> Inl Undefined"
    and "parse_loop con args pos p = Inr (p', call) \<Longrightarrow> same_parser p p' \<and> m_is_parsed p' \<and>
      (\<forall>j rest. call = Some (j, rest) \<longrightarrow> j < n \<and> rest \<noteq> [])"
    by blast+
qed

lemma validate_all_defined: "validate_all as \<noteq> Inl Undefined"
  by (induction as)
    (auto simp: bindR_eq_Inl_iff validate_def required_not_used_error_def required_no_value_error_def nargs_range_error_def)

lemma preprocess_not_Nil: "raw \<noteq> [] \<Longrightarrow> preprocess_arguments p raw \<noteq> []"
  by (cases raw) (auto simp: preprocess_arguments_def split_assign_def Let_def)

lemma parse_args_good:
  assumes "parsers_good ps" "k < length ps" "raw \<noteq> []"
  shows "parse_args ps k raw \<noteq> Inl Undefined \<and>
    (\<forall>ps'. parse_args ps k raw = Inr ps' \<longrightarrow>
       parsers_good ps' \<and> length ps' = length ps \<and> (\<forall>i < length ps. i = k \<or> m_is_parsed (ps ! i) \<longrightarrow> m_is_parsed (ps' ! i)))"
  using assms
proof (induction ps k raw rule: parse_args.induct)
  case (1 ps k raw)
  let ?p = "set_program_name (preprocess_arguments (ps ! k) raw) (ps ! k)"
  have good: "parser_good (length ps) ?p"
    using "1.prems" set_program_name_same same_parser_good by (metis nth_mem parsers_good_def)
  have own: "parse_own ps k raw = parse_loop (console_of (ps[k := ?p])) (tl (preprocess_arguments (ps ! k) raw)) (m_positional_arguments ?p) ?p"
    using "1.prems" preprocess_not_Nil [of raw "ps ! k"] by (simp add: parse_own_def Let_def)
  have pos: "\<forall>i \<in> set (m_positional_arguments ?p). i < length (arguments ?p)" using good by (simp add: parser_good_def parser_ok_def)
  note loop = parse_loop_good [OF good pos]
  show ?case
  proof (cases "parse_own ps k raw")
    case (Inl e)
    then show ?thesis using loop(1) own by (auto simp: parse_args.simps)
  next
    case (Inr s)
    obtain p call where s: "s = (p, call)" by (cases s)
    have p: "same_parser ?p p" "m_is_parsed p" "\<And>j rest. call = Some (j, rest) \<Longrightarrow> j < length ps \<and> rest \<noteq> []"
      using loop(2) Inr s own by auto
    have ps: "parsers_good (ps[k := p])"
      using all_update [of ps "parser_good (length ps)" p k] "1.prems"(1) same_parser_good [OF p(1) good] by (simp add: parsers_good_def)
    show ?thesis
    proof (cases call)
      case None
      then show ?thesis using ps p(2) validate_all_defined "1.prems"(2)
        by (auto simp: parse_args.simps [of ps] Inr s bindR_eq_Inl_iff bindR_eq_Inr_iff validate_map_def nth_list_update)
    next
      case (Some c)
      obtain j rest where c: "c = (j, rest)" by (cases c)
      have "parse_args (ps[k := p]) j rest \<noteq> Inl Undefined \<and> (\<forall>ps'. parse_args (ps[k := p]) j rest = Inr ps' \<longrightarrow>
          parsers_good ps' \<and> length ps' = length (ps[k := p]) \<and>
          (\<forall>i < length (ps[k := p]). i = j \<or> m_is_parsed (ps[k := p] ! i) \<longrightarrow> m_is_parsed (ps' ! i)))"
        by (rule "1.IH" [OF Inr s [symmetric] Some c [symmetric]]) (use ps p(3) [of j rest] in \<open>simp_all add: Some c\<close>)
      then show ?thesis using ps p(2) validate_all_defined "1.prems"(2)
        by (auto simp: parse_args.simps [of ps] Inr s Some c bindR_eq_Inl_iff bindR_eq_Inr_iff validate_map_def nth_list_update)
    qed
  qed
qed

text \<open>
  C28: parsing stays within its lists. For parsers whose addresses are valid, which is what the constructors and the functions that
  register arguments, parents and sub-parsers give, and a command line with at least the name of the program, \<open>parse_args\<close> has defined
  behaviour: it returns or throws. When it returns, the addresses are valid again and the parser has been marked as parsed.
\<close>

theorem parse_args_defined:
  assumes "parsers_good ps" "k < length ps" "raw \<noteq> []"
  shows "parse_args ps k raw \<noteq> Inl Undefined \<and>
    (\<forall>ps'. parse_args ps k raw = Inr ps' \<longrightarrow> parsers_good ps' \<and> length ps' = length ps \<and> m_is_parsed (ps' ! k))"
  using parse_args_good [OF assms] assms(2) by blast

end
