(* ===== verification/Argparse_Known.thy ===== *)
theory Argparse_Known
  imports Argparse_Commands "HOL-Library.Sublist"
begin

text \<open>
  \<open>parse_known_args\<close> of \<^verbatim>\<open>include/argparse.hpp\<close> beside \<open>parse_args\<close>: where they agree, what the unknown arguments are, and what is lost when
  a sub-command follows.
\<close>

section \<open>Agreement of the two loops\<close>

lemma known_compound_loop_iff: "known_compound_loop con cs s = Inr (s', True) \<longleftrightarrow> compound_loop con cur cs s = Inr s'"
proof (induction cs arbitrary: s)
  case (Cons c cs)
  obtain p args where "s = (p, args)" by (cases s)
  then show ?case using Cons.IH by (auto simp: bindR_eq_Inr_iff split: option.splits)
qed auto

lemma known_step_iff: "known_step con cur rest pos p = Inr (s, []) \<longleftrightarrow> parse_step con cur rest pos p = Inr s"
  using known_compound_loop_iff [of con "tl cur" "(p, rest)" _ cur]
  by (auto simp: known_step_def parse_step_def bindR_eq_Inr_iff split: list.splits option.splits if_splits)

lemma known_loop_iff: "known_loop con args pos p = Inr (p', [], call) \<longleftrightarrow> parse_loop con args pos p = Inr (p', call)"
proof (induction con args pos p rule: parse_loop.induct)
  case (2 con cur rest pos p)
  show ?case
  proof (cases "parse_step con cur rest pos p")
    case (Inl e)
    then have "known_step con cur rest pos p \<noteq> Inr (s, [])" for s using known_step_iff [of con cur rest pos p s] by simp
    then show ?thesis using Inl by (auto simp: bindR_eq_Inr_iff split: step.splits)
  next
    case (Inr s)
    then have "known_step con cur rest pos p = Inr (s, [])" by (simp add: known_step_iff)
    then show ?thesis using Inr "2.IH" [OF Inr] by (cases s) (auto simp: bindR_eq_Inr_iff)
  qed
qed auto

lemma known_own_iff: "known_own ps k raw = Inr (p', [], call) \<longleftrightarrow> parse_own ps k raw = Inr (p', call)"
  by (simp add: known_own_def parse_own_def Let_def known_loop_iff)

lemma parse_args_known:
  "parse_args ps k raw = Inr ps' \<Longrightarrow> parse_known_args_internal ps k raw = Inr (ps', []) \<and> validate_map (ps' ! k) = Inr ()"
proof (induction ps k raw rule: parse_args.induct)
  case (1 ps k raw)
  then obtain p call ps1 where own: "parse_own ps k raw = Inr (p, call)"
    and sub: "(case (p, call) of (p, None) \<Rightarrow> Inr (ps[k := p]) | (p, Some (j, rest)) \<Rightarrow> parse_args (ps[k := p]) j rest) = Inr ps1"
    and val: "validate_map (ps1 ! k) = Inr ()" and ps': "ps1 = ps'"
    by (auto simp: parse_args.simps [of ps] bindR_eq_Inr_iff)
  have known: "known_own ps k raw = Inr (p, [], call)" using own by (simp add: known_own_iff)
  show ?case
  proof (cases call)
    case None
    then show ?thesis using known sub val ps' by (simp add: parse_known_args_internal.simps [of ps])
  next
    case (Some c)
    obtain j rest where c: "c = (j, rest)" by (cases c)
    have "parse_args (ps[k := p]) j rest = Inr ps'" using sub ps' by (simp add: Some c)
    then show ?thesis using "1.IH" [OF own refl Some c [symmetric]] known val ps' by (simp add: Some c parse_known_args_internal.simps [of ps])
  qed
qed

lemma known_compound_loop_same: "known_compound_loop con cs (p, args) = Inr ((p', rest), all) \<Longrightarrow> same_parser p p'"
proof (induction con cs "(p, args)" arbitrary: p args rule: known_compound_loop.induct)
  case (2 con c cs p args)
  then show ?case by (fastforce simp: bindR_eq_Inr_iff dest: consume_at_same intro: same_parser_trans split: option.splits)
qed simp

lemma known_step_same: "known_step con cur rest pos p = Inr (s, unknown) \<Longrightarrow> same_parser p (step_parser s)"
  by (auto simp: known_step_def bindR_eq_Inr_iff use_subparser_same dest!: consume_at_same known_compound_loop_same
      split: if_splits list.splits option.splits)

lemma known_loop_no_command:
  "known_loop con args pos p = Inr (p', unknown, call) \<Longrightarrow> m_subparser_map p = [] \<Longrightarrow> call = None"
proof (induction con args pos p arbitrary: unknown rule: known_loop.induct)
  case (2 con cur rest pos p)
  then obtain s u where s: "known_step con cur rest pos p = Inr (s, u)" by (auto simp: bindR_eq_Inr_iff)
  then have "\<exists>q pos' args. s = Next q pos' args"
    using "2.prems"(2) by (auto simp: known_step_def bindR_eq_Inr_iff split: if_splits list.splits option.splits)
  then obtain q pos' args where n: "s = Next q pos' args" by blast
  have "m_subparser_map q = []" using known_step_same [OF s] "2.prems"(2) by (simp add: n same_parser_def)
  then show ?case using "2.IH" [OF s refl n] "2.prems"(1) s by (auto simp: n bindR_eq_Inr_iff)
qed simp

lemma internal_no_command:
  "m_subparser_map (ps ! k) = [] \<Longrightarrow> parse_known_args_internal ps k raw = Inr (ps', unknown) \<longleftrightarrow>
     (\<exists>p. known_own ps k raw = Inr (p, unknown, None) \<and> ps' = ps[k := p])"
proof -
  assume none: "m_subparser_map (ps ! k) = []"
  have "call = None" if "known_own ps k raw = Inr (p, u, call)" for p u call
    using that none by (auto simp: known_own_def Let_def set_program_name_def split: if_splits dest!: known_loop_no_command)
  then show ?thesis
    by (cases "known_own ps k raw") (fastforce simp: parse_known_args_internal.simps [of ps])+
qed

text \<open>
  C29: \<open>parse_known_args\<close> extends \<open>parse_args\<close>. What \<open>parse_args\<close> accepts, sub-commands included, \<open>parse_known_args\<close> accepts with the
  same parsers and no unknown arguments; and without sub-commands it accepts nothing else with no unknown arguments.
\<close>

theorem known_args_extend:
  "(parse_args ps k raw = Inr ps' \<longrightarrow> parse_known_args ps k raw = Inr (ps', [])) \<and>
   (m_subparser_map (ps ! k) = [] \<longrightarrow> parse_known_args ps k raw = Inr (ps', []) \<longrightarrow> parse_args ps k raw = Inr ps')"
proof (intro conjI impI)
  show "parse_args ps k raw = Inr ps' \<Longrightarrow> parse_known_args ps k raw = Inr (ps', [])"
    by (drule parse_args_known) (simp add: parse_known_args_def)
  assume none: "m_subparser_map (ps ! k) = []" and known: "parse_known_args ps k raw = Inr (ps', [])"
  then have "parse_known_args_internal ps k raw = Inr (ps', [])" "validate_map (ps' ! k) = Inr ()"
    by (auto simp: parse_known_args_def bindR_eq_Inr_iff)
  then obtain p where "parse_own ps k raw = Inr (p, None)" "ps' = ps[k := p]" "validate_map (ps' ! k) = Inr ()"
    using internal_no_command [OF none] by (auto simp: known_own_iff)
  then show "parse_args ps k raw = Inr ps'" by (simp add: parse_args.simps [of ps])
qed

section \<open>The unknown arguments\<close>

lemma known_step_unknown: "known_step con cur rest pos p = Inr (s, unknown) \<Longrightarrow> u \<in> set unknown \<Longrightarrow>
    is_positional u (m_prefix_chars p) \<or> lookup_argument p u = None"
  by (auto simp: known_step_def bindR_eq_Inr_iff split: if_splits list.splits option.splits)

lemma known_loop_unknown:
  "known_loop con args pos p = Inr (p', unknown, None) \<Longrightarrow>
   subseq unknown args \<and> (\<forall>u \<in> set unknown. is_positional u (m_prefix_chars p) \<or> lookup_argument p u = None)"
proof (induction con args pos p arbitrary: unknown rule: known_loop.induct)
  case (2 con cur rest pos p)
  then obtain s u where s: "known_step con cur rest pos p = Inr (s, u)" by (auto simp: bindR_eq_Inr_iff)
  show ?case
  proof (cases s)
    case (Next q pos' args)
    obtain more where more: "known_loop con args pos' q = Inr (p', more, None)" "unknown = u @ more"
      using "2.prems" s Next by (auto simp: bindR_eq_Inr_iff)
    note ih = "2.IH" [OF s refl Next more(1)]
    obtain vals where vals: "cur # rest = vals @ args" "u = [] \<or> vals \<noteq> [] \<and> u = [cur]"
      using known_step_suffix [OF s [unfolded Next]] by blast
    have "subseq u vals" using vals by (cases vals) auto
    then have "subseq unknown (cur # rest)" using ih more(2) vals(1) list_emb_append_mono by metis
    moreover have "lookup_argument q = lookup_argument p" "m_prefix_chars q = m_prefix_chars p"
      using known_step_same [OF s] same_lookup by (simp_all add: Next same_parser_def lookup_argument_def fun_eq_iff)
    moreover have "\<forall>v \<in> set u. is_positional v (m_prefix_chars p) \<or> lookup_argument p v = None" by (intro ballI known_step_unknown [OF s])
    ultimately show ?thesis using ih more(2) by (simp add: ball_Un)
  next
    case (Command q j args)
    then show ?thesis using "2.prems" s by (simp add: bindR_eq_Inr_iff)
  qed
qed simp

text \<open>
  The unknown arguments of a parser without sub-commands are a selection of the command line after the name of the program, in its
  order, and none of those that look like an option is the name of an argument.
\<close>

lemma unknown_args_in_order:
  assumes "parse_known_args ps k raw = Inr (ps', unknown)" and "m_subparser_map (ps ! k) = []"
  shows "subseq unknown (tl (preprocess_arguments (ps ! k) raw)) \<and>
    (\<forall>u \<in> set unknown. is_optional u (m_prefix_chars (ps ! k)) \<longrightarrow> lookup_argument (ps ! k) u = None)"
proof -
  let ?p = "set_program_name (preprocess_arguments (ps ! k) raw) (ps ! k)"
  obtain p where "known_own ps k raw = Inr (p, unknown, None)"
    using assms internal_no_command [OF assms(2)] by (auto simp: parse_known_args_def bindR_eq_Inr_iff)
  then have "known_loop (console_of (ps[k := ?p])) (tl (preprocess_arguments (ps ! k) raw)) (m_positional_arguments ?p) ?p = Inr (p, unknown, None)"
    by (auto simp: known_own_def Let_def split: if_splits)
  from known_loop_unknown [OF this] show ?thesis
    using same_lookup [OF set_program_name_same] set_program_name_same [of "ps ! k"] by (auto simp: is_optional_def same_parser_def)
qed

section \<open>Before a sub-command\<close>

definition unknown_option :: "ArgumentParser \<Rightarrow> string \<Rightarrow> bool" where
  "unknown_option p u \<longleftrightarrow>
     is_optional u (m_prefix_chars p) \<and> lookup_argument p u = None \<and> \<not> is_compound p u \<and> split_assign p u = [u]"

lemma known_loop_unknown_options:
  assumes "\<forall>u \<in> set us. unknown_option p u"
  shows "known_loop con (us @ args) pos p = bindR (known_loop con args pos p) (\<lambda>(p, unknown, call). Inr (p, us @ unknown, call))"
  using assms
proof (induction us)
  case Nil
  then show ?case by (cases "known_loop con args pos p") auto
next
  case (Cons u us)
  then have "known_step con u (us @ args) pos p = Inr (Next p pos (us @ args), [u])"
    by (simp add: known_step_def unknown_option_def is_optional_def)
  then show ?case using Cons by (cases "known_loop con args pos p") auto
qed

lemma preprocess_append [simp]: "preprocess_arguments p (xs @ ys) = preprocess_arguments p xs @ preprocess_arguments p ys"
  "preprocess_arguments p (x # xs) = split_assign p x @ preprocess_arguments p xs"
  "preprocess_arguments p [] = []"
  by (simp_all add: preprocess_arguments_def)

lemma preprocess_unknown: "\<forall>u \<in> set us. unknown_option p u \<Longrightarrow> preprocess_arguments p us = us"
  by (induction us) (simp_all add: preprocess_arguments_def unknown_option_def)

lemma lookup_unused_name [simp]: "split_assign (set_program_name args p) = split_assign p"
  "unknown_option (set_program_name args p) u = unknown_option p u"
  by (auto simp: fun_eq_iff split_assign_def lookup_argument_def starts_with_prefix_def is_valid_prefix_char_def unknown_option_def
      is_compound_def set_program_name_def split: list.splits)

text \<open>
  Unknown arguments before a sub-command are lost. A parser without positional arguments hands over to its sub-command and returns
  only what the sub-parser did not know, so the result is the same with and without the unknown options in front of the command.
\<close>

lemma unknown_before_command_lost:
  assumes "m_positional_arguments (ps ! k) = []" "map_of (m_subparser_map (ps ! k)) cmd = Some j" "is_positional cmd (m_prefix_chars (ps ! k))"
    and "split_assign (ps ! k) cmd = [cmd]" "split_assign (ps ! k) prog = [prog]" "\<forall>u \<in> set us. unknown_option (ps ! k) u"
  shows "parse_known_args ps k (prog # us @ cmd # rest) = parse_known_args ps k (prog # cmd # rest)"
proof (cases "k < length ps")
  case True
  define p where "p = set_program_name [prog] (ps ! k)"
  have name: "set_program_name (prog # args) (ps ! k) = p" for args by (simp add: p_def set_program_name_def)
  have us: "\<forall>u \<in> set us. unknown_option p u" using assms(6) by (simp add: p_def)
  have p: "m_positional_arguments p = []" "map_of (m_subparser_map p) cmd = Some j" "is_positional cmd (m_prefix_chars p)"
    using assms by (simp_all add: p_def set_program_name_def)
  let ?q = "use_subparser cmd p" and ?r = "cmd # preprocess_arguments (ps ! k) rest"
  have loop: "known_loop con ?r [] p = Inr (?q, [], Some (j, ?r))" for con using p by (simp add: known_step_def)
  have "known_own ps k (prog # us @ cmd # rest) = Inr (?q, us, Some (j, ?r))"
    "known_own ps k (prog # cmd # rest) = Inr (?q, [], Some (j, ?r))"
    using True assms(4-6) known_loop_unknown_options [OF us] p(1) loop
    by (simp_all add: known_own_def name preprocess_unknown del: known_loop.simps)
  then show ?thesis by (simp add: parse_known_args_def parse_known_args_internal.simps [of ps])
next
  case False
  then show ?thesis using assms(5) by (simp add: parse_known_args_def parse_known_args_internal.simps [of ps] known_own_def)
qed

lemma validate_map_update [simp]:
  "validate_map (p\<lparr>m_is_parsed := b\<rparr>) = validate_map p" "validate_map (use_subparser c p) = validate_map p"
  "validate_map (set_program_name args p) = validate_map p"
  by (simp_all add: validate_map_def use_subparser_def set_program_name_def)

text \<open>
  C39: what \<open>parse_known_args\<close> forgets at a sub-command. When only the arguments of the sub-command's parser are incomplete, for example
  because a required option is missing, \<open>parse_args\<close> throws its error, but \<open>parse_known_args\<close> accepts the line; and it reports
  no unknown argument, though there may be any number of them before the command.
\<close>

theorem known_command_unvalidated:
  assumes "m_positional_arguments (ps ! k) = []" "map_of (m_subparser_map (ps ! k)) cmd = Some j" "is_positional cmd (m_prefix_chars (ps ! k))"
    and "split_assign (ps ! k) cmd = [cmd]" "split_assign (ps ! k) prog = [prog]" "split_assign (ps ! j) cmd = [cmd]"
    and "k < length ps" "j < length ps" "j \<noteq> k" "validate_map (ps ! k) = Inr ()" "validate_map (ps ! j) = Inl e"
    and "\<forall>u \<in> set us. unknown_option (ps ! k) u"
  shows "parse_args ps k [prog, cmd] = Inl e \<and> (\<exists>ps'. parse_known_args ps k (prog # us @ [cmd]) = Inr (ps', []))"
proof -
  define p where "p = set_program_name [prog, cmd] (ps ! k)"
  have p: "m_positional_arguments p = []" "map_of (m_subparser_map p) cmd = Some j" "is_positional cmd (m_prefix_chars p)"
    using assms by (simp_all add: p_def set_program_name_def)
  have val: "validate_map p = Inr ()" using assms(10) by (simp add: p_def)
  let ?ps = "ps[k := use_subparser cmd p]"
  have step: "parse_step con cmd [] [] p = Inr (Command (use_subparser cmd p) j [cmd])" for con using p by (simp add: parse_step_def)
  have own: "parse_own ps k [prog, cmd] = Inr (use_subparser cmd p, Some (j, [cmd]))"
    using assms(4,5,7) p(1) step by (simp add: parse_own_def Let_def p_def [symmetric])
  have sub: "parse_own ?ps j [cmd] = Inr ((set_program_name [cmd] (ps ! j))\<lparr>m_is_parsed := True\<rparr>, None)"
    using assms(6,8,9) by (simp add: parse_own_def Let_def set_program_name_def)
  have known: "known_own ps k [prog, cmd] = Inr (use_subparser cmd p, [], Some (j, [cmd]))"
    "known_own ?ps j [cmd] = Inr ((set_program_name [cmd] (ps ! j))\<lparr>m_is_parsed := True\<rparr>, [], None)"
    using own sub by (simp_all add: known_own_iff)
  have strict: "parse_args ps k [prog, cmd] = Inl e"
    using assms(8,11) by (simp add: parse_args.simps [of ps] own parse_args.simps [of ?ps] sub)
  have "\<exists>ps'. parse_known_args ps k (prog # us @ [cmd]) = Inr (ps', [])"
    unfolding unknown_before_command_lost [OF assms(1-5,12)] using assms(7-9) val
    by (simp add: parse_known_args_def parse_known_args_internal.simps [of ps] parse_known_args_internal.simps [of ?ps] known)
  with strict show ?thesis ..
qed

section \<open>A parser with a sub-command\<close>

text \<open>\<^verbatim>\<open>tool\<close> has an option \<^verbatim>\<open>-n\<close>, and a sub-command \<^verbatim>\<open>add\<close> with a required option \<^verbatim>\<open>--file\<close>.\<close>

definition demo_tool :: parsers where
  "demo_tool =
     add_subparser 0 1
       [add_argument [''-n''] id (ArgumentParser_new 0 ''tool'' ''1.0'' ArgsAll),
        add_argument [''-f'', ''--file''] arg_required (ArgumentParser_new 1 ''add'' ''1.0'' ArgsAll)]"

lemma demo_tool_facts:
  "m_positional_arguments (demo_tool ! 0) = []" "map_of (m_subparser_map (demo_tool ! 0)) ''add'' = Some 1" "length demo_tool = 2"
  "is_positional ''add'' (m_prefix_chars (demo_tool ! 0))" "split_assign (demo_tool ! 0) ''add'' = [''add'']"
  "split_assign (demo_tool ! 0) ''tool'' = [''tool'']" "split_assign (demo_tool ! 1) ''add'' = [''add'']"
  "validate_map (demo_tool ! 0) = Inr ()" "validate_map (demo_tool ! 1) = Inl (RuntimeError ''-f: required.'')"
  "m_subparser_map (demo_tool ! 1) = []" "unknown_option (demo_tool ! 0) ''--verbose''"
  by code_simp+

theorem known_command_unvalidated_witness:
  "parse_args demo_tool 0 [''tool'', ''add''] = Inl (RuntimeError ''-f: required.'') \<and>
   (\<exists>ps. parse_known_args demo_tool 0 [''tool'', ''--verbose'', ''add''] = Inr (ps, []))"
  using known_command_unvalidated [of demo_tool 0 "''add''" 1 "''tool''" "RuntimeError ''-f: required.''" "[''--verbose'']"] demo_tool_facts
  by simp

lemma demo_tool_good: "parsers_good demo_tool"
proof -
  have "\<forall>p \<in> set demo_tool. \<forall>a \<in> set (arguments p). case m_action a of ValuedAction _ \<Rightarrow> False | VoidAction _ \<Rightarrow> False | _ \<Rightarrow> True"
    "\<forall>p \<in> set demo_tool. parser_ok (length demo_tool) p" by code_simp+
  moreover have "(case f of ValuedAction _ \<Rightarrow> False | VoidAction _ \<Rightarrow> False | _ \<Rightarrow> True) \<Longrightarrow> action_ok f" for f
    by (cases f) simp_all
  ultimately show ?thesis by (auto simp: parsers_good_def parser_good_def)
qed

theorem parse_args_defined_witness:
  "parse_args demo_tool 0 [''tool'', ''--name=x'', ''add''] \<noteq> Inl Undefined \<and> parse_args demo_tool 0 [''tool'', ''-n'', ''4'', ''add'', ''-f'', ''a''] \<noteq> Inl Undefined"
  using parse_args_defined [OF demo_tool_good, of 0 "[''tool'', ''--name=x'', ''add'']"]
    parse_args_defined [OF demo_tool_good, of 0 "[''tool'', ''-n'', ''4'', ''add'', ''-f'', ''a'']"] demo_tool_facts(3)
  by simp

lemma unknown_before_command_lost_example:
  "parse_known_args demo_tool 0 [''tool'', ''--verbose'', ''add'', ''--file'', ''a''] = parse_known_args demo_tool 0 [''tool'', ''add'', ''--file'', ''a'']"
  using unknown_before_command_lost [of demo_tool 0 "''add''" 1 "''tool''" "[''--verbose'']" "[''--file'', ''a'']"] demo_tool_facts by simp

lemma unknown_args_in_order_example:
  "\<exists>ps unknown. parse_known_args demo_tool 1 [''add'', ''x'', ''--file'', ''a'', ''--fast''] = Inr (ps, unknown) \<and> unknown = [''x'', ''--fast''] \<and>
     subseq unknown [''x'', ''--file'', ''a'', ''--fast''] \<and> lookup_argument (demo_tool ! 1) ''--fast'' = None"
proof -
  have "(case parse_known_args demo_tool 1 [''add'', ''x'', ''--file'', ''a'', ''--fast''] of Inr (ps, unknown) \<Rightarrow> unknown = [''x'', ''--fast''] | Inl _ \<Rightarrow> False)"
    by code_simp
  then obtain ps where run: "parse_known_args demo_tool 1 [''add'', ''x'', ''--file'', ''a'', ''--fast''] = Inr (ps, [''x'', ''--fast''])"
    by (auto split: sum.splits)
  moreover have "tl (preprocess_arguments (demo_tool ! 1) [''add'', ''x'', ''--file'', ''a'', ''--fast'']) = [''x'', ''--file'', ''a'', ''--fast'']"
    "is_optional ''--fast'' (m_prefix_chars (demo_tool ! 1))" by code_simp+
  ultimately show ?thesis using unknown_args_in_order [OF run demo_tool_facts(10)] by auto
qed

theorem known_args_extend_witness:
  "(\<exists>ps. parse_args demo_tool 0 [''tool'', ''-n'', ''4'', ''add'', ''-f'', ''a''] = Inr ps \<and>
         parse_known_args demo_tool 0 [''tool'', ''-n'', ''4'', ''add'', ''-f'', ''a''] = Inr (ps, [])) \<and>
   (\<exists>ps. parse_known_args demo_tool 1 [''add'', ''-f'', ''a''] = Inr (ps, []) \<and> parse_args demo_tool 1 [''add'', ''-f'', ''a''] = Inr ps)"
proof -
  have "(case parse_args demo_tool 0 [''tool'', ''-n'', ''4'', ''add'', ''-f'', ''a''] of Inr _ \<Rightarrow> True | Inl _ \<Rightarrow> False)"
    "(case parse_known_args demo_tool 1 [''add'', ''-f'', ''a''] of Inr (_, unknown) \<Rightarrow> unknown = [] | Inl _ \<Rightarrow> False)" by code_simp+
  then obtain ps qs where "parse_args demo_tool 0 [''tool'', ''-n'', ''4'', ''add'', ''-f'', ''a''] = Inr ps"
    "parse_known_args demo_tool 1 [''add'', ''-f'', ''a''] = Inr (qs, [])" by (auto split: sum.splits)
  then show ?thesis
    using known_args_extend [of demo_tool 0 _ ps] known_args_extend [of demo_tool 1 _ qs] demo_tool_facts(10) by blast
qed

end
