(* ===== verification/Argparse_Values.thy ===== *)
theory Argparse_Values
  imports Argparse
begin

text \<open>
  Two round trips and a layout of \<^verbatim>\<open>include/argparse.hpp\<close>: an integer that is printed, put on a command line and read with \<open>scan\<close>, an option
  and its value in one text, and the columns of the help output.
\<close>

section \<open>Integers on the command line\<close>

text \<open>An option as \<open>add_argument\<close> makes it that has not been used.\<close>

definition unused_option :: "Argument \<Rightarrow> bool" where
  "unused_option a \<longleftrightarrow> \<not> m_is_used a \<and> num_args_min a = 1 \<and> num_args_max a = 1 \<and> \<not> m_accepts_optional_like_value a \<and>
     m_arg_prefix a = ''-'' \<and> m_values a = []"

text \<open>
  C30: an option with \<open>scan<'d', T>\<close> reads back what was printed. Given the decimal text of an integer, also of a negative one, it takes exactly
  this text and \<open>get<T>\<close> returns the integer, when the integer fits into \<open>T\<close>; otherwise \<open>consume\<close> throws, for a negative number
  and an unsigned type because the sign is not part of the pattern, and else because the value is not representable.
\<close>

theorem scan_option_roundtrip:
  assumes "arg_scan strtod (CHR ''d'') (Integer T) a0 = Some a" "unused_option a0"
  shows "if in_range T i
     then \<exists>a'. consume_arg con (to_string i # rest) n a = Inr (a', rest) \<and> arg_get (TInteger T) a' = Inr (AInteger T i)
     else consume_arg con (to_string i # rest) n a =
       Inl (if i < 0 \<and> \<not> standard_signed_integer T then InvalidArgument ''pattern not found'' else RangeError ''not representable'')"
proof -
  have a: "a = set_action (ValuedAction (parse_number T 10)) a0" using assms(1) by (simp add: arg_scan_def scan_function_def)
  let ?a = "a\<lparr>m_is_used := True, m_used_name := n\<rparr>"
  have "consume_arg con (to_string i # rest) n a = bindR (apply_action con [to_string i] ?a) (\<lambda>a. Inr (a, rest))"
    using assms(2) to_string_positional [of i]
    by (simp add: consume_arg_def a unused_option_def set_action_def is_optional_def Let_def)
  moreover have "apply_action con [to_string i] ?a = bindR (parse_number T 10 (to_string i)) (\<lambda>v. Inr (?a\<lparr>m_values := [Some v]\<rparr>))"
    using assms(2) by (simp add: apply_action_def a set_action_def unused_option_def bindR_assoc)
  ultimately show ?thesis by (simp add: parse_decimal arg_get_def any_cast_def)
qed

theorem scan_option_roundtrip_witness:
  "\<exists>a con. arg_scan (\<lambda>T s. (NotANumber, 0, False)) (CHR ''d'') (Integer SChar) (Argument_new ''-'' [''-n'']) = Some a \<and>
     (\<exists>a'. consume_arg con [''-12'', ''x''] ''-n'' a = Inr (a', [''x'']) \<and> arg_get (TInteger SChar) a' = Inr (AInteger SChar (- 12))) \<and>
     consume_arg con [''200'', ''x''] ''-n'' a = Inl (RangeError ''not representable'')"
proof -
  let ?strtod = "\<lambda>T s. (NotANumber, 0, False)" and ?a0 = "Argument_new ''-'' [''-n'']"
  have scan: "arg_scan ?strtod (CHR ''d'') (Integer SChar) ?a0 = Some (set_action (ValuedAction (parse_number SChar 10)) ?a0)"
    by (simp add: arg_scan_def scan_function_def)
  have new: "unused_option ?a0" "to_string (- 12) = ''-12''" "to_string 200 = ''200''" "in_range SChar (- 12)"
    "\<not> in_range SChar 200" by code_simp+
  obtain con :: console where "con = con" by simp
  from scan_option_roundtrip [OF scan new(1), of "- 12" con "[''x'']" "''-n''"]
    scan_option_roundtrip [OF scan new(1), of 200 con "[''x'']" "''-n''"]
  show ?thesis using scan new(2-5) by auto
qed

section \<open>An option and its value in one text\<close>

text \<open>
  \<^verbatim>\<open>--name=value\<close> is the same as \<^verbatim>\<open>--name value\<close>. For the name of a long option and a value that is not itself split, parsing either form
  gives the same result, errors and sub-commands included.
\<close>

lemma assigned_option:
  assumes "lookup_argument (ps ! k) name \<noteq> None" "lookup_argument (ps ! k) (name @ c # v) = None"
    and "starts_with_prefix (ps ! k) name" "c \<in> set (m_assign_chars (ps ! k))" "\<forall>d \<in> set name. d \<notin> set (m_assign_chars (ps ! k))"
    and "split_assign (ps ! k) v = [v]"
  shows "parse_args ps k (xs @ [name @ c # v] @ ys) = parse_args ps k (xs @ [name, v] @ ys)"
proof -
  have "takeWhile (\<lambda>d. d \<notin> set (m_assign_chars (ps ! k))) (name @ c # v) = name" using assms(4,5) by (simp add: takeWhile_append)
  moreover have "starts_with_prefix (ps ! k) (name @ c # v)" using assms(3) by (auto simp: starts_with_prefix_def split: list.splits if_splits)
  ultimately have "split_assign (ps ! k) (name @ c # v) = [name, v]" using assms(1,2) by (simp add: split_assign_def Let_def)
  moreover have "split_assign (ps ! k) name = [name]" using assms(1) by (auto simp: split_assign_def Let_def)
  ultimately have "preprocess_arguments (ps ! k) (xs @ [name @ c # v] @ ys) = preprocess_arguments (ps ! k) (xs @ [name, v] @ ys)"
    using assms(6) by (simp add: preprocess_arguments_def)
  then have "parse_own ps k (xs @ [name @ c # v] @ ys) = parse_own ps k (xs @ [name, v] @ ys)" unfolding parse_own_def by presburger
  then show ?thesis by (simp only: parse_args.simps [of ps])
qed

section \<open>Columns of the help output\<close>

lemma fold_max_bound: "x \<in> set xs \<or> x \<le> b \<Longrightarrow> x \<le> fold max xs (b :: nat)"
proof (induction xs arbitrary: b)
  case (Cons y ys)
  then have "x \<in> set ys \<or> x \<le> max y b" by (auto simp: le_max_iff_disj)
  then have "x \<le> fold max ys (max y b)" by (rule Cons.IH)
  then show ?case by (simp add: max.commute)
qed simp

lemma longest_argument_bound: "(n, k) \<in> set (m_argument_map p) \<Longrightarrow> get_arguments_length (arguments p ! k) \<le> get_length_of_longest_argument p"
proof -
  assume k: "(n, k) \<in> set (m_argument_map p)"
  then have "get_arguments_length (arguments p ! k) \<le> fold max (map (\<lambda>(_, k). get_arguments_length (arguments p ! k)) (m_argument_map p)) 0"
    by (intro fold_max_bound disjI1) force
  moreover have "m_argument_map p \<noteq> []" using k by auto
  ultimately show ?thesis unfolding get_length_of_longest_argument_def by (simp add: fold_max_bound)
qed

text \<open>
  The help texts of all arguments start in the same column. The line of an argument that has a name in the map is its names, padded
  to the common width, a tab and its help; a sub-command's description starts one column after that width as long as the command is at least
  two characters shorter than the width, and further right otherwise.
\<close>

lemma help_columns:
  assumes "(n, k) \<in> set (m_argument_map p)" "m_names (arguments p ! k) \<noteq> []"
  shows "\<exists>column rest. show_argument (get_length_of_longest_argument p) (arguments p ! k) = column @ [CHR 0x09] @ m_help (arguments p ! k) @ rest \<and>
      column = pad (get_length_of_longest_argument p) (name_text (arguments p ! k)) \<and> length column = get_length_of_longest_argument p"
    and "\<exists>column. show_subcommand (get_length_of_longest_argument p) command sub = column @ m_description sub @ nl \<and>
      length column = (if length command + 2 \<le> get_length_of_longest_argument p then get_length_of_longest_argument p + 1 else length command + 3)"
proof -
  let ?w = "get_length_of_longest_argument p"
  have "length (name_text (arguments p ! k)) \<le> ?w" using longest_argument_bound [OF assms(1)] length_name_text [OF assms(2)] by simp
  then have "length (pad ?w (name_text (arguments p ! k))) = ?w" by (simp add: pad_def)
  then show "\<exists>column rest. show_argument ?w (arguments p ! k) = column @ [CHR 0x09] @ m_help (arguments p ! k) @ rest \<and>
      column = pad ?w (name_text (arguments p ! k)) \<and> length column = ?w" by (simp add: show_argument_def)
  have "2 \<le> ?w"
    using longest_argument_bound [OF assms(1)] by (simp add: get_arguments_length_def Let_def split: if_splits)
  then have "length (''  '' @ pad (?w - 2) command @ '' '') = (if length command + 2 \<le> ?w then ?w + 1 else length command + 3)"
    by (auto simp: pad_def)
  then show "\<exists>column. show_subcommand ?w command sub = column @ m_description sub @ nl \<and>
      length column = (if length command + 2 \<le> ?w then ?w + 1 else length command + 3)"
    by (intro exI [of _ "''  '' @ pad (?w - 2) command @ '' ''"]) (simp add: show_subcommand_def)
qed

end
