(* ===== verification/Dedup_Savings.thy ===== *)
theory Dedup_Savings
  imports File_Store
begin

text \<open>
  What deduplication saves. When every chunk of a file is in the server's index, the upload stores a recipe and
  nothing else: no container is written and the index does not change. The contract of theory \<open>DedupClient_Upload\<close> is interpreted a
  second time on \<open>conn_receive\<close>, with \<open>quiet\<close> added to every state.
\<close>

section \<open>Steps that store no data\<close>

text \<open>The containers on disk are \<open>D\<close>, the index is \<open>A\<close>, and nothing waits to be written.\<close>

definition quiet :: "(string \<rightharpoonup> byte list) \<Rightarrow> (string \<rightharpoonup> ChunkAddr_t) \<Rightarrow> 'db server \<times> conn \<Rightarrow> bool" where
  "quiet D A = (\<lambda>(srv, c). containers_dir srv = D \<and> m_all_chunks srv = A \<and>
     occupied (m_containerBuffer c) = 0 \<and> m_queue (m_containerQueue c) = [])"

definition same_containers :: "conn \<Rightarrow> conn \<Rightarrow> bool" where
  "same_containers c c' \<longleftrightarrow> m_containerBuffer c' = m_containerBuffer c \<and> m_containerQueue c' = m_containerQueue c"

lemma write_recipe_entry_keeps:
  "write_recipe_entry ext a c = Inr c' \<Longrightarrow> same_containers c c' \<and> m_outMsgBuffer c' = m_outMsgBuffer c"
  by (auto simp: write_recipe_entry_def insert_recipe_queue_def new_recipe_def same_containers_def Let_def bindR_eq_Inr_iff
      split: if_splits option.splits)

lemma store_chunk_known:
  assumes "store_chunk ext i (srv, c, l) = Inr (srv', c', l')" "msg_data (m_outMsgBuffer c) i = 0"
  shows "srv' = srv \<and> same_containers c c' \<and> m_outMsgBuffer c' = m_outMsgBuffer c"
  using assms write_recipe_entry_keeps
  by (fastforce simp: store_chunk_def take_duplicate_def same_containers_def Let_def bindR_eq_Inr_iff split: list.splits)

lemma store_loop_duplicates:
  assumes "store_loop ext is (srv, c, l) = Inr (srv', c', l')" "\<forall>i \<in> set is. msg_data (m_outMsgBuffer c) i = 0"
  shows "srv' = srv \<and> same_containers c c'"
  using assms
proof (induction "is" arbitrary: srv c l)
  case (Cons i "is")
  then obtain srv1 c1 l1 where one: "store_chunk ext i (srv, c, l) = Inr (srv1, c1, l1)"
    and rest: "store_loop ext is (srv1, c1, l1) = Inr (srv', c', l')" by (auto simp: bindR_eq_Inr_iff)
  have "srv1 = srv \<and> same_containers c c1 \<and> m_outMsgBuffer c1 = m_outMsgBuffer c"
    using store_chunk_known [OF one] Cons.prems(2) by simp
  then show ?case using Cons.IH [OF rest] Cons.prems(2) by (auto simp: same_containers_def)
qed (simp add: same_containers_def)

lemma query_chunk_keeps: "query_chunk srv i (c, l) = (c', l') \<Longrightarrow> same_containers c c'"
  by (auto simp: query_chunk_def set_flag_def same_containers_def Let_def split: prod.splits if_splits)

lemma query_chunks_keep: "fold (query_chunk srv) is (c, l) = (c', l') \<Longrightarrow> same_containers c c'"
proof (induction "is" arbitrary: c l)
  case (Cons i "is")
  obtain c1 l1 where one: "query_chunk srv i (c, l) = (c1, l1)" by fastforce
  then show ?case using Cons query_chunk_keeps [OF one] by (auto simp: same_containers_def)
qed (simp add: same_containers_def)

lemma answer_query_keeps: "answer_query srv (c, l) = Inr (c', l') \<Longrightarrow> same_containers c c'"
  by (auto simp: answer_query_def Let_def same_containers_def bindR_eq_Inr_iff split: if_splits dest!: query_chunks_keep)

lemma write_blocks_keep:
  "containers_dir (fst (fold (write_recipe_block name) rs s)) = containers_dir (fst s) \<and>
   m_all_chunks (fst (fold (write_recipe_block name) rs s)) = m_all_chunks (fst s)"
  by (induction rs arbitrary: s) (simp_all add: write_recipe_block_def split_beta)

lemma run_writers_quiet:
  assumes "quiet D A (srv, c)" "run_writers (srv, c, l) = (srv', c', l')"
  shows "quiet D A (srv', c')"
proof -
  have C: "snd (consume save_container (m_containerQueue c) srv) = srv"
    using consume_fold [of save_container "m_containerQueue c" srv] assms(1) by (simp add: quiet_def)
  let ?R = "consume (write_recipe_block (m_recipeNameHash c)) (m_recipeQueue c) (srv, rw_totalChunkNum l)"
  have "fst (snd ?R) = srv'" "m_containerBuffer c' = m_containerBuffer c"
    "m_containerQueue c' = fst (consume save_container (m_containerQueue c) srv)"
    using assms(2) C by (auto simp: run_writers_def write_container_def write_recipe_def split_beta Let_def)
  moreover have "containers_dir (fst (snd ?R)) = containers_dir srv" "m_all_chunks (fst (snd ?R)) = m_all_chunks srv"
    using consume_fold [of "write_recipe_block (m_recipeNameHash c)" "m_recipeQueue c" "(srv, rw_totalChunkNum l)"]
      write_blocks_keep [of "m_recipeNameHash c" "m_queue (m_recipeQueue c)" "(srv, rw_totalChunkNum l)"] by simp_all
  ultimately show ?thesis
    using assms(1) consume_fold [of save_container "m_containerQueue c" srv] by (auto simp: quiet_def)
qed

section \<open>Messages that store no data\<close>

lemma receive_chunks_quiet:
  assumes "receive_chunks ext (srv, c, l) = Inr (srv', c', l')" "quiet D A (srv, c)"
    and "\<forall>i < hl_num (m_hashList c). msg_data (m_outMsgBuffer c) i = 0"
  shows "quiet D A (srv', c')"
proof -
  obtain srv1 c1 l1 c2 l2 where loop: "store_loop ext [0..<hl_num (m_hashList c)] (srv, c, l\<lparr>currentUniqueNum := 0\<rparr>) = Inr (srv1, c1, l1)"
    and ans: "answer_query srv1 (c1, l2) = Inr (c', l')" and srv: "srv' = srv1"
    using assms(1) by (auto simp: receive_chunks_def bindR_eq_Inr_iff)
  have "srv1 = srv \<and> same_containers c c1" using store_loop_duplicates [OF loop] assms(3) by simp
  then show ?thesis using answer_query_keeps [OF ans] assms(2) by (auto simp: quiet_def same_containers_def srv)
qed

lemma receive_body_quiet:
  assumes "receive_file_body ext f (srv, c, l) = Inr ((srv', c', l'), out, go)" "quiet D A (srv, c)"
    and "\<forall>i < hl_num (m_hashList c). msg_data (m_outMsgBuffer c) i = 0"
  shows "quiet D A (srv', c')"
proof -
  let ?c = "load_in f c"
  have q: "quiet D A (srv, ?c)" "\<forall>i < hl_num (m_hashList ?c). msg_data (m_outMsgBuffer ?c) i = 0"
    using assms(2,3) by (simp_all add: quiet_def load_in_def)
  obtain srv1 c1 l1 where step: "(if dataMsgType (header (m_inMsgBuffer ?c)) = dataMsgType_val FILEEND
            then bindR (receive_fileend ?c) (\<lambda>c. Inr (srv, c, l)) else receive_chunks ext (srv, ?c, l)) = Inr (srv1, c1, l1)"
    and out: "srv' = srv1" "c' = c1 \<or> c' = c1\<lparr>m_containerQueue := set_done (m_containerQueue c1), m_recipeQueue := set_done (m_recipeQueue c1)\<rparr>"
    using assms(1) by (auto simp: receive_file_body_def load_in_def Let_def bindR_eq_Inr_iff split: if_splits)
  have "quiet D A (srv1, c1)"
  proof (cases "dataMsgType (header (m_inMsgBuffer ?c)) = dataMsgType_val FILEEND")
    case True
    then show ?thesis
      using step q(1) by (auto simp: receive_fileend_def insert_recipe_queue_def set_out_type_def quiet_def bindR_eq_Inr_iff
          split: if_splits option.splits)
  next
    case False
    then show ?thesis using step receive_chunks_quiet [OF _ q] by simp
  qed
  then show ?thesis using out by (auto simp: quiet_def set_done_def)
qed

lemma reset_upload_quiet: "reset_upload ext (srv, c) = Inr (srv', c') \<Longrightarrow> quiet D A (srv, c) \<Longrightarrow> quiet D A (srv', c')"
  by (auto simp: reset_upload_def new_container_def new_recipe_def undone_def quiet_def Let_def bindR_eq_Inr_iff)

lemma receive_file_end_quiet:
  assumes "receive_file_end ext (srv, c, l) = Inr (srv', c')" "quiet D A (srv, c)"
  shows "quiet D A (srv', c')"
proof -
  obtain srv1 c1 l1 where run: "run_writers (srv, c, l) = (srv1, c1, l1)" by (cases "run_writers (srv, c, l)")
  have "quiet D A (write_recipe_close (m_recipeNameHash c1) (rw_totalChunkNum l1) srv1, c1)"
    using run_writers_quiet [OF assms(2) run] by (simp add: quiet_def write_recipe_close_def)
  then show ?thesis using assms(1) reset_upload_quiet by (simp add: receive_file_end_def run)
qed

text \<open>A part of the file that contains only duplicates, or the end of the file.\<close>

lemma conn_receive_quiet:
  assumes "conn_receive ext f (srv, c, Receiving l) = Inr ((srv', c', m'), out)" "quiet D A (srv, c)"
    and "\<forall>i < hl_num (m_hashList c). msg_data (m_outMsgBuffer c) i = 0"
  shows "quiet D A (srv', c')"
proof -
  obtain srv1 c1 l1 go where body: "receive_file_body ext f (srv, c, l) = Inr ((srv1, c1, l1), out, go)"
    and rest: "(if go then (let (srv, c, l) = run_writers (srv1, c1, l1) in Inr ((srv, c, Receiving l), out))
          else bindR (receive_file_end ext (srv1, c1, l1)) (\<lambda>(srv, c). Inr ((srv, c, AwaitOrder), out))) = Inr ((srv', c', m'), out)"
    using assms(1) by (auto simp: conn_receive_def bindR_eq_Inr_iff split: if_splits prod.splits)
  note q = receive_body_quiet [OF body assms(2,3)]
  show ?thesis
  proof (cases go)
    case True
    obtain s2 c2 l2 where "run_writers (srv1, c1, l1) = (s2, c2, l2)" by (cases "run_writers (srv1, c1, l1)")
    then show ?thesis using rest True run_writers_quiet [OF q] by simp
  next
    case False
    then show ?thesis using rest receive_file_end_quiet [OF _ q] by (auto simp: bindR_eq_Inr_iff)
  qed
qed

lemma isFileUnique_keeps: "isFileUnique ext cid fn srv = Inr (u, srv') \<Longrightarrow> containers_dir srv' = containers_dir srv \<and> m_all_chunks srv' = m_all_chunks srv"
  by (auto simp: isFileUnique_def bindR_eq_Inr_iff)

lemma addFile_keeps: "addFile ext cid fn srv = Inr srv' \<Longrightarrow> containers_dir srv' = containers_dir srv \<and> m_all_chunks srv' = m_all_chunks srv"
  by (auto simp: addFile_def Let_def bindR_eq_Inr_iff split: prod.splits)

lemma upload_request_quiet:
  assumes "conn_receive ext f (srv, c, AwaitOrder) = Inr ((srv', c', Receiving l), out)" "quiet D A (srv, c)"
  shows "quiet D A (srv', c')"
proof -
  obtain ord fn status where msg: "receive_control_msg (x_malloc ext) f [] 0 = Inr (ord, fn, status)"
    using assms(1) by (auto simp: conn_receive_def handle_order_def bindR_eq_Inr_iff)
  have "order_of ord = Some UPLOAD"
    using assms(1) by (cases "order_of ord"; cases "the (order_of ord)") (auto simp: conn_receive_def handle_order_def msg bindR_eq_Inr_iff)
  then have "receive_file_begin ext fn (srv, c) = Inr ((srv', c', Some l), out)"
    using assms(1) by (auto simp: conn_receive_def handle_order_def msg bindR_eq_Inr_iff split: option.split_asm)
  then show ?thesis using assms(2) isFileUnique_keeps addFile_keeps
    by (fastforce simp: receive_file_begin_def quiet_def set_out_type_def write_recipe_open_def Let_def bindR_eq_Inr_iff split: if_splits)
qed

section \<open>The contract again\<close>

definition of_conn :: "('db server \<times> conn \<Rightarrow> bool) \<Rightarrow> 'db server \<times> conn \<times> mode \<Rightarrow> bool" where
  "of_conn P = (\<lambda>(srv, c, m). P (srv, c))"

lemma quiet_request_law:
  assumes "accepts_upload ext malloc N C rows same cid fn F db1 k p \<and> of_conn (quiet D A) p"
  shows "\<exists>p' m. conn_receive ext (send_control_message malloc UPLOAD fn NONE) p =
           Inr (p', [send_control_message m UPLOADREP [] UNIQUE]) \<and>
         (receives ext malloc N C rows same cid fn F db1 k [] [] [] p' \<and> of_conn (quiet D A) p' \<and> True \<notin> set []) \<and>
         (\<forall>ch. knows ext p ch \<longrightarrow> knows ext p' ch)"
proof -
  obtain p' m where step: "conn_receive ext (send_control_message malloc UPLOAD fn NONE) p = Inr (p', [send_control_message m UPLOADREP [] UNIQUE])"
    and rcv: "receives ext malloc N C rows same cid fn F db1 k [] [] [] p'" "\<forall>ch. knows ext p ch \<longrightarrow> knows ext p' ch"
    using upload_request_law [OF conjunct1 [OF assms]] by blast
  obtain srv c srv' c' l where "p = (srv, c, AwaitOrder)" "p' = (srv', c', Receiving l)"
    using rcv(1) assms by (cases p; cases p'; cases "snd (snd p')") (auto simp: receives_def accepts_upload_def)
  then show ?thesis using step rcv upload_request_quiet assms by (fastforce simp: of_conn_def)
qed

lemma receives_flags:
  assumes "receives ext malloc N C rows same cid fn F db1 k recs chs fl (srv, c, Receiving l)" "True \<notin> set fl"
  shows "\<forall>i < hl_num (m_hashList c). msg_data (m_outMsgBuffer c) i = 0"
  using assms by (auto simp: receives_def receiving_def queried_def flag_byte_def) (metis nth_mem)

lemma quiet_part_law:
  assumes rcv: "receives ext malloc N C rows same cid fn F db1 (k + length chs) recs chs fl p \<and> of_conn (quiet D A) p \<and> True \<notin> set fl"
    and nx: "chunks_ok C next \<and> (\<forall>ch \<in> set next. A (chunk_key ext ch) \<noteq> None)" "length next \<le> BATCHSIZE"
    and full: "full_chunks (uniques (zip chs fl))" and f: "part_frame (x_evp ext) (uniques (zip chs fl)) next f"
  shows "\<exists>p' out. conn_receive ext f p = Inr (p', out) \<and>
           (receives ext malloc N C rows same cid fn F db1 k (recs @ chs) next (map (\<lambda>ch. \<not> knows ext p' ch) next) p' \<and>
            of_conn (quiet D A) p' \<and> True \<notin> set (map (\<lambda>ch. \<not> knows ext p' ch) next)) \<and>
           (\<forall>ch. knows ext p ch \<longrightarrow> knows ext p' ch) \<and>
           (if next = [] then out = [] else \<exists>g. out = [g] \<and> flags_frame (map (\<lambda>ch. \<not> knows ext p' ch) next) g)"
proof -
  obtain p' out where step: "conn_receive ext f p = Inr (p', out)"
    and r: "receives ext malloc N C rows same cid fn F db1 k (recs @ chs) next (map (\<lambda>ch. \<not> knows ext p' ch) next) p'"
      "\<forall>ch. knows ext p ch \<longrightarrow> knows ext p' ch"
      "if next = [] then out = [] else \<exists>g. out = [g] \<and> flags_frame (map (\<lambda>ch. \<not> knows ext p' ch) next) g"
    using part_law [OF conjunct1 [OF rcv] conjunct1 [OF nx(1)] nx(2) full f] by (elim exE conjE) (rule that; assumption)
  obtain srv c l where p: "p = (srv, c, Receiving l)"
    using rcv by (cases p; cases "snd (snd p)") (auto simp: receives_def)
  have "of_conn (quiet D A) p'"
    using conn_receive_quiet [of ext f srv c l _ _ _ out D A] step rcv receives_flags [of ext malloc N C rows same cid fn F db1]
    by (cases p') (fastforce simp: p of_conn_def)
  moreover from this have "True \<notin> set (map (\<lambda>ch. \<not> knows ext p' ch) next)"
    using nx(1) by (cases p') (auto simp: knows_def of_conn_def quiet_def)
  ultimately show ?thesis using step r by blast
qed

lemma quiet_end_law:
  assumes rcv: "receives ext malloc N C rows same cid fn F db1 (Suc k) recs [] fl p \<and> of_conn (quiet D A) p \<and> True \<notin> set fl"
    and f: "end_frame f"
  shows "\<exists>p'. conn_receive ext f p = Inr (p', []) \<and> (holds_file ext malloc N C rows same cid fn F db1 recs p' \<and> of_conn (quiet D A) p')"
proof -
  obtain p' where step: "conn_receive ext f p = Inr (p', [])" "holds_file ext malloc N C rows same cid fn F db1 recs p'"
    using end_law [OF conjunct1 [OF rcv] f] by blast
  obtain srv c l where p: "p = (srv, c, Receiving l)"
    using rcv by (cases p; cases "snd (snd p)") (auto simp: receives_def)
  have "of_conn (quiet D A) p'"
    using conn_receive_quiet [of ext f srv c l _ _ _ "[]" D A] step rcv receives_flags [of ext malloc N C rows same cid fn F db1]
    by (cases p') (fastforce simp: p of_conn_def)
  then show ?thesis using step by blast
qed

lemma quiet_digests:
  "receives ext malloc N C rows same cid fn F db1 k recs chs fl p \<and> of_conn (quiet D A) p \<and> True \<notin> set fl \<Longrightarrow> evp_total (x_evp ext)"
  by (rule receives_digests [OF conjunct1])

interpretation saves: upload_peer "x_evp ext" malloc "conn_receive ext" fn
    "\<lambda>k p. accepts_upload ext malloc N C rows same cid fn F db1 k p \<and> of_conn (quiet D A) p"
    "\<lambda>k recs chs fl p. receives ext malloc N C rows same cid fn F db1 k recs chs fl p \<and> of_conn (quiet D A) p \<and> True \<notin> set fl"
    "\<lambda>recs p. holds_file ext malloc N C rows same cid fn F db1 recs p \<and> of_conn (quiet D A) p" "knows ext"
    "\<lambda>chs. chunks_ok C chs \<and> (\<forall>ch \<in> set chs. A (chunk_key ext ch) \<noteq> None)"
  for ext :: "'db ext" and malloc N C rows same cid fn F db1 D A
proof unfold_locales
qed (fact quiet_request_law quiet_part_law quiet_end_law quiet_digests)+

section \<open>Sessions\<close>

lemma known_upload:
  assumes srv: "server_ok ext N C rows same (Suc (Suc (length (chunks_of bs)))) srv" and fn: "fn = get_file_name path" "sendable malloc fn"
    and new: "rows (m_db srv) (sint cid) fn = 0" and C: "set (chunks_of bs) \<subseteq> C" and known: "indexed ext srv (chunks_of bs)"
  shows "\<exists>srv'. run_command ext malloc sockfd info (Upload cid path bs) srv = Inr (srv', None) \<and>
           containers_dir srv' = containers_dir srv \<and> m_all_chunks srv' = m_all_chunks srv \<and>
           on_disk (recipe_key ext cid fn) (chunks_of bs) srv'"
proof -
  let ?key = "recipe_key ext cid fn" and ?cl = "client_of malloc cid CHR ''u'' path"
  let ?q = "quiet (containers_dir srv) (m_all_chunks srv)"
  define srv1 where "srv1 = srv\<lparr>uuid_count := uuid_count srv + 1\<rparr>"
  define db1 where "db1 = fst (x_exec ext (m_db srv) (insert_query cid fn))"
  obtain c d where conn: "ClientConn_new ext sockfd info srv = Inr (srv1, c)"
    and d: "d = c\<lparr>m_client_info := (m_client_info c)\<lparr>client_id := cid\<rparr>\<rparr>"
    and calm: "calm ext N C rows same cid (Suc (length (chunks_of bs))) (srv1, d)"
    using logged_in [OF srv, of sockfd info cid] by (auto simp: srv1_def)
  have acc: "accepts_upload ext malloc N C rows same cid fn {} db1 (Suc (length (chunks_of bs))) (srv1, d, AwaitOrder) \<and> of_conn ?q (srv1, d, AwaitOrder)"
    using calm fn(2) new by (auto simp: accepts_upload_def db1_def keeps_def srv1_def of_conn_def quiet_def calm_def idle_def drained_def)
  have "set (chunks_of b) \<subseteq> set (chunks_of bs)" if "b \<in> set (blocks_of bs)" for b
    using that by (subst (2) chunks_of_blocks [symmetric]) auto
  then have ok: "\<forall>b \<in> set (blocks_of bs). chunks_ok C (chunks_of b) \<and> (\<forall>ch \<in> set (chunks_of b). m_all_chunks srv (chunk_key ext ch) \<noteq> None)"
    "chunks_ok C [] \<and> (\<forall>ch \<in> set []. m_all_chunks srv (chunk_key ext ch) \<noteq> None)"
    using chunks_of_ok(1,3) [OF C] known unfolding indexed_def by (blast, simp)
  obtain cl' p where up: "upload_file (x_evp ext) malloc (conn_receive ext) (Some bs) ?cl ((srv1, d, AwaitOrder), []) = Inr (cl', (p, []))"
    and st: "holds_file ext malloc N C rows same cid fn {} db1 (chunks_of bs) p" "of_conn ?q p"
    using saves.file_uploaded [OF acc _ ok, of ?cl] fn(1) by auto
  obtain srv2 c2 where p: "p = (srv2, c2, AwaitOrder)" "calm ext N C rows same cid 0 (srv2, c2)"
      "file_stored Map.empty ?key (chunks_of bs) (srv2, c2)" "?q (srv2, c2)"
    using st by (cases p) (auto simp: holds_file_def of_conn_def)
  have "session ext malloc sockfd info (Some bs) ?cl srv = Inr (cl', None, ((srv2, c2, Closed), []))"
    using session_upload_eq [OF conn] up by (simp add: d p)
  then show ?thesis
    using p(4) left_server(2) [OF p(2,3)] chunks_of_facts(3) by (simp add: run_command_def quiet_def)
qed

text \<open>
  C8: a file whose chunks the server has is stored without its data. Whichever client uploads it and under whatever new name, the session
  ends normally, not one container file is written or changed and the index of chunks stays as it is; only the
  recipe of the file is added.
\<close>

theorem known_content_stores_nothing:
  assumes "server_ok ext N C rows same (Suc (Suc (length (chunks_of bs)))) srv" "fn = get_file_name path" "sendable malloc fn"
    and "rows (m_db srv) (sint cid) fn = 0" "set (chunks_of bs) \<subseteq> C" "indexed ext srv (chunks_of bs)"
  shows "\<exists>srv'. run_command ext malloc sockfd info (Upload cid path bs) srv = Inr (srv', None) \<and>
           containers_dir srv' = containers_dir srv \<and> m_all_chunks srv' = m_all_chunks srv \<and>
           on_disk (recipe_key ext cid fn) (chunks_of bs) srv'"
  using assms by (rule known_upload)

theorem known_content_stores_nothing_witness:
  "\<exists>srv1 srv2. run_command demo_ext (\<lambda>_. 0) 5 (ClientInfo_new 7 ''10.0.0.1'' 4000) (Upload 1 ''a'' [1, 2, 3]) demo_server = Inr (srv1, None) \<and>
     run_command demo_ext (\<lambda>_. 0) 5 (ClientInfo_new 7 ''10.0.0.1'' 4000) (Upload 2 ''b'' [1, 2, 3]) srv1 = Inr (srv2, None) \<and>
     containers_dir srv2 = containers_dir srv1"
proof -
  let ?info = "ClientInfo_new 7 ''10.0.0.1'' 4000" and ?cl = "client_of (\<lambda>_. 0) 1 CHR ''u'' ''a''"
  have gfn: "''a'' = get_file_name ''a''" "''b'' = get_file_name ''b''" by code_simp+
  have ch: "chunks_of [1, 2, 3 :: byte] = [[1, 2, 3]]" by (simp add: chunks_of_short config_values)
  have snd: "sendable (\<lambda>_. 0) ''a''" "sendable (\<lambda>_. 0) ''b''" by (simp_all add: sendable_def name_ok_def plain_name_def no_nul_def)
  have rep: "represents demo_ext 60 demo_chunks sql_demo_rows (=) UNIV 6 demo_server Map.empty" by (rule demo_represents) simp
  then have ok: "server_ok demo_ext 60 demo_chunks sql_demo_rows (=) (Suc (Suc (length (chunks_of [1, 2, 3]))) + 3) demo_server"
    by (simp add: represents_def ch)
  have rows: "sql_demo_rows (m_db demo_server) (sint cid) fn = 0" for cid :: u32 and fn using rep by (simp add: represents_def)
  obtain cl' srv1 c1 where one: "session demo_ext (\<lambda>_. 0) 5 ?info (Some [1, 2, 3]) ?cl demo_server = Inr (cl', None, ((srv1, c1, Closed), []))"
    and s1: "server_ok demo_ext 60 demo_chunks sql_demo_rows (=) 3 srv1" "m_db srv1 = fst (x_exec demo_ext (m_db demo_server) (insert_query 1 ''a''))"
      "indexed demo_ext srv1 (chunks_of [1, 2, 3])"
    using session_uploads [OF ok, of ?cl "''a''" "\<lambda>_. 0" 1 5 ?info] gfn(1) snd(1) rows [of 1 "''a''"] ch by (auto simp: demo_chunks_def)
  have "sql_demo_rows (m_db srv1) (sint (2 :: u32)) ''b'' = 0"
    using s1(1,2) rows [of 2 "''b''"] by (simp add: server_ok_def db_ready_def mysql_files_def plain_name_def)
  then have "\<exists>srv2. run_command demo_ext (\<lambda>_. 0) 5 ?info (Upload 2 ''b'' [1, 2, 3]) srv1 = Inr (srv2, None) \<and> containers_dir srv2 = containers_dir srv1"
    using known_content_stores_nothing [OF _ gfn(2) snd(2) _ _ s1(3), of 60 demo_chunks sql_demo_rows "(=)" 2 5 ?info] s1(1) ch
    by (auto simp: demo_chunks_def eval_nat_numeral)
  then show ?thesis using one by (simp add: run_command_def)
qed

section \<open>Recipe names that collide\<close>

text \<open>
  C34: the recipe of a file is named after the client id followed by the file name, without a separator, so two files of different clients can
  have one name (client 1 with file 23 and client 12 with file 3). The database tells them apart, so both
  uploads are accepted, and then the first client downloads the second client's content.
\<close>

theorem recipe_names_collide:
  assumes ok: "server_ok ext N C rows same (cost (Upload cid path bs) + (cost (Upload cid' path' bs') + (Suc k))) srv"
    and clash: "cid \<noteq> cid'" "recipe_name cid (get_file_name path) = recipe_name cid' (get_file_name path')"
    and names: "sendable malloc (get_file_name path)" "sendable malloc (get_file_name path')"
    and new: "rows (m_db srv) (sint cid) (get_file_name path) = 0" "rows (m_db srv) (sint cid') (get_file_name path') = 0"
    and C: "set (chunks_of bs) \<subseteq> C" "set (chunks_of bs') \<subseteq> C"
  shows "\<exists>srv'. run_commands ext malloc sockfd info [Upload cid path bs, Upload cid' path' bs', Download cid path] srv =
           Inr (srv', [None, None, Some bs'])"
proof -
  let ?fn = "get_file_name path" and ?fn' = "get_file_name path'"
  have key: "recipe_key ext cid ?fn = recipe_key ext cid' ?fn'" using clash(2) by (simp add: recipe_key_def)
  have ids: "sint cid \<noteq> sint cid'" using clash(1) by (auto dest: signed_word_eqI)
  note u1 = session_uploads [of ext N C rows same bs _ _ "client_of malloc cid CHR ''u'' path" ?fn malloc cid sockfd info]
  obtain cl1 srv1 c1 where one: "session ext malloc sockfd info (Some bs) (client_of malloc cid CHR ''u'' path) srv = Inr (cl1, None, ((srv1, c1, Closed), []))"
    and s1: "server_ok ext N C rows same (cost (Upload cid' path' bs') + Suc k) srv1" "m_db srv1 = fst (x_exec ext (m_db srv) (insert_query cid ?fn))"
    using u1 [of "cost (Upload cid' path' bs') + Suc k" srv] ok names new C by auto
  have my: "mysql_files (x_exec ext) rows same" "plain_name ?fn" "plain_name ?fn'"
    using ok names by (auto simp: server_ok_def db_ready_def sendable_def name_ok_def)
  then have r1: "rows (m_db srv1) (sint cid') ?fn' = 0" "rows (m_db srv1) (sint cid) ?fn = 1"
    using s1(2) new ids by (auto simp: mysql_files_def)
  obtain cl2 srv2 c2 where two: "session ext malloc sockfd info (Some bs') (client_of malloc cid' CHR ''u'' path') srv1 = Inr (cl2, None, ((srv2, c2, Closed), []))"
    and s2: "server_ok ext N C rows same (Suc k) srv2" "m_db srv2 = fst (x_exec ext (m_db srv1) (insert_query cid' ?fn'))"
      "on_disk (recipe_key ext cid' ?fn') (chunks_of bs') srv2"
    using session_uploads [of ext N C rows same bs' "Suc k" srv1 "client_of malloc cid' CHR ''u'' path'" ?fn' malloc cid' sockfd info]
      s1(1) names r1 C by auto
  have "rows (m_db srv2) (sint cid) ?fn = 1" using s2(2) my r1 ids by (auto simp: mysql_files_def)
  then obtain cl3 srv3 c3 where "session ext malloc sockfd info None (client_of malloc cid CHR ''d'' path) srv2 = Inr (cl3, Some bs', ((srv3, c3, Closed), []))"
    using session_downloads [OF s2(1), of "client_of malloc cid CHR ''d'' path" ?fn malloc cid "chunks_of bs'" sockfd info None]
      s2(3) names key chunks_of_ok(2) [OF C(2)] chunks_of_facts(1) [of bs'] by auto
  then show ?thesis using one two by (simp add: run_command_def)
qed

theorem recipe_names_collide_witness:
  "\<exists>srv'. run_commands demo_ext (\<lambda>_. 0) 5 (ClientInfo_new 7 ''10.0.0.1'' 4000)
     [Upload 1 ''23'' [1, 2, 3], Upload 12 ''3'' [9], Download 1 ''23''] demo_server = Inr (srv', [None, None, Some [9]])"
proof -
  have gfn: "get_file_name ''23'' = ''23''" "get_file_name ''3'' = ''3''" "recipe_name 1 ''23'' = recipe_name 12 ''3''" by code_simp+
  have ch: "chunks_of [1, 2, 3 :: byte] = [[1, 2, 3]]" "chunks_of [9 :: byte] = [[9]]"
    by (simp_all add: chunks_of_short config_values)
  have snd: "sendable (\<lambda>_. 0) ''23''" "sendable (\<lambda>_. 0) ''3''" by (simp_all add: sendable_def name_ok_def plain_name_def no_nul_def)
  have rep: "represents demo_ext 60 demo_chunks sql_demo_rows (=) UNIV 7 demo_server Map.empty" by (rule demo_represents) simp
  then have rows: "sql_demo_rows (m_db demo_server) (sint cid) fn = 0" for cid :: u32 and fn by (simp add: represents_def)
  have "server_ok demo_ext 60 demo_chunks sql_demo_rows (=) (cost (Upload 1 ''23'' [1, 2, 3]) + (cost (Upload 12 ''3'' [9]) + Suc 0)) demo_server"
    using rep by (simp add: represents_def ch eval_nat_numeral)
  from recipe_names_collide [OF this _ _ _ _ rows rows, of "\<lambda>_. 0" 5 "ClientInfo_new 7 ''10.0.0.1'' 4000"]
  show ?thesis using gfn snd ch by (simp add: demo_chunks_def)
qed

end
