(* ===== verification/ClientConn_Faults.thy ===== *)
theory ClientConn_Faults
  imports ClientConn_Download
begin

text \<open>
  What the connection handler does when a message or the disk is not as it expects: nothing checks the fields of a received header,
  and nothing checks whether a container could be read.
\<close>

section \<open>A header that is not checked\<close>

lemma big_query_fails:
  assumes "BATCHSIZE < unat (queryNum (header (m_inMsgBuffer c)))"
  shows "answer_query srv (c, l) = Inl BufferOverflow"
  using assms by (simp add: answer_query_def config_values Let_def)


definition hostile_part :: DataMsg_t where
  "hostile_part = \<lparr>header = (dec_header (replicate 40 0))\<lparr>dataMsgType := dataMsgType_val UPLOADBODY, queryNum := 1025\<rparr>, msg_data = (\<lambda>_. 0)\<rparr>"


section \<open>A container that is not there\<close>

text \<open>
  C37: a download does not notice a missing container. If the container a recipe refers to is not on the disk (for instance because the upload that
  indexed the chunk has not written it yet), the message has the announced length and carries what the output buffer
  held before, so the client receives old data as the content of the file.
\<close>

theorem missing_container_sends_old_data:
  assumes "containers_dir srv (ca_containerID a) = None" "addr_ok a" "unat (ca_size a) \<le> out_capacity"
    and "dataMsgType (header (m_outMsgBuffer c)) = dataMsgType_val DOWNLOADBODY"
  shows "\<exists>c' frame. send_batch srv (enc_addr a) c = Inr (c', frame) \<and>
           data_frame (mem_read (msg_data (m_outMsgBuffer c)) 0 (unat (ca_size a))) frame"
proof -
  define D where "D = unat (ca_size a)"
  define out where "out = (m_outMsgBuffer c)\<lparr>header := (header (m_outMsgBuffer c))
      \<lparr>hdr_chunkNum := 1, hdr_size := of_nat (sizeof_DataMsg + D)\<rparr>\<rparr>"
  have addrs: "batch_addrs (mem_write (m_chunkAddrs c) 0 (enc_addr a)) 1 = [a]"
    using batch_addrs_written [of "[a]" "m_chunkAddrs c"] assms(2) by simp
  have rd: "read_chunks srv [a] (msg_data (m_outMsgBuffer c), 0) = Inr (msg_data (m_outMsgBuffer c), D)"
    using assms(1,3) by (simp add: read_container_def D_def)
  have "sizeof_DataMsg + D < 2 ^ 64" using assms(3) by (simp add: D_def capacities sizeofs)
  note sz = unat_of_nat_small(2) [OF this]
  have "send_batch srv (enc_addr a) c =
      Inr (c\<lparr>m_chunkAddrs := mem_write (m_chunkAddrs c) 0 (enc_addr a), m_outMsgBuffer := out\<rparr>, msg_bytes out (sizeof_DataMsg + D))"
    using addrs rd sz assms(3) by (simp add: send_batch_def Let_def sizeof_ChunkAddr_def out_def D_def del: of_nat_add)
  moreover have "data_frame (mem_read (msg_data (m_outMsgBuffer c)) 0 D) (msg_bytes out (sizeof_DataMsg + D))"
    unfolding data_frame_def using assms(4) by (intro exI [of _ out]) (simp add: out_def)
  ultimately show ?thesis unfolding D_def by blast
qed

definition sending_conn :: conn where
  "sending_conn = (set_out_type DOWNLOADBODY (uninit_conn demo_ext 5 (ClientInfo_new 7 ''10.0.0.1'' 4000)))"

theorem missing_container_sends_old_data_witness:
  "\<exists>c' frame. send_batch demo_server (enc_addr \<lparr>ca_containerID = ''A'', ca_offset = 0, ca_size = 3\<rparr>) sending_conn = Inr (c', frame) \<and>
     data_frame (mem_read (msg_data (m_outMsgBuffer sending_conn)) 0 3) frame"
  using missing_container_sends_old_data [of demo_server "\<lparr>ca_containerID = ''A'', ca_offset = 0, ca_size = 3\<rparr>" sending_conn]
  by (simp add: demo_server_def addr_ok_def no_nul_def capacities sending_conn_def set_out_type_def)

end
