(* ===== verification/ClientConn_Containers.thy ===== *)
theory ClientConn_Containers
  imports ClientConn_Session
begin

text \<open>
  Which container files a connection may write. A connection owns the container it fills and those in its queue; it
  writes no other container file, and every name it adds is newly drawn. While it fills a container there is no file
  of that name yet, and a container with data is left only when it is queued or written. These facts let several
  connections of the server be considered apart.
\<close>

section \<open>Ownership\<close>

definition own :: "conn \<Rightarrow> string set" where
  "own c = insert (containerID (m_containerBuffer c)) (containerID ` set (m_queue (m_containerQueue c)))"

definition drawn :: "'db ext \<Rightarrow> 'db server \<Rightarrow> 'db server \<Rightarrow> string set" where
  "drawn ext srv srv' = x_uuid ext ` {uuid_count srv..<uuid_count srv'}"

definition writes_own :: "'db ext \<Rightarrow> 'db server \<times> conn \<Rightarrow> 'db server \<times> conn \<Rightarrow> bool" where
  "writes_own ext = (\<lambda>(srv, c) (srv', c').
     uuid_count srv \<le> uuid_count srv' \<and> own c' \<subseteq> own c \<union> drawn ext srv srv' \<and>
     (\<forall>k. k \<notin> own c \<union> drawn ext srv srv' \<longrightarrow> containers_dir srv' k = containers_dir srv k))"

definition saved :: "'db server \<times> conn \<Rightarrow> string set" where
  "saved = (\<lambda>(srv, c). containerID ` set (m_queue (m_containerQueue c)) \<union> dom (containers_dir srv))"

definition unsaved :: "'db ext \<Rightarrow> 'db server \<times> conn \<Rightarrow> bool" where
  "unsaved ext = (\<lambda>(srv, c).
     containerID (m_containerBuffer c) \<notin> saved (srv, c) \<and>
     insert (containerID (m_containerBuffer c)) (saved (srv, c)) \<subseteq> x_uuid ext ` {..<uuid_count srv})"

definition keeps_filled :: "'db server \<times> conn \<Rightarrow> 'db server \<times> conn \<Rightarrow> bool" where
  "keeps_filled s s' \<longleftrightarrow> saved s \<subseteq> saved s' \<and>
     (occupied (m_containerBuffer (snd s)) = 0 \<or> containerID (m_containerBuffer (snd s)) \<in> saved s' \<or>
      containerID (m_containerBuffer (snd s')) = containerID (m_containerBuffer (snd s)) \<and> occupied (m_containerBuffer (snd s')) \<noteq> 0)"

text \<open>All three together; \<open>N\<close> is the number of names that are distinct.\<close>

definition container_rel :: "'db ext \<Rightarrow> nat \<Rightarrow> 'db server \<times> conn \<Rightarrow> 'db server \<times> conn \<Rightarrow> bool" where
  "container_rel ext N s s' \<longleftrightarrow> writes_own ext s s' \<and> keeps_filled s s' \<and>
     (unsaved ext s \<longrightarrow> uuid_count (fst s') \<le> N \<longrightarrow> unsaved ext s')"

lemma drawn_trans:
  "uuid_count a \<le> uuid_count b \<Longrightarrow> uuid_count b \<le> uuid_count c \<Longrightarrow> drawn ext a c = drawn ext a b \<union> drawn ext b c"
  by (simp add: drawn_def ivl_disj_un_two(3) image_Un [symmetric])

lemma writes_own_trans:
  assumes "writes_own ext s s1" "writes_own ext s1 s2"
  shows "writes_own ext s s2"
proof -
  obtain srv c srv1 c1 srv2 c2 where s: "s = (srv, c)" "s1 = (srv1, c1)" "s2 = (srv2, c2)" by (cases s; cases s1; cases s2)
  have d: "drawn ext srv srv2 = drawn ext srv srv1 \<union> drawn ext srv1 srv2"
    using assms by (intro drawn_trans) (simp_all add: writes_own_def s)
  have o: "own c1 \<subseteq> own c \<union> drawn ext srv srv1" "own c2 \<subseteq> own c1 \<union> drawn ext srv1 srv2" "uuid_count srv \<le> uuid_count srv2"
    using assms by (simp_all add: writes_own_def s)
  have "containers_dir srv2 k = containers_dir srv k" if "k \<notin> own c \<union> drawn ext srv srv2" for k
  proof -
    have "k \<notin> own c1 \<union> drawn ext srv1 srv2" "k \<notin> own c \<union> drawn ext srv srv1" using that o(1) d by auto
    then show ?thesis using assms by (simp add: writes_own_def s)
  qed
  then show ?thesis using o d by (auto simp: writes_own_def s)
qed

lemma container_rel_trans: "container_rel ext N s s1 \<Longrightarrow> container_rel ext N s1 s2 \<Longrightarrow> container_rel ext N s s2"
proof -
  assume a: "container_rel ext N s s1" "container_rel ext N s1 s2"
  then have "keeps_filled s s2" by (auto simp: container_rel_def keeps_filled_def Let_def)
  moreover have "uuid_count (fst s1) \<le> uuid_count (fst s2)" using a(2) by (cases s1; cases s2) (simp add: container_rel_def writes_own_def)
  moreover have "writes_own ext s s2" using a writes_own_trans [of ext s s1 s2] by (simp add: container_rel_def)
  ultimately show "container_rel ext N s s2" using a unfolding container_rel_def by linarith
qed

lemma container_rel_grow:
  assumes "containerID (m_containerBuffer c') = containerID (m_containerBuffer c)" "m_containerQueue c' = m_containerQueue c"
    "containers_dir srv' = containers_dir srv" "uuid_count srv' = uuid_count srv"
    "occupied (m_containerBuffer c) \<le> occupied (m_containerBuffer c')"
  shows "container_rel ext N (srv, c) (srv', c')"
proof -
  have "own c' = own c" "saved (srv', c') = saved (srv, c)" using assms by (simp_all add: own_def saved_def)
  then show ?thesis using assms by (auto simp: container_rel_def writes_own_def unsaved_def keeps_filled_def)
qed

lemma container_rel_frame:
  assumes "m_containerBuffer c' = m_containerBuffer c" "m_containerQueue c' = m_containerQueue c"
    "containers_dir srv' = containers_dir srv" "uuid_count srv' = uuid_count srv"
  shows "container_rel ext N (srv, c) (srv', c')"
  using assms by (intro container_rel_grow) simp_all

lemma own_queue_store: "dom (queue_store q st) = containerID ` set q \<union> dom st"
  unfolding queue_store_def by (induction q arbitrary: st) auto

section \<open>The operations\<close>

lemma fresh_uuid: "inj_on (x_uuid ext) {..<N} \<Longrightarrow> u < N \<Longrightarrow> x_uuid ext u \<notin> x_uuid ext ` {..<u}"
  using inj_on_image_mem_iff [of "x_uuid ext" "{..<N}" u "{..<u}"] by (simp add: subset_eq)

lemma make_room_containers:
  assumes inj: "inj_on (x_uuid ext) {..<N}" and run: "make_room ext n (srv, c) = Inr (srv', c')"
  shows "container_rel ext N (srv, c) (srv', c')"
proof (cases "capacity (m_containerBuffer c) < n")
  case False
  then show ?thesis using run by (simp add: make_room_def container_rel_frame)
next
  case True
  let ?b = "m_containerBuffer c"
  obtain q where q: "push ?b (m_containerQueue c) = Some q"
    and s: "srv' = srv\<lparr>uuid_count := uuid_count srv + 1\<rparr>" "m_containerQueue c' = q"
      "containerID (m_containerBuffer c') = x_uuid ext (uuid_count srv)"
    using run True by (auto simp: make_room_def insert_container_queue_def new_container_def bindR_eq_Inr_iff Let_def split: option.splits)
  have qs: "m_queue q = m_queue (m_containerQueue c) @ [?b]" using q by (auto simp: push_def split: if_splits)
  have new: "drawn ext srv srv' = {x_uuid ext (uuid_count srv)}" by (simp add: drawn_def s)
  have "unsaved ext (srv', c')" if "unsaved ext (srv, c)" "uuid_count srv' \<le> N"
  proof -
    have "x_uuid ext (uuid_count srv) \<notin> x_uuid ext ` {..<uuid_count srv}" using fresh_uuid [OF inj] that(2) by (simp add: s)
    then show ?thesis
      using that(1) unfolding unsaved_def saved_def prod.case s(2,3) qs by (auto simp: s(1) lessThan_Suc)
  qed
  moreover have "keeps_filled (srv, c) (srv', c')" by (auto simp: keeps_filled_def saved_def s qs)
  moreover have "own c' = insert (x_uuid ext (uuid_count srv)) (own c)" by (auto simp: own_def s(2,3) qs)
  ultimately show ?thesis unfolding container_rel_def writes_own_def prod.case new by (simp add: s(1) subset_insertI2)
qed

lemma store_unique_containers:
  assumes inj: "inj_on (x_uuid ext) {..<N}" and run: "store_unique ext key (srv, c, l) = Inr (srv', c', l')"
  shows "container_rel ext N (srv, c) (srv', c')"
proof -
  obtain n srv1 c1 chunk a where room: "make_room ext n (srv, c) = Inr (srv1, c1)" and s: "srv' = addChunk (key, a) srv1"
    "c' = c1\<lparr>m_containerBuffer := (m_containerBuffer c1)\<lparr>c_data := mem_write (c_data (m_containerBuffer c1)) (occupied (m_containerBuffer c1)) chunk,
       occupied := occupied (m_containerBuffer c1) + n, capacity := capacity (m_containerBuffer c1) - n\<rparr>\<rparr>"
    using run by (auto simp: store_unique_def bindR_eq_Inr_iff Let_def)
  have "container_rel ext N (srv1, c1) (srv', c')"
    by (intro container_rel_grow) (simp_all add: s addChunk_def split_beta split: option.splits)
  then show ?thesis using make_room_containers [OF inj room] container_rel_trans by blast
qed

lemma write_entry_containers: "write_recipe_entry ext a c = Inr c' \<Longrightarrow>
  m_containerBuffer c' = m_containerBuffer c \<and> m_containerQueue c' = m_containerQueue c"
  by (auto simp: write_recipe_entry_def insert_recipe_queue_def new_recipe_def bindR_eq_Inr_iff Let_def split: if_splits option.splits)

lemma store_chunk_containers:
  assumes inj: "inj_on (x_uuid ext) {..<N}" and run: "store_chunk ext i (srv, c, l) = Inr (srv', c', l')"
  shows "container_rel ext N (srv, c) (srv', c')"
proof -
  let ?key = "convert_array_hash_to_string (mem_read (hl_data (m_hashList c)) (i * HASHSIZE) 32)"
  obtain c1 l1 where sel: "(if msg_data (m_outMsgBuffer c) i = 1 then store_unique ext ?key (srv, c, l)
      else if msg_data (m_outMsgBuffer c) i = 0 then bindR (take_duplicate (c, l)) (\<lambda>(c', l'). Inr (srv, c', l'))
      else Inr (srv, c, l)) = Inr (srv', c1, l1)" and entry: "write_recipe_entry ext (chunkAddr l1) c1 = Inr c'"
    using run by (auto simp: store_chunk_def bindR_eq_Inr_iff Let_def)
  have one: "container_rel ext N (srv, c) (srv', c1)"
  proof (cases "msg_data (m_outMsgBuffer c) i = 1")
    case True
    then show ?thesis using sel store_unique_containers [OF inj] by simp
  next
    case False
    then show ?thesis using sel
      by (intro container_rel_frame) (auto simp: take_duplicate_def bindR_eq_Inr_iff split: if_splits list.splits)
  qed
  show ?thesis using container_rel_trans [OF one container_rel_frame] write_entry_containers [OF entry] by simp
qed

lemma store_loop_containers:
  assumes inj: "inj_on (x_uuid ext) {..<N}"
  shows "store_loop ext is (srv, c, l) = Inr (srv', c', l') \<Longrightarrow> container_rel ext N (srv, c) (srv', c')"
proof (induction "is" arbitrary: srv c l)
  case Nil
  then show ?case by (simp add: container_rel_frame)
next
  case (Cons i "is")
  then obtain srv1 c1 l1 where "store_chunk ext i (srv, c, l) = Inr (srv1, c1, l1)" "store_loop ext is (srv1, c1, l1) = Inr (srv', c', l')"
    by (auto simp: bindR_eq_Inr_iff)
  then show ?case using store_chunk_containers [OF inj] Cons.IH container_rel_trans by blast
qed

section \<open>The handler\<close>

lemma fold_write_recipe_frame:
  "containers_dir (fst (fold (write_recipe_block name) rs (srv, t))) = containers_dir srv \<and>
   uuid_count (fst (fold (write_recipe_block name) rs (srv, t))) = uuid_count srv"
  by (induction rs arbitrary: srv t) (simp_all add: write_recipe_block_def)

lemma run_writers_saves:
  assumes "run_writers (srv, c, l) = (srv', c', l')"
  shows "containers_dir srv' = queue_store (m_queue (m_containerQueue c)) (containers_dir srv)" "uuid_count srv' = uuid_count srv"
    "m_containerBuffer c' = m_containerBuffer c" "m_queue (m_containerQueue c') = []"
proof -
  let ?C = "consume save_container (m_containerQueue c) srv"
  let ?R = "consume (write_recipe_block (m_recipeNameHash c)) (m_recipeQueue c) (snd ?C, rw_totalChunkNum l)"
  have C: "snd ?C = srv\<lparr>containers_dir := queue_store (m_queue (m_containerQueue c)) (containers_dir srv)\<rparr>" "m_queue (fst ?C) = []"
    using consume_fold [of save_container "m_containerQueue c" srv] by (simp_all add: fold_save_container)
  have R: "snd ?R = fold (write_recipe_block (m_recipeNameHash c)) (m_queue (m_recipeQueue c)) (snd ?C, rw_totalChunkNum l)"
    using consume_fold [of "write_recipe_block (m_recipeNameHash c)" "m_recipeQueue c" "(snd ?C, rw_totalChunkNum l)"] by simp
  have "srv' = fst (snd ?R)" "c' = c\<lparr>m_containerQueue := fst ?C, m_recipeQueue := fst ?R\<rparr>"
    using assms by (simp_all add: run_writers_def write_container_def write_recipe_def Let_def split: prod.splits)
  then show "containers_dir srv' = queue_store (m_queue (m_containerQueue c)) (containers_dir srv)" "uuid_count srv' = uuid_count srv"
    "m_containerBuffer c' = m_containerBuffer c" "m_queue (m_containerQueue c') = []"
    using fold_write_recipe_frame [of "m_recipeNameHash c" "m_queue (m_recipeQueue c)" "snd ?C" "rw_totalChunkNum l"]
    by (simp_all add: R [unfolded C(1)] C)
qed

lemma queue_store_other: "k \<notin> containerID ` set q \<Longrightarrow> queue_store q st k = st k"
  unfolding queue_store_def by (induction q arbitrary: st) auto

lemma run_writers_containers:
  assumes "run_writers (srv, c, l) = (srv', c', l')"
  shows "container_rel ext N (srv, c) (srv', c')"
proof -
  note w = run_writers_saves [OF assms]
  have "drawn ext srv srv' = {}" by (simp add: drawn_def w)
  then show ?thesis
    by (auto simp: container_rel_def writes_own_def own_def unsaved_def saved_def keeps_filled_def w queue_store_other own_queue_store)
qed

text \<open>After the end of a file a new container is started, whose name is newly drawn.\<close>

lemma receive_fileend_saves:
  assumes "receive_fileend c = Inr c'"
  shows "own c' = own c" "occupied (m_containerBuffer c) = 0 \<or> containerID (m_containerBuffer c) \<in> containerID ` set (m_queue (m_containerQueue c'))"
    "set (m_queue (m_containerQueue c)) \<subseteq> set (m_queue (m_containerQueue c'))"
  using assms
  by (auto simp: receive_fileend_def insert_container_queue_def insert_recipe_queue_def set_out_type_def own_def push_def bindR_eq_Inr_iff
      split: if_splits option.splits)

lemma receive_file_end_containers:
  assumes inj: "inj_on (x_uuid ext) {..<N}" and fe: "receive_fileend c = Inr c1"
    and c2: "m_containerBuffer c2 = m_containerBuffer c1" "m_queue (m_containerQueue c2) = m_queue (m_containerQueue c1)"
    and run: "receive_file_end ext (srv, c2, l) = Inr (srv', c')"
  shows "container_rel ext N (srv, c) (srv', c')"
proof -
  obtain srv1 c3 l1 where w: "run_writers (srv, c2, l) = (srv1, c3, l1)" by (cases "run_writers (srv, c2, l)")
  note s = run_writers_saves [OF w]
  let ?q = "m_queue (m_containerQueue c1)"
  have e: "containers_dir srv' = queue_store ?q (containers_dir srv)" "uuid_count srv' = uuid_count srv + 1"
    "containerID (m_containerBuffer c') = x_uuid ext (uuid_count srv)" "m_queue (m_containerQueue c') = []"
    using run by (auto simp: receive_file_end_def w s c2 write_recipe_close_def reset_upload_def new_container_def new_recipe_def
        bindR_eq_Inr_iff undone_def Let_def)
  note fe = receive_fileend_saves [OF fe]
  have sv: "saved (srv', c') = containerID ` set ?q \<union> dom (containers_dir srv)" by (simp add: saved_def e own_queue_store)
  have q: "containerID ` set ?q \<subseteq> own c" unfolding fe(1) [symmetric] by (auto simp: own_def)
  have new: "drawn ext srv srv' = {x_uuid ext (uuid_count srv)}" by (simp add: drawn_def e)
  have "unsaved ext (srv', c')" if u: "unsaved ext (srv, c)" "uuid_count srv' \<le> N"
  proof -
    have "x_uuid ext (uuid_count srv) \<notin> x_uuid ext ` {..<uuid_count srv}" using fresh_uuid [OF inj] u(2) by (simp add: e)
    moreover have "own c \<subseteq> x_uuid ext ` {..<uuid_count srv}" "dom (containers_dir srv) \<subseteq> x_uuid ext ` {..<uuid_count srv}"
      using u(1) by (auto simp: unsaved_def saved_def own_def)
    then have "saved (srv', c') \<subseteq> x_uuid ext ` {..<uuid_count srv}" using q unfolding sv by blast
    ultimately show ?thesis unfolding unsaved_def prod.case e(2,3) by (auto simp: lessThan_Suc)
  qed
  moreover have "containers_dir srv' k = containers_dir srv k" if "k \<notin> own c" for k
    unfolding e using that q by (intro queue_store_other) auto
  moreover have "keeps_filled (srv, c) (srv', c')" unfolding keeps_filled_def sv using fe(2,3) by (auto simp: saved_def)
  ultimately show ?thesis unfolding container_rel_def writes_own_def prod.case new by (simp add: own_def e)
qed

lemma fold_query_containers:
  "fold (query_chunk srv) is s = (c', l') \<Longrightarrow>
   m_containerBuffer c' = m_containerBuffer (fst s) \<and> m_containerQueue c' = m_containerQueue (fst s)"
  by (induction "is" arbitrary: s) (auto simp: query_chunk_def set_flag_def Let_def split_beta split: if_splits)

lemma answer_query_containers:
  "answer_query srv (c, l) = Inr (c', l') \<Longrightarrow>
   m_containerBuffer c' = m_containerBuffer c \<and> m_containerQueue c' = m_containerQueue c"
  by (auto simp: answer_query_def Let_def bindR_eq_Inr_iff dest!: fold_query_containers split: if_splits)

lemma receive_chunks_containers:
  assumes inj: "inj_on (x_uuid ext) {..<N}" and run: "receive_chunks ext (srv, c, l) = Inr (srv', c', l')"
  shows "container_rel ext N (srv, c) (srv', c')"
proof -
  obtain c1 l0 l1 l2 where "store_loop ext [0..<hl_num (m_hashList c)] (srv, c, l0) = Inr (srv', c1, l1)" "answer_query srv' (c1, l2) = Inr (c', l')"
    using run by (auto simp: receive_chunks_def bindR_eq_Inr_iff)
  then show ?thesis
    using container_rel_trans [OF store_loop_containers [OF inj] container_rel_frame] answer_query_containers by metis
qed

lemma isFileUnique_frame: "isFileUnique ext cid fn srv = Inr (b, srv') \<Longrightarrow>
  containers_dir srv' = containers_dir srv \<and> uuid_count srv' = uuid_count srv \<and> recipes_dir srv' = recipes_dir srv \<and>
  m_all_chunks srv' = m_all_chunks srv"
  by (auto simp: isFileUnique_def bindR_eq_Inr_iff)

lemma addFile_frame: "addFile ext cid fn srv = Inr srv' \<Longrightarrow>
  containers_dir srv' = containers_dir srv \<and> uuid_count srv' = uuid_count srv \<and> recipes_dir srv' = recipes_dir srv \<and>
  m_all_chunks srv' = m_all_chunks srv"
  by (auto simp: addFile_def bindR_eq_Inr_iff)

lemma send_batch_containers: "send_batch srv block c = Inr (c', frame) \<Longrightarrow>
  m_containerBuffer c' = m_containerBuffer c \<and> m_containerQueue c' = m_containerQueue c"
  by (auto simp: send_batch_def bindR_eq_Inr_iff Let_def)

lemma send_batches_containers:
  "send_batches srv recipe c = Inr (c', frames) \<Longrightarrow>
   m_containerBuffer c' = m_containerBuffer c \<and> m_containerQueue c' = m_containerQueue c"
proof (induction srv recipe c arbitrary: c' frames rule: send_batches.induct)
  case (1 srv recipe c)
  show ?case
  proof (cases "take (sizeof_ChunkAddr * BATCHSIZE) recipe = []")
    case True
    then show ?thesis using 1(2) by (simp add: send_batches.simps [of srv recipe c] Let_def)
  next
    case False
    then obtain c1 f fs where "send_batch srv (take (sizeof_ChunkAddr * BATCHSIZE) recipe) c = Inr (c1, f)"
      "send_batches srv (drop (sizeof_ChunkAddr * BATCHSIZE) recipe) c1 = Inr (c', fs)"
      using 1(2) by (auto simp: send_batches.simps [of srv recipe c] Let_def bindR_eq_Inr_iff simp del: take_eq_Nil)
    then show ?thesis using 1(1) [OF refl _, of c1 c' fs] send_batch_containers False by (metis length_0_conv)
  qed
qed

lemma receive_file_begin_containers:
  assumes "receive_file_begin ext fn (srv, c) = Inr ((srv', c', up), out)"
  shows "container_rel ext N (srv, c) (srv', c')"
  using assms
  by (intro container_rel_frame)
     (auto simp: receive_file_begin_def bindR_eq_Inr_iff Let_def set_out_type_def write_recipe_open_def
        dest!: isFileUnique_frame addFile_frame split: if_splits)

lemma send_file_containers:
  assumes "send_file ext fn (srv, c) = Inr ((srv', c'), out)"
  shows "container_rel ext N (srv, c) (srv', c')"
  using assms
  by (intro container_rel_frame)
     (auto simp: send_file_def isFileExist_def bindR_eq_Inr_iff Let_def set_out_type_def reset_download_def
        dest!: isFileUnique_frame send_batches_containers split: if_splits)

lemma container_rel_refl: "container_rel ext N s s"
  by (cases s) (simp add: container_rel_frame)

lemma handle_order_containers:
  assumes "handle_order ext f (srv, c) = Inr ((srv', c', m'), out)"
  shows "container_rel ext N (srv, c) (srv', c')"
proof -
  obtain ord fn st where "receive_control_msg (x_malloc ext) f [] 0 = Inr (ord, fn, st)"
    using assms by (auto simp: handle_order_def bindR_eq_Inr_iff)
  then consider "(srv', c') = (srv, c)" | up where "receive_file_begin ext fn (srv, c) = Inr ((srv', c', up), out)"
    | "send_file ext fn (srv, c) = Inr ((srv', c'), out)"
    using assms by (cases "order_of ord"; cases "the (order_of ord)") (auto simp: handle_order_def bindR_eq_Inr_iff)
  then show ?thesis
    using container_rel_refl receive_file_begin_containers send_file_containers by cases auto
qed

lemma receive_body_containers:
  assumes inj: "inj_on (x_uuid ext) {..<N}" and run: "receive_file_body ext f (srv, c, l) = Inr ((srv', c', l'), out, True)"
  shows "container_rel ext N (srv, c) (srv', c')"
proof -
  let ?c = "load_in f c"
  have "dataMsgType (header (m_inMsgBuffer ?c)) \<noteq> dataMsgType_val FILEEND"
    using run by (auto simp: receive_file_body_def load_in_def [symmetric] receive_fileend_def set_out_type_def bindR_eq_Inr_iff Let_def split: if_splits)
  then have "receive_chunks ext (srv, ?c, l) = Inr (srv', c', l')"
    using run by (auto simp: receive_file_body_def load_in_def [symmetric] bindR_eq_Inr_iff Let_def split: if_splits)
  then show ?thesis
    using container_rel_trans [OF container_rel_frame receive_chunks_containers [OF inj]] by (metis load_in_select(4,7))
qed

text \<open>Only \<open>FILEEND\<close> ends the loop, since nothing else changes the type of the answer.\<close>

lemma fold_query_type:
  "fold (query_chunk srv) is s = (c', l') \<Longrightarrow> header (m_outMsgBuffer c') = header (m_outMsgBuffer (fst s))"
  by (induction "is" arbitrary: s) (auto simp: query_chunk_def set_flag_def Let_def split_beta split: if_splits)

lemma answer_query_type:
  "answer_query srv (c, l) = Inr (c', l') \<Longrightarrow> dataMsgType (header (m_outMsgBuffer c')) = dataMsgType (header (m_outMsgBuffer c))"
  by (auto simp: answer_query_def Let_def bindR_eq_Inr_iff dest!: fold_query_type split: if_splits)

lemma receive_chunks_type:
  assumes "receive_chunks ext (srv, c, l) = Inr (srv', c', l')"
  shows "dataMsgType (header (m_outMsgBuffer c')) = dataMsgType (header (m_outMsgBuffer c))"
proof -
  obtain c1 l0 l1 l2 where "store_loop ext [0..<hl_num (m_hashList c)] (srv, c, l0) = Inr (srv', c1, l1)" "answer_query srv' (c1, l2) = Inr (c', l')"
    using assms by (auto simp: receive_chunks_def bindR_eq_Inr_iff)
  moreover from this(1) have "m_outMsgBuffer c1 = m_outMsgBuffer c" using store_loop_index [of ext] by (fastforce simp: index_grows_def)
  ultimately show ?thesis using answer_query_type by metis
qed

lemma body_done:
  assumes "receive_file_body ext f (srv, c, l) = Inr ((srv', c', l'), out, False)"
    and "dataMsgType (header (m_outMsgBuffer c)) \<noteq> dataMsgType_val FILEEND"
  obtains c1 where "receive_fileend (load_in f c) = Inr c1" "srv' = srv" "m_containerBuffer c' = m_containerBuffer c1"
    "m_queue (m_containerQueue c') = m_queue (m_containerQueue c1)"
  using assms receive_chunks_type [of ext srv "load_in f c" l]
  by (fastforce simp: receive_file_body_def load_in_def [symmetric] bindR_eq_Inr_iff set_done_def Let_def split: if_splits)

lemma file_received_containers:
  assumes inj: "inj_on (x_uuid ext) {..<N}" and run: "receive_file_body ext f (srv, c, l) = Inr ((srv1, c1, l1), out, False)"
    and fin: "receive_file_end ext (srv1, c1, l1) = Inr (srv', c')"
    and out: "dataMsgType (header (m_outMsgBuffer c)) \<noteq> dataMsgType_val FILEEND"
  shows "container_rel ext N (srv, c) (srv', c')"
proof -
  obtain c2 where "receive_fileend (load_in f c) = Inr c2" "srv1 = srv" "m_containerBuffer c1 = m_containerBuffer c2"
    "m_queue (m_containerQueue c1) = m_queue (m_containerQueue c2)"
    using run out by (rule body_done)
  then have "container_rel ext N (srv, load_in f c) (srv', c')" using receive_file_end_containers [OF inj] fin by blast
  then show ?thesis using container_rel_trans [OF container_rel_frame] by (metis load_in_select(4,7))
qed

text \<open>
  C12: a connection writes only its own containers. Whatever message it receives, the handler leaves every container file
  alone that is not the one it fills, in its queue, or newly named; a container with data that it stops filling is queued or
  written; and if the container it fills had no file yet, the one it fills afterwards has none either, as long as the names
  drawn are distinct.
\<close>

theorem handler_writes_own_containers:
  assumes inj: "inj_on (x_uuid ext) {..<N}" and run: "conn_receive ext f (srv, c, m) = Inr ((srv', c', m'), out)"
    and out: "dataMsgType (header (m_outMsgBuffer c)) \<noteq> dataMsgType_val FILEEND \<or> m = AwaitLogin \<or> m = AwaitOrder \<or> m = Closed"
  shows "container_rel ext N (srv, c) (srv', c')"
proof (cases m)
  case (Receiving l)
  then obtain srv1 c1 l1 o1 go where body: "receive_file_body ext f (srv, c, l) = Inr ((srv1, c1, l1), o1, go)"
    and rest: "(if go then (let (srv, c, l) = run_writers (srv1, c1, l1) in Inr ((srv, c, Receiving l), o1))
      else bindR (receive_file_end ext (srv1, c1, l1)) (\<lambda>(srv, c). Inr ((srv, c, AwaitOrder), o1))) = Inr ((srv', c', m'), out)"
    using run by (auto simp: conn_receive_def bindR_eq_Inr_iff)
  show ?thesis
  proof (cases go)
    case True
    then obtain l2 where "run_writers (srv1, c1, l1) = (srv', c', l2)" using rest by (auto split: prod.splits)
    moreover have "container_rel ext N (srv, c) (srv1, c1)" using body True receive_body_containers [OF inj] by simp
    ultimately show ?thesis using container_rel_trans run_writers_containers by blast
  next
    case False
    then have "receive_file_end ext (srv1, c1, l1) = Inr (srv', c')" using rest by (auto simp: bindR_eq_Inr_iff)
    moreover have "receive_file_body ext f (srv, c, l) = Inr ((srv1, c1, l1), o1, False)" using body False by simp
    ultimately show ?thesis using file_received_containers [OF inj] out Receiving by blast
  qed
next
  case AwaitLogin
  then show ?thesis using run by (intro container_rel_frame) (auto simp: conn_receive_def receive_login_def bindR_eq_Inr_iff Let_def)
next
  case AwaitOrder
  then show ?thesis using run handle_order_containers by (auto simp: conn_receive_def)
next
  case Closed
  then show ?thesis using run container_rel_refl by (auto simp: conn_receive_def)
qed

definition filled_conn :: conn where
  "filled_conn = (set_out_type UPLOADBODYREP (uninit_conn demo_ext 5 (ClientInfo_new 1 [] 0)))
     \<lparr>m_containerBuffer := \<lparr>containerID = x_uuid demo_ext 0, occupied = 1, capacity = CONTAINERSIZE - 1, c_data = (\<lambda>_. 7)\<rparr>\<rparr>"

lemma filled_conn_ends:
  assumes "end_frame f"
  shows "\<exists>srv' c' out. conn_receive demo_ext f (demo_server, filled_conn\<lparr>m_duplicatedChunkAddr := as\<rparr>, Receiving (upload_start a)) =
    Inr ((srv', c', AwaitOrder), out)"
proof -
  let ?c = "filled_conn\<lparr>m_duplicatedChunkAddr := as\<rparr>"
  have q: "drained (load_in f ?c)" "bq_inv (m_containerQueue ?c)" "m_size (m_containerQueue ?c) = 1000"
    "bq_inv (m_recipeQueue ?c)" "m_size (m_recipeQueue ?c) = 1000"
    by (simp_all add: filled_conn_def set_out_type_def uninit_conn_def drained_def BlockQueue_new_def bq_inv_def Let_def)
  obtain c1 where fe: "receive_fileend (load_in f ?c) = Inr (set_out_type FILEEND c1)"
    using receive_fileend_eq [OF q(1)] q by auto
  have hdr: "length f \<le> sizeof_DataMsg + in_capacity" "dataMsgType (header (m_inMsgBuffer (load_in f ?c))) = dataMsgType_val FILEEND"
    using assms by (auto simp: end_frame_def load_in_def codec_simps)
  obtain c2 where "receive_file_body demo_ext f (demo_server, ?c, upload_start a) = Inr ((demo_server, c2, upload_start a), [], False)"
    using hdr fe by (simp add: receive_file_body_def load_in_def [symmetric] Let_def) (simp add: set_out_type_def)
  moreover have "\<exists>srv c. receive_file_end demo_ext t = Inr (srv, c)" for t
    by (cases "run_writers t") (simp add: receive_file_end_def reset_upload_def new_container_def demo_ext_def Let_def)
  then obtain srv3 c3 where "receive_file_end demo_ext (demo_server, c2, upload_start a) = Inr (srv3, c3)" by blast
  ultimately show ?thesis by (simp add: conn_receive_def)
qed

theorem handler_writes_own_containers_witness:
  "\<exists>f srv' c' m' out. conn_receive demo_ext f (demo_server, filled_conn, Receiving (upload_start \<lparr>ca_containerID = [], ca_offset = 0, ca_size = 0\<rparr>)) =
       Inr ((srv', c', m'), out) \<and> container_rel demo_ext 1 (demo_server, filled_conn) (srv', c')"
proof -
  have "\<exists>m :: DataMsg_t. dataMsgType (header m) = dataMsgType_val FILEEND"
    by (intro exI [of _ "\<lparr>header = (dec_header [])\<lparr>dataMsgType := dataMsgType_val FILEEND\<rparr>, msg_data = (\<lambda>_. 0)\<rparr>"]) simp
  then obtain f where "end_frame f" unfolding end_frame_def by blast
  then obtain srv' c' m' out where run: "conn_receive demo_ext f (demo_server, filled_conn,
      Receiving (upload_start \<lparr>ca_containerID = [], ca_offset = 0, ca_size = 0\<rparr>)) = Inr ((srv', c', m'), out)"
    using filled_conn_ends [of f "m_duplicatedChunkAddr filled_conn"] by fastforce
  have "inj_on (x_uuid demo_ext) {..<1}" by (simp add: inj_on_def)
  moreover have "dataMsgType (header (m_outMsgBuffer filled_conn)) \<noteq> dataMsgType_val FILEEND"
    by (simp add: filled_conn_def set_out_type_def)
  ultimately show ?thesis using handler_writes_own_containers [OF _ run, of 1] run by blast
qed

end
