(* ===== verification/ClientConn_Typed.thy ===== *)
theory ClientConn_Typed
  imports ClientConn_Containers
begin

text \<open>
  A well-formedness invariant of a connection and its server that every message keeps, whatever its bytes are: the arrays are
  within their sizes, every address in the index or in the queue of duplicates has a name that fits its array, and the
  flags of the last answer agree with the queue of duplicates, so \<open>front\<close> is never called on an empty queue. The proofs
  compose checks along the code: \<open>checked P m\<close> says that the step \<open>m\<close> does not take the front of an empty queue and
  that its result satisfies \<open>P\<close>.
\<close>

section \<open>Well-formed states\<close>

definition addr_fits :: "ChunkAddr_t \<Rightarrow> bool" where
  "addr_fits a \<longleftrightarrow> length (ca_containerID a) < 40"

definition server_fits :: "'db server \<Rightarrow> bool" where
  "server_fits srv \<longleftrightarrow> pool_ok (m_mysqlPool srv) \<and> (\<forall>a \<in> ran (m_all_chunks srv). addr_fits a)"

definition container_fits :: "Container_t \<Rightarrow> bool" where
  "container_fits b \<longleftrightarrow> occupied b + capacity b = CONTAINERSIZE \<and> length (containerID b) < 40"

definition conn_fits :: "conn \<Rightarrow> bool" where
  "conn_fits c \<longleftrightarrow> container_fits (m_containerBuffer c) \<and> (\<forall>b \<in> set (m_queue (m_containerQueue c)). container_fits b) \<and>
     rec_num (m_recipeBuffer c) \<le> BATCHSIZE \<and> (\<forall>r \<in> set (m_queue (m_recipeQueue c)). rec_num r \<le> BATCHSIZE) \<and>
     bq_inv (m_containerQueue c) \<and> bq_inv (m_recipeQueue c) \<and>
     m_size (m_containerQueue c) = 1000 \<and> m_size (m_recipeQueue c) = 1000 \<and>
     hl_num (m_hashList c) \<le> BATCHSIZE \<and> (\<forall>a \<in> set (m_duplicatedChunkAddr c). addr_fits a)"

text \<open>How many of the answers \<open>is\<close> announced a duplicate, and the agreement with the queue.\<close>

definition duplicate_flags :: "conn \<Rightarrow> nat list \<Rightarrow> nat" where
  "duplicate_flags c is = length (filter (\<lambda>i. msg_data (m_outMsgBuffer c) i = 0) is)"

definition flags_agree :: "conn \<Rightarrow> bool" where
  "flags_agree c \<longleftrightarrow> (\<forall>i < hl_num (m_hashList c). msg_data (m_outMsgBuffer c) i \<in> {0, 1}) \<and>
     duplicate_flags c [0..<hl_num (m_hashList c)] \<le> length (m_duplicatedChunkAddr c)"

definition queues_idle :: "conn \<Rightarrow> bool" where
  "queues_idle c \<longleftrightarrow> m_queue (m_containerQueue c) = [] \<and> m_queue (m_recipeQueue c) = [] \<and>
     \<not> m_done (m_containerQueue c) \<and> \<not> m_done (m_recipeQueue c)"

definition conn_typed :: "'db server \<times> conn \<times> mode \<Rightarrow> bool" where
  "conn_typed = (\<lambda>(srv, c, m). server_fits srv \<and> conn_fits c \<and> queues_idle c \<and>
     (case m of
        Receiving l \<Rightarrow> dataMsgType (header (m_outMsgBuffer c)) = dataMsgType_val UPLOADBODYREP \<and> flags_agree c
      | _ \<Rightarrow> hl_num (m_hashList c) = 0))"

section \<open>Checks\<close>

definition checked :: "('a \<Rightarrow> bool) \<Rightarrow> crash + 'a \<Rightarrow> bool" where
  "checked P m = (case m of Inl e \<Rightarrow> e \<noteq> EmptyFront | Inr x \<Rightarrow> P x)"

lemma checked_simps [simp]:
  "checked P (Inl e) \<longleftrightarrow> e \<noteq> EmptyFront" "checked P (Inr x) = P x"
  by (simp_all add: checked_def)

lemma checked_bind: "checked Q m \<Longrightarrow> (\<And>x. Q x \<Longrightarrow> checked P (f x)) \<Longrightarrow> checked P (bindR m f)"
  by (cases m) simp_all

lemma checked_guard:
  "(b \<Longrightarrow> checked P (f ())) \<Longrightarrow> checked P (bindR (guardR BufferOverflow b) f)"
  "(b \<Longrightarrow> checked P (f ())) \<Longrightarrow> checked P (bindR (guardR BufferOverread b) f)"
  by (cases b; simp)+

lemma checked_mono: "checked Q m \<Longrightarrow> (\<And>x. Q x \<Longrightarrow> P x) \<Longrightarrow> checked P m"
  by (cases m) simp_all

section \<open>Storing the chunks of a message\<close>

text \<open>What the loop over the chunks leaves alone.\<close>

definition same_messages :: "conn \<Rightarrow> conn \<Rightarrow> bool" where
  "same_messages c c' \<longleftrightarrow> m_outMsgBuffer c' = m_outMsgBuffer c \<and> m_inMsgBuffer c' = m_inMsgBuffer c \<and>
     m_hashList c' = m_hashList c \<and> m_done (m_containerQueue c') = m_done (m_containerQueue c) \<and>
     m_done (m_recipeQueue c') = m_done (m_recipeQueue c)"

lemma same_messages_refl [simp]: "same_messages c c"
  by (simp add: same_messages_def)

lemma same_messages_trans: "same_messages a b \<Longrightarrow> same_messages b c \<Longrightarrow> same_messages a c"
  by (simp add: same_messages_def)

lemma duplicate_flags_cong: "m_outMsgBuffer c' = m_outMsgBuffer c \<Longrightarrow> duplicate_flags c' is = duplicate_flags c is"
  by (simp add: duplicate_flags_def)

lemma new_container_checked:
  assumes "server_fits srv" "conn_fits (c\<lparr>m_containerBuffer := \<lparr>containerID = [], occupied = 0, capacity = CONTAINERSIZE, c_data = d\<rparr>\<rparr>)"
  shows "checked (\<lambda>(srv', c'). server_fits srv' \<and> conn_fits c' \<and> m_all_chunks srv' = m_all_chunks srv \<and>
    (\<exists>b. c' = c\<lparr>m_containerBuffer := b\<rparr>)) (new_container ext (srv, c))"
proof -
  have "checked P (new_container ext (srv, c))"
    if "\<And>cid. length cid < 40 \<Longrightarrow> P (srv\<lparr>uuid_count := uuid_count srv + 1\<rparr>,
      c\<lparr>m_containerBuffer := \<lparr>containerID = cid, occupied = 0, capacity = CONTAINERSIZE, c_data = x_malloc ext\<rparr>\<rparr>)" for P
    unfolding new_container_def prod.case Let_def using that by (intro checked_guard) simp_all
  note step = this
  show ?thesis by (rule step) (use assms in \<open>auto simp: conn_fits_def container_fits_def server_fits_def\<close>)
qed

lemma insert_container_checked:
  assumes "conn_fits c"
  shows "checked (\<lambda>c'. conn_fits c' \<and> same_messages c c' \<and> m_duplicatedChunkAddr c' = m_duplicatedChunkAddr c) (insert_container_queue c)"
proof (cases "push (m_containerBuffer c) (m_containerQueue c)")
  case (Some q)
  then show ?thesis
    using assms push_Some [OF Some] by (auto simp: insert_container_queue_def conn_fits_def same_messages_def)
qed (simp add: insert_container_queue_def)

lemma insert_recipe_checked:
  assumes "conn_fits c"
  shows "checked (\<lambda>c'. conn_fits c' \<and> same_messages c c' \<and> m_duplicatedChunkAddr c' = m_duplicatedChunkAddr c) (insert_recipe_queue c)"
proof (cases "push (m_recipeBuffer c) (m_recipeQueue c)")
  case (Some q)
  then show ?thesis
    using assms push_Some [OF Some] by (auto simp: insert_recipe_queue_def conn_fits_def same_messages_def)
qed (simp add: insert_recipe_queue_def)

lemma make_room_checked:
  assumes "server_fits srv" "conn_fits c"
  shows "checked (\<lambda>(srv', c'). server_fits srv' \<and> conn_fits c' \<and> same_messages c c' \<and> m_duplicatedChunkAddr c' = m_duplicatedChunkAddr c)
    (make_room ext n (srv, c))"
proof (cases "capacity (m_containerBuffer c) < n")
  case True
  show ?thesis
    unfolding make_room_def prod.case if_P [OF True]
  proof (rule checked_bind [OF insert_container_checked [OF assms(2)]])
    fix c1 assume c1: "conn_fits c1 \<and> same_messages c c1 \<and> m_duplicatedChunkAddr c1 = m_duplicatedChunkAddr c"
    then have "checked (\<lambda>(srv', c'). server_fits srv' \<and> conn_fits c' \<and> m_all_chunks srv' = m_all_chunks srv \<and>
        (\<exists>b. c' = c1\<lparr>m_containerBuffer := b\<rparr>)) (new_container ext (srv, c1))"
      by (intro new_container_checked [where d = "\<lambda>_. 0"] assms) (simp add: conn_fits_def container_fits_def)
    then show "checked (\<lambda>(srv', c'). server_fits srv' \<and> conn_fits c' \<and> same_messages c c' \<and>
        m_duplicatedChunkAddr c' = m_duplicatedChunkAddr c) (new_container ext (srv, c1))"
      using c1 by (auto elim!: checked_mono simp: same_messages_def)
  qed
qed (use assms in \<open>simp add: make_room_def\<close>)

lemma store_unique_checked:
  assumes "server_fits srv" "conn_fits c"
  shows "checked (\<lambda>(srv', c', l'). server_fits srv' \<and> conn_fits c' \<and> same_messages c c' \<and>
    m_duplicatedChunkAddr c' = m_duplicatedChunkAddr c) (store_unique ext key (srv, c, l))"
  unfolding store_unique_def prod.case Let_def
proof (rule checked_bind [OF make_room_checked [OF assms]], clarify, intro checked_guard, goal_cases)
  case (1 srv1 c1)
  let ?n = "unat (chunk_end (currentUniqueNum l) (hdr_start (header (m_inMsgBuffer c))) - chunk_start (currentUniqueNum l))"
  let ?b = "(m_containerBuffer c1)\<lparr>c_data := mem_write (c_data (m_containerBuffer c1)) (occupied (m_containerBuffer c1))
      (mem_read (msg_data (m_inMsgBuffer c1)) (unat (chunk_start (currentUniqueNum l))) ?n),
    occupied := occupied (m_containerBuffer c1) + ?n, capacity := capacity (m_containerBuffer c1) - ?n\<rparr>"
  have "container_fits ?b" using 1 by (simp add: conn_fits_def container_fits_def)
  then have "conn_fits (c1\<lparr>m_containerBuffer := ?b\<rparr>)" "same_messages c (c1\<lparr>m_containerBuffer := ?b\<rparr>)"
    using 1(2,3) by (simp_all add: conn_fits_def same_messages_def)
  moreover have "server_fits (addChunk (key, a) srv1)" if "addr_fits a" for a
    using 1(1) that by (auto simp: server_fits_def addChunk_index ran_def split: if_splits)
  ultimately show ?case
    using 1(4) unfolding mk_ChunkAddr_def bindR_assoc by (intro checked_guard) (simp add: addr_fits_def)
qed

lemma write_recipe_entry_checked:
  assumes "conn_fits c"
  shows "checked (\<lambda>c'. conn_fits c' \<and> same_messages c c' \<and> m_duplicatedChunkAddr c' = m_duplicatedChunkAddr c) (write_recipe_entry ext a c)"
proof -
  have "checked (\<lambda>c'. conn_fits c' \<and> same_messages c c' \<and> m_duplicatedChunkAddr c' = m_duplicatedChunkAddr c \<and>
      rec_num (m_recipeBuffer c') < BATCHSIZE)
    (if BATCHSIZE \<le> rec_num (m_recipeBuffer c) then bindR (insert_recipe_queue c) (\<lambda>c'. Inr (new_recipe ext c')) else Inr c)"
  proof (cases "BATCHSIZE \<le> rec_num (m_recipeBuffer c)")
    case True
    then show ?thesis
      by (simp, intro checked_bind [OF insert_recipe_checked [OF assms]])
        (auto simp: new_recipe_def conn_fits_def same_messages_def config_values)
  qed (use assms in simp)
  then show ?thesis
    unfolding write_recipe_entry_def
    by (rule checked_bind) (auto simp: Let_def conn_fits_def same_messages_def)
qed

lemma take_duplicate_checked:
  assumes "conn_fits c" "m_duplicatedChunkAddr c \<noteq> []"
  shows "checked (\<lambda>(c', l'). conn_fits c' \<and> same_messages c c' \<and> Suc (length (m_duplicatedChunkAddr c')) = length (m_duplicatedChunkAddr c))
    (take_duplicate (c, l))"
  using assms by (cases "m_duplicatedChunkAddr c") (simp_all add: take_duplicate_def conn_fits_def same_messages_def)

lemma store_chunk_checked:
  assumes ok: "server_fits srv" "conn_fits c" and flag: "msg_data (m_outMsgBuffer c) i \<in> {0, 1}"
    and dups: "duplicate_flags c [i] \<le> length (m_duplicatedChunkAddr c)"
  shows "checked (\<lambda>(srv', c', l'). server_fits srv' \<and> conn_fits c' \<and> same_messages c c' \<and>
    length (m_duplicatedChunkAddr c') + duplicate_flags c [i] = length (m_duplicatedChunkAddr c)) (store_chunk ext i (srv, c, l))"
proof -
  let ?key = "convert_array_hash_to_string (mem_read (hl_data (m_hashList c)) (i * HASHSIZE) 32)"
  have "checked (\<lambda>(srv', c', l'). server_fits srv' \<and> conn_fits c' \<and> same_messages c c' \<and>
      length (m_duplicatedChunkAddr c') + duplicate_flags c [i] = length (m_duplicatedChunkAddr c))
    (if msg_data (m_outMsgBuffer c) i = 1 then store_unique ext ?key (srv, c, l)
     else if msg_data (m_outMsgBuffer c) i = 0 then bindR (take_duplicate (c, l)) (\<lambda>(c', l'). Inr (srv, c', l'))
     else Inr (srv, c, l))"
  proof (cases "msg_data (m_outMsgBuffer c) i = 1")
    case True
    then have "duplicate_flags c [i] = 0" by (simp add: duplicate_flags_def)
    then show ?thesis unfolding if_P [OF True] by (intro checked_mono [OF store_unique_checked [OF ok]]) auto
  next
    case False
    then have zero: "msg_data (m_outMsgBuffer c) i = 0" using flag by simp
    then have "m_duplicatedChunkAddr c \<noteq> []" using dups by (auto simp: duplicate_flags_def)
    from take_duplicate_checked [OF ok(2) this] show ?thesis
      unfolding if_not_P [OF False] if_P [OF zero]
      by (rule checked_bind) (auto simp: ok(1) zero duplicate_flags_def)
  qed
  then show ?thesis
    unfolding store_chunk_def prod.case Let_def
  proof (rule checked_bind, clarify)
    fix srv1 c1 l1
    assume one: "server_fits srv1" "conn_fits c1" "same_messages c c1"
      "length (m_duplicatedChunkAddr c1) + duplicate_flags c [i] = length (m_duplicatedChunkAddr c)"
    show "checked (\<lambda>(srv', c', l'). server_fits srv' \<and> conn_fits c' \<and> same_messages c c' \<and>
        length (m_duplicatedChunkAddr c') + duplicate_flags c [i] = length (m_duplicatedChunkAddr c))
      (bindR (write_recipe_entry ext (chunkAddr l1) c1) (\<lambda>c. Inr (srv1, c, l1)))"
      by (rule checked_bind [OF write_recipe_entry_checked [OF one(2)]]) (use one same_messages_trans in auto)
  qed
qed

lemma store_loop_checked:
  assumes "server_fits srv" "conn_fits c" "\<forall>i \<in> set is. msg_data (m_outMsgBuffer c) i \<in> {0, 1}"
    "duplicate_flags c is \<le> length (m_duplicatedChunkAddr c)"
  shows "checked (\<lambda>(srv', c', l'). server_fits srv' \<and> conn_fits c' \<and> same_messages c c') (store_loop ext is (srv, c, l))"
  using assms
proof (induction "is" arbitrary: srv c l)
  case (Cons i "is")
  have dups: "duplicate_flags c (i # is) = duplicate_flags c [i] + duplicate_flags c is" by (simp add: duplicate_flags_def)
  then have "duplicate_flags c [i] \<le> length (m_duplicatedChunkAddr c)" using Cons.prems(4) by simp
  moreover have "msg_data (m_outMsgBuffer c) i \<in> {0, 1}" using Cons.prems(3) by simp
  ultimately have "checked (\<lambda>(srv', c', l'). server_fits srv' \<and> conn_fits c' \<and> same_messages c c' \<and>
      length (m_duplicatedChunkAddr c') + duplicate_flags c [i] = length (m_duplicatedChunkAddr c)) (store_chunk ext i (srv, c, l))"
    using store_chunk_checked Cons.prems(1,2) by blast
  then show ?case
    unfolding store_loop.simps
  proof (rule checked_bind, clarify)
    fix srv1 :: "'a server" and c1 l1
    assume one: "server_fits srv1" "conn_fits c1" "same_messages c c1"
      "length (m_duplicatedChunkAddr c1) + duplicate_flags c [i] = length (m_duplicatedChunkAddr c)"
    have out: "m_outMsgBuffer c1 = m_outMsgBuffer c" using one(3) by (simp add: same_messages_def)
    have "checked (\<lambda>(srv', c', l'). server_fits srv' \<and> conn_fits c' \<and> same_messages c1 c') (store_loop ext is (srv1, c1, l1))"
      using one(1,2,4) dups Cons.prems(3,4) by (intro Cons.IH) (simp_all add: out duplicate_flags_cong [OF out])
    then show "checked (\<lambda>(srv', c', l'). server_fits srv' \<and> conn_fits c' \<and> same_messages c c') (store_loop ext is (srv1, c1, l1))"
      by (rule checked_mono) (use one(3) same_messages_trans in auto)
  qed
qed simp

section \<open>Answering a query\<close>

text \<open>The answers \<open>[0..<k]\<close> are given; a duplicate adds one address.\<close>

definition answered :: "conn \<Rightarrow> nat \<Rightarrow> conn \<Rightarrow> bool" where
  "answered c k c' \<longleftrightarrow> conn_fits c' \<and> (\<forall>i < k. msg_data (m_outMsgBuffer c') i \<in> {0, 1}) \<and>
     duplicate_flags c' [0..<k] \<le> length (m_duplicatedChunkAddr c') \<and>
     header (m_outMsgBuffer c') = header (m_outMsgBuffer c) \<and> m_hashList c' = m_hashList c \<and>
     m_containerQueue c' = m_containerQueue c \<and> m_recipeQueue c' = m_recipeQueue c"

lemma query_chunk_answered:
  assumes "server_fits srv" "answered c0 k c"
  shows "answered c0 (Suc k) (fst (query_chunk srv k (c, l)))"
proof -
  obtain stored a where look: "isChunkStored (convert_array_hash_to_string (mem_read (msg_data (m_inMsgBuffer c))
      (unat (hdr_start (header (m_inMsgBuffer c))) + k * HASHSIZE) 32)) (chunkAddr l) srv = (stored, a)" by fastforce
  then have a: "stored \<Longrightarrow> addr_fits a"
    using assms(1) by (auto simp: isChunkStored_def server_fits_def ran_def split: option.splits)
  have other: "duplicate_flags (set_flag k v c) [0..<k] = duplicate_flags c [0..<k]" for v
    unfolding duplicate_flags_def by (intro arg_cong [where f = length] filter_cong) (auto simp: set_flag_def mem_write_def)
  have this_flag: "msg_data (m_outMsgBuffer (set_flag k v c)) i = (if i = k then v else msg_data (m_outMsgBuffer c) i)" for v i
    by (auto simp: set_flag_def mem_write_def)
  have frame: "conn_fits (set_flag k v c) = conn_fits c" "header (m_outMsgBuffer (set_flag k v c)) = header (m_outMsgBuffer c)"
    "m_hashList (set_flag k v c) = m_hashList c" "m_duplicatedChunkAddr (set_flag k v c) = m_duplicatedChunkAddr c"
    "m_containerQueue (set_flag k v c) = m_containerQueue c" "m_recipeQueue (set_flag k v c) = m_recipeQueue c" for v
    by (simp_all add: set_flag_def conn_fits_def)
  have split: "duplicate_flags c' [0..<Suc k] = duplicate_flags c' [0..<k] + duplicate_flags c' [k]" for c'
    by (simp add: duplicate_flags_def)
  have one: "duplicate_flags (set_flag k v c) [k] = (if v = 0 then 1 else 0)" for v by (simp add: duplicate_flags_def this_flag)
  have with_dup: "conn_fits (c'\<lparr>m_duplicatedChunkAddr := m_duplicatedChunkAddr c @ [a]\<rparr>)" if "conn_fits c'" "conn_fits c" stored for c'
    using that a by (auto simp: conn_fits_def)
  have dup_upd: "duplicate_flags (c'\<lparr>m_duplicatedChunkAddr := as\<rparr>) is = duplicate_flags c' is" for c' as "is"
    by (simp add: duplicate_flags_def)
  show ?thesis
  proof (cases stored)
    case True
    have "fst (query_chunk srv k (c, l)) = (set_flag k 0 c)\<lparr>m_duplicatedChunkAddr := m_duplicatedChunkAddr c @ [a]\<rparr>"
      using True by (simp add: query_chunk_def Let_def look)
    then show ?thesis
      using assms(2) with_dup [of "set_flag k 0 c"] True unfolding answered_def split dup_upd one
      by (simp add: dup_upd frame this_flag other one less_Suc_eq)
  next
    case False
    have "fst (query_chunk srv k (c, l)) = set_flag k 1 c" using False by (simp add: query_chunk_def Let_def look)
    then show ?thesis
      using assms(2) unfolding answered_def by (simp only: split one) (simp add: frame this_flag other less_Suc_eq)
  qed
qed

lemma query_loop_answered:
  assumes "server_fits srv" "answered c0 0 c"
  shows "answered c0 n (fst (fold (query_chunk srv) [0..<n] (c, l)))"
proof (induction n)
  case (Suc n)
  obtain c1 l1 where "fold (query_chunk srv) [0..<n] (c, l) = (c1, l1)" by fastforce
  then show ?case using Suc query_chunk_answered [OF assms(1), of c0 n c1 l1] by simp
qed (simp add: assms(2))

lemma answer_query_checked:
  assumes "server_fits srv" "conn_fits c"
  shows "checked (\<lambda>(c', l'). conn_fits c' \<and> flags_agree c' \<and> m_containerQueue c' = m_containerQueue c \<and> m_recipeQueue c' = m_recipeQueue c \<and>
    dataMsgType (header (m_outMsgBuffer c')) = dataMsgType (header (m_outMsgBuffer c))) (answer_query srv (c, l))"
proof -
  define h where "h = header (m_inMsgBuffer c)"
  define n where "n = unat (queryNum h)"
  define c1 where "c1 = c\<lparr>m_hashList := (m_hashList c)\<lparr>hl_num := n\<rparr>, m_outMsgBuffer := (m_outMsgBuffer c)
    \<lparr>header := (header (m_outMsgBuffer c))\<lparr>queryNum := queryNum h\<rparr>\<rparr>\<rparr>"
  let ?post = "\<lambda>(c', l'). answered c1 n c' \<or> (\<exists>d. answered (c1\<lparr>m_hashList := (m_hashList c1)\<lparr>hl_data := d\<rparr>\<rparr>) n c')"
  have fits: "conn_fits (c1\<lparr>m_hashList := (m_hashList c1)\<lparr>hl_data := d\<rparr>\<rparr>)" "conn_fits c1" if "n \<le> BATCHSIZE" for d
    using assms(2) that by (simp_all add: conn_fits_def c1_def)
  have "checked ?post (if n \<noteq> 0 then
      bindR (guardR BufferOverflow (HASHSIZE * n \<le> HASHSIZE * BATCHSIZE)) (\<lambda>_.
      bindR (guardR BufferOverread (unat (hdr_start h) + HASHSIZE * n \<le> in_capacity)) (\<lambda>_.
      (let c = c1\<lparr>m_hashList := (m_hashList c1)\<lparr>hl_data := mem_write (hl_data (m_hashList c1)) 0
                 (mem_read (msg_data (m_inMsgBuffer c1)) (unat (hdr_start h)) (HASHSIZE * n))\<rparr>\<rparr>
       in Inr (fold (query_chunk srv) [0..<n] (c, l)))))
    else Inr (c1, l))"
  proof (cases "n = 0")
    case True
    then show ?thesis using fits by (simp add: answered_def duplicate_flags_def config_values)
  next
    case False
    show ?thesis
      unfolding if_P [OF False] Let_def
    proof (intro checked_guard, goal_cases)
      case 1
      then have "n \<le> BATCHSIZE" by (simp add: config_values)
      let ?c = "c1\<lparr>m_hashList := (m_hashList c1)\<lparr>hl_data := mem_write (hl_data (m_hashList c1)) 0
                 (mem_read (msg_data (m_inMsgBuffer c1)) (unat (hdr_start h)) (HASHSIZE * n))\<rparr>\<rparr>"
      have "answered ?c 0 ?c" using fits(1) [OF \<open>n \<le> BATCHSIZE\<close>] by (simp add: answered_def duplicate_flags_def)
      then have "answered ?c n (fst (fold (query_chunk srv) [0..<n] (?c, l)))" by (rule query_loop_answered [OF assms(1)])
      then show ?case by (auto simp: split_beta)
    qed
  qed
  then show ?thesis
    unfolding answer_query_def prod.case Let_def h_def [symmetric] n_def [symmetric] c1_def [symmetric]
    by (rule checked_bind) (auto simp: answered_def flags_agree_def conn_fits_def c1_def duplicate_flags_def)
qed

section \<open>The handler\<close>

lemma writers_frame:
  "m_mysqlPool (fold save_container bs srv) = m_mysqlPool srv"
  "m_all_chunks (fold save_container bs srv) = m_all_chunks srv"
  "m_mysqlPool (fst (fold (write_recipe_block name) rs (srv, t))) = m_mysqlPool srv"
  "m_all_chunks (fst (fold (write_recipe_block name) rs (srv, t))) = m_all_chunks srv"
proof -
  show "m_mysqlPool (fold save_container bs srv) = m_mysqlPool srv" "m_all_chunks (fold save_container bs srv) = m_all_chunks srv"
    by (induction bs arbitrary: srv) (simp_all add: save_container_def)
  show "m_mysqlPool (fst (fold (write_recipe_block name) rs (srv, t))) = m_mysqlPool srv"
    "m_all_chunks (fst (fold (write_recipe_block name) rs (srv, t))) = m_all_chunks srv"
    by (induction rs arbitrary: srv t) (simp_all add: write_recipe_block_def)
qed

lemma run_writers_typed:
  assumes "run_writers (srv, c, l) = (srv', c', l')" "server_fits srv" "conn_fits c"
  shows "server_fits srv' \<and> conn_fits c' \<and> m_queue (m_containerQueue c') = [] \<and> m_queue (m_recipeQueue c') = [] \<and>
    m_outMsgBuffer c' = m_outMsgBuffer c \<and> m_hashList c' = m_hashList c \<and> m_duplicatedChunkAddr c' = m_duplicatedChunkAddr c \<and>
    m_done (m_containerQueue c') = m_done (m_containerQueue c) \<and> m_done (m_recipeQueue c') = m_done (m_recipeQueue c)"
proof -
  let ?C = "consume save_container (m_containerQueue c) srv"
  let ?R = "consume (write_recipe_block (m_recipeNameHash c)) (m_recipeQueue c) (snd ?C, rw_totalChunkNum l)"
  have s: "srv' = fst (snd ?R)" "c' = c\<lparr>m_containerQueue := fst ?C, m_recipeQueue := fst ?R\<rparr>"
    using assms(1) by (simp_all add: run_writers_def write_container_def write_recipe_def Let_def split: prod.splits)
  note C = consume_fold [of save_container "m_containerQueue c" srv]
  note R = consume_fold [of "write_recipe_block (m_recipeNameHash c)" "m_recipeQueue c" "(snd ?C, rw_totalChunkNum l)"]
  have "m_mysqlPool srv' = m_mysqlPool srv" "m_all_chunks srv' = m_all_chunks srv"
    using C R by (simp_all add: s(1) writers_frame)
  then have "server_fits srv'" using assms(2) by (simp add: server_fits_def)
  moreover have "conn_fits c'" using assms(3) C R by (simp add: s(2) conn_fits_def)
  ultimately show ?thesis using C R by (simp add: s(2))
qed

lemma load_in_fits: "conn_fits (load_in f c) = conn_fits c" "flags_agree (load_in f c) = flags_agree c"
  by (simp_all add: conn_fits_def flags_agree_def duplicate_flags_def)

lemma receive_chunks_checked:
  assumes "server_fits srv" "conn_fits c" "flags_agree c"
  shows "checked (\<lambda>(srv', c', l'). server_fits srv' \<and> conn_fits c' \<and> flags_agree c' \<and>
    m_done (m_containerQueue c') = m_done (m_containerQueue c) \<and> m_done (m_recipeQueue c') = m_done (m_recipeQueue c) \<and>
    dataMsgType (header (m_outMsgBuffer c')) = dataMsgType (header (m_outMsgBuffer c))) (receive_chunks ext (srv, c, l))"
  unfolding receive_chunks_def prod.case
proof (rule checked_bind [OF store_loop_checked], goal_cases)
  case (5 x)
  obtain srv1 c1 l1 where x: "x = (srv1, c1, l1)" by (cases x)
  have one: "server_fits srv1" "conn_fits c1" "same_messages c c1" using 5 by (simp_all add: x)
  show ?case
    unfolding x prod.case
    by (rule checked_bind [OF answer_query_checked [OF one(1,2)]]) (use one in \<open>auto simp: same_messages_def\<close>)
qed (use assms in \<open>auto simp: flags_agree_def\<close>)

lemma receive_fileend_checked:
  assumes "conn_fits c"
  shows "checked conn_fits (receive_fileend c)"
proof -
  have out: "conn_fits (set_out_type t c') = conn_fits c'" for t c' by (simp add: conn_fits_def set_out_type_def)
  have "checked conn_fits (if occupied (m_containerBuffer c) \<noteq> 0 then insert_container_queue c else Inr c)"
    using assms checked_mono [OF insert_container_checked [OF assms]] by simp
  then show ?thesis
    unfolding receive_fileend_def
  proof (rule checked_bind)
    fix c1 assume "conn_fits c1"
    then show "checked conn_fits (bindR (insert_recipe_queue c1) (\<lambda>c. Inr (set_out_type FILEEND c)))"
      by (intro checked_bind [OF insert_recipe_checked]) (simp_all add: out)
  qed
qed

text \<open>One message: either the upload goes on with the flags in agreement, or it ends.\<close>

lemma receive_file_body_checked:
  assumes ok: "server_fits srv" "conn_fits c" "flags_agree c" and type: "dataMsgType (header (m_outMsgBuffer c)) = dataMsgType_val UPLOADBODYREP"
    and run: "\<not> m_done (m_containerQueue c)" "\<not> m_done (m_recipeQueue c)"
  shows "checked (\<lambda>((srv', c', l'), out, go). server_fits srv' \<and> conn_fits c' \<and>
    (go \<longrightarrow> flags_agree c' \<and> dataMsgType (header (m_outMsgBuffer c')) = dataMsgType_val UPLOADBODYREP \<and>
       \<not> m_done (m_containerQueue c') \<and> \<not> m_done (m_recipeQueue c'))) (receive_file_body ext frame (srv, c, l))"
proof -
  have fits: "conn_fits (load_in frame c)" "flags_agree (load_in frame c)" using ok by (simp_all add: load_in_fits)
  have done_fits: "conn_fits (c1\<lparr>m_containerQueue := set_done (m_containerQueue c1), m_recipeQueue := set_done (m_recipeQueue c1)\<rparr>) = conn_fits c1" for c1
    by (simp add: conn_fits_def set_done_def bq_inv_def)
  have "checked (\<lambda>(srv', c', l'). server_fits srv' \<and> conn_fits c' \<and>
      (dataMsgType (header (m_outMsgBuffer c')) = dataMsgType_val FILEEND \<or>
       flags_agree c' \<and> dataMsgType (header (m_outMsgBuffer c')) = dataMsgType_val UPLOADBODYREP \<and>
       \<not> m_done (m_containerQueue c') \<and> \<not> m_done (m_recipeQueue c')))
    (if dataMsgType (header (m_inMsgBuffer (load_in frame c))) = dataMsgType_val FILEEND
     then bindR (receive_fileend (load_in frame c)) (\<lambda>c. Inr (srv, c, l)) else receive_chunks ext (srv, load_in frame c, l))"
  proof (cases "dataMsgType (header (m_inMsgBuffer (load_in frame c))) = dataMsgType_val FILEEND")
    case True
    have "checked (\<lambda>c'. conn_fits c' \<and> dataMsgType (header (m_outMsgBuffer c')) = dataMsgType_val FILEEND) (receive_fileend (load_in frame c))"
      using receive_fileend_checked [OF fits(1)] by (auto simp: checked_def receive_fileend_def bindR_def set_out_type_def split: sum.splits)
    then show ?thesis unfolding if_P [OF True] by (rule checked_bind) (simp add: ok(1))
  next
    case False
    show ?thesis
      unfolding if_not_P [OF False]
      by (rule checked_mono [OF receive_chunks_checked [OF ok(1) fits]]) (use type run in auto)
  qed
  note body = this
  show ?thesis
    unfolding receive_file_body_def prod.case load_in_def [symmetric] Let_def
    by (intro checked_guard checked_bind [OF body]) (auto simp: done_fits)
qed

lemma receive_file_end_checked:
  assumes "server_fits srv" "conn_fits c"
  shows "checked (\<lambda>(srv', c'). server_fits srv' \<and> conn_fits c' \<and> queues_idle c' \<and> hl_num (m_hashList c') = 0)
    (receive_file_end ext (srv, c, l))"
proof -
  obtain srv1 c1 l1 where w: "run_writers (srv, c, l) = (srv1, c1, l1)" by (cases "run_writers (srv, c, l)")
  note s = run_writers_typed [OF w assms]
  let ?c = "c1\<lparr>m_hashList := (m_hashList c1)\<lparr>hl_num := 0\<rparr>, m_containerQueue := undone (m_containerQueue c1),
    m_recipeQueue := undone (m_recipeQueue c1), m_recipeNameHash := []\<rparr>"
  let ?srv = "write_recipe_close (m_recipeNameHash c1) (rw_totalChunkNum l1) srv1"
  have "server_fits ?srv" "conn_fits (?c\<lparr>m_containerBuffer := \<lparr>containerID = [], occupied = 0, capacity = CONTAINERSIZE, c_data = x_malloc ext\<rparr>\<rparr>)"
    using s by (simp_all add: server_fits_def write_recipe_close_def conn_fits_def container_fits_def undone_def bq_inv_def)
  from new_container_checked [OF this] show ?thesis
    unfolding receive_file_end_def w reset_upload_def prod.case Let_def
    by (rule checked_bind) (use s in \<open>auto simp: new_recipe_def conn_fits_def queues_idle_def undone_def\<close>)
qed

lemma receiving_checked:
  assumes "conn_typed (srv, c, Receiving l)"
  shows "checked (\<lambda>(s', out). conn_typed s') (conn_receive ext frame (srv, c, Receiving l))"
proof -
  have ok: "server_fits srv" "conn_fits c" "flags_agree c" "dataMsgType (header (m_outMsgBuffer c)) = dataMsgType_val UPLOADBODYREP"
    "\<not> m_done (m_containerQueue c)" "\<not> m_done (m_recipeQueue c)"
    using assms by (simp_all add: conn_typed_def queues_idle_def)
  show ?thesis
    unfolding conn_receive_def prod.case mode.case
  proof (rule checked_bind [OF receive_file_body_checked [OF ok]], clarify)
    fix srv1 :: "'a server" and c1 l1 out go
    assume b: "server_fits srv1" "conn_fits c1" "go \<longrightarrow> flags_agree c1 \<and> dataMsgType (header (m_outMsgBuffer c1)) = dataMsgType_val UPLOADBODYREP \<and>
       \<not> m_done (m_containerQueue c1) \<and> \<not> m_done (m_recipeQueue c1)"
    show "checked (\<lambda>(s', out). conn_typed s')
      (if go then (let (srv, c, l) = run_writers (srv1, c1, l1) in Inr ((srv, c, Receiving l), out))
       else bindR (receive_file_end ext (srv1, c1, l1)) (\<lambda>(srv, c). Inr ((srv, c, AwaitOrder), out)))"
    proof (cases go)
      case True
      obtain srv2 c2 l2 where w: "run_writers (srv1, c1, l1) = (srv2, c2, l2)" by (cases "run_writers (srv1, c1, l1)")
      have "flags_agree c2 = flags_agree c1" using run_writers_typed [OF w b(1,2)] by (simp add: flags_agree_def duplicate_flags_def)
      then show ?thesis using run_writers_typed [OF w b(1,2)] b(3) True by (simp add: w conn_typed_def queues_idle_def)
    next
      case False
      then show ?thesis
        by simp (rule checked_bind [OF receive_file_end_checked [OF b(1,2)]], auto simp: conn_typed_def)
    qed
  qed
qed

lemma with_conn_checked:
  assumes "pool_ok p" "checked (\<lambda>_. True) body"
  shows "checked (\<lambda>(r, p'). pool_ok p') (with_conn p body)"
proof -
  have "checked (\<lambda>(conn, p'). pool_ok p' \<and> conn \<notin> set (m_connpool p')) (get_connection p)"
    using assms(1) by (cases "m_connpool p") (auto simp: get_connection_def pool_ok_def)
  then show ?thesis
    unfolding with_conn_def
  proof (rule checked_bind, clarify)
    fix conn p1 assume p1: "pool_ok p1" "conn \<notin> set (m_connpool p1)"
    show "checked (\<lambda>(r, p'). pool_ok p') (bindR body (\<lambda>r. Inr (r, release_connection conn p1)))"
      by (rule checked_bind [OF assms(2)]) (simp add: release_connection_new [OF p1(2,1)])
  qed
qed

lemma isFileUnique_checked: "server_fits srv \<Longrightarrow> checked (\<lambda>(b, srv'). server_fits srv') (isFileUnique ext cid fn srv)"
  unfolding isFileUnique_def
  by (rule checked_bind [OF with_conn_checked])
     (auto simp: server_fits_def sprintf_query_def hasResult_def split: option.splits prod.splits)

lemma addFile_checked: "server_fits srv \<Longrightarrow> checked server_fits (addFile ext cid fn srv)"
  unfolding addFile_def
  by (rule checked_bind [OF with_conn_checked]) (auto simp: server_fits_def sprintf_query_def)

lemma recipe_file_checked: "checked (\<lambda>_. True) (recipe_file ext cid fn)"
  by (auto simp: recipe_file_def generate_hash_def HASHTYPE_def split: option.splits)

lemma receive_file_begin_checked:
  assumes "server_fits srv" "conn_fits c" "queues_idle c" "hl_num (m_hashList c) = 0"
  shows "checked (\<lambda>((srv', c', up), out). conn_typed (srv', c', case up of None \<Rightarrow> AwaitOrder | Some l \<Rightarrow> Receiving l))
    (receive_file_begin ext fn (srv, c))"
  unfolding receive_file_begin_def prod.case Let_def
proof (rule checked_bind [OF recipe_file_checked], rule checked_bind [OF isFileUnique_checked [OF assms(1)]], clarify)
  fix name and unique and srv1 :: "'a server"
  let ?c = "c\<lparr>m_recipeNameHash := name\<rparr>"
  assume s: "server_fits srv1"
  have c: "conn_fits ?c" "queues_idle ?c" "hl_num (m_hashList ?c) = 0" using assms by (simp_all add: conn_fits_def queues_idle_def)
  have out: "conn_fits (set_out_type t ?c) = conn_fits ?c" "queues_idle (set_out_type t ?c) = queues_idle ?c"
    "m_hashList (set_out_type t ?c) = m_hashList ?c" "dataMsgType (header (m_outMsgBuffer (set_out_type t ?c))) = dataMsgType_val t" for t
    by (simp_all add: conn_fits_def queues_idle_def set_out_type_def)
  have open_fits: "server_fits (write_recipe_open name srv2) = server_fits srv2" for srv2 :: "'a server"
    by (simp add: server_fits_def write_recipe_open_def)
  have flags: "flags_agree (set_out_type t ?c)" for t using c(3) by (simp add: flags_agree_def out duplicate_flags_def)
  show "checked (\<lambda>((srv', c', up), out). conn_typed (srv', c', case up of None \<Rightarrow> AwaitOrder | Some l \<Rightarrow> Receiving l))
     (if \<not> unique then Inr ((srv1, ?c, None), [send_control_message (x_malloc ext) UPLOADREP [] DUPLICATE])
      else bindR (addFile ext (client_id (m_client_info c)) fn srv1) (\<lambda>srv.
        Inr ((write_recipe_open name srv, set_out_type UPLOADBODYREP ?c, Some (upload_start (dec_addr (mem_read (x_malloc ext) 0 56)))),
          [send_control_message (x_malloc ext) UPLOADREP [] UNIQUE])))"
  proof (cases unique)
    case True
    then show ?thesis
      by simp (rule checked_bind [OF addFile_checked [OF s]], use c in \<open>simp add: conn_typed_def open_fits out flags\<close>)
  qed (use s c in \<open>simp add: conn_typed_def\<close>)
qed

text \<open>A download leaves the buffers and queues of uploads alone.\<close>

definition sent_only :: "conn \<Rightarrow> conn \<Rightarrow> bool" where
  "sent_only c c' \<longleftrightarrow> m_containerBuffer c' = m_containerBuffer c \<and> m_containerQueue c' = m_containerQueue c \<and>
     m_recipeBuffer c' = m_recipeBuffer c \<and> m_recipeQueue c' = m_recipeQueue c \<and> m_hashList c' = m_hashList c \<and>
     m_duplicatedChunkAddr c' = m_duplicatedChunkAddr c"

lemma sent_only_trans: "sent_only a b \<Longrightarrow> sent_only b c \<Longrightarrow> sent_only a c"
  by (auto simp: sent_only_def)

lemma sent_only_typed:
  assumes "sent_only c c'"
  shows "conn_fits c' = conn_fits c" "queues_idle c' = queues_idle c" "m_hashList c' = m_hashList c"
  using assms by (auto simp: sent_only_def conn_fits_def queues_idle_def)

lemma read_chunks_checked: "checked (\<lambda>_. True) (read_chunks srv as s)"
proof (induction as arbitrary: s)
  case (Cons a as)
  obtain m off where "s = (m, off)" by (cases s)
  then show ?case using Cons.IH by (simp add: Let_def checked_guard)
qed simp

lemma send_batch_checked: "checked (\<lambda>(c', frame). sent_only c c') (send_batch srv block c)"
  unfolding send_batch_def Let_def
  by (rule checked_bind [OF read_chunks_checked]) (auto simp: sent_only_def intro!: checked_guard)

lemma send_batches_checked: "checked (\<lambda>(c', frames). sent_only c c') (send_batches srv recipe c)"
proof (induction srv recipe c rule: send_batches.induct)
  case (1 srv recipe c)
  show ?case
  proof (cases "length (take (sizeof_ChunkAddr * BATCHSIZE) recipe) = 0")
    case True
    then show ?thesis unfolding send_batches.simps [of srv recipe c] Let_def if_P [OF True] by (simp add: sent_only_def)
  next
    case False
    show ?thesis
      unfolding send_batches.simps [of srv recipe c] Let_def if_not_P [OF False]
    proof (rule checked_bind [OF send_batch_checked], clarify)
      fix c1 frame assume c1: "sent_only c c1"
      have "checked (\<lambda>(c', frames). sent_only c1 c') (send_batches srv (drop (sizeof_ChunkAddr * BATCHSIZE) recipe) c1)"
        using "1.IH" False by simp
      then show "checked (\<lambda>(c', frames). sent_only c c')
          (bindR (send_batches srv (drop (sizeof_ChunkAddr * BATCHSIZE) recipe) c1) (\<lambda>(c, frames). Inr (c, frame # frames)))"
        by (rule checked_bind) (use c1 sent_only_trans in auto)
    qed
  qed
qed

lemma send_file_checked:
  assumes "server_fits srv"
  shows "checked (\<lambda>((srv', c'), out). server_fits srv' \<and> sent_only c c') (send_file ext fn (srv, c))"
  unfolding send_file_def prod.case Let_def isFileExist_def bindR_assoc
proof (rule checked_bind [OF recipe_file_checked], rule checked_bind [OF isFileUnique_checked [OF assms]], clarify)
  fix name and unique and srv1 :: "'a server"
  let ?c = "c\<lparr>m_recipeNameHash := name\<rparr>"
  let ?recipe = "case recipes_dir srv1 (m_recipeNameHash ?c) of None \<Rightarrow> [] | Some bs \<Rightarrow> bs"
  assume s: "server_fits srv1"
  show "checked (\<lambda>((srv', c'), out). server_fits srv' \<and> sent_only c c')
    (bindR (Inr (\<not> unique, srv1)) (\<lambda>(exists, srv).
      if \<not> exists then Inr ((srv, ?c), [send_control_message (x_malloc ext) DOWNLOADREP [] NOTEXIST])
      else bindR (send_batches srv (drop 4 (case recipes_dir srv (m_recipeNameHash ?c) of None \<Rightarrow> [] | Some bs \<Rightarrow> bs)) (set_out_type DOWNLOADBODY ?c))
        (\<lambda>(c, frames). Inr ((srv, reset_download (set_out_type FILEEND c)),
           send_control_message (x_malloc ext) DOWNLOADREP [] EXIST # frames @ [msg_bytes (m_outMsgBuffer (set_out_type FILEEND c)) sizeof_DataMsg]))))"
  proof (cases unique)
    case True
    then show ?thesis using s by (simp add: sent_only_def)
  next
    case False
    then show ?thesis
      by (simp, intro checked_bind [OF send_batches_checked]) (use s in \<open>auto simp: sent_only_def set_out_type_def reset_download_def\<close>)
  qed
qed

lemma handle_order_checked:
  assumes "conn_typed (srv, c, AwaitOrder)"
  shows "checked (\<lambda>(s', out). conn_typed s') (handle_order ext frame (srv, c))"
proof -
  have c: "server_fits srv" "conn_fits c" "queues_idle c" "hl_num (m_hashList c) = 0" using assms by (simp_all add: conn_typed_def)
  have msg: "checked (\<lambda>_. True) (receive_control_msg u frame fn st)" for u fn st
    unfolding receive_control_msg_def
    by (intro checked_guard) (auto simp: Let_def split: option.splits Order_t.splits)
  show ?thesis
    unfolding handle_order_def prod.case
  proof (rule checked_bind [OF msg], clarify)
    fix ord fileName status
    have up: "checked (\<lambda>(s', out). conn_typed s') (bindR (receive_file_begin ext fileName (srv, c)) (\<lambda>((srv, c, up), out).
        Inr ((srv, c, (case up of None \<Rightarrow> AwaitOrder | Some l \<Rightarrow> Receiving l)), out)))"
      by (rule checked_bind [OF receive_file_begin_checked [OF c]]) auto
    have down: "checked (\<lambda>(s', out). conn_typed s') (bindR (send_file ext fileName (srv, c)) (\<lambda>((srv, c), out). Inr ((srv, c, AwaitOrder), out)))"
      by (rule checked_bind [OF send_file_checked [OF c(1)]]) (use c sent_only_typed in \<open>auto simp: conn_typed_def\<close>)
    show "checked (\<lambda>(s', out). conn_typed s')
      (case order_of ord of
        Some UPLOAD \<Rightarrow> bindR (receive_file_begin ext fileName (srv, c)) (\<lambda>((srv, c, up), out).
          Inr ((srv, c, (case up of None \<Rightarrow> AwaitOrder | Some l \<Rightarrow> Receiving l)), out))
      | Some DOWNLOAD \<Rightarrow> bindR (send_file ext fileName (srv, c)) (\<lambda>((srv, c), out). Inr ((srv, c, AwaitOrder), out))
      | Some QUIT \<Rightarrow> Inr ((srv, c, Closed), [send_control_message (x_malloc ext) QUITREP [] NONE])
      | _ \<Rightarrow> Inr ((srv, c, AwaitOrder), []))"
      using up down c by (simp add: conn_typed_def split: option.split Order_t.split)
  qed
qed

section \<open>The properties\<close>

lemma conn_receive_checked:
  assumes "conn_typed (srv, c, m)"
  shows "checked (\<lambda>(s', out). conn_typed s') (conn_receive ext frame (srv, c, m))"
proof (cases m)
  case AwaitLogin
  have fits: "conn_fits (c\<lparr>m_client_info := info\<rparr>) = conn_fits c" "queues_idle (c\<lparr>m_client_info := info\<rparr>) = queues_idle c" for info
    by (simp_all add: conn_fits_def queues_idle_def)
  show ?thesis
    unfolding conn_receive_def receive_login_def AwaitLogin prod.case mode.case bindR_assoc
    by (intro checked_guard) (use assms in \<open>simp add: AwaitLogin conn_typed_def Let_def fits\<close>)
next
  case AwaitOrder
  then show ?thesis using handle_order_checked assms by (simp add: conn_receive_def)
next
  case (Receiving l)
  then show ?thesis using receiving_checked assms by blast
next
  case Closed
  then show ?thesis using assms by (simp add: conn_receive_def)
qed


lemma ClientConn_new_typed:
  assumes "server_fits srv" "ClientConn_new ext fd info srv = Inr (srv', c)"
  shows "conn_typed (srv', c, AwaitLogin)"
proof -
  have "conn_fits ((uninit_conn ext fd info)\<lparr>m_containerBuffer := \<lparr>containerID = [], occupied = 0, capacity = CONTAINERSIZE, c_data = x_malloc ext\<rparr>\<rparr>)"
    by (simp add: uninit_conn_def conn_fits_def container_fits_def bq_inv_new Let_def) (simp add: BlockQueue_new_def)
  from new_container_checked [OF assms(1) this, of ext] show ?thesis
    using assms(2) by (auto simp: ClientConn_new_def bindR_eq_Inr_iff new_recipe_def conn_typed_def conn_fits_def queues_idle_def
        uninit_conn_def BlockQueue_new_def Let_def)
qed




end
