(* ===== verification/ClientConn_Writers.thy ===== *)
theory ClientConn_Writers
  imports ClientConn_Typed
begin

text \<open>
  The two writer threads of an upload as threads of their own. \<open>conn_receive\<close> lets both empty their queues after every
  message, which is one schedule; here a schedule is any list of messages and of steps of \<open>write_container\<close> and
  \<open>write_recipe\<close>, each of which takes one element of its queue. The handler never reads what the threads write, so a
  state in which they are ahead behaves alike (\<open>receive_file_body_ahead\<close>), and all schedules end in the same state.
\<close>

lemma bindR_InrE: "bindR m f = Inr y \<Longrightarrow> (\<And>x. m = Inr x \<Longrightarrow> f x = Inr y \<Longrightarrow> P) \<Longrightarrow> P"
  by (cases m) simp_all

lemma bindR_Inr_right: "bindR m Inr = m"
  by (cases m) simp_all

section \<open>Writer threads that are ahead\<close>

text \<open>
  What the threads have done since a given state: how many elements of the two queues they have taken, and what the
  directories and the count of the recipe have become.
\<close>

record written =
  taken_containers :: nat
  taken_recipes :: nat
  written_containers :: "string \<rightharpoonup> byte list"
  written_recipes :: "string \<rightharpoonup> byte list"
  written_total :: u32

definition skip_queue :: "nat \<Rightarrow> 'a BlockQueue \<Rightarrow> 'a BlockQueue" where
  "skip_queue k q = q\<lparr>m_queue := drop k (m_queue q), m_isEmpty := (drop k (m_queue q) = [])\<rparr>"

definition conn_ahead :: "written \<Rightarrow> conn \<Rightarrow> conn" where
  "conn_ahead w c = c\<lparr>m_containerQueue := skip_queue (taken_containers w) (m_containerQueue c),
     m_recipeQueue := skip_queue (taken_recipes w) (m_recipeQueue c)\<rparr>"

definition server_ahead :: "written \<Rightarrow> 'db server \<Rightarrow> 'db server" where
  "server_ahead w srv = srv\<lparr>containers_dir := written_containers w, recipes_dir := written_recipes w\<rparr>"

definition locals_ahead :: "written \<Rightarrow> upload_locals \<Rightarrow> upload_locals" where
  "locals_ahead w l = l\<lparr>rw_totalChunkNum := written_total w\<rparr>"

definition taken_ok :: "written \<Rightarrow> conn \<Rightarrow> bool" where
  "taken_ok w c \<longleftrightarrow> taken_containers w \<le> length (m_queue (m_containerQueue c)) \<and> taken_recipes w \<le> length (m_queue (m_recipeQueue c)) \<and>
     bq_inv (m_containerQueue c) \<and> bq_inv (m_recipeQueue c)"

text \<open>What a step of the handler leaves to the threads: it only adds to the ends of the queues.\<close>

definition conn_adds :: "conn \<Rightarrow> conn \<Rightarrow> bool" where
  "conn_adds c c' \<longleftrightarrow> m_recipeNameHash c' = m_recipeNameHash c \<and>
     (\<exists>bs. m_queue (m_containerQueue c') = m_queue (m_containerQueue c) @ bs) \<and>
     (\<exists>rs. m_queue (m_recipeQueue c') = m_queue (m_recipeQueue c) @ rs) \<and>
     (bq_inv (m_containerQueue c) \<longrightarrow> bq_inv (m_containerQueue c')) \<and> (bq_inv (m_recipeQueue c) \<longrightarrow> bq_inv (m_recipeQueue c'))"

definition same_files :: "'db server \<Rightarrow> 'db server \<Rightarrow> bool" where
  "same_files srv srv' \<longleftrightarrow> containers_dir srv' = containers_dir srv \<and> recipes_dir srv' = recipes_dir srv"

lemma conn_adds_refl [simp]: "conn_adds c c"
  by (simp add: conn_adds_def)

lemma conn_adds_trans: "conn_adds a b \<Longrightarrow> conn_adds b c \<Longrightarrow> conn_adds a c"
  by (auto simp: conn_adds_def)

lemma same_files_refl [simp]: "same_files srv srv"
  by (simp add: same_files_def)

lemma same_files_trans: "same_files a b \<Longrightarrow> same_files b c \<Longrightarrow> same_files a c"
  by (simp add: same_files_def)

lemma conn_adds_taken: "conn_adds c c' \<Longrightarrow> taken_ok w c \<Longrightarrow> taken_ok w c'"
  by (auto simp: conn_adds_def taken_ok_def)

lemma conn_adds_same:
  "m_containerQueue c' = m_containerQueue c \<Longrightarrow> m_recipeQueue c' = m_recipeQueue c \<Longrightarrow> m_recipeNameHash c' = m_recipeNameHash c \<Longrightarrow> conn_adds c c'"
  by (simp add: conn_adds_def)

lemma ahead_select [simp]:
  "m_containerBuffer (conn_ahead w c) = m_containerBuffer c" "m_recipeBuffer (conn_ahead w c) = m_recipeBuffer c"
  "m_inMsgBuffer (conn_ahead w c) = m_inMsgBuffer c" "m_outMsgBuffer (conn_ahead w c) = m_outMsgBuffer c"
  "m_hashList (conn_ahead w c) = m_hashList c" "m_duplicatedChunkAddr (conn_ahead w c) = m_duplicatedChunkAddr c"
  "m_recipeNameHash (conn_ahead w c) = m_recipeNameHash c"
  "m_containerQueue (conn_ahead w c) = skip_queue (taken_containers w) (m_containerQueue c)"
  "m_recipeQueue (conn_ahead w c) = skip_queue (taken_recipes w) (m_recipeQueue c)"
  "uuid_count (server_ahead w srv) = uuid_count srv" "m_all_chunks (server_ahead w srv) = m_all_chunks srv"
  "received_file_size (locals_ahead w l) = received_file_size l" "unique_chunk_num (locals_ahead w l) = unique_chunk_num l"
  "duplicated_chunk_num (locals_ahead w l) = duplicated_chunk_num l" "currentUniqueNum (locals_ahead w l) = currentUniqueNum l"
  "chunkAddr (locals_ahead w l) = chunkAddr l"
  by (simp_all add: conn_ahead_def server_ahead_def locals_ahead_def)

lemma ahead_update:
  "conn_ahead w (c\<lparr>m_containerBuffer := b\<rparr>) = (conn_ahead w c)\<lparr>m_containerBuffer := b\<rparr>"
  "conn_ahead w (c\<lparr>m_recipeBuffer := r\<rparr>) = (conn_ahead w c)\<lparr>m_recipeBuffer := r\<rparr>"
  "conn_ahead w (c\<lparr>m_inMsgBuffer := m\<rparr>) = (conn_ahead w c)\<lparr>m_inMsgBuffer := m\<rparr>"
  "conn_ahead w (c\<lparr>m_outMsgBuffer := m\<rparr>) = (conn_ahead w c)\<lparr>m_outMsgBuffer := m\<rparr>"
  "conn_ahead w (c\<lparr>m_hashList := h\<rparr>) = (conn_ahead w c)\<lparr>m_hashList := h\<rparr>"
  "conn_ahead w (c\<lparr>m_duplicatedChunkAddr := as\<rparr>) = (conn_ahead w c)\<lparr>m_duplicatedChunkAddr := as\<rparr>"
  "server_ahead w (srv\<lparr>uuid_count := u\<rparr>) = (server_ahead w srv)\<lparr>uuid_count := u\<rparr>"
  "locals_ahead w (l\<lparr>received_file_size := n\<rparr>) = (locals_ahead w l)\<lparr>received_file_size := n\<rparr>"
  "locals_ahead w (l\<lparr>unique_chunk_num := n\<rparr>) = (locals_ahead w l)\<lparr>unique_chunk_num := n\<rparr>"
  "locals_ahead w (l\<lparr>duplicated_chunk_num := n\<rparr>) = (locals_ahead w l)\<lparr>duplicated_chunk_num := n\<rparr>"
  "locals_ahead w (l\<lparr>currentUniqueNum := n\<rparr>) = (locals_ahead w l)\<lparr>currentUniqueNum := n\<rparr>"
  "locals_ahead w (l\<lparr>chunkAddr := a\<rparr>) = (locals_ahead w l)\<lparr>chunkAddr := a\<rparr>"
  by (simp_all add: conn_ahead_def server_ahead_def locals_ahead_def)

lemma addChunk_ahead: "server_ahead w (addChunk ka srv) = addChunk ka (server_ahead w srv)"
  by (simp add: server_ahead_def addChunk_def split: option.splits)

lemma isChunkStored_ahead [simp]: "isChunkStored k d (server_ahead w srv) = isChunkStored k d srv"
  by (simp add: isChunkStored_def)

text \<open>A push succeeds when the threads are ahead, since the queue is not longer.\<close>

lemma push_ahead:
  assumes "push e q = Some q'" "k \<le> length (m_queue q)" "bq_inv q"
  shows "push e (skip_queue k q) = Some (skip_queue k q')"
  using assms by (auto simp: push_def bq_inv_def skip_queue_def split: if_splits)

section \<open>The handler beside the threads\<close>

lemma insert_container_ahead:
  assumes "insert_container_queue c = Inr c'" "taken_ok w c"
  shows "insert_container_queue (conn_ahead w c) = Inr (conn_ahead w c') \<and> conn_adds c c'"
proof -
  obtain q where q: "push (m_containerBuffer c) (m_containerQueue c) = Some q" "c' = c\<lparr>m_containerQueue := q\<rparr>"
    using assms(1) by (auto simp: insert_container_queue_def split: option.splits)
  have "push (m_containerBuffer c) (skip_queue (taken_containers w) (m_containerQueue c)) = Some (skip_queue (taken_containers w) q)"
    using assms(2) by (intro push_ahead [OF q(1)]) (simp_all add: taken_ok_def)
  then show ?thesis
    using push_Some [OF q(1)] by (simp add: insert_container_queue_def q(2) conn_adds_def) (simp add: conn_ahead_def)
qed

lemma insert_recipe_ahead:
  assumes "insert_recipe_queue c = Inr c'" "taken_ok w c"
  shows "insert_recipe_queue (conn_ahead w c) = Inr (conn_ahead w c') \<and> conn_adds c c'"
proof -
  obtain q where q: "push (m_recipeBuffer c) (m_recipeQueue c) = Some q" "c' = c\<lparr>m_recipeQueue := q\<rparr>"
    using assms(1) by (auto simp: insert_recipe_queue_def split: option.splits)
  have "push (m_recipeBuffer c) (skip_queue (taken_recipes w) (m_recipeQueue c)) = Some (skip_queue (taken_recipes w) q)"
    using assms(2) by (intro push_ahead [OF q(1)]) (simp_all add: taken_ok_def)
  then show ?thesis
    using push_Some [OF q(1)] by (simp add: insert_recipe_queue_def q(2) conn_adds_def) (simp add: conn_ahead_def)
qed

lemma new_container_ahead:
  assumes "new_container ext (srv, c) = Inr (srv', c')"
  shows "new_container ext (server_ahead w srv, conn_ahead w c) = Inr (server_ahead w srv', conn_ahead w c') \<and>
    conn_adds c c' \<and> same_files srv srv'"
  using assms by (auto simp: new_container_def bindR_eq_Inr_iff guardR_eq_Inr_iff ahead_update conn_adds_same same_files_def Let_def)

lemma new_recipe_ahead: "new_recipe ext (conn_ahead w c) = conn_ahead w (new_recipe ext c)" "conn_adds c (new_recipe ext c)"
  by (simp_all add: new_recipe_def ahead_update conn_adds_same)

lemma make_room_ahead:
  assumes "make_room ext n (srv, c) = Inr (srv', c')" "taken_ok w c"
  shows "make_room ext n (server_ahead w srv, conn_ahead w c) = Inr (server_ahead w srv', conn_ahead w c') \<and>
    conn_adds c c' \<and> same_files srv srv'"
proof (cases "capacity (m_containerBuffer c) < n")
  case True
  then obtain c1 where c1: "insert_container_queue c = Inr c1" "new_container ext (srv, c1) = Inr (srv', c')"
    using assms(1) by (auto simp: make_room_def bindR_eq_Inr_iff)
  then show ?thesis
    using True insert_container_ahead [OF c1(1) assms(2)] new_container_ahead [OF c1(2), of w] conn_adds_trans by (auto simp: make_room_def)
qed (use assms(1) in \<open>simp add: make_room_def\<close>)

lemma store_unique_ahead:
  assumes run: "store_unique ext key (srv, c, l) = Inr (srv', c', l')" and ok: "taken_ok w c"
  shows "store_unique ext key (server_ahead w srv, conn_ahead w c, locals_ahead w l) =
      Inr (server_ahead w srv', conn_ahead w c', locals_ahead w l') \<and> conn_adds c c' \<and> same_files srv srv' \<and>
    rw_totalChunkNum l' = rw_totalChunkNum l"
proof -
  define n where "n = unat (chunk_end (currentUniqueNum l) (hdr_start (header (m_inMsgBuffer c))) - chunk_start (currentUniqueNum l))"
  obtain srv1 c1 where room: "make_room ext n (srv, c) = Inr (srv1, c1)"
    using run by (auto simp: store_unique_def n_def bindR_eq_Inr_iff Let_def)
  note r = make_room_ahead [OF room ok]
  have "conn_adds c1 (c1\<lparr>m_containerBuffer := b\<rparr>)" for b by (simp add: conn_adds_same)
  then show ?thesis
    using run r conn_adds_trans
    by (auto simp: store_unique_def Let_def n_def [symmetric] room bindR_eq_Inr_iff guardR_eq_Inr_iff ahead_update addChunk_ahead same_files_def)
qed

lemma take_duplicate_ahead:
  "take_duplicate (c, l) = Inr (c', l') \<Longrightarrow>
   take_duplicate (conn_ahead w c, locals_ahead w l) = Inr (conn_ahead w c', locals_ahead w l') \<and> conn_adds c c' \<and>
   rw_totalChunkNum l' = rw_totalChunkNum l"
  by (auto simp: take_duplicate_def ahead_update conn_adds_same split: list.splits)

lemma write_recipe_entry_ahead:
  assumes "write_recipe_entry ext a c = Inr c'" "taken_ok w c"
  shows "write_recipe_entry ext a (conn_ahead w c) = Inr (conn_ahead w c') \<and> conn_adds c c'"
proof -
  obtain c1 where c1: "(if BATCHSIZE \<le> rec_num (m_recipeBuffer c) then bindR (insert_recipe_queue c) (\<lambda>c'. Inr (new_recipe ext c')) else Inr c) = Inr c1"
    and c': "c' = c1\<lparr>m_recipeBuffer := (m_recipeBuffer c1)\<lparr>rec_data := mem_write (rec_data (m_recipeBuffer c1)) (rec_num (m_recipeBuffer c1) * sizeof_ChunkAddr) (enc_addr a),
             rec_num := rec_num (m_recipeBuffer c1) + 1\<rparr>\<rparr>"
    using assms(1) by (auto simp: write_recipe_entry_def bindR_eq_Inr_iff Let_def)
  have "(if BATCHSIZE \<le> rec_num (m_recipeBuffer (conn_ahead w c)) then bindR (insert_recipe_queue (conn_ahead w c)) (\<lambda>c'. Inr (new_recipe ext c'))
      else Inr (conn_ahead w c)) = Inr (conn_ahead w c1) \<and> conn_adds c c1"
    using c1 insert_recipe_ahead [OF _ assms(2)] conn_adds_trans [OF _ new_recipe_ahead(2)]
    by (auto simp: bindR_eq_Inr_iff new_recipe_ahead(1) split: if_splits)
  moreover have "conn_adds c1 c'" by (simp add: c' conn_adds_same)
  ultimately show ?thesis using conn_adds_trans by (auto simp: write_recipe_entry_def c' ahead_update Let_def)
qed

lemma store_chunk_ahead:
  assumes run: "store_chunk ext i (srv, c, l) = Inr (srv', c', l')" and ok: "taken_ok w c"
  shows "store_chunk ext i (server_ahead w srv, conn_ahead w c, locals_ahead w l) =
      Inr (server_ahead w srv', conn_ahead w c', locals_ahead w l') \<and> conn_adds c c' \<and> same_files srv srv' \<and>
    rw_totalChunkNum l' = rw_totalChunkNum l"
proof -
  let ?key = "convert_array_hash_to_string (mem_read (hl_data (m_hashList c)) (i * HASHSIZE) 32)"
  let ?step = "\<lambda>srv c l. if msg_data (m_outMsgBuffer c) i = 1 then store_unique ext ?key (srv, c, l)
      else if msg_data (m_outMsgBuffer c) i = 0 then bindR (take_duplicate (c, l)) (\<lambda>(c', l'). Inr (srv, c', l')) else Inr (srv, c, l)"
  obtain c1 where sel: "?step srv c l = Inr (srv', c1, l')" and entry: "write_recipe_entry ext (chunkAddr l') c1 = Inr c'"
    using run by (auto simp: store_chunk_def bindR_eq_Inr_iff Let_def)
  have one: "?step (server_ahead w srv) (conn_ahead w c) (locals_ahead w l) = Inr (server_ahead w srv', conn_ahead w c1, locals_ahead w l') \<and>
      conn_adds c c1 \<and> same_files srv srv' \<and> rw_totalChunkNum l' = rw_totalChunkNum l"
  proof (cases "msg_data (m_outMsgBuffer c) i = 1")
    case True
    then show ?thesis using sel store_unique_ahead [OF _ ok] by simp
  next
    case False
    then show ?thesis using sel take_duplicate_ahead [of c l c1 l' w] by (auto simp: bindR_eq_Inr_iff split: if_splits)
  qed
  then have "taken_ok w c1" using ok conn_adds_taken by blast
  note two = write_recipe_entry_ahead [OF entry this]
  have "store_chunk ext i (server_ahead w srv, conn_ahead w c, locals_ahead w l) =
      bindR (?step (server_ahead w srv) (conn_ahead w c) (locals_ahead w l)) (\<lambda>(srv, c, l).
        bindR (write_recipe_entry ext (chunkAddr l) c) (\<lambda>c. Inr (srv, c, l)))"
    by (simp only: store_chunk_def prod.case Let_def ahead_select)
  also have "\<dots> = Inr (server_ahead w srv', conn_ahead w c', locals_ahead w l')"
    unfolding conjunct1 [OF one] using two by simp
  finally show ?thesis using one two conn_adds_trans by blast
qed

lemma store_loop_ahead:
  assumes "store_loop ext is (srv, c, l) = Inr (srv', c', l')" "taken_ok w c"
  shows "store_loop ext is (server_ahead w srv, conn_ahead w c, locals_ahead w l) =
      Inr (server_ahead w srv', conn_ahead w c', locals_ahead w l') \<and> conn_adds c c' \<and> same_files srv srv' \<and>
    rw_totalChunkNum l' = rw_totalChunkNum l"
  using assms
proof (induction "is" arbitrary: srv c l)
  case (Cons i "is")
  then obtain srv1 c1 l1 where one: "store_chunk ext i (srv, c, l) = Inr (srv1, c1, l1)" "store_loop ext is (srv1, c1, l1) = Inr (srv', c', l')"
    by (auto simp: bindR_eq_Inr_iff)
  note s = store_chunk_ahead [OF one(1) Cons.prems(2)]
  then have "taken_ok w c1" using Cons.prems(2) conn_adds_taken by blast
  from Cons.IH [OF one(2) this] s show ?case using conn_adds_trans same_files_trans by auto
qed simp

lemma query_chunk_ahead:
  "query_chunk (server_ahead w srv) i (conn_ahead w c, locals_ahead w l) = map_prod (conn_ahead w) (locals_ahead w) (query_chunk srv i (c, l))"
proof -
  have "set_flag i v (conn_ahead w c) = conn_ahead w (set_flag i v c)" for v by (simp add: set_flag_def ahead_update)
  then show ?thesis by (simp add: query_chunk_def ahead_update Let_def split: prod.split)
qed

lemma query_fold_ahead:
  "fold (query_chunk (server_ahead w srv)) is (conn_ahead w c, locals_ahead w l) =
   map_prod (conn_ahead w) (locals_ahead w) (fold (query_chunk srv) is (c, l))"
proof (induction "is" arbitrary: c l)
  case (Cons i "is")
  obtain c1 l1 where "query_chunk srv i (c, l) = (c1, l1)" by (cases "query_chunk srv i (c, l)")
  then show ?case using Cons.IH [of c1 l1] by (simp add: query_chunk_ahead)
qed simp

lemma query_fold_keeps:
  "fold (query_chunk srv) is (c, l) = (c', l') \<Longrightarrow> conn_adds c c' \<and> rw_totalChunkNum l' = rw_totalChunkNum l"
proof (induction "is" arbitrary: c l)
  case (Cons i "is")
  obtain c1 l1 where one: "query_chunk srv i (c, l) = (c1, l1)" by (cases "query_chunk srv i (c, l)")
  then have "conn_adds c c1" "rw_totalChunkNum l1 = rw_totalChunkNum l"
    by (auto simp: query_chunk_def set_flag_def Let_def intro!: conn_adds_same split: prod.splits if_splits)
  then show ?case using Cons one conn_adds_trans by fastforce
qed simp

lemma answer_query_ahead:
  assumes "answer_query srv (c, l) = Inr (c', l')"
  shows "answer_query (server_ahead w srv) (conn_ahead w c, locals_ahead w l) = Inr (conn_ahead w c', locals_ahead w l') \<and>
    conn_adds c c' \<and> rw_totalChunkNum l' = rw_totalChunkNum l"
proof -
  let ?h = "header (m_inMsgBuffer c)"
  let ?c = "\<lambda>c. c\<lparr>m_hashList := (m_hashList c)\<lparr>hl_num := unat (queryNum ?h)\<rparr>, m_outMsgBuffer := (m_outMsgBuffer c)
                  \<lparr>header := (header (m_outMsgBuffer c))\<lparr>queryNum := queryNum ?h\<rparr>\<rparr>\<rparr>"
  let ?d = "\<lambda>c. c\<lparr>m_hashList := (m_hashList c)\<lparr>hl_data := mem_write (hl_data (m_hashList c)) 0
      (mem_read (msg_data (m_inMsgBuffer c)) (unat (hdr_start ?h)) (HASHSIZE * unat (queryNum ?h)))\<rparr>\<rparr>"
  let ?q = "\<lambda>srv c l. if unat (queryNum ?h) \<noteq> 0 then
      bindR (guardR BufferOverflow (HASHSIZE * unat (queryNum ?h) \<le> HASHSIZE * BATCHSIZE)) (\<lambda>_.
      bindR (guardR BufferOverread (unat (hdr_start ?h) + HASHSIZE * unat (queryNum ?h) \<le> in_capacity)) (\<lambda>_.
      Inr (fold (query_chunk srv) [0..<unat (queryNum ?h)] (?d (?c c), l)))) else Inr (?c c, l)"
  let ?last = "\<lambda>(c, l). (c\<lparr>m_outMsgBuffer := (m_outMsgBuffer c)\<lparr>header := (header (m_outMsgBuffer c))
                    \<lparr>hdr_size := of_nat sizeof_DataMsg + queryNum (header (m_outMsgBuffer c))\<rparr>\<rparr>\<rparr>,
              l\<lparr>duplicated_chunk_num := duplicated_chunk_num l + length (m_duplicatedChunkAddr c)\<rparr>)"
  have unfold: "answer_query srv' (c0, l0) = bindR (?q srv' c0 l0) (\<lambda>s. Inr (?last s))" if "m_inMsgBuffer c0 = m_inMsgBuffer c"
    for c0 l0 and srv' :: "'a server"
    unfolding answer_query_def prod.case Let_def that by (simp add: that case_prod_beta')
  obtain c1 l1 where q: "?q srv c l = Inr (c1, l1)" and fin: "?last (c1, l1) = (c', l')"
    using assms unfolding unfold [OF refl] by (auto simp: bindR_eq_Inr_iff simp del: split_paired_Ex)
  have cd: "?c (conn_ahead w c) = conn_ahead w (?c c)" "?d (conn_ahead w (?c c)) = conn_ahead w (?d (?c c))" by (simp_all add: ahead_update)
  have "?q (server_ahead w srv) (conn_ahead w c) (locals_ahead w l) = Inr (conn_ahead w c1, locals_ahead w l1)"
    using q unfolding cd by (auto simp: query_fold_ahead bindR_eq_Inr_iff guardR_eq_Inr_iff split: if_splits)
  moreover have "?last (conn_ahead w c1, locals_ahead w l1) = (conn_ahead w c', locals_ahead w l')"
    using fin by (auto simp: ahead_update)
  ultimately have run: "answer_query (server_ahead w srv) (conn_ahead w c, locals_ahead w l) = Inr (conn_ahead w c', locals_ahead w l')"
    unfolding unfold [OF ahead_select(3)] by simp
  have "conn_adds c (?c c)" "conn_adds (?c c) (?d (?c c))" by (simp_all add: conn_adds_same)
  then have start: "conn_adds c (?c c)" "conn_adds c (?d (?c c))" using conn_adds_trans by blast+
  have "conn_adds c c1 \<and> rw_totalChunkNum l1 = rw_totalChunkNum l"
  proof (cases "unat (queryNum ?h) \<noteq> 0")
    case True
    then have "fold (query_chunk srv) [0..<unat (queryNum ?h)] (?d (?c c), l) = (c1, l1)"
      using q unfolding if_P [OF True] by (auto simp: bindR_eq_Inr_iff)
    from query_fold_keeps [OF this] show ?thesis using start(2) conn_adds_trans by blast
  next
    case False
    then have "c1 = ?c c" "l1 = l" using q by simp_all
    then show ?thesis using start(1) by simp
  qed
  moreover have "conn_adds c1 c' \<and> rw_totalChunkNum l' = rw_totalChunkNum l1" using fin by (auto simp: conn_adds_same)
  ultimately show ?thesis using run conn_adds_trans by auto
qed

lemma receive_chunks_ahead:
  assumes "receive_chunks ext (srv, c, l) = Inr (srv', c', l')" "taken_ok w c"
  shows "receive_chunks ext (server_ahead w srv, conn_ahead w c, locals_ahead w l) =
      Inr (server_ahead w srv', conn_ahead w c', locals_ahead w l') \<and> conn_adds c c' \<and> same_files srv srv' \<and>
    rw_totalChunkNum l' = rw_totalChunkNum l"
proof -
  obtain c1 l1 where s: "store_loop ext [0..<hl_num (m_hashList c)] (srv, c, l\<lparr>currentUniqueNum := 0\<rparr>) = Inr (srv', c1, l1)"
    and a: "answer_query srv' (c1, l1\<lparr>unique_chunk_num := unique_chunk_num l1 + currentUniqueNum l1\<rparr>) = Inr (c', l')"
    using assms(1) by (auto simp: receive_chunks_def bindR_eq_Inr_iff)
  show ?thesis
    using store_loop_ahead [OF s assms(2)] answer_query_ahead [OF a, of w] conn_adds_trans
    by (auto simp: receive_chunks_def ahead_update)
qed

lemma receive_fileend_ahead:
  assumes "receive_fileend c = Inr c'" "taken_ok w c"
  shows "receive_fileend (conn_ahead w c) = Inr (conn_ahead w c') \<and> conn_adds c c'"
proof -
  obtain c1 c2 where c1: "(if occupied (m_containerBuffer c) \<noteq> 0 then insert_container_queue c else Inr c) = Inr c1"
    and c2: "insert_recipe_queue c1 = Inr c2" and c': "c' = set_out_type FILEEND c2"
    using assms(1) by (auto simp: receive_fileend_def bindR_eq_Inr_iff)
  have one: "(if occupied (m_containerBuffer (conn_ahead w c)) \<noteq> 0 then insert_container_queue (conn_ahead w c) else Inr (conn_ahead w c)) =
      Inr (conn_ahead w c1) \<and> conn_adds c c1"
    using c1 insert_container_ahead [OF _ assms(2)] by (auto split: if_splits)
  then have "taken_ok w c1" using assms(2) conn_adds_taken by blast
  note two = insert_recipe_ahead [OF c2 this]
  have "set_out_type FILEEND (conn_ahead w c2) = conn_ahead w c'" "conn_adds c2 c'"
    by (simp_all add: c' set_out_type_def ahead_update conn_adds_same)
  then show ?thesis
    unfolding receive_fileend_def conjunct1 [OF one] using one two conn_adds_trans by (metis bindR_simps(2))
qed

lemma load_in_ahead: "load_in f (conn_ahead w c) = conn_ahead w (load_in f c)" "conn_adds c (load_in f c)"
  by (simp_all add: load_in_def ahead_update conn_adds_same)

lemma set_done_ahead:
  "(conn_ahead w c)\<lparr>m_containerQueue := set_done (m_containerQueue (conn_ahead w c)), m_recipeQueue := set_done (m_recipeQueue (conn_ahead w c))\<rparr> =
   conn_ahead w (c\<lparr>m_containerQueue := set_done (m_containerQueue c), m_recipeQueue := set_done (m_recipeQueue c)\<rparr>)"
  "conn_adds c (c\<lparr>m_containerQueue := set_done (m_containerQueue c), m_recipeQueue := set_done (m_recipeQueue c)\<rparr>)"
  by (simp_all add: conn_ahead_def skip_queue_def set_done_def conn_adds_def bq_inv_def)

text \<open>A message handled while the threads are ahead: the same answer, and the threads are ahead as much afterwards.\<close>

lemma receive_file_body_ahead:
  assumes run: "receive_file_body ext f (srv, c, l) = Inr ((srv', c', l'), out, go)" and ok: "taken_ok w c"
  shows "receive_file_body ext f (server_ahead w srv, conn_ahead w c, locals_ahead w l) =
      Inr ((server_ahead w srv', conn_ahead w c', locals_ahead w l'), out, go) \<and> conn_adds c c' \<and> same_files srv srv' \<and>
    rw_totalChunkNum l' = rw_totalChunkNum l"
proof -
  let ?handle = "\<lambda>srv c l. if dataMsgType (header (m_inMsgBuffer (load_in f c))) = dataMsgType_val FILEEND
      then bindR (receive_fileend (load_in f c)) (\<lambda>c. Inr (srv, c, l)) else receive_chunks ext (srv, load_in f c, l)"
  let ?answer = "\<lambda>srv c l. if dataMsgType (header (m_outMsgBuffer c)) = dataMsgType_val UPLOADBODYREP
      then Inr ((srv, c, l), (if queryNum (header (m_outMsgBuffer c)) \<noteq> 0 then [msg_bytes (m_outMsgBuffer c) (unat (hdr_size (header (m_outMsgBuffer c))))] else []), True)
      else if dataMsgType (header (m_outMsgBuffer c)) = dataMsgType_val FILEEND
      then Inr ((srv, c\<lparr>m_containerQueue := set_done (m_containerQueue c), m_recipeQueue := set_done (m_recipeQueue c)\<rparr>, l), [], False)
      else Inr ((srv, c, l), [], True)"
  have unfold: "receive_file_body ext f (srv, c, l) =
      bindR (guardR BufferOverflow (length f \<le> sizeof_DataMsg + in_capacity)) (\<lambda>_. bindR (?handle srv c l) (\<lambda>(srv, c, l). ?answer srv c l))" for srv c l
    by (simp only: receive_file_body_def prod.case Let_def load_in_def [symmetric])
  from run [unfolded unfold] obtain u where "guardR BufferOverflow (length f \<le> sizeof_DataMsg + in_capacity) = Inr u"
    and rest: "bindR (?handle srv c l) (\<lambda>(srv, c, l). ?answer srv c l) = Inr ((srv', c', l'), out, go)"
    by (rule bindR_InrE)
  then have len: "length f \<le> sizeof_DataMsg + in_capacity" by (simp add: guardR_eq_Inr_iff)
  from rest obtain x where hx: "?handle srv c l = Inr x" and ax: "(\<lambda>(srv, c, l). ?answer srv c l) x = (Inr ((srv', c', l'), out, go) :: crash + _)"
    by (rule bindR_InrE)
  obtain srv1 c1 l1 where x: "x = (srv1, c1, l1)" by (cases x)
  have h: "?handle srv c l = Inr (srv1, c1, l1)" and a: "?answer srv1 c1 l1 = (Inr ((srv', c', l'), out, go) :: crash + _)"
    using hx ax unfolding x prod.case .
  have loaded: "taken_ok w (load_in f c)" using ok conn_adds_taken load_in_ahead(2) by blast
  have one: "?handle (server_ahead w srv) (conn_ahead w c) (locals_ahead w l) = Inr (server_ahead w srv1, conn_ahead w c1, locals_ahead w l1) \<and>
      conn_adds (load_in f c) c1 \<and> same_files srv srv1 \<and> rw_totalChunkNum l1 = rw_totalChunkNum l"
  proof (cases "dataMsgType (header (m_inMsgBuffer (load_in f c))) = dataMsgType_val FILEEND")
    case True
    then have "receive_fileend (load_in f c) = Inr c1" "srv1 = srv" "l1 = l" using h by (auto simp: bindR_eq_Inr_iff)
    then show ?thesis using receive_fileend_ahead [OF _ loaded] True unfolding load_in_ahead(1) by simp
  next
    case False
    then have "receive_chunks ext (srv, load_in f c, l) = Inr (srv1, c1, l1)" using h by simp
    from receive_chunks_ahead [OF this loaded] show ?thesis using False unfolding load_in_ahead(1) by simp
  qed
  have two: "?answer (server_ahead w srv1) (conn_ahead w c1) (locals_ahead w l1) =
      (Inr ((server_ahead w srv', conn_ahead w c', locals_ahead w l'), out, go) :: crash + _) \<and> conn_adds c1 c' \<and> srv' = srv1 \<and> l' = l1"
    using a set_done_ahead(1) [of w c1] set_done_ahead(2) [of c1] by (auto split: if_splits)
  have "receive_file_body ext f (server_ahead w srv, conn_ahead w c, locals_ahead w l) =
      Inr ((server_ahead w srv', conn_ahead w c', locals_ahead w l'), out, go)"
    unfolding unfold conjunct1 [OF one] using len two by simp
  moreover have "conn_adds c c'" using load_in_ahead(2) one two conn_adds_trans by blast
  ultimately show ?thesis using one two by simp
qed

section \<open>The writer threads\<close>

text \<open>One round of the loops of \<open>write_container\<close> and \<open>write_recipe\<close>; \<open>None\<close> while \<open>pop\<close> waits or when the thread has ended.\<close>

definition container_writer :: "'db server \<times> conn \<times> upload_locals \<Rightarrow> ('db server \<times> conn \<times> upload_locals) option" where
  "container_writer = (\<lambda>(srv, c, l).
     (case pop (m_containerQueue c) of
        Popped b q \<Rightarrow> Some (save_container b srv, c\<lparr>m_containerQueue := q\<rparr>, l)
      | _ \<Rightarrow> None))"

definition recipe_writer :: "'db server \<times> conn \<times> upload_locals \<Rightarrow> ('db server \<times> conn \<times> upload_locals) option" where
  "recipe_writer = (\<lambda>(srv, c, l).
     (case pop (m_recipeQueue c) of
        Popped r q \<Rightarrow>
          (let (srv, totalChunkNum) = write_recipe_block (m_recipeNameHash c) r (srv, rw_totalChunkNum l)
           in Some (srv, c\<lparr>m_recipeQueue := q\<rparr>, l\<lparr>rw_totalChunkNum := totalChunkNum\<rparr>))
      | _ \<Rightarrow> None))"

text \<open>\<open>run_writers\<close> as the state of the files after all queued elements.\<close>

definition files_written :: "conn \<Rightarrow> 'db server \<times> u32 \<Rightarrow> 'db server \<times> u32" where
  "files_written c = (\<lambda>(srv, t). fold (write_recipe_block (m_recipeNameHash c)) (m_queue (m_recipeQueue c))
     (fold save_container (m_queue (m_containerQueue c)) srv, t))"

definition drained_conn :: "conn \<Rightarrow> conn" where
  "drained_conn c = c\<lparr>m_containerQueue := (m_containerQueue c)\<lparr>m_queue := [], m_isEmpty := True\<rparr>,
     m_recipeQueue := (m_recipeQueue c)\<lparr>m_queue := [], m_isEmpty := True\<rparr>\<rparr>"

lemma consume_all:
  assumes "bq_inv q"
  shows "consume handle q s = (q\<lparr>m_queue := [], m_isEmpty := True\<rparr>, fold handle (m_queue q) s)"
proof -
  have "m_queue (fst (consume handle q s)) = []" "m_isEmpty (fst (consume handle q s))" "m_done (fst (consume handle q s)) = m_done q"
    "m_size (fst (consume handle q s)) = m_size q"
    using consume_fold [of handle q s] assms by (simp_all add: bq_inv_def)
  then have "fst (consume handle q s) = q\<lparr>m_queue := [], m_isEmpty := True\<rparr>" by (cases q; cases "fst (consume handle q s)") simp
  then show ?thesis using consume_fold [of handle q s] by (cases "consume handle q s") simp
qed

lemma run_writers_files:
  assumes "bq_inv (m_containerQueue c)" "bq_inv (m_recipeQueue c)"
  shows "run_writers (srv, c, l) = (fst (files_written c (srv, rw_totalChunkNum l)), drained_conn c,
    l\<lparr>rw_totalChunkNum := snd (files_written c (srv, rw_totalChunkNum l))\<rparr>)"
  by (simp add: run_writers_def write_container_def write_recipe_def consume_all [OF assms(1)] consume_all [OF assms(2)]
      files_written_def drained_conn_def split_beta Let_def)

text \<open>The recipe file alone, and the files after both threads have emptied their queues.\<close>

definition recipe_after :: "string \<Rightarrow> RecipeEntryContainer_t list \<Rightarrow> (string \<rightharpoonup> byte list) \<times> u32 \<Rightarrow> (string \<rightharpoonup> byte list) \<times> u32" where
  "recipe_after name rs = fold (\<lambda>r (dir, t).
     (dir(name \<mapsto> (case dir name of None \<Rightarrow> [] | Some bs \<Rightarrow> bs) @ recipe_block_bytes r), t + of_nat (rec_num r))) rs"

lemma recipe_after_append: "recipe_after name (rs @ rs') s = recipe_after name rs' (recipe_after name rs s)"
  by (simp add: recipe_after_def)

lemma fold_write_recipe_after:
  "fold (write_recipe_block name) rs (srv, t) =
   (srv\<lparr>recipes_dir := fst (recipe_after name rs (recipes_dir srv, t))\<rparr>, snd (recipe_after name rs (recipes_dir srv, t)))"
proof (induction rs arbitrary: srv t)
  case (Cons r rs)
  show ?case unfolding fold_simps write_recipe_block_def prod.case
    by (subst Cons.IH [unfolded write_recipe_block_def]) (simp add: recipe_after_def)
qed (simp add: recipe_after_def)

lemma files_written_eq:
  "files_written c (srv, t) =
   (srv\<lparr>containers_dir := queue_store (m_queue (m_containerQueue c)) (containers_dir srv),
        recipes_dir := fst (recipe_after (m_recipeNameHash c) (m_queue (m_recipeQueue c)) (recipes_dir srv, t))\<rparr>,
    snd (recipe_after (m_recipeNameHash c) (m_queue (m_recipeQueue c)) (recipes_dir srv, t)))"
  by (simp add: files_written_def fold_save_container fold_write_recipe_after)

definition all_written :: "'db server \<times> conn \<times> upload_locals \<Rightarrow> written" where
  "all_written = (\<lambda>(srv, c, l).
     (let (srv', t) = files_written c (srv, rw_totalChunkNum l)
      in \<lparr>taken_containers = length (m_queue (m_containerQueue c)), taken_recipes = length (m_queue (m_recipeQueue c)),
          written_containers = containers_dir srv', written_recipes = recipes_dir srv', written_total = t\<rparr>))"

definition queues_ok :: "conn \<Rightarrow> bool" where
  "queues_ok c \<longleftrightarrow> bq_inv (m_containerQueue c) \<and> bq_inv (m_recipeQueue c)"

lemma run_writers_ahead:
  assumes "queues_ok c"
  shows "run_writers (srv, c, l) = (server_ahead (all_written (srv, c, l)) srv, conn_ahead (all_written (srv, c, l)) c,
    locals_ahead (all_written (srv, c, l)) l)"
  using assms
  by (simp add: queues_ok_def run_writers_files files_written_eq all_written_def server_ahead_def conn_ahead_def locals_ahead_def
      drained_conn_def skip_queue_def)

text \<open>A message after the threads have caught up leads to the same state once they have caught up again.\<close>

lemma body_then_writers:
  assumes run: "receive_file_body ext f (srv, c, l) = Inr ((srv', c', l'), out, go)" and ok: "queues_ok c"
  shows "\<exists>s2. receive_file_body ext f (run_writers (srv, c, l)) = Inr (s2, out, go) \<and> run_writers s2 = run_writers (srv', c', l') \<and> queues_ok c'"
proof -
  let ?w = "all_written (srv, c, l)"
  have "taken_ok ?w c" using ok by (simp add: taken_ok_def queues_ok_def all_written_def split_beta Let_def)
  note a = receive_file_body_ahead [OF run this]
  obtain bs rs where add: "m_queue (m_containerQueue c') = m_queue (m_containerQueue c) @ bs"
    "m_queue (m_recipeQueue c') = m_queue (m_recipeQueue c) @ rs" "m_recipeNameHash c' = m_recipeNameHash c"
    using a by (auto simp: conn_adds_def)
  have ok': "queues_ok c'" using a ok by (auto simp: conn_adds_def queues_ok_def)
  have ahead_ok: "queues_ok (conn_ahead ?w c')" using ok' by (auto simp: queues_ok_def skip_queue_def bq_inv_def)
  have "run_writers (server_ahead ?w srv', conn_ahead ?w c', locals_ahead ?w l') = run_writers (srv', c', l')"
    using a ok' ahead_ok add
    by (simp add: queues_ok_def run_writers_files files_written_eq all_written_def server_ahead_def locals_ahead_def drained_conn_def
        skip_queue_def conn_ahead_def queue_store_def recipe_after_append same_files_def)
  then show ?thesis using a ok' by (simp add: run_writers_ahead [OF ok])
qed

text \<open>A step of a thread does not change where the threads get.\<close>

lemma container_writer_steps:
  assumes "container_writer (srv, c, l) = Some (srv', c', l')" "queues_ok c"
  shows "run_writers (srv', c', l') = run_writers (srv, c, l) \<and> queues_ok c'"
proof -
  obtain b q where pop: "pop (m_containerQueue c) = Popped b q"
    and s: "srv' = save_container b srv" "c' = c\<lparr>m_containerQueue := q\<rparr>" "l' = l"
    using assms(1) by (auto simp: container_writer_def split: pop_result.splits)
  have q: "m_queue (m_containerQueue c) = b # m_queue q" "bq_inv q" "m_size q = m_size (m_containerQueue c)" "m_done q = m_done (m_containerQueue c)"
    using pop_Popped [OF pop] assms(2) by (simp_all add: queues_ok_def)
  have "q\<lparr>m_queue := [], m_isEmpty := True\<rparr> = (m_containerQueue c)\<lparr>m_queue := [], m_isEmpty := True\<rparr>"
    using q by (cases q; cases "m_containerQueue c") simp
  then show ?thesis
    using assms(2) q by (simp add: queues_ok_def run_writers_files files_written_eq s drained_conn_def save_container_def queue_store_def)
qed

lemma recipe_writer_steps:
  assumes "recipe_writer (srv, c, l) = Some (srv', c', l')" "queues_ok c"
  shows "run_writers (srv', c', l') = run_writers (srv, c, l) \<and> queues_ok c'"
proof -
  obtain r q where pop: "pop (m_recipeQueue c) = Popped r q"
    and s: "(srv', rw_totalChunkNum l') = write_recipe_block (m_recipeNameHash c) r (srv, rw_totalChunkNum l)" "c' = c\<lparr>m_recipeQueue := q\<rparr>"
      "l' = l\<lparr>rw_totalChunkNum := rw_totalChunkNum l'\<rparr>"
    using assms(1) by (auto simp: recipe_writer_def Let_def split: pop_result.splits prod.splits)
  have q: "m_queue (m_recipeQueue c) = r # m_queue q" "bq_inv q" "m_size q = m_size (m_recipeQueue c)" "m_done q = m_done (m_recipeQueue c)"
    using pop_Popped [OF pop] assms(2) by (simp_all add: queues_ok_def)
  have "q\<lparr>m_queue := [], m_isEmpty := True\<rparr> = (m_recipeQueue c)\<lparr>m_queue := [], m_isEmpty := True\<rparr>"
    using q by (cases q; cases "m_recipeQueue c") simp
  moreover have "files_written c' (srv', rw_totalChunkNum l') = files_written c (srv, rw_totalChunkNum l)"
    using s by (simp add: files_written_eq q recipe_after_def write_recipe_block_def)
  ultimately show ?thesis
    using assms(2) q s(2) by (simp add: queues_ok_def run_writers_files drained_conn_def) (subst s(3), simp)
qed

section \<open>Schedules\<close>

datatype upload_event = Message "byte list" | SaveContainer | WriteRecipe

definition writer_step :: "('s \<Rightarrow> 's option) \<Rightarrow> 's \<Rightarrow> 's" where
  "writer_step thread s = (case thread s of None \<Rightarrow> s | Some s' \<Rightarrow> s')"

text \<open>
  The loop of \<open>receive_file\<close> beside the two threads. After the end of the file the handler waits in \<open>join\<close> and takes no message.
\<close>

fun upload_run ::
    "'db ext \<Rightarrow> upload_event list \<Rightarrow> bool \<Rightarrow> 'db server \<times> conn \<times> upload_locals \<Rightarrow>
     crash + ('db server \<times> conn \<times> upload_locals) \<times> byte list list \<times> bool" where
  "upload_run ext [] go s = Inr (s, [], go)"
| "upload_run ext (Message f # evs) go s =
     (if go
      then bindR (receive_file_body ext f s) (\<lambda>(s, out, go).
           bindR (upload_run ext evs go s) (\<lambda>(s, outs, go). Inr (s, out @ outs, go)))
      else Inl Waits)"
| "upload_run ext (SaveContainer # evs) go s = upload_run ext evs go (writer_step container_writer s)"
| "upload_run ext (WriteRecipe # evs) go s = upload_run ext evs go (writer_step recipe_writer s)"

fun messages :: "upload_event list \<Rightarrow> byte list list" where
  "messages [] = []"
| "messages (Message f # evs) = f # messages evs"
| "messages (_ # evs) = messages evs"

fun conn_messages ::
    "'db ext \<Rightarrow> byte list list \<Rightarrow> 'db server \<times> conn \<times> mode \<Rightarrow> crash + ('db server \<times> conn \<times> mode) \<times> byte list list" where
  "conn_messages ext [] s = Inr (s, [])"
| "conn_messages ext (f # fs) s =
     bindR (conn_receive ext f s) (\<lambda>(s, out). bindR (conn_messages ext fs s) (\<lambda>(s, outs). Inr (s, out @ outs)))"

lemma writer_step_writers:
  assumes "queues_ok (fst (snd s))"
  shows "run_writers (writer_step container_writer s) = run_writers s \<and> queues_ok (fst (snd (writer_step container_writer s)))"
    and "run_writers (writer_step recipe_writer s) = run_writers s \<and> queues_ok (fst (snd (writer_step recipe_writer s)))"
proof -
  obtain srv c l where s: "s = (srv, c, l)" by (cases s)
  have ok: "queues_ok c" using assms by (simp add: s)
  show "run_writers (writer_step container_writer s) = run_writers s \<and> queues_ok (fst (snd (writer_step container_writer s)))"
  proof (cases "container_writer s")
    case (Some s')
    obtain srv' c' l' where s': "s' = (srv', c', l')" by (cases s')
    have "run_writers (srv', c', l') = run_writers (srv, c, l) \<and> queues_ok c'"
      by (rule container_writer_steps [OF _ ok]) (use Some in \<open>simp add: s s'\<close>)
    then show ?thesis by (simp add: writer_step_def Some [unfolded s] s s')
  qed (simp add: writer_step_def assms)
  show "run_writers (writer_step recipe_writer s) = run_writers s \<and> queues_ok (fst (snd (writer_step recipe_writer s)))"
  proof (cases "recipe_writer s")
    case (Some s')
    obtain srv' c' l' where s': "s' = (srv', c', l')" by (cases s')
    have "run_writers (srv', c', l') = run_writers (srv, c, l) \<and> queues_ok c'"
      by (rule recipe_writer_steps [OF _ ok]) (use Some in \<open>simp add: s s'\<close>)
    then show ?thesis by (simp add: writer_step_def Some [unfolded s] s s')
  qed (simp add: writer_step_def assms)
qed

lemma receive_file_end_writers: "run_writers s = run_writers s' \<Longrightarrow> receive_file_end ext s = receive_file_end ext s'"
  by (simp add: receive_file_end_def)

text \<open>After the end of the file only the threads step.\<close>

lemma upload_run_joined:
  assumes "upload_run ext evs False s = Inr (s1, outs, go)" "queues_ok (fst (snd s))"
  shows "messages evs = [] \<and> outs = [] \<and> run_writers s1 = run_writers s"
  using assms
proof (induction evs arbitrary: s)
  case (Cons ev evs)
  then show ?case using writer_step_writers [OF Cons.prems(2)] by (cases ev) auto
qed simp

lemma upload_run_messages:
  assumes "upload_run ext evs True s = Inr (s1, outs, False)" "queues_ok (fst (snd s))"
  shows "conn_messages ext (messages evs) (case run_writers s of (srv, c, l) \<Rightarrow> (srv, c, Receiving l)) =
    bindR (receive_file_end ext s1) (\<lambda>(srv, c). Inr ((srv, c, AwaitOrder), outs))"
  using assms
proof (induction evs arbitrary: s outs)
  case (Cons ev evs)
  show ?case
  proof (cases ev)
    case (Message f)
    obtain srv c l where s: "s = (srv, c, l)" by (cases s)
    obtain srv' c' l' out go outs' where body: "receive_file_body ext f (srv, c, l) = Inr ((srv', c', l'), out, go)"
      and rest: "upload_run ext evs go (srv', c', l') = Inr (s1, outs', False)" and outs: "outs = out @ outs'"
      using Cons.prems(1) by (auto simp: Message s bindR_eq_Inr_iff)
    obtain s2 where s2: "receive_file_body ext f (run_writers (srv, c, l)) = Inr (s2, out, go)"
      "run_writers s2 = run_writers (srv', c', l')" "queues_ok c'"
      using body_then_writers [OF body] Cons.prems(2) by (auto simp: s)
    obtain srvr cr lr where r: "run_writers (srv, c, l) = (srvr, cr, lr)" by (cases "run_writers (srv, c, l)")
    have step: "conn_receive ext f (srvr, cr, Receiving lr) =
        (if go then Inr (case run_writers s2 of (srv, c, l) \<Rightarrow> (srv, c, Receiving l), out)
         else bindR (receive_file_end ext s2) (\<lambda>(srv, c). Inr ((srv, c, AwaitOrder), out)))"
      using s2(1) unfolding r by (simp add: conn_receive_def split: prod.split)
    show ?thesis
    proof (cases go)
      case True
      then have "conn_messages ext (messages evs) (case run_writers (srv', c', l') of (srv, c, l) \<Rightarrow> (srv, c, Receiving l)) =
          bindR (receive_file_end ext s1) (\<lambda>(srv, c). Inr ((srv, c, AwaitOrder), outs'))"
        by (intro Cons.IH) (use rest s2(3) in simp_all)
      then show ?thesis
        by (simp only: s r Message messages.simps conn_messages.simps prod.case step True if_True bindR_simps s2(2))
          (simp add: bindR_assoc case_prod_beta' outs)
    next
      case False
      have "upload_run ext evs False (srv', c', l') = Inr (s1, outs', False)" using rest False by simp
      note j = upload_run_joined [OF this]
      have joined: "messages evs = []" "outs' = []" "run_writers s1 = run_writers (srv', c', l')"
        using j s2(3) by simp_all
      have e: "receive_file_end ext s2 = receive_file_end ext s1"
        by (rule receive_file_end_writers) (use s2(2) joined(3) in simp)
      show ?thesis
        by (simp only: s r Message messages.simps conn_messages.simps prod.case step False if_False e joined(1,2))
          (simp add: bindR_assoc case_prod_beta' outs joined(2))
    qed
  next
    case SaveContainer
    then show ?thesis
      using Cons.IH [of "writer_step container_writer s" outs] Cons.prems(1) writer_step_writers(1) [OF Cons.prems(2)] by simp
  next
    case WriteRecipe
    then show ?thesis
      using Cons.IH [of "writer_step recipe_writer s" outs] Cons.prems(1) writer_step_writers(2) [OF Cons.prems(2)] by simp
  qed
qed simp

text \<open>
  C6: the schedule of the writer threads does not matter. If an upload starts with empty queues and both threads step whenever they
  like, between the messages and after the last one, then the answers, and after the joins the files, the index and the
  connection, are those of \<open>conn_receive\<close>, which lets both threads empty their queues after every message.
\<close>

theorem writers_schedule_irrelevant:
  assumes "upload_run ext evs True (srv, c, l) = Inr (s1, outs, False)" and "queues_idle c" and "queues_ok c"
  shows "conn_messages ext (messages evs) (srv, c, Receiving l) =
    bindR (receive_file_end ext s1) (\<lambda>(srv', c'). Inr ((srv', c', AwaitOrder), outs))"
proof -
  have "run_writers (srv, c, l) = (srv, c, l)"
    using assms(2,3)
    by (simp add: queues_ok_def run_writers_files files_written_eq queue_store_def recipe_after_def drained_conn_def queues_idle_def bq_inv_def)
  then show ?thesis using upload_run_messages [OF assms(1)] assms(3) by simp
qed

theorem writers_schedule_irrelevant_witness:
  "\<exists>f s1 outs. upload_run demo_ext [Message f, SaveContainer, WriteRecipe, SaveContainer] True
       (demo_server, filled_conn, upload_start \<lparr>ca_containerID = [], ca_offset = 0, ca_size = 0\<rparr>) = Inr (s1, outs, False) \<and>
     conn_receive demo_ext f (demo_server, filled_conn, Receiving (upload_start \<lparr>ca_containerID = [], ca_offset = 0, ca_size = 0\<rparr>)) =
       bindR (receive_file_end demo_ext s1) (\<lambda>(srv', c'). Inr ((srv', c', AwaitOrder), outs))"
proof -
  let ?l = "upload_start \<lparr>ca_containerID = [], ca_offset = 0, ca_size = 0\<rparr>"
  have "\<exists>m :: DataMsg_t. dataMsgType (header m) = dataMsgType_val FILEEND"
    by (intro exI [of _ "\<lparr>header = (dec_header [])\<lparr>dataMsgType := dataMsgType_val FILEEND\<rparr>, msg_data = (\<lambda>_. 0)\<rparr>"]) simp
  then obtain f where "end_frame f" unfolding end_frame_def by blast
  moreover have "filled_conn\<lparr>m_duplicatedChunkAddr := m_duplicatedChunkAddr filled_conn\<rparr> = filled_conn" by simp
  ultimately obtain srv' c' out where "conn_receive demo_ext f (demo_server, filled_conn, Receiving ?l) = Inr ((srv', c', AwaitOrder), out)"
    using filled_conn_ends by metis
  then obtain s out1 where body: "receive_file_body demo_ext f (demo_server, filled_conn, ?l) = Inr (s, out1, False)"
    by (auto simp: conn_receive_def bindR_eq_Inr_iff Let_def split: if_splits prod.splits)
  define s1 where "s1 = writer_step container_writer (writer_step recipe_writer (writer_step container_writer s))"
  have run: "upload_run demo_ext [Message f, SaveContainer, WriteRecipe, SaveContainer] True (demo_server, filled_conn, ?l) = Inr (s1, out1, False)"
    by (simp add: body s1_def)
  have "queues_idle filled_conn" "queues_ok filled_conn"
    by (simp_all add: filled_conn_def set_out_type_def uninit_conn_def queues_idle_def queues_ok_def BlockQueue_new_def bq_inv_def Let_def)
  from writers_schedule_irrelevant [OF run this]
  have "conn_receive demo_ext f (demo_server, filled_conn, Receiving ?l) =
      bindR (receive_file_end demo_ext s1) (\<lambda>(srv', c'). Inr ((srv', c', AwaitOrder), out1))"
    by (simp add: case_prod_beta' bindR_Inr_right)
  with run show ?thesis by blast
qed

end
