(* ===== verification/Shared_Store.thy ===== *)
theory Shared_Store
  imports ClientConn_Containers Dedup_System
begin

text \<open>
  Several connections on one server. The store they share is one map \<open>S\<close> from container names to contents: the files on
  disk and the containers being filled (\<open>covers\<close>). Seen from any of the connections it is the store of theory
  \<open>ClientConn_Upload\<close>, so the invariants of a single upload can be stated over it. \<open>covers_step\<close> is what the step of one
  connection does to the shared store, and the lemmas on other connections are the non-interference: a step that
  only adds to the store, the index and its own recipe keeps what the others rely on.
\<close>

section \<open>The shared store\<close>

abbreviation "buffer_id c \<equiv> containerID (m_containerBuffer c)"

definition covers :: "'db ext \<Rightarrow> 'db server \<Rightarrow> (nat \<rightharpoonup> conn \<times> mode) \<Rightarrow> cstore \<Rightarrow> bool" where
  "covers ext srv conns S \<longleftrightarrow>
     containers_dir srv \<subseteq>\<^sub>m S \<and> dom S \<subseteq> x_uuid ext ` {..<uuid_count srv} \<and>
     (\<forall>p c m. conns p = Some (c, m) \<longrightarrow>
        drained c \<and> unsaved ext (srv, c) \<and> S (buffer_id c) = Some (container_bytes (m_containerBuffer c))) \<and>
     (\<forall>p q c m d n. conns p = Some (c, m) \<longrightarrow> conns q = Some (d, n) \<longrightarrow> p \<noteq> q \<longrightarrow> buffer_id c \<noteq> buffer_id d) \<and>
     (\<forall>k bs. S k = Some bs \<longrightarrow> bs \<noteq> [] \<longrightarrow>
        containers_dir srv k = Some bs \<or> (\<exists>p c m. conns p = Some (c, m) \<and> buffer_id c = k))"

lemma coversI:
  assumes "containers_dir srv \<subseteq>\<^sub>m S" "dom S \<subseteq> x_uuid ext ` {..<uuid_count srv}"
    and "\<And>p c m. conns p = Some (c, m) \<Longrightarrow>
      drained c \<and> unsaved ext (srv, c) \<and> S (buffer_id c) = Some (container_bytes (m_containerBuffer c))"
    and "\<And>p c m q d n. conns p = Some (c, m) \<Longrightarrow> conns q = Some (d, n) \<Longrightarrow> p \<noteq> q \<Longrightarrow> buffer_id c \<noteq> buffer_id d"
    and "\<And>k bs. S k = Some bs \<Longrightarrow> bs \<noteq> [] \<Longrightarrow> containers_dir srv k = Some bs \<or> (\<exists>p c m. conns p = Some (c, m) \<and> buffer_id c = k)"
  shows "covers ext srv conns S"
  unfolding covers_def using assms by (intro conjI allI impI) simp_all

lemma coversD:
  assumes "covers ext srv conns S"
  shows "containers_dir srv \<subseteq>\<^sub>m S" "dom S \<subseteq> x_uuid ext ` {..<uuid_count srv}"
    and "conns p = Some (c, m) \<Longrightarrow>
      drained c \<and> unsaved ext (srv, c) \<and> S (buffer_id c) = Some (container_bytes (m_containerBuffer c))"
    and "conns p = Some (c, m) \<Longrightarrow> conns q = Some (d, n) \<Longrightarrow> p \<noteq> q \<Longrightarrow> buffer_id c \<noteq> buffer_id d"
    and "S k = Some bs \<Longrightarrow> bs \<noteq> [] \<Longrightarrow> containers_dir srv k = Some bs \<or> (\<exists>p c m. conns p = Some (c, m) \<and> buffer_id c = k)"
  using assms unfolding covers_def by blast+

lemma gstore_drained: "drained c \<Longrightarrow> gstore S srv c = (S ++ containers_dir srv)(buffer_id c \<mapsto> container_bytes (m_containerBuffer c))"
  by (simp add: gstore_def drained_def)

lemma map_add_le: "m \<subseteq>\<^sub>m S \<Longrightarrow> S ++ m = S"
  by (auto simp: map_le_def map_add_def fun_eq_iff dom_def split: option.splits)

text \<open>From each connection the store looks the same.\<close>

lemma covers_gstore: "covers ext srv conns S \<Longrightarrow> conns p = Some (c, m) \<Longrightarrow> gstore S srv c = S"
  using coversD(1,3) [of ext srv conns S] by (simp add: gstore_drained map_add_le fun_upd_idem)

text \<open>A step of one connection.\<close>

lemma used_not_drawn:
  assumes env: "env_ok ext N C" and uuid: "uuid_count srv' \<le> N" and k: "k \<in> x_uuid ext ` {..<uuid_count srv}"
  shows "k \<notin> drawn ext srv srv'"
proof
  assume "k \<in> drawn ext srv srv'"
  then obtain i j where "i < uuid_count srv" "uuid_count srv \<le> j" "j < uuid_count srv'" "x_uuid ext i = x_uuid ext j"
    using k by (auto simp: drawn_def)
  moreover have "inj_on (x_uuid ext) {..<N}" using env by (simp add: env_ok_def)
  ultimately show False using uuid inj_onD [of "x_uuid ext" "{..<N}" i j] by simp
qed

lemma covers_step:
  assumes env: "env_ok ext N C" and cov: "covers ext srv conns S" and p: "conns p = Some (c, m)"
    and rel: "container_rel ext N (srv, c) (srv', c')" and dr: "drained c'" and uuid: "uuid_count srv' \<le> N"
    and S': "S' = gstore S srv' c'" and dom: "dom S' \<subseteq> x_uuid ext ` {..<uuid_count srv'}"
  shows "covers ext srv' (conns(p \<mapsto> (c', m'))) S'"
proof -
  have c: "drained c" "unsaved ext (srv, c)" "S (buffer_id c) = Some (container_bytes (m_containerBuffer c))"
    using coversD(3) [OF cov p] by simp_all
  have rel': "writes_own ext (srv, c) (srv', c')" "keeps_filled (srv, c) (srv', c')" "unsaved ext (srv', c')"
    using rel c(2) uuid by (simp_all add: container_rel_def)
  have own: "own c = {buffer_id c}" using c(1) by (simp add: own_def drained_def)
  have mono: "uuid_count srv \<le> uuid_count srv'" using rel'(1) by (simp add: writes_own_def)
  note old_new = used_not_drawn [OF env uuid]
  have id': "buffer_id c' = buffer_id c \<or> buffer_id c' \<in> drawn ext srv srv'"
    using rel'(1) own by (auto simp: writes_own_def own_def)
  have same: "containers_dir srv' k = containers_dir srv k" if "k \<in> x_uuid ext ` {..<uuid_count srv}" "k \<noteq> buffer_id c" for k
    using rel'(1) own old_new [OF that(1)] that(2) by (simp add: writes_own_def)
  have S'k: "S' k = (if k = buffer_id c' then Some (container_bytes (m_containerBuffer c')) else (S ++ containers_dir srv') k)" for k
    using dr by (simp add: S' gstore_drained)
  have new_unsaved: "containers_dir srv' (buffer_id c') = None" "dom (containers_dir srv') \<subseteq> x_uuid ext ` {..<uuid_count srv'}"
    using rel'(3) by (auto simp: unsaved_def saved_def)
  have other: "buffer_id d \<noteq> buffer_id c' \<and> containers_dir srv' (buffer_id d) = None \<and> S' (buffer_id d) = S (buffer_id d)"
    if q: "conns q = Some (d, n)" "q \<noteq> p" for q d n
  proof -
    have d: "drained d" "buffer_id d \<notin> saved (srv, d)" "buffer_id d \<in> x_uuid ext ` {..<uuid_count srv}" "buffer_id d \<noteq> buffer_id c"
      using coversD(3) [OF cov q(1)] coversD(4) [OF cov q(1) p q(2)] by (simp_all add: unsaved_def)
    then show ?thesis
      using same [OF d(3,4)] id' old_new [OF d(3)] by (auto simp: saved_def S'k map_add_def split: option.splits)
  qed
  have "containers_dir srv' k = Some bs \<or> (\<exists>q d n. (conns(p \<mapsto> (c', m'))) q = Some (d, n) \<and> buffer_id d = k)"
    if k: "S' k = Some bs" "bs \<noteq> []" for k bs
  proof (cases "k = buffer_id c' \<or> containers_dir srv' k \<noteq> None")
    case True
    then show ?thesis using k(1) by (auto simp: S'k map_add_def split: option.splits if_splits)
  next
    case False
    then have Sk: "S k = Some bs" using k(1) by (auto simp: S'k map_add_def split: option.splits if_splits)
    then have in_S: "k \<in> x_uuid ext ` {..<uuid_count srv}" using coversD(2) [OF cov] by auto
    have "k \<noteq> buffer_id c"
    proof
      assume kc: "k = buffer_id c"
      then have "container_bytes (m_containerBuffer c) \<noteq> []" using c(3) Sk k(2) by auto
      then have "occupied (m_containerBuffer c) \<noteq> 0" using mem_read_0 container_bytes_def by metis
      then show False using rel'(2) False kc dr by (auto simp: keeps_filled_def saved_def drained_def)
    qed
    then have "containers_dir srv k = None" using same [OF in_S] False by simp
    then obtain q d n where "conns q = Some (d, n)" "buffer_id d = k" using coversD(5) [OF cov Sk k(2)] by auto
    then show ?thesis using \<open>k \<noteq> buffer_id c\<close> p by (intro disjI2 exI [of _ q] exI [of _ d] exI [of _ n]) auto
  qed
  moreover have "containers_dir srv' \<subseteq>\<^sub>m S'" using new_unsaved(1) by (auto simp: map_le_def S'k)
  moreover have "drained d \<and> unsaved ext (srv', d) \<and> S' (buffer_id d) = Some (container_bytes (m_containerBuffer d))"
    if "(conns(p \<mapsto> (c', m'))) q = Some (d, n)" for q d n
  proof (cases "q = p")
    case True
    then show ?thesis using that dr rel'(3) by (simp add: S'k)
  next
    case False
    then have q: "conns q = Some (d, n)" using that by simp
    have "buffer_id d \<in> x_uuid ext ` {..<uuid_count srv'}"
      using coversD(3) [OF cov q] mono by (fastforce simp: unsaved_def)
    then show ?thesis using other [OF q False] coversD(3) [OF cov q] new_unsaved(2) by (auto simp: unsaved_def saved_def drained_def)
  qed
  moreover have "buffer_id d \<noteq> buffer_id e" if "(conns(p \<mapsto> (c', m'))) q = Some (d, n)" "(conns(p \<mapsto> (c', m'))) r = Some (e, n')" "q \<noteq> r" for q r d n e n'
    using that other coversD(4) [OF cov] by (metis fun_upd_apply option.sel prod.sel(1))
  ultimately show ?thesis using dom unfolding covers_def by blast
qed

text \<open>No container on disk is changed: a connection writes its own, which is not on disk yet.\<close>

lemma containers_kept:
  assumes env: "env_ok ext N C" and cov: "covers ext srv conns S" and p: "conns p = Some (c, m)"
    and rel: "container_rel ext N (srv, c) (srv', c')" and uuid: "uuid_count srv' \<le> N"
  shows "containers_dir srv \<subseteq>\<^sub>m containers_dir srv'"
  unfolding map_le_def
proof
  fix k assume "k \<in> dom (containers_dir srv)"
  then obtain bs where k: "containers_dir srv k = Some bs" by blast
  have c: "drained c" "unsaved ext (srv, c)" using coversD(3) [OF cov p] by simp_all
  have "k \<noteq> buffer_id c" using c(2) k by (auto simp: unsaved_def saved_def)
  moreover have "own c = {buffer_id c}" using c(1) by (simp add: own_def drained_def)
  moreover have "k \<notin> drawn ext srv srv'"
    using c(2) k by (intro used_not_drawn [OF env uuid]) (auto simp: unsaved_def saved_def)
  ultimately show "containers_dir srv k = containers_dir srv' k" using rel k by (simp add: container_rel_def writes_own_def)
qed

text \<open>A new connection starts an empty container under a newly drawn name.\<close>

lemma covers_accept:
  assumes env: "env_ok ext N C" and cov: "covers ext srv conns S" and sound: "index_sound ext C S (m_all_chunks srv)"
    and uuid: "uuid_count srv < N" and p: "conns p = None"
  shows "\<exists>c. ClientConn_new ext sockfd info srv = Inr (srv\<lparr>uuid_count := uuid_count srv + 1\<rparr>, c) \<and>
           idle ext C S (srv\<lparr>uuid_count := uuid_count srv + 1\<rparr>, c) \<and>
           store_keeps S (gstore S (srv\<lparr>uuid_count := uuid_count srv + 1\<rparr>) c) \<and>
           covers ext (srv\<lparr>uuid_count := uuid_count srv + 1\<rparr>) (conns(p \<mapsto> (c, m))) (gstore S (srv\<lparr>uuid_count := uuid_count srv + 1\<rparr>) c)"
proof -
  let ?srv = "srv\<lparr>uuid_count := uuid_count srv + 1\<rparr>" and ?u = "x_uuid ext (uuid_count srv)"
  have S: "S ++ containers_dir srv = S" by (rule map_add_le) (rule coversD(1) [OF cov])
  have "\<exists>c'. reset_upload ext (srv, uninit_conn ext sockfd info) = Inr (?srv, c') \<and> idle ext C S (?srv, c') \<and>
      m_client_info c' = m_client_info (uninit_conn ext sockfd info) \<and> store_keeps (S ++ containers_dir srv) (gstore S ?srv c')"
    using sound coversD(2) [OF cov] by (intro reset_upload_ok [OF env uuid])
      (simp_all add: S drained_def uninit_conn_def Let_def BlockQueue_new_def bq_inv_def del: dom_map_add)
  then obtain c where c: "ClientConn_new ext sockfd info srv = Inr (?srv, c)" "idle ext C S (?srv, c)" "store_keeps S (gstore S ?srv c)"
    unfolding S ClientConn_new_reset by blast
  have id: "buffer_id c = ?u"
    using c(1) by (auto simp: ClientConn_new_def new_container_def new_recipe_def bindR_eq_Inr_iff Let_def)
  have i: "drained c" "container_bytes (m_containerBuffer c) = []"
    using c(2) by (simp_all add: idle_def container_bytes_def)
  have fresh: "?u \<notin> x_uuid ext ` {..<uuid_count srv}" using env uuid by (intro fresh_uuid) (simp_all add: env_ok_def)
  have S': "gstore S ?srv c = S(?u \<mapsto> [])" using i by (simp add: gstore_drained S id)
  have files: "dom (containers_dir srv) \<subseteq> x_uuid ext ` {..<uuid_count srv}"
    using coversD(1,2) [OF cov] by (meson map_le_implies_dom_le order_trans)
  have old: "drained d \<and> unsaved ext (?srv, d) \<and> buffer_id d \<noteq> ?u \<and> S (buffer_id d) = Some (container_bytes (m_containerBuffer d))"
    if q: "conns q = Some (d, n)" for q d n
  proof -
    have "unsaved ext (srv, d)" using coversD(3) [OF cov q] by simp
    then have "buffer_id d \<in> x_uuid ext ` {..<uuid_count srv}" "unsaved ext (?srv, d)"
      by (auto simp: unsaved_def saved_def lessThan_Suc)
    then show ?thesis using fresh coversD(3) [OF cov q] by auto
  qed
  have uns: "unsaved ext (?srv, c)" using i files fresh by (auto simp: unsaved_def saved_def drained_def id lessThan_Suc)
  have f1: "containers_dir ?srv \<subseteq>\<^sub>m S(?u \<mapsto> [])"
    using coversD(1) [OF cov] files fresh by (auto simp: map_le_def dom_def)
  have f2: "dom (S(?u \<mapsto> [])) \<subseteq> x_uuid ext ` {..<uuid_count ?srv}"
    using coversD(2) [OF cov] by (auto simp: lessThan_Suc)
  have f5: "containers_dir ?srv k = Some bs \<or> (\<exists>q d n. (conns(p \<mapsto> (c, m))) q = Some (d, n) \<and> buffer_id d = k)"
    if "(S(?u \<mapsto> [])) k = Some bs" "bs \<noteq> []" for k bs
  proof -
    have "S k = Some bs" using that by (auto split: if_splits)
    then show ?thesis using coversD(5) [OF cov _ that(2)] p by (simp, metis option.distinct(1))
  qed
  have f4: "buffer_id d \<noteq> buffer_id e"
    if "(conns(p \<mapsto> (c, m))) q = Some (d, n)" "(conns(p \<mapsto> (c, m))) r = Some (e, n')" "q \<noteq> r" for q r d n e n'
  proof (cases "q = p \<or> r = p")
    case True
    then show ?thesis using that id old [of q d n] old [of r e n'] by (auto split: if_splits)
  next
    case False
    then show ?thesis using that coversD(4) [OF cov] by auto
  qed
  have f3: "drained d \<and> unsaved ext (?srv, d) \<and> (S(?u \<mapsto> [])) (buffer_id d) = Some (container_bytes (m_containerBuffer d))"
    if "(conns(p \<mapsto> (c, m))) q = Some (d, n)" for q d n
  proof (cases "q = p")
    case True
    then show ?thesis using that i uns id by auto
  next
    case False
    then show ?thesis using that old [of q d n] by simp
  qed
  have "covers ext ?srv (conns(p \<mapsto> (c, m))) (gstore S ?srv c)"
    unfolding S' by (rule coversI [OF f1 f2 f3 f4 f5])
  with c show ?thesis by (intro exI [of _ c] conjI)
qed

section \<open>The other connections\<close>

text \<open>What a step may do to the shared state: \<open>W\<close> are the recipes it may write.\<close>

definition shared_step ::
    "'db ext \<Rightarrow> byte list set \<Rightarrow> string set \<Rightarrow> 'db server \<times> cstore \<Rightarrow> 'db server \<times> cstore \<Rightarrow> bool" where
  "shared_step ext C W = (\<lambda>(srv, S) (srv', S').
     store_keeps S S' \<and> dom (m_all_chunks srv) \<subseteq> dom (m_all_chunks srv') \<and> index_sound ext C S' (m_all_chunks srv') \<and>
     dom S' \<subseteq> x_uuid ext ` {..<uuid_count srv'} \<and> (\<forall>n. n \<notin> W \<longrightarrow> recipes_dir srv' n = recipes_dir srv n))"

lemma idle_other:
  assumes "idle ext C S (srv, c)" "shared_step ext C W (srv, S) (srv', S')" "gstore S' srv' c = S'"
  shows "idle ext C S' (srv', c)"
  using assms by (auto simp: idle_def cont_inv_def shared_step_def)

lemma receiving_other:
  assumes env: "env_ok ext N C" and rcv: "receiving ext C S key recs chs fl (srv, c, l)" and st: "gstore S srv c = S" "gstore S' srv' c = S'"
    and step: "shared_step ext C W (srv, S) (srv', S')" and other: "key \<notin> W"
  shows "receiving ext C S' key recs chs fl (srv', c, l)"
proof -
  have keep: "store_keeps S S'" and rec: "recipes_dir srv' key = recipes_dir srv key"
    using step other by (simp_all add: shared_step_def)
  have ne: "[] \<notin> set recs" "[] \<notin> set (duplicates (zip chs fl))"
  proof -
    have "[] \<notin> C" "set (recs @ chs) \<subseteq> C" using env rcv by (simp_all add: env_ok_def receiving_def chunks_ok_def)
    moreover have "set (duplicates (zip chs fl)) \<subseteq> set chs" by (auto simp: duplicates_def dest: set_zip_leftD)
    ultimately show "[] \<notin> set recs" "[] \<notin> set (duplicates (zip chs fl))" by auto
  qed
  have "recipe_inv S' key recs srv' c (rw_totalChunkNum l)"
    using rcv resolves_list_keeps [OF keep ne(1)] by (fastforce simp: receiving_def upload_inv_def recipe_inv_def st rec)
  moreover have "queried ext S' chs fl c"
    using rcv resolves_list_keeps [OF keep ne(2)] by (simp add: receiving_def queried_def st)
  moreover have "indexed ext srv' (recs @ duplicates (zip chs fl))"
  proof -
    have "indexed ext srv (recs @ duplicates (zip chs fl))" using rcv by (simp add: receiving_def)
    moreover have "dom (m_all_chunks srv) \<subseteq> dom (m_all_chunks srv')" using step by (simp add: shared_step_def)
    ultimately show ?thesis unfolding indexed_def by (metis domIff subsetD)
  qed
  moreover have "cont_inv ext S' srv' c"
    using rcv step by (simp add: receiving_def upload_inv_def cont_inv_def st shared_step_def)
  ultimately show ?thesis using rcv step by (simp add: receiving_def upload_inv_def st shared_step_def)
qed

text \<open>A file in the shared store; when every connection is idle it is on disk.\<close>

definition stored_in :: "cstore \<Rightarrow> 'db server \<Rightarrow> string \<Rightarrow> byte list list \<Rightarrow> bool" where
  "stored_in S srv name recs \<longleftrightarrow>
     (\<exists>as. recipes_dir srv name = Some (u32_bytes (of_nat (length as)) @ concat (map enc_addr as)) \<and> list_all2 (resolves S) as recs)"

lemma stored_in_other:
  assumes "stored_in S srv key recs" "[] \<notin> set recs" "shared_step ext C W (srv, S) (srv', S')" "key \<notin> W"
  shows "stored_in S' srv' key recs"
  using assms resolves_list_keeps [of S S' recs] by (auto simp: stored_in_def shared_step_def)

lemma file_stored_in: "file_stored S key recs (srv, c) \<Longrightarrow> gstore S srv c = S' \<Longrightarrow> stored_in S' srv key recs"
  by (auto simp: file_stored_def stored_in_def)

lemma disk_stored_in: "on_disk key recs srv \<longleftrightarrow> stored_in (containers_dir srv) srv key recs"
  by (simp add: on_disk_def stored_in_def)

lemma on_disk_kept:
  assumes "on_disk key recs srv" "containers_dir srv \<subseteq>\<^sub>m containers_dir srv'" "recipes_dir srv' key = recipes_dir srv key"
  shows "on_disk key recs srv'"
proof -
  have "resolves (containers_dir srv') a ch" if "resolves (containers_dir srv) a ch" for a ch
    using that assms(2) by (fastforce simp: resolves_def map_le_def dom_def)
  then have "list_all2 (resolves (containers_dir srv')) as recs" if "list_all2 (resolves (containers_dir srv)) as recs" for as
    using that by (auto elim: list_all2_mono)
  then show ?thesis using assms(1,3) by (auto simp: on_disk_def)
qed

lemma covers_flushed:
  assumes cov: "covers ext srv conns S" and idle: "\<And>p c m. conns p = Some (c, m) \<Longrightarrow> occupied (m_containerBuffer c) = 0"
  shows "store_keeps S (containers_dir srv)"
proof -
  have "containers_dir srv k = Some bs" if "S k = Some bs" "bs \<noteq> []" for k bs
  proof -
    have "\<not> (\<exists>p c m. conns p = Some (c, m) \<and> buffer_id c = k)"
      using coversD(3) [OF cov] idle that by (metis container_bytes_def mem_read_0 option.sel)
    then show ?thesis using coversD(5) [OF cov that] by blast
  qed
  then show ?thesis by (fastforce simp: store_keeps_def resolves_def)
qed

lemma stored_in_keeps: "store_keeps S S' \<Longrightarrow> [] \<notin> set recs \<Longrightarrow> stored_in S srv key recs \<Longrightarrow> stored_in S' srv key recs"
  using resolves_list_keeps by (fastforce simp: stored_in_def)

end
