(* ===== verification/Upload_Turns.thy ===== *)
theory Upload_Turns
  imports Shared_Store Client_Steps
begin

text \<open>
  One client that uploads a file, seen turn by turn on a server it shares with others. \<open>party_at\<close> ties the phase of
  the client program to the state of its connection and to the shared store \<open>S\<close>; \<open>upload_turn\<close> is the preservation: a turn
  never fails, leads to the next phase, and changes the shared state only as \<open>turn_rel\<close> says.
\<close>

section \<open>Client and connection in step\<close>

definition is_receiving :: "mode \<Rightarrow> bool" where
  "is_receiving m = (case m of Receiving l \<Rightarrow> True | _ \<Rightarrow> False)"

lemma is_receiving_simps [simp]:
  "is_receiving (Receiving l)" "\<not> is_receiving AwaitLogin" "\<not> is_receiving AwaitOrder" "\<not> is_receiving Closed"
  by (simp_all add: is_receiving_def)

definition blocks_left :: "'db ext \<Rightarrow> byte list set \<Rightarrow> byte list list \<Rightarrow> ReadBuffer_t list \<Rightarrow> bool" where
  "blocks_left ext C bls rbs \<longleftrightarrow> list_all2 (buffer_of (x_evp ext)) bls rbs \<and>
     (\<forall>b \<in> set bls. chunks_ok C (chunks_of b) \<and> chunks_of b \<noteq> [] \<and> length (chunks_of b) \<le> BATCHSIZE \<and>
        length b \<le> CHUNKSIZE * BATCHSIZE)"

fun party_at ::
    "'db ext \<Rightarrow> byte list set \<Rightarrow> cstore \<Rightarrow> u32 \<Rightarrow> string \<Rightarrow> byte list \<Rightarrow> 'db server \<times> conn \<times> mode \<Rightarrow>
     phase \<times> client \<times> byte list list \<Rightarrow> bool" where
  "party_at ext C S cid fn bs (srv, c, m) (Starting, cl, inbox) \<longleftrightarrow>
     m = AwaitLogin \<and> idle ext C S (srv, c) \<and> cl_client_id cl = cid \<and> get_file_name (cl_file_path cl) = fn \<and>
     cl_op cl = CHR ''u'' \<and> inbox = []"
| "party_at ext C S cid fn bs (srv, c, m) (Operating, cl, inbox) \<longleftrightarrow>
     m = AwaitOrder \<and> idle ext C S (srv, c) \<and> client_id (m_client_info c) = cid \<and>
     get_file_name (cl_file_path cl) = fn \<and> cl_op cl = CHR ''u'' \<and> inbox = []"
| "party_at ext C S cid fn bs (srv, c, m) (AskedUpload, cl, inbox) \<longleftrightarrow>
     (case m of
        Receiving l \<Rightarrow> receiving ext C S (recipe_key ext cid fn) [] [] [] (srv, c, l) \<and>
          inbox = [send_control_message (x_malloc ext) UPLOADREP [] UNIQUE]
      | _ \<Rightarrow> m = AwaitOrder \<and> idle ext C S (srv, c) \<and> inbox = [send_control_message (x_malloc ext) UPLOADREP [] DUPLICATE])"
| "party_at ext C S cid fn bs (srv, c, m) (Sending rbs cl_l, cl, inbox) \<longleftrightarrow>
     (\<exists>l recs chs fl bls. m = Receiving l \<and> receiving ext C S (recipe_key ext cid fn) recs chs fl (srv, c, l) \<and>
        client_at (x_evp ext) chs fl cl cl_l inbox \<and> currentBatchNum cl_l = length chs \<and> blocks_left ext C bls rbs \<and>
        recs @ chs @ concat (map chunks_of bls) = chunks_of bs)"
| "party_at ext C S cid fn bs (srv, c, m) (EndingFile, cl, inbox) \<longleftrightarrow>
     (\<exists>l. m = Receiving l \<and> receiving ext C S (recipe_key ext cid fn) (chunks_of bs) [] [] (srv, c, l) \<and> inbox = [])"
| "party_at ext C S cid fn bs (srv, c, m) (AskedDownload, cl, inbox) \<longleftrightarrow> False"
| "party_at ext C S cid fn bs (srv, c, m) (Quitting w, cl, inbox) \<longleftrightarrow> m = AwaitOrder \<and> idle ext C S (srv, c) \<and> inbox = []"
| "party_at ext C S cid fn bs (srv, c, m) (Leaving w, cl, inbox) \<longleftrightarrow> m = Closed \<and> idle ext C S (srv, c) \<and>
     inbox = [send_control_message (x_malloc ext) QUITREP [] NONE]"
| "party_at ext C S cid fn bs (srv, c, m) (Finished w, cl, inbox) \<longleftrightarrow> m = Closed \<and> idle ext C S (srv, c)"

text \<open>How many containers the rest of the upload can start.\<close>

fun need :: "byte list \<Rightarrow> phase \<Rightarrow> nat" where
  "need bs (Sending rbs l) = Suc (currentBatchNum l + sum_list (map rb_chunkNum rbs))"
| "need bs EndingFile = 1"
| "need bs (Quitting w) = 0"
| "need bs (Leaving w) = 0"
| "need bs (Finished w) = 0"
| "need bs ph = Suc (length (chunks_of bs))"

lemma party_drained: "party_at ext C S cid fn bs (srv, c, m) (ph, cl, inbox) \<Longrightarrow> drained c"
  by (cases ph; cases m) (auto simp: idle_def receiving_def)

text \<open>A step of another connection.\<close>

lemma party_other:
  assumes "env_ok ext N C" "party_at ext C S cid fn bs (srv, c, m) (ph, cl, inbox)" "gstore S srv c = S" "gstore S' srv' c = S'"
    and "shared_step ext C W (srv, S) (srv', S')" "is_receiving m \<Longrightarrow> recipe_key ext cid fn \<notin> W"
  shows "party_at ext C S' cid fn bs (srv', c, m) (ph, cl, inbox)"
proof -
  have i: "idle ext C S (srv, c) \<Longrightarrow> idle ext C S' (srv', c)" by (rule idle_other [OF _ assms(5,4)])
  have r: "receiving ext C S (recipe_key ext cid fn) recs chs fl (srv, c, l) \<Longrightarrow>
      receiving ext C S' (recipe_key ext cid fn) recs chs fl (srv', c, l)" if "m = Receiving l" for recs chs fl l
    using receiving_other [OF assms(1) _ assms(3,4,5)] assms(6) that by simp
  show ?thesis
    using assms(2) i r by (cases ph) (auto split: mode.splits, blast?)
qed

section \<open>What a turn changes\<close>

text \<open>The phase, the server, the shared store and the connection before and after.\<close>

type_synonym 'db party_view = "phase \<times> 'db server \<times> cstore \<times> conn \<times> mode"

definition asks_new :: "('db \<Rightarrow> int \<Rightarrow> string \<Rightarrow> nat) \<Rightarrow> u32 \<Rightarrow> string \<Rightarrow> phase \<Rightarrow> 'db server \<Rightarrow> bool" where
  "asks_new rows cid fn ph srv \<longleftrightarrow> ph = Operating \<and> rows (m_db srv) (sint cid) fn = 0"

definition turn_rel ::
    "'db ext \<Rightarrow> nat \<Rightarrow> byte list set \<Rightarrow> ('db \<Rightarrow> int \<Rightarrow> string \<Rightarrow> nat) \<Rightarrow> (string \<Rightarrow> string \<Rightarrow> bool) \<Rightarrow> u32 \<Rightarrow> string \<Rightarrow> byte list \<Rightarrow>
     'db party_view \<Rightarrow> 'db party_view \<Rightarrow> bool" where
  "turn_rel ext N C rows same cid fn bs = (\<lambda>(ph, srv, S, c, m) (ph', srv', S', c', m').
     S' = gstore S srv' c' \<and> container_rel ext N (srv, c) (srv', c') \<and>
     shared_step ext C (if is_receiving m \<or> is_receiving m' then {recipe_key ext cid fn} else {}) (srv, S) (srv', S') \<and>
     uuid_count srv' + need bs ph' \<le> uuid_count srv + need bs ph \<and> db_ready ext rows same srv' \<and>
     m_db srv' = (if asks_new rows cid fn ph srv then fst (x_exec ext (m_db srv) (insert_query cid fn)) else m_db srv) \<and>
     (is_receiving m' \<longleftrightarrow> asks_new rows cid fn ph srv \<or> is_receiving m \<and> ph \<noteq> EndingFile) \<and>
     (ph = EndingFile \<longrightarrow> stored_in S' srv' (recipe_key ext cid fn) (chunks_of bs)) \<and>
     (ph' = Operating \<longleftrightarrow> ph = Starting) \<and> ph' \<noteq> Starting)"

lemma gstore_idem: "drained c \<Longrightarrow> gstore (gstore S srv c) srv c = gstore S srv c"
  by (auto simp: gstore_drained map_add_def fun_eq_iff split: option.splits)

lemma idle_gstore: "gstore S srv c = gstore T srv c \<Longrightarrow> idle ext C S (srv, c) = idle ext C T (srv, c)"
  by (simp add: idle_def cont_inv_def)

lemma receiving_gstore: "gstore S srv c = gstore T srv c \<Longrightarrow>
  receiving ext C S key recs chs fl (srv, c, l) = receiving ext C T key recs chs fl (srv, c, l)"
  by (simp add: receiving_def upload_inv_def cont_inv_def)

lemma idle_here: "idle ext C S (srv, c) \<Longrightarrow> idle ext C (gstore S srv c) (srv, c)"
  by (subst idle_gstore [of _ srv c S]) (auto simp: idle_def gstore_idem)

lemma receiving_here: "receiving ext C S key recs chs fl (srv, c, l) \<Longrightarrow> receiving ext C (gstore S srv c) key recs chs fl (srv, c, l)"
  by (subst receiving_gstore [of _ srv c S]) (auto simp: receiving_def gstore_idem)

lemma idle_facts: "idle ext C S (srv, c) \<Longrightarrow>
  index_sound ext C (gstore S srv c) (m_all_chunks srv) \<and> dom (gstore S srv c) \<subseteq> x_uuid ext ` {..<uuid_count srv}"
  by (simp add: idle_def cont_inv_def)

lemma receiving_facts: "receiving ext C S key recs chs fl (srv, c, l) \<Longrightarrow>
  index_sound ext C (gstore S srv c) (m_all_chunks srv) \<and> dom (gstore S srv c) \<subseteq> x_uuid ext ` {..<uuid_count srv}"
  by (simp add: receiving_def upload_inv_def cont_inv_def)

lemma party_facts:
  assumes "party_at ext C S cid fn bs (srv, c, m) (ph, cl, inbox)"
  shows "index_sound ext C (gstore S srv c) (m_all_chunks srv) \<and> dom (gstore S srv c) \<subseteq> x_uuid ext ` {..<uuid_count srv}"
proof -
  have "idle ext C S (srv, c) \<or> (\<exists>key recs chs fl l. receiving ext C S key recs chs fl (srv, c, l))"
    using assms by (cases ph) (auto split: mode.splits)
  then show ?thesis using idle_facts receiving_facts by blast
qed

lemma shared_stepI:
  assumes "conn_frame S name k (srv\<lparr>m_db := d, m_mysqlPool := p\<rparr>, c) (srv', c')" "gstore S srv c = S"
    and "index_sound ext C (gstore S srv' c') (m_all_chunks srv') \<and> dom (gstore S srv' c') \<subseteq> x_uuid ext ` {..<uuid_count srv'}"
  shows "shared_step ext C {name} (srv, S) (srv', gstore S srv' c')"
proof -
  have "gstore S (srv\<lparr>m_db := d, m_mysqlPool := p\<rparr>) c = S" using assms(2) by (simp add: gstore_def)
  then show ?thesis using assms by (simp add: shared_step_def conn_frame_def)
qed

lemma shared_step_refl: "index_sound ext C S (m_all_chunks srv) \<Longrightarrow> dom S \<subseteq> x_uuid ext ` {..<uuid_count srv} \<Longrightarrow>
  m_all_chunks srv' = m_all_chunks srv \<Longrightarrow> uuid_count srv' = uuid_count srv \<Longrightarrow> recipes_dir srv' = recipes_dir srv \<Longrightarrow>
  shared_step ext C W (srv, S) (srv', S)"
  by (simp add: shared_step_def store_keeps_def)

text \<open>A turn that leaves the server's shared data alone.\<close>

lemma turn_rel_quiet:
  assumes st: "gstore S srv c = S" and facts: "index_sound ext C S (m_all_chunks srv)" "dom S \<subseteq> x_uuid ext ` {..<uuid_count srv}"
    and db: "db_ready ext rows same srv'" "m_db srv' = m_db srv"
    and srv': "m_all_chunks srv' = m_all_chunks srv" "uuid_count srv' = uuid_count srv" "recipes_dir srv' = recipes_dir srv"
      "containers_dir srv' = containers_dir srv"
    and c': "m_containerBuffer c' = m_containerBuffer c" "m_containerQueue c' = m_containerQueue c"
    and ph: "need bs ph' \<le> need bs ph" "\<not> asks_new rows cid fn ph srv" "is_receiving m' = is_receiving m" "ph \<noteq> EndingFile"
      "ph' = Operating \<longleftrightarrow> ph = Starting" "ph' \<noteq> Starting"
  shows "turn_rel ext N C rows same cid fn bs (ph, srv, S, c, m) (ph', srv', S, c', m')"
proof -
  have "gstore S srv' c' = S" using st srv'(4) c' by (simp add: gstore_def)
  moreover have "container_rel ext N (srv, c) (srv', c')" using srv' c' by (intro container_rel_frame) simp_all
  ultimately show ?thesis
    using shared_step_refl [OF facts srv'(1-3)] db ph srv'(2) by (simp add: turn_rel_def)
qed

section \<open>The turns\<close>

definition can_turn ::
    "'db ext \<Rightarrow> mem \<Rightarrow> nat \<Rightarrow> byte list set \<Rightarrow> ('db \<Rightarrow> int \<Rightarrow> string \<Rightarrow> nat) \<Rightarrow> (string \<Rightarrow> string \<Rightarrow> bool) \<Rightarrow> u32 \<Rightarrow> string \<Rightarrow>
     byte list \<Rightarrow> 'db server \<times> cstore \<times> conn \<times> mode \<Rightarrow> phase \<times> client \<times> byte list list \<Rightarrow> bool" where
  "can_turn ext malloc N C rows same cid fn bs = (\<lambda>(srv, S, c, m) (ph, cl, inbox).
     env_ok ext N C \<and> sendable malloc fn \<and> db_ready ext rows same srv \<and> gstore S srv c = S \<and> set (chunks_of bs) \<subseteq> C \<and>
     party_at ext C S cid fn bs (srv, c, m) (ph, cl, inbox) \<and> uuid_count srv + need bs ph \<le> N \<and>
     (ph = Operating \<longrightarrow> rows (m_db srv) (sint cid) fn \<le> 1))"

definition turns_well ::
    "'db ext \<Rightarrow> mem \<Rightarrow> nat \<Rightarrow> byte list set \<Rightarrow> ('db \<Rightarrow> int \<Rightarrow> string \<Rightarrow> nat) \<Rightarrow> (string \<Rightarrow> string \<Rightarrow> bool) \<Rightarrow> u32 \<Rightarrow> string \<Rightarrow>
     byte list \<Rightarrow> 'db server \<times> cstore \<times> conn \<times> mode \<Rightarrow> phase \<times> client \<times> byte list list \<Rightarrow> bool" where
  "turns_well ext malloc N C rows same cid fn bs = (\<lambda>(srv, S, c, m) (ph, cl, inbox).
     (\<exists>ph' cl' srv' S' c' m' inbox'.
        client_turn (x_evp ext) malloc (conn_receive ext) (Some bs) (ph, cl, (srv, c, m), inbox) =
          Inr (ph', cl', (srv', c', m'), inbox') \<and>
        party_at ext C S' cid fn bs (srv', c', m') (ph', cl', inbox') \<and>
        turn_rel ext N C rows same cid fn bs (ph, srv, S, c, m) (ph', srv', S', c', m')))"

lemma can_turn_facts:
  assumes "can_turn ext malloc N C rows same cid fn bs (srv, S, c, m) (ph, cl, inbox)"
  shows "index_sound ext C S (m_all_chunks srv)" "dom S \<subseteq> x_uuid ext ` {..<uuid_count srv}"
  using assms party_facts [of ext C S cid fn bs srv c m ph cl inbox] by (simp_all add: can_turn_def)

lemma login_turn:
  assumes "can_turn ext malloc N C rows same cid fn bs (srv, S, c, m) (Starting, cl, inbox)"
  shows "turns_well ext malloc N C rows same cid fn bs (srv, S, c, m) (Starting, cl, inbox)"
proof -
  have p: "m = AwaitLogin" "idle ext C S (srv, c)" "cl_client_id cl = cid" "get_file_name (cl_file_path cl) = fn"
    "cl_op cl = CHR ''u''" "inbox = []" and st: "gstore S srv c = S" and db: "db_ready ext rows same srv"
    using assms by (simp_all add: can_turn_def)
  let ?c = "c\<lparr>m_client_info := (m_client_info c)\<lparr>client_id := cid\<rparr>\<rparr>"
  have "client_turn (x_evp ext) malloc (conn_receive ext) (Some bs) (Starting, cl, (srv, c, m), inbox) =
      Inr (Operating, cl, (srv, ?c, AwaitOrder), [])"
    using p by (simp add: net_send_def login_received)
  moreover have "gstore S srv ?c = gstore S srv c" by (simp add: gstore_def)
  then have "idle ext C S (srv, ?c)" using p(2) by (simp add: idle_def cont_inv_def rec_ok_def drained_def)
  then have "party_at ext C S cid fn bs (srv, ?c, AwaitOrder) (Operating, cl, [])" using p by simp
  moreover have "turn_rel ext N C rows same cid fn bs (Starting, srv, S, c, m) (Operating, srv, S, ?c, AwaitOrder)"
    using p(1) by (intro turn_rel_quiet [OF st can_turn_facts [OF assms] db]) (simp_all add: asks_new_def)
  ultimately show ?thesis unfolding turns_well_def prod.case by blast
qed

lemma request_turn:
  assumes can: "can_turn ext malloc N C rows same cid fn bs (srv, S, c, m) (Operating, cl, inbox)"
  shows "turns_well ext malloc N C rows same cid fn bs (srv, S, c, m) (Operating, cl, inbox)"
proof -
  have p: "m = AwaitOrder" "idle ext C S (srv, c)" "client_id (m_client_info c) = cid" "get_file_name (cl_file_path cl) = fn"
    "cl_op cl = CHR ''u''" "inbox = []" and st: "gstore S srv c = S" and db: "db_ready ext rows same srv"
    and env: "env_ok ext N C" and fn: "sendable malloc fn" and rows: "rows (m_db srv) (sint cid) fn \<le> 1"
    and uuid: "uuid_count srv + need bs Operating \<le> N"
    using can by (simp_all add: can_turn_def)
  show ?thesis
  proof (cases "rows (m_db srv) (sint cid) fn = 0")
    case True
    have nm: "name_ok fn" using fn by (simp add: sendable_def)
    have req: "receive_control_msg (x_malloc ext) (send_control_message malloc UPLOAD fn NONE) [] 0 = Inr (order_val UPLOAD, fn, 0)"
      using fn by (rule sendable_request) (simp add: is_request_def)
    obtain srv' c' l where run: "conn_receive ext (send_control_message malloc UPLOAD fn NONE) (srv, c, AwaitOrder) =
        Inr ((srv', c', Receiving l), [send_control_message (x_malloc ext) UPLOADREP [] UNIQUE])"
      and rcv: "receiving ext C S (recipe_key ext cid fn) [] [] [] (srv', c', l)" and db': "db_ready ext rows same srv'"
        "m_db srv' = fst (x_exec ext (m_db srv) (insert_query cid fn))"
      and fr: "conn_frame S (recipe_key ext cid fn) 0 (srv\<lparr>m_db := m_db srv', m_mysqlPool := m_mysqlPool srv'\<rparr>, c) (srv', c')"
      using conn_receive_upload [OF env p(2) db nm True p(3) req] by (elim exE conjE) (rule that; assumption)
    have turn: "client_turn (x_evp ext) malloc (conn_receive ext) (Some bs) (Operating, cl, (srv, c, m), inbox) =
        Inr (AskedUpload, cl, (srv', c', Receiving l), [send_control_message (x_malloc ext) UPLOADREP [] UNIQUE])"
      using run p by (simp add: begin_turn_def net_send_def Let_def)
    have "container_rel ext N (srv, c) (srv', c')" using env by (intro handler_writes_own_containers [OF _ run]) (simp_all add: env_ok_def)
    moreover have "uuid_count srv' \<le> uuid_count srv" using fr by (simp add: conn_frame_def)
    ultimately have "turn_rel ext N C rows same cid fn bs (Operating, srv, S, c, m) (AskedUpload, srv', gstore S srv' c', c', Receiving l)"
      using shared_stepI [OF fr st receiving_facts [OF rcv]] db' True by (simp add: turn_rel_def asks_new_def p(1))
    moreover have "party_at ext C (gstore S srv' c') cid fn bs (srv', c', Receiving l)
        (AskedUpload, cl, [send_control_message (x_malloc ext) UPLOADREP [] UNIQUE])"
      using receiving_here [OF rcv] by simp
    ultimately show ?thesis unfolding turns_well_def prod.case using turn by blast
  next
    case False
    then have found: "0 < rows (m_db srv) (sint cid) fn" "rows (m_db srv) (sint cid) fn < 2 ^ 32" using rows by simp_all
    obtain q where run: "conn_receive ext (send_control_message malloc UPLOAD fn NONE) (srv, c, AwaitOrder) =
        Inr ((srv\<lparr>m_mysqlPool := q\<rparr>, c\<lparr>m_recipeNameHash := recipe_key ext cid fn\<rparr>, AwaitOrder),
             [send_control_message (x_malloc ext) UPLOADREP [] DUPLICATE])" and q: "pool_ok q" "m_connpool q \<noteq> []"
      using upload_request_refused [OF env db p(3) fn found] by blast
    let ?srv = "srv\<lparr>m_mysqlPool := q\<rparr>" and ?c = "c\<lparr>m_recipeNameHash := recipe_key ext cid fn\<rparr>"
    have turn: "client_turn (x_evp ext) malloc (conn_receive ext) (Some bs) (Operating, cl, (srv, c, m), inbox) =
        Inr (AskedUpload, cl, (?srv, ?c, AwaitOrder), [send_control_message (x_malloc ext) UPLOADREP [] DUPLICATE])"
      using run p by (simp add: begin_turn_def net_send_def Let_def)
    have "gstore S ?srv ?c = gstore S srv c" by (simp add: gstore_def)
    then have "idle ext C S (?srv, ?c)" using p(2) by (simp add: idle_def cont_inv_def rec_ok_def drained_def)
    then have "party_at ext C S cid fn bs (?srv, ?c, AwaitOrder) (AskedUpload, cl, [send_control_message (x_malloc ext) UPLOADREP [] DUPLICATE])"
      by simp
    moreover have "turn_rel ext N C rows same cid fn bs (Operating, srv, S, c, m) (AskedUpload, ?srv, S, ?c, AwaitOrder)"
      using False db q p(1) by (intro turn_rel_quiet [OF st can_turn_facts [OF can]]) (simp_all add: asks_new_def db_ready_def)
    ultimately show ?thesis unfolding turns_well_def prod.case using turn by blast
  qed
qed

lemma blocks_left_chunks:
  assumes "list_all2 (buffer_of evp) bls rbs"
  shows "sum_list (map rb_chunkNum rbs) = length (concat (map chunks_of bls))"
  using assms by (induction rule: list_all2_induct) (simp_all add: buffer_of_def)

lemma answer_turn:
  assumes can: "can_turn ext malloc N C rows same cid fn bs (srv, S, c, m) (AskedUpload, cl, inbox)"
  shows "turns_well ext malloc N C rows same cid fn bs (srv, S, c, m) (AskedUpload, cl, inbox)"
proof -
  have st: "gstore S srv c = S" and db: "db_ready ext rows same srv" and env: "env_ok ext N C" and C: "set (chunks_of bs) \<subseteq> C"
    and p: "party_at ext C S cid fn bs (srv, c, m) (AskedUpload, cl, inbox)"
    using can by (simp_all add: can_turn_def)
  have reply: "receive_control_msg malloc (send_control_message (x_malloc ext) UPLOADREP [] v) [] 0 = Inr (order_val UPLOADREP, [], status_val v)" for v
    by (rule reply_roundtrip) (simp add: is_reply_def)
  show ?thesis
  proof (cases "is_receiving m")
    case True
    then obtain l where m: "m = Receiving l" by (cases m) simp_all
    have rcv: "receiving ext C S (recipe_key ext cid fn) [] [] [] (srv, c, l)"
      and inbox: "inbox = [send_control_message (x_malloc ext) UPLOADREP [] UNIQUE]" using p by (simp_all add: m)
    obtain rbs where rbs: "read_loop (x_evp ext) malloc bs = Inr rbs" "list_all2 (buffer_of (x_evp ext)) (blocks_of bs) rbs"
      using read_loop_ok env by (metis env_ok_def)
    define l0 where "l0 = locals_start \<lparr>dataBuffer = malloc, hashBuffer = malloc, rb_chunkNum = 0, rb_dataSize = 0\<rparr>"
    let ?cl = "set_cl_type UPLOADBODY cl"
    have "client_turn (x_evp ext) malloc (conn_receive ext) (Some bs) (AskedUpload, cl, (srv, c, m), inbox) =
        Inr (Sending rbs l0, ?cl, (srv, c, m), [])"
      using rbs(1) reply by (simp add: upload_answer_turn_def inbox net_recv_def order_of_def read_data_def l0_def)
    moreover have left: "blocks_left ext C (blocks_of bs) rbs"
      using rbs(2) chunks_of_ok(1) [OF C] blocks_of_facts [of _ bs] by (auto simp: blocks_left_def)
    then have "party_at ext C S cid fn bs (srv, c, m) (Sending rbs l0, ?cl, [])"
      using rcv client_at_start [of "x_evp ext" cl] chunks_of_blocks [of bs]
      by (simp add: m l0_def) (metis append_Nil client_at_start client_locals.select_convs(4) list.size(3) locals_start_def)
    moreover have "need bs (Sending rbs l0) \<le> need bs AskedUpload"
      using blocks_left_chunks [OF rbs(2)] chunks_of_blocks [of bs] by (simp add: l0_def locals_start_def)
    then have "turn_rel ext N C rows same cid fn bs (AskedUpload, srv, S, c, m) (Sending rbs l0, srv, S, c, m)"
      using db by (intro turn_rel_quiet [OF st can_turn_facts [OF can]]) (simp_all add: asks_new_def)
    ultimately show ?thesis unfolding turns_well_def prod.case by blast
  next
    case False
    then have i: "m = AwaitOrder" "idle ext C S (srv, c)" "inbox = [send_control_message (x_malloc ext) UPLOADREP [] DUPLICATE]"
      using p by (cases m; simp)+
    have "client_turn (x_evp ext) malloc (conn_receive ext) (Some bs) (AskedUpload, cl, (srv, c, m), inbox) =
        Inr (Quitting None, cl, (srv, c, m), [])"
      using reply by (simp add: upload_answer_turn_def i(3) net_recv_def order_of_def)
    moreover have "party_at ext C S cid fn bs (srv, c, m) (Quitting None, cl, [])" using i by simp
    moreover have "turn_rel ext N C rows same cid fn bs (AskedUpload, srv, S, c, m) (Quitting None, srv, S, c, m)"
      using db by (intro turn_rel_quiet [OF st can_turn_facts [OF can]]) (simp_all add: asks_new_def)
    ultimately show ?thesis unfolding turns_well_def prod.case by blast
  qed
qed

text \<open>One part of the file: the client's half is \<open>client_sends\<close>, the server's \<open>conn_receive_part\<close>.\<close>

lemma part_turn:
  assumes can: "can_turn ext malloc N C rows same cid fn bs (srv, S, c, m) (Sending rbs l, cl, inbox)"
  shows "turns_well ext malloc N C rows same cid fn bs (srv, S, c, m) (Sending rbs l, cl, inbox)"
proof -
  have st: "gstore S srv c = S" and db: "db_ready ext rows same srv" and env: "env_ok ext N C"
    and uuid: "uuid_count srv + need bs (Sending rbs l) \<le> N"
    using can by (simp_all add: can_turn_def)
  obtain sl recs chs fl bls where m: "m = Receiving sl" and rcv: "receiving ext C S (recipe_key ext cid fn) recs chs fl (srv, c, sl)"
    and at: "client_at (x_evp ext) chs fl cl l inbox" and batch: "currentBatchNum l = length chs"
    and left: "blocks_left ext C bls rbs" and all: "recs @ chs @ concat (map chunks_of bls) = chunks_of bs"
    using can by (auto simp: can_turn_def)
  define b where "b = (case bls of [] \<Rightarrow> None | b # _ \<Rightarrow> Some b)"
  have bufs: "list_all2 (buffer_of (x_evp ext)) bls rbs" using left by (simp add: blocks_left_def)
  then have rb: "rel_option (buffer_of (x_evp ext)) b (case rbs of [] \<Rightarrow> None | rb # _ \<Rightarrow> Some rb)"
    by (cases bls; cases rbs) (simp_all add: b_def)
  have nx: "chunks_ok C (next_chunks b)" "length (next_chunks b) \<le> BATCHSIZE" "next_chunks b = [] \<longleftrightarrow> bls = []"
    using left by (cases bls; simp add: b_def next_chunks_def blocks_left_def chunks_ok_def)+
  obtain cl1 l1 cl2 l2 f where r1: "loop_receive (cl, l) ((srv, c, m), inbox) = Inr ((cl1, l1), length (concat (uniques (zip chs fl))), ((srv, c, m), []))"
    and r2: "upload_query (case rbs of [] \<Rightarrow> None | rb # _ \<Rightarrow> Some rb) (length (concat (uniques (zip chs fl)))) (cl1, l1) = Inr ((cl2, l2), f)"
    and f: "part_frame (x_evp ext) (uniques (zip chs fl)) (next_chunks b) f"
    and s2: "is_body cl2" "currentBatchNum l2 = length (next_chunks b)" "totalChunkNum l2 = totalChunkNum l + length (next_chunks b)"
      "rel_option (buffer_of (x_evp ext)) b (if b = None then None else Some (readBuffer l2))"
    using client_sends [OF at rb nx(2), of "(srv, c, m)"] by (elim exE conjE) (rule that; assumption)
  have budget: "uuid_count srv + length chs \<le> N" using uuid batch by simp
  obtain srv' c' sl' out where run: "conn_receive ext f (srv, c, m) = Inr ((srv', c', Receiving sl'), out)"
    and rcv': "receiving ext C S (recipe_key ext cid fn) (recs @ chs) (next_chunks b) (answer_flags ext srv' (next_chunks b)) (srv', c', sl')"
    and fr: "conn_frame S (recipe_key ext cid fn) (length chs) (srv, c) (srv', c')"
    and out: "if next_chunks b = [] then out = [] else \<exists>g. out = [g] \<and> flags_frame (answer_flags ext srv' (next_chunks b)) g"
    using conn_receive_part [OF env rcv budget nx(1,2) f client_at_full(1) [OF at], folded m] by (elim exE conjE) (rule that; assumption)
  define ph' where "ph' = (case rbs of [] \<Rightarrow> EndingFile | _ # rbs' \<Rightarrow> Sending rbs' l2)"
  have rbs_Nil: "rbs = [] \<longleftrightarrow> bls = []" using bufs by (cases bls; cases rbs) simp_all
  have turn: "client_turn (x_evp ext) malloc (conn_receive ext) (Some bs) (Sending rbs l, cl, (srv, c, m), inbox) =
      Inr (ph', cl2, (srv', c', Receiving sl'), out)"
    using r2 run s2(2) nx(3) rbs_Nil
    by (simp add: send_turn_def r1 net_send_def ph'_def split: list.splits)
  have "container_rel ext N (srv, c) (srv', c')"
  proof (rule handler_writes_own_containers [OF _ run])
    show "inj_on (x_uuid ext) {..<N}" using env by (simp add: env_ok_def)
    show "dataMsgType (header (m_outMsgBuffer c)) \<noteq> dataMsgType_val FILEEND \<or> m = AwaitLogin \<or> m = AwaitOrder \<or> m = Closed"
      using rcv by (simp add: receiving_def)
  qed
  moreover have "uuid_count srv' + need bs ph' \<le> uuid_count srv + need bs (Sending rbs l)"
  proof -
    have "uuid_count srv' \<le> uuid_count srv + length chs" using fr by (simp add: conn_frame_def)
    moreover have "need bs ph' + length chs \<le> need bs (Sending rbs l)"
      using bufs batch s2(2) by (cases bls; cases rbs) (auto simp: ph'_def b_def next_chunks_def buffer_of_def)
    ultimately show ?thesis by simp
  qed
  moreover have "shared_step ext C {recipe_key ext cid fn} (srv, S) (srv', gstore S srv' c')"
    by (rule shared_stepI [where d = "m_db srv" and p = "m_mysqlPool srv" and k = "length chs", OF _ st receiving_facts [OF rcv']]) (use fr in simp)
  moreover have "db_ready ext rows same srv'" "m_db srv' = m_db srv" using db fr by (simp_all add: conn_frame_def db_ready_def)
  ultimately have rel: "turn_rel ext N C rows same cid fn bs (Sending rbs l, srv, S, c, m) (ph', srv', gstore S srv' c', c', Receiving sl')"
    by (simp add: turn_rel_def asks_new_def m ph'_def split: list.splits)
  have "party_at ext C (gstore S srv' c') cid fn bs (srv', c', Receiving sl') (ph', cl2, out)"
  proof (cases bls)
    case Nil
    then show ?thesis
      using receiving_here [OF rcv'] all out rbs_Nil by (simp add: ph'_def b_def next_chunks_def answer_flags_def)
  next
    case (Cons blk bls')
    then obtain rb rbs' where rbs: "rbs = rb # rbs'" using bufs by (cases rbs) simp_all
    have blk: "b = Some blk" "next_chunks (Some blk) = chunks_of blk" by (simp_all add: b_def Cons next_chunks_def)
    have facts: "chunks_of blk \<noteq> []" "length (chunks_of blk) \<le> BATCHSIZE" "length blk \<le> CHUNKSIZE * BATCHSIZE" "blocks_left ext C bls' rbs'"
      using left by (simp_all add: blocks_left_def Cons rbs)
    have "client_at (x_evp ext) (chunks_of blk) (answer_flags ext srv' (chunks_of blk)) cl2 l2 out"
      using s2 out facts by (auto simp: client_at_def asked_def blk answer_flags_def)
    moreover have "ph' = Sending rbs' l2" by (simp add: ph'_def rbs)
    moreover have "recs @ chs @ chunks_of blk @ concat (map chunks_of bls') = chunks_of bs" using all by (simp add: Cons)
    ultimately show ?thesis
      using receiving_here [OF rcv'] s2(2) facts(4) unfolding blk
      by (simp only: party_at.simps)
         (intro exI [of _ sl'] exI [of _ "recs @ chs"] exI [of _ "chunks_of blk"] exI [of _ "answer_flags ext srv' (chunks_of blk)"]
            exI [of _ bls'] conjI; simp)
  qed
  then show ?thesis unfolding turns_well_def prod.case using turn rel by blast
qed

lemma finish_turn:
  assumes can: "can_turn ext malloc N C rows same cid fn bs (srv, S, c, m) (EndingFile, cl, inbox)"
  shows "turns_well ext malloc N C rows same cid fn bs (srv, S, c, m) (EndingFile, cl, inbox)"
proof -
  have st: "gstore S srv c = S" and db: "db_ready ext rows same srv" and env: "env_ok ext N C" and uuid: "uuid_count srv < N"
    using can by (simp_all add: can_turn_def)
  obtain l where m: "m = Receiving l" and rcv: "receiving ext C S (recipe_key ext cid fn) (chunks_of bs) [] [] (srv, c, l)" and inbox: "inbox = []"
    using can by (auto simp: can_turn_def)
  obtain cl' f where f: "fileend_frame cl = (cl', f)" "end_frame f" using fileend_frame_ok by blast
  obtain srv' c' where run: "conn_receive ext f (srv, c, m) = Inr ((srv', c', AwaitOrder), [])"
    and i: "idle ext C S (srv', c')" and stored: "file_stored S (recipe_key ext cid fn) (chunks_of bs) (srv', c')"
    and fr: "conn_frame S (recipe_key ext cid fn) 1 (srv, c) (srv', c')"
    using conn_receive_end [OF env rcv uuid f(2), folded m] by (elim exE conjE) (rule that; assumption)
  have turn: "client_turn (x_evp ext) malloc (conn_receive ext) (Some bs) (EndingFile, cl, (srv, c, m), inbox) =
      Inr (Quitting None, cl', (srv', c', AwaitOrder), [])"
    using run by (simp add: end_turn_def f(1) net_send_def inbox)
  have "container_rel ext N (srv, c) (srv', c')"
  proof (rule handler_writes_own_containers [OF _ run])
    show "inj_on (x_uuid ext) {..<N}" using env by (simp add: env_ok_def)
    show "dataMsgType (header (m_outMsgBuffer c)) \<noteq> dataMsgType_val FILEEND \<or> m = AwaitLogin \<or> m = AwaitOrder \<or> m = Closed"
      using rcv by (simp add: receiving_def)
  qed
  moreover have "shared_step ext C {recipe_key ext cid fn} (srv, S) (srv', gstore S srv' c')"
    by (rule shared_stepI [where d = "m_db srv" and p = "m_mysqlPool srv" and k = 1, OF _ st idle_facts [OF i]]) (use fr in simp)
  moreover have "db_ready ext rows same srv'" "m_db srv' = m_db srv" "uuid_count srv' \<le> uuid_count srv + 1"
    using db fr by (simp_all add: conn_frame_def db_ready_def)
  moreover have "stored_in (gstore S srv' c') srv' (recipe_key ext cid fn) (chunks_of bs)" by (rule file_stored_in [OF stored refl])
  ultimately have "turn_rel ext N C rows same cid fn bs (EndingFile, srv, S, c, m) (Quitting None, srv', gstore S srv' c', c', AwaitOrder)"
    by (simp add: turn_rel_def asks_new_def m)
  moreover have "party_at ext C (gstore S srv' c') cid fn bs (srv', c', AwaitOrder) (Quitting None, cl', [])" using idle_here [OF i] by simp
  ultimately show ?thesis unfolding turns_well_def prod.case using turn by blast
qed

lemma quit_turn:
  assumes can: "can_turn ext malloc N C rows same cid fn bs (srv, S, c, m) (Quitting w, cl, inbox)"
  shows "turns_well ext malloc N C rows same cid fn bs (srv, S, c, m) (Quitting w, cl, inbox)"
proof -
  have p: "m = AwaitOrder" "idle ext C S (srv, c)" "inbox = []" and st: "gstore S srv c = S" and db: "db_ready ext rows same srv"
    using can by (simp_all add: can_turn_def)
  have "client_turn (x_evp ext) malloc (conn_receive ext) (Some bs) (Quitting w, cl, (srv, c, m), inbox) =
      Inr (Leaving w, cl, (srv, c, Closed), [send_control_message (x_malloc ext) QUITREP [] NONE])"
    using p by (simp add: net_send_def quit_received)
  moreover have "party_at ext C S cid fn bs (srv, c, Closed) (Leaving w, cl, [send_control_message (x_malloc ext) QUITREP [] NONE])"
    using p by simp
  moreover have "turn_rel ext N C rows same cid fn bs (Quitting w, srv, S, c, m) (Leaving w, srv, S, c, Closed)"
    using db p(1) by (intro turn_rel_quiet [OF st can_turn_facts [OF can]]) (simp_all add: asks_new_def)
  ultimately show ?thesis unfolding turns_well_def prod.case by blast
qed

lemma last_turn:
  assumes can: "can_turn ext malloc N C rows same cid fn bs (srv, S, c, m) (ph, cl, inbox)" and ph: "ph = Leaving w \<or> ph = Finished w"
  shows "turns_well ext malloc N C rows same cid fn bs (srv, S, c, m) (ph, cl, inbox)"
proof -
  have p: "m = Closed" "idle ext C S (srv, c)" and st: "gstore S srv c = S" and db: "db_ready ext rows same srv"
    using can ph by (auto simp: can_turn_def)
  obtain inbox' where "client_turn (x_evp ext) malloc (conn_receive ext) (Some bs) (ph, cl, (srv, c, m), inbox) =
      Inr (Finished w, cl, (srv, c, m), inbox')"
    using can ph quit_answered [of QUITREP] by (auto simp: can_turn_def leave_turn_def net_recv_def)
  moreover have "party_at ext C S cid fn bs (srv, c, m) (Finished w, cl, inbox')" using p by simp
  moreover have "turn_rel ext N C rows same cid fn bs (ph, srv, S, c, m) (Finished w, srv, S, c, m)"
    using db p(1) ph by (intro turn_rel_quiet [OF st can_turn_facts [OF can]]) (auto simp: asks_new_def)
  ultimately show ?thesis unfolding turns_well_def prod.case by blast
qed

lemma upload_turn:
  assumes "can_turn ext malloc N C rows same cid fn bs (srv, S, c, m) (ph, cl, inbox)"
  shows "turns_well ext malloc N C rows same cid fn bs (srv, S, c, m) (ph, cl, inbox)"
proof (cases ph)
  case Starting
  then show ?thesis using login_turn assms by blast
next
  case Operating
  then show ?thesis using request_turn assms by blast
next
  case AskedUpload
  then show ?thesis using answer_turn assms by blast
next
  case (Sending rbs l)
  then show ?thesis using part_turn assms by blast
next
  case EndingFile
  then show ?thesis using finish_turn assms by blast
next
  case AskedDownload
  then show ?thesis using assms by (simp add: can_turn_def)
next
  case (Quitting w)
  then show ?thesis using quit_turn assms by blast
qed (rule last_turn [OF assms]; blast)+

end
