(* ===== verification/Concurrent_System.thy ===== *)
theory Concurrent_System
  imports Upload_Turns File_Store
begin

text \<open>
  The whole server with many clients at once. A state is the server of theory \<open>Server_Loop\<close> and the clients that have
  connected, each with its phase and its receive buffer. An event is an arriving client (the event loop accepts it
  and queues its request), a worker that fetches a request, or a turn of a client, whose messages are handled by
  the worker that executes its connection. A schedule is any list of events; an event that cannot happen, such as a
  turn of a client no worker serves yet, leaves the state as it is, since the client waits. A message is
  handled as one step; the writer threads of the connection are drained in it.
\<close>

section \<open>The system\<close>

record party =
  pt_obj :: nat                            \<comment> \<open>the address of its \<open>ClientConn\<close>\<close>
  pt_job :: "u32 \<times> string \<times> byte list"   \<comment> \<open>client id, path and content\<close>
  pt_phase :: phase
  pt_client :: client
  pt_inbox :: "byte list list"

datatype sys_event =
    Arrive int ClientInfo_t "u32 \<times> string \<times> byte list"
  | Fetch nat
  | Turn nat

definition executes :: "nat \<Rightarrow> (stub_fn, nat) Request worker \<Rightarrow> bool" where
  "executes p th = (case th of Executing req \<Rightarrow> req_arg req = p | _ \<Rightarrow> False)"

definition worker_of :: "nat \<Rightarrow> (stub_fn, nat) Request worker list \<Rightarrow> nat" where
  "worker_of p ths = length (takeWhile (\<lambda>th. \<not> executes p th) ths)"

text \<open>After \<open>QUIT\<close> the client only receives, and its worker is free for others.\<close>

fun needs_server :: "phase \<Rightarrow> bool" where
  "needs_server (Leaving w) = False"
| "needs_server (Finished w) = False"
| "needs_server ph = True"

definition new_party :: "mem \<Rightarrow> nat \<Rightarrow> u32 \<times> string \<times> byte list \<Rightarrow> party" where
  "new_party malloc p job = \<lparr>pt_obj = p, pt_job = job, pt_phase = Starting,
     pt_client = client_of malloc (fst job) CHR ''u'' (fst (snd job)), pt_inbox = []\<rparr>"

definition party_turn :: "'db ext \<Rightarrow> mem \<Rightarrow> nat \<Rightarrow> party \<Rightarrow> 'db loop \<Rightarrow> crash + 'db loop \<times> party" where
  "party_turn ext malloc w p L =
     bindR (client_turn (x_evp ext) malloc (worker_receive ext w) (Some (snd (snd (pt_job p))))
              (pt_phase p, pt_client p, (L, pt_inbox p))) (\<lambda>(ph, cl, (L, inbox)).
     Inr (L, p\<lparr>pt_phase := ph, pt_client := cl, pt_inbox := inbox\<rparr>))"

fun sys_step :: "'db ext \<Rightarrow> mem \<Rightarrow> sys_event \<Rightarrow> 'db loop \<times> party list \<Rightarrow> crash + 'db loop \<times> party list" where
  "sys_step ext malloc (Arrive fd info job) (L, ps) =
     bindR (handle_event ext (Incoming fd info) L) (\<lambda>L'. Inr (L', ps @ [new_party malloc (next_obj L) job]))"
| "sys_step ext malloc (Fetch w) (L, ps) =
     (let ths = m_threads (m_threadPool L)
      in if w < length ths \<and> ths ! w = Fetching
         then (case worker_fetch w L of None \<Rightarrow> Inr (L, ps) | Some L' \<Rightarrow> Inr (L', ps))
         else Inr (L, ps))"
| "sys_step ext malloc (Turn i) (L, ps) =
     (if i < length ps
      then (let ths = m_threads (m_threadPool L); w = worker_of (pt_obj (ps ! i)) ths
            in if w < length ths \<or> \<not> needs_server (pt_phase (ps ! i))
               then bindR (party_turn ext malloc w (ps ! i) L) (\<lambda>(L', p'). Inr (L', ps[i := p']))
               else Inr (L, ps))
      else Inr (L, ps))"

fun sys_run :: "'db ext \<Rightarrow> mem \<Rightarrow> sys_event list \<Rightarrow> 'db loop \<times> party list \<Rightarrow> crash + 'db loop \<times> party list" where
  "sys_run ext malloc [] s = Inr s"
| "sys_run ext malloc (ev # evs) s = bindR (sys_step ext malloc ev s) (sys_run ext malloc evs)"

section \<open>Servers that answer alike, turn by turn\<close>

context peer_map
begin

lemma client_turn_map:
  "client_turn evp malloc peer' content (ph, cl, net_map g net) =
   mapR (\<lambda>(ph, cl, net). (ph, cl, net_map g net)) (client_turn evp malloc peer content (ph, cl, net))"
proof (cases ph)
  case (Sending rbs l)
  then show ?thesis
    by (cases rbs) (simp_all add: send_turn_def loop_receive_def net_maps bindR_assoc if_results cong: if_cong)
qed (simp_all add: begin_turn_def upload_answer_turn_def end_turn_def download_answer_turn_def leave_turn_def Let_def net_maps
    bindR_assoc if_results cong: if_cong)

end

section \<open>The pool\<close>

text \<open>The connections that wait in the queue or are executed.\<close>

definition executing :: "(stub_fn, nat) Request worker \<Rightarrow> nat list" where
  "executing th = (case th of Executing req \<Rightarrow> [req_arg req] | _ \<Rightarrow> [])"

definition in_pool :: "'db loop \<Rightarrow> nat list" where
  "in_pool L = map req_arg (m_queue (m_requests (m_threadPool L))) @ concat (map executing (m_threads (m_threadPool L)))"

definition waiting_parties :: "party list \<Rightarrow> nat set" where
  "waiting_parties ps = {pt_obj p | p. p \<in> set ps \<and> needs_server (pt_phase p)}"

definition workers_inv :: "nat \<Rightarrow> 'db loop \<times> party list \<Rightarrow> bool" where
  "workers_inv k = (\<lambda>(L, ps).
     distinct (in_pool L) \<and> set (in_pool L) = waiting_parties ps \<and> distinct (map pt_obj ps) \<and>
     pt_obj ` set ps \<subseteq> dom (heap L) \<and> (\<forall>p \<in> dom (heap L). p < next_obj L) \<and>
     m_threads (m_threadPool L) \<noteq> [] \<and> Returned \<notin> set (m_threads (m_threadPool L)) \<and>
     bq_inv (m_requests (m_threadPool L)) \<and> \<not> m_done (m_requests (m_threadPool L)) \<and>
     length (m_queue (m_requests (m_threadPool L))) + k \<le> m_size (m_requests (m_threadPool L)))"

lemma worker_of_lt: "worker_of p ths < length ths \<longleftrightarrow> p \<in> set (concat (map executing ths))"
  unfolding worker_of_def by (induction ths) (auto simp: executes_def executing_def split: worker.splits)

lemma worker_of_executes: "worker_of p ths < length ths \<Longrightarrow> \<exists>req. ths ! worker_of p ths = Executing req \<and> req_arg req = p"
  using nth_length_takeWhile [of "\<lambda>th. \<not> executes p th" ths]
  by (simp add: worker_of_def executes_def split: worker.splits)

lemma request_eq: "req_arg req = p \<Longrightarrow> req = \<lparr>req_func = stub, req_arg = p\<rparr>"
  by (cases req; cases "req_func req") (simp add: stub_fn.nchotomy)

text \<open>A turn against the pool's worker is a turn against the connection.\<close>

lemma serving_now:
  assumes "w < length (m_threads (m_threadPool L))" "m_threads (m_threadPool L) ! w = Executing req" "req_arg req = p"
    "heap L p = Some (c, m)" "m \<noteq> Closed"
  defines "pre \<equiv> take w (m_threads (m_threadPool L))" and "post \<equiv> drop (Suc w) (m_threads (m_threadPool L))"
  shows "serving pre post p L (m_server L, c, m) = L" "length pre = w"
proof -
  have "pre @ Executing \<lparr>req_func = stub, req_arg = p\<rparr> # post = m_threads (m_threadPool L)"
    using id_take_nth_drop [OF assms(1)] assms(2) request_eq [OF assms(3)] unfolding pre_def post_def by metis
  then show "serving pre post p L (m_server L, c, m) = L"
    using assms(4,5) by (simp add: serving_def fun_upd_idem Let_def)
  show "length pre = w" using assms(1) by (simp add: pre_def)
qed

lemma in_pool_serving:
  "in_pool (serving pre post p L (srv, c, m)) = map req_arg (m_queue (m_requests (m_threadPool L))) @
     concat (map executing pre) @ (if m = Closed then [] else [p]) @ concat (map executing post)"
  by (simp add: in_pool_def serving_def executing_def close_fd_def Let_def)

lemma serving_select [simp]:
  "heap (serving pre post p L (srv, c, m)) = (heap L)(p \<mapsto> (c, m))" "m_server (serving pre post p L (srv, c, m)) = srv"
  "next_obj (serving pre post p L (srv, c, m)) = next_obj L"
  "m_requests (m_threadPool (serving pre post p L (srv, c, m))) = m_requests (m_threadPool L)"
  by (simp_all add: serving_def close_fd_def Let_def)

lemma party_turn_serving:
  assumes "w < length (m_threads (m_threadPool L))" "m_threads (m_threadPool L) ! w = Executing req" "req_arg req = pt_obj p"
    "heap L (pt_obj p) = Some (c, m)" "m \<noteq> Closed"
    and turn: "client_turn (x_evp ext) malloc (conn_receive ext) (Some (snd (snd (pt_job p))))
      (pt_phase p, pt_client p, (m_server L, c, m), pt_inbox p) = Inr (ph', cl', (srv', c', m'), inbox')"
  shows "party_turn ext malloc w p L =
    Inr (serving (take w (m_threads (m_threadPool L))) (drop (Suc w) (m_threads (m_threadPool L))) (pt_obj p) L (srv', c', m'),
         p\<lparr>pt_phase := ph', pt_client := cl', pt_inbox := inbox'\<rparr>)"
proof -
  let ?pre = "take w (m_threads (m_threadPool L))" and ?post = "drop (Suc w) (m_threads (m_threadPool L))"
  note now = serving_now [OF assms(1-5)]
  have "client_turn (x_evp ext) malloc (worker_receive ext w) (Some (snd (snd (pt_job p))))
      (pt_phase p, pt_client p, net_map (serving ?pre ?post (pt_obj p) L) ((m_server L, c, m), pt_inbox p)) =
    Inr (ph', cl', net_map (serving ?pre ?post (pt_obj p) L) ((srv', c', m'), inbox'))"
    using served.client_turn_map [of "x_evp ext" malloc ext ?pre "Some (snd (snd (pt_job p)))" "pt_phase p" "pt_client p" ?post
        "pt_obj p" L "((m_server L, c, m), pt_inbox p)", unfolded now(2) turn] by simp
  then show ?thesis using now(1) by (simp add: party_turn_def)
qed

text \<open>The client's last turns receive only.\<close>

lemma party_turn_leaving:
  assumes "client_turn evp malloc peer content (ph, cl, s, inbox) = Inr (ph', cl', s', inbox')" "\<not> needs_server ph"
  shows "s' = s" "client_turn evp malloc peer' content (ph, cl, t, inbox) = Inr (ph', cl', t, inbox')" "\<not> needs_server ph'"
  using assms by (cases ph; auto simp: leave_turn_def net_recv_def bindR_eq_Inr_iff split: list.splits)+

lemma waiting_append: "waiting_parties (ps @ [p]) = waiting_parties ps \<union> (if needs_server (pt_phase p) then {pt_obj p} else {})"
  by (auto simp: waiting_parties_def)

lemma waiting_update:
  assumes "distinct (map pt_obj ps)" "i < length ps" "pt_obj p' = pt_obj (ps ! i)"
  shows "waiting_parties (ps[i := p']) = (waiting_parties ps - {pt_obj p'}) \<union> (if needs_server (pt_phase p') then {pt_obj p'} else {})"
proof -
  have other: "pt_obj (ps ! j) \<noteq> pt_obj p'" if "j < length ps" "j \<noteq> i" for j
    using that assms nth_eq_iff_index_eq [of "map pt_obj ps" j i] by simp
  have "x \<in> waiting_parties (ps[i := p']) \<longleftrightarrow>
      x \<in> (waiting_parties ps - {pt_obj p'}) \<union> (if needs_server (pt_phase p') then {pt_obj p'} else {})" for x
  proof -
    have "x \<in> waiting_parties qs \<longleftrightarrow> (\<exists>j < length qs. x = pt_obj (qs ! j) \<and> needs_server (pt_phase (qs ! j)))" for qs
      by (auto simp: waiting_parties_def in_set_conv_nth)
    then show ?thesis using other assms(2,3) by (auto simp: nth_list_update) metis+
  qed
  then show ?thesis by blast
qed

lemma map_obj_update: "pt_obj p' = pt_obj (ps ! i) \<Longrightarrow> map pt_obj (ps[i := p']) = map pt_obj ps"
  by (simp add: map_update list_update_same_conv) (metis list_update_id map_update nth_map)

lemma workers_inv_update:
  assumes "workers_inv k (L, ps)" "i < length ps" "pt_obj p' = pt_obj (ps ! i)"
    and "distinct (in_pool L')" "set (in_pool L') = (waiting_parties ps - {pt_obj p'}) \<union> (if needs_server (pt_phase p') then {pt_obj p'} else {})"
    and "dom (heap L') = dom (heap L)" "next_obj L' = next_obj L" "m_requests (m_threadPool L') = m_requests (m_threadPool L)"
    and "m_threads (m_threadPool L') \<noteq> []" "Returned \<notin> set (m_threads (m_threadPool L'))"
  shows "workers_inv k (L', ps[i := p'])"
proof -
  have objs: "map pt_obj (ps[i := p']) = map pt_obj ps" using assms(3) by (rule map_obj_update)
  then have "pt_obj ` set (ps[i := p']) = pt_obj ` set ps" by (metis set_map)
  then show ?thesis
    using assms waiting_update [of ps i p'] objs by (simp add: workers_inv_def)
qed

text \<open>An arriving client is queued, and its connection waits for the login.\<close>

lemma arrive_workers:
  assumes inv: "workers_inv (Suc k) (L, ps)" and new: "ClientConn_new ext fd info (m_server L) = Inr (srv, c)"
  shows "\<exists>L'. sys_step ext malloc (Arrive fd info job) (L, ps) = Inr (L', ps @ [new_party malloc (next_obj L) job]) \<and>
           workers_inv k (L', ps @ [new_party malloc (next_obj L) job]) \<and> m_server L' = srv \<and>
           heap L' = (heap L)(next_obj L \<mapsto> (c, AwaitLogin)) \<and> heap L (next_obj L) = None"
proof -
  let ?p = "new_party malloc (next_obj L) job" and ?r = "\<lparr>req_func = stub, req_arg = next_obj L\<rparr>"
  have q: "bq_inv (m_requests (m_threadPool L))" "length (m_queue (m_requests (m_threadPool L))) < m_size (m_requests (m_threadPool L))"
    using inv by (simp_all add: workers_inv_def)
  obtain q' where push: "push ?r (m_requests (m_threadPool L)) = Some q'" and q': "m_queue q' = m_queue (m_requests (m_threadPool L)) @ [?r]"
    "bq_inv q'" "m_done q' = m_done (m_requests (m_threadPool L))" "m_size q' = m_size (m_requests (m_threadPool L))"
  proof (rule that [of "(m_requests (m_threadPool L))\<lparr>m_queue := m_queue (m_requests (m_threadPool L)) @ [?r], m_isEmpty := False\<rparr>"])
  qed (use q in \<open>simp_all add: push_def bq_inv_def\<close>)
  obtain L' where L': "handle_event ext (Incoming fd info) L = Inr L'" "m_server L' = srv" "next_obj L' = next_obj L + 1"
    "heap L' = (heap L)(next_obj L \<mapsto> (c, AwaitLogin))" "m_threadPool L' = (m_threadPool L)\<lparr>m_requests := q'\<rparr>"
    using new push by (cases "m_clients L fd") (simp_all add: accept_client_def insert_client_def tp_append_def Let_def)
  have none: "heap L (next_obj L) = None"
    using inv by (cases "heap L (next_obj L)") (auto simp: workers_inv_def)
  then have fresh: "next_obj L \<notin> pt_obj ` set ps" using inv by (auto simp: workers_inv_def)
  then have fresh_wait: "next_obj L \<notin> waiting_parties ps" by (auto simp: waiting_parties_def)
  have pool: "mset (in_pool L') = add_mset (next_obj L) (mset (in_pool L))" by (simp add: in_pool_def L' q')
  then have "distinct (in_pool L')" "set (in_pool L') = insert (next_obj L) (set (in_pool L))"
    using inv fresh_wait by (simp_all add: distinct_count_atmost_1 workers_inv_def flip: set_mset_mset count_mset)
  then have "workers_inv k (L', ps @ [?p])"
    using inv fresh q' L' by (auto simp: workers_inv_def waiting_append new_party_def less_Suc_eq)
  then show ?thesis using L' none by simp
qed

lemma executing_update:
  assumes "w < length ths"
  shows "mset (concat (map executing (ths[w := th]))) + mset (executing (ths ! w)) = mset (concat (map executing ths)) + mset (executing th)"
proof -
  have "ths[w := th] = take w ths @ th # drop (Suc w) ths" using assms by (rule upd_conv_take_nth_drop)
  moreover have "ths = take w ths @ ths ! w # drop (Suc w) ths" using assms by (rule id_take_nth_drop)
  then have "mset (concat (map executing ths)) = mset (concat (map executing (take w ths @ ths ! w # drop (Suc w) ths)))" by simp
  ultimately show ?thesis by simp
qed

lemma fetch_workers:
  assumes inv: "workers_inv k (L, ps)"
  shows "\<exists>L'. sys_step ext malloc (Fetch w) (L, ps) = Inr (L', ps) \<and> workers_inv k (L', ps) \<and>
           m_server L' = m_server L \<and> heap L' = heap L"
proof (cases "w < length (m_threads (m_threadPool L)) \<and> m_threads (m_threadPool L) ! w = Fetching")
  case False
  then show ?thesis using inv by (auto simp: Let_def)
next
  case True
  note q = inv [unfolded workers_inv_def prod.case]
  show ?thesis
  proof (cases "pop (m_requests (m_threadPool L))")
    case (Popped r q')
    define L' where "L' = L\<lparr>m_threadPool := (m_threadPool L)\<lparr>m_requests := q', m_threads := (m_threads (m_threadPool L))[w := Executing r]\<rparr>\<rparr>"
    have step: "sys_step ext malloc (Fetch w) (L, ps) = Inr (L', ps)"
      using True Popped by (simp add: worker_fetch_def tp_fetch_def L'_def Let_def)
    have q': "m_queue (m_requests (m_threadPool L)) = r # m_queue q'" "bq_inv q'" "m_done q' = m_done (m_requests (m_threadPool L))"
      "m_size q' = m_size (m_requests (m_threadPool L))"
      using pop_Popped [OF Popped] q by auto
    have "mset (in_pool L') = mset (in_pool L)"
      using executing_update [of w "m_threads (m_threadPool L)" "Executing r"] True
      by (simp add: in_pool_def L'_def q' executing_def)
    then have "distinct (in_pool L') = distinct (in_pool L)" "set (in_pool L') = set (in_pool L)"
      using mset_eq_imp_distinct_iff mset_eq_setD by blast+
    moreover have "Returned \<notin> set (m_threads (m_threadPool L'))" "m_threads (m_threadPool L') \<noteq> []"
      using q returned_update [of "m_threads (m_threadPool L)" w "Executing r"] by (auto simp: L'_def)
    ultimately have "workers_inv k (L', ps)" using q q' by (simp add: workers_inv_def) (simp add: L'_def)
    then show ?thesis using step by (simp add: L'_def)
  next
    case PopFalse
    then show ?thesis using q by (simp add: pop_PopFalse)
  next
    case PopWait
    then show ?thesis using True inv by (simp add: worker_fetch_def tp_fetch_def Let_def)
  qed
qed

text \<open>A turn: without a worker nothing happens, otherwise the connection and the client move together.\<close>

lemma turn_workers:
  assumes inv: "workers_inv k (L, ps)" and i: "i < length ps" and conn: "heap L (pt_obj (ps ! i)) = Some (c, m)"
    and open_conn: "m = Closed \<longleftrightarrow> \<not> needs_server (pt_phase (ps ! i))" "m' = Closed \<longleftrightarrow> \<not> needs_server ph'"
    and turn: "client_turn (x_evp ext) malloc (conn_receive ext) (Some (snd (snd (pt_job (ps ! i)))))
      (pt_phase (ps ! i), pt_client (ps ! i), (m_server L, c, m), pt_inbox (ps ! i)) = Inr (ph', cl', (srv', c', m'), inbox')"
  defines "p' \<equiv> (ps ! i)\<lparr>pt_phase := ph', pt_client := cl', pt_inbox := inbox'\<rparr>"
  shows "sys_step ext malloc (Turn i) (L, ps) = Inr (L, ps) \<and> pt_obj (ps ! i) \<notin> set (concat (map executing (m_threads (m_threadPool L)))) \<and>
       needs_server (pt_phase (ps ! i)) \<or>
     (\<exists>L'. sys_step ext malloc (Turn i) (L, ps) = Inr (L', ps[i := p']) \<and> workers_inv k (L', ps[i := p']) \<and>
        m_server L' = srv' \<and> heap L' = (heap L)(pt_obj (ps ! i) \<mapsto> (c', m')))"
proof -
  let ?p = "ps ! i" and ?ths = "m_threads (m_threadPool L)"
  define w where "w = worker_of (pt_obj ?p) ?ths"
  note q = inv [unfolded workers_inv_def prod.case]
  show ?thesis
  proof (cases "needs_server (pt_phase ?p)")
    case False
    note leave = party_turn_leaving [OF turn False]
    have "party_turn ext malloc w ?p L = Inr (L, p')"
      using leave(2) [of "worker_receive ext w" L] by (simp add: party_turn_def p'_def)
    then have "sys_step ext malloc (Turn i) (L, ps) = Inr (L, ps[i := p'])" using i False by (simp add: w_def Let_def)
    moreover have "pt_obj ?p \<notin> waiting_parties ps"
    proof
      assume "pt_obj ?p \<in> waiting_parties ps"
      then obtain j where "j < length ps" "pt_obj (ps ! j) = pt_obj ?p" "needs_server (pt_phase (ps ! j))"
        by (auto simp: waiting_parties_def in_set_conv_nth)
      then show False using False q i nth_eq_iff_index_eq [of "map pt_obj ps" j i] by simp
    qed
    then have "workers_inv k (L, ps[i := p'])"
      using q leave(3) by (intro workers_inv_update [OF inv i]) (simp_all add: p'_def)
    moreover have "srv' = m_server L" "c' = c" "m' = m" using leave(1) by simp_all
    ultimately show ?thesis using conn by (simp add: fun_upd_idem)
  next
    case True
    show ?thesis
    proof (cases "w < length ?ths")
      case False
      then show ?thesis using i True worker_of_lt [of "pt_obj ?p" ?ths] by (simp add: w_def Let_def)
    next
      case w: True
      obtain req where req: "?ths ! w = Executing req" "req_arg req = pt_obj ?p" using worker_of_executes w by (metis w_def)
      define L' where "L' = serving (take w ?ths) (drop (Suc w) ?ths) (pt_obj ?p) L (srv', c', m')"
      have "m \<noteq> Closed" using open_conn(1) True by simp
      then have "party_turn ext malloc w ?p L = Inr (L', p')"
        unfolding L'_def p'_def by (rule party_turn_serving [OF w req conn _ turn])
      then have step: "sys_step ext malloc (Turn i) (L, ps) = Inr (L', ps[i := p'])" using i w by (simp add: w_def Let_def)
      have pool: "in_pool L = map req_arg (m_queue (m_requests (m_threadPool L))) @ concat (map executing (take w ?ths)) @ [pt_obj ?p] @
          concat (map executing (drop (Suc w) ?ths))"
      proof -
        have "concat (map executing ?ths) = concat (map executing (take w ?ths @ ?ths ! w # drop (Suc w) ?ths))"
          using id_take_nth_drop [OF w] by simp
        then show ?thesis by (simp add: in_pool_def req executing_def)
      qed
      have "distinct (in_pool L')" using q pool by (auto simp: L'_def in_pool_serving)
      moreover have "set (in_pool L') = (set (in_pool L) - {pt_obj ?p}) \<union> (if m' = Closed then {} else {pt_obj ?p})"
        using q unfolding pool by (auto simp: L'_def in_pool_serving)
      then have "set (in_pool L') = (waiting_parties ps - {pt_obj p'}) \<union> (if needs_server (pt_phase p') then {pt_obj p'} else {})"
        using q open_conn(2) by (simp add: p'_def)
      moreover have "Returned \<notin> set (m_threads (m_threadPool L'))" "m_threads (m_threadPool L') \<noteq> []"
        using q by (auto simp: L'_def serving_def close_fd_def Let_def dest: in_set_takeD in_set_dropD)
      ultimately have "workers_inv k (L', ps[i := p'])"
        using conn by (intro workers_inv_update [OF inv i]) (auto simp: L'_def p'_def)
      then show ?thesis using step by (auto simp: L'_def)
    qed
  qed
qed

end
