(* ===== verification/Concurrent_Uploads.thy ===== *)
theory Concurrent_Uploads
  imports Concurrent_System
begin

text \<open>
  Uploads that overlap. The invariant of the system has four parts: the shared store (\<open>shared_inv\<close>), each client in step
  with its connection (\<open>party_inv\<close>), the table of files (\<open>table_inv\<close>) and the pool of workers (\<open>workers_inv\<close>). The
  table is the abstract one of theory \<open>File_Store\<close> after the uploads in the order in which their requests were
  answered, so the system refines it: \<open>uploads_linearize\<close>.
\<close>

section \<open>The invariant\<close>

definition job_cid :: "party \<Rightarrow> u32" where "job_cid p = fst (pt_job p)"
definition job_file :: "party \<Rightarrow> string" where "job_file p = get_file_name (fst (snd (pt_job p)))"
definition job_bytes :: "party \<Rightarrow> byte list" where "job_bytes p = snd (snd (pt_job p))"
definition job_key :: "'db ext \<Rightarrow> party \<Rightarrow> string" where "job_key ext p = recipe_key ext (job_cid p) (job_file p)"

definition job_command :: "u32 \<times> string \<times> byte list \<Rightarrow> command" where
  "job_command = (\<lambda>(cid, path, bs). Upload cid path bs)"

definition shared_inv ::
    "'db ext \<Rightarrow> nat \<Rightarrow> byte list set \<Rightarrow> ('db \<Rightarrow> int \<Rightarrow> string \<Rightarrow> nat) \<Rightarrow> (string \<Rightarrow> string \<Rightarrow> bool) \<Rightarrow> nat \<Rightarrow> cstore \<Rightarrow>
     'db loop \<times> party list \<Rightarrow> bool" where
  "shared_inv ext N C rows same k S = (\<lambda>(L, ps).
     env_ok ext N C \<and> db_ready ext rows same (m_server L) \<and> covers ext (m_server L) (heap L) S \<and>
     index_sound ext C S (m_all_chunks (m_server L)) \<and>
     (\<forall>q c m. heap L q = Some (c, m) \<longrightarrow> q \<notin> pt_obj ` set ps \<longrightarrow> occupied (m_containerBuffer c) = 0) \<and>
     uuid_count (m_server L) + sum_list (map (\<lambda>p. need (job_bytes p) (pt_phase p)) ps) + k \<le> N)"

definition job_ok :: "byte list set \<Rightarrow> (u32 \<times> string) set \<Rightarrow> u32 \<times> string \<times> byte list \<Rightarrow> bool" where
  "job_ok C K = (\<lambda>(cid, path, bs). command_ok K C (Upload cid path bs))"

definition party_inv ::
    "'db ext \<Rightarrow> byte list set \<Rightarrow> (u32 \<times> string) set \<Rightarrow> cstore \<Rightarrow> 'db loop \<Rightarrow> party \<Rightarrow> bool" where
  "party_inv ext C K S L p \<longleftrightarrow> job_ok C K (pt_job p) \<and>
     (\<exists>c m. heap L (pt_obj p) = Some (c, m) \<and>
        party_at ext C S (job_cid p) (job_file p) (job_bytes p) (m_server L, c, m) (pt_phase p, pt_client p, pt_inbox p))"

definition writer :: "'db loop \<Rightarrow> party \<Rightarrow> bool" where
  "writer L p \<longleftrightarrow> (\<exists>c m. heap L (pt_obj p) = Some (c, m) \<and> is_receiving m)"

definition asked_already :: "party \<Rightarrow> bool" where
  "asked_already p \<longleftrightarrow> pt_phase p \<noteq> Starting \<and> pt_phase p \<noteq> Operating"

definition claimed :: "nat list \<Rightarrow> file_table \<Rightarrow> party list \<Rightarrow> file_table" where
  "claimed order files ps = fst (spec_run (map (\<lambda>i. job_command (pt_job (ps ! i))) order) files)"

text \<open>An entry of the table is stored, or a client is still sending it.\<close>

definition entry_inv ::
    "'db ext \<Rightarrow> byte list set \<Rightarrow> ('db \<Rightarrow> int \<Rightarrow> string \<Rightarrow> nat) \<Rightarrow> cstore \<Rightarrow> 'db loop \<times> party list \<Rightarrow> u32 \<Rightarrow> string \<Rightarrow> byte list \<Rightarrow> bool" where
  "entry_inv ext C rows S = (\<lambda>(L, ps) cid fn bs.
     rows (m_db (m_server L)) (sint cid) fn = 1 \<and> set (chunks_of bs) \<subseteq> C \<and>
     (stored_in S (m_server L) (recipe_key ext cid fn) (chunks_of bs) \<or>
      (\<exists>i < length ps. writer L (ps ! i) \<and> job_cid (ps ! i) = cid \<and> job_file (ps ! i) = fn)))"

definition table_inv ::
    "'db ext \<Rightarrow> byte list set \<Rightarrow> ('db \<Rightarrow> int \<Rightarrow> string \<Rightarrow> nat) \<Rightarrow> (u32 \<times> string) set \<Rightarrow> file_table \<Rightarrow> nat list \<Rightarrow> cstore \<Rightarrow>
     'db loop \<times> party list \<Rightarrow> bool" where
  "table_inv ext C rows K files order S = (\<lambda>(L, ps).
     distinct order \<and> set order = {i. i < length ps \<and> asked_already (ps ! i)} \<and>
     (\<forall>cid fn. (cid, fn) \<in> K \<longrightarrow> (case claimed order files ps (cid, fn) of
        None \<Rightarrow> rows (m_db (m_server L)) (sint cid) fn = 0
      | Some bs \<Rightarrow> entry_inv ext C rows S (L, ps) cid fn bs)) \<and>
     (\<forall>i < length ps. writer L (ps ! i) \<longrightarrow>
        claimed order files ps (job_cid (ps ! i), job_file (ps ! i)) = Some (job_bytes (ps ! i))) \<and>
     (\<forall>i < length ps. \<forall>j < length ps. writer L (ps ! i) \<longrightarrow> writer L (ps ! j) \<longrightarrow>
        job_cid (ps ! i) = job_cid (ps ! j) \<longrightarrow> job_file (ps ! i) = job_file (ps ! j) \<longrightarrow> i = j))"

text \<open>A file of the table before the first client stays on disk, and no client sends it.\<close>

definition kept_inv :: "'db ext \<Rightarrow> (u32 \<times> string) set \<Rightarrow> file_table \<Rightarrow> 'db loop \<times> party list \<Rightarrow> bool" where
  "kept_inv ext K files = (\<lambda>(L, ps). \<forall>cid fn bs. (cid, fn) \<in> K \<longrightarrow> files (cid, fn) = Some bs \<longrightarrow>
     on_disk (recipe_key ext cid fn) (chunks_of bs) (m_server L) \<and>
     (\<forall>p \<in> set ps. writer L p \<longrightarrow> (job_cid p, job_file p) \<noteq> (cid, fn)))"

definition system_inv ::
    "'db ext \<Rightarrow> mem \<Rightarrow> nat \<Rightarrow> byte list set \<Rightarrow> ('db \<Rightarrow> int \<Rightarrow> string \<Rightarrow> nat) \<Rightarrow> (string \<Rightarrow> string \<Rightarrow> bool) \<Rightarrow>
     (u32 \<times> string) set \<Rightarrow> file_table \<Rightarrow> nat list \<Rightarrow> nat \<Rightarrow> nat \<Rightarrow> 'db loop \<times> party list \<Rightarrow> bool" where
  "system_inv ext malloc N C rows same K files order k n s \<longleftrightarrow> names_ok ext malloc same K \<and> workers_inv n s \<and> kept_inv ext K files s \<and>
     (\<exists>S. shared_inv ext N C rows same k S s \<and> (\<forall>p \<in> set (snd s). party_inv ext C K S (fst s) p) \<and>
        table_inv ext C rows K files order S s)"

section \<open>Frames\<close>

lemma table_invI:
  assumes "distinct order" "set order = {i. i < length ps \<and> asked_already (ps ! i)}"
    and "\<And>cid fn. (cid, fn) \<in> K \<Longrightarrow> claimed order files ps (cid, fn) = None \<Longrightarrow> rows (m_db (m_server L)) (sint cid) fn = 0"
    and "\<And>cid fn bs. (cid, fn) \<in> K \<Longrightarrow> claimed order files ps (cid, fn) = Some bs \<Longrightarrow> entry_inv ext C rows S (L, ps) cid fn bs"
    and "\<And>i. i < length ps \<Longrightarrow> writer L (ps ! i) \<Longrightarrow>
      claimed order files ps (job_cid (ps ! i), job_file (ps ! i)) = Some (job_bytes (ps ! i))"
    and "\<And>i j. i < length ps \<Longrightarrow> j < length ps \<Longrightarrow> writer L (ps ! i) \<Longrightarrow> writer L (ps ! j) \<Longrightarrow>
      job_cid (ps ! i) = job_cid (ps ! j) \<Longrightarrow> job_file (ps ! i) = job_file (ps ! j) \<Longrightarrow> i = j"
  shows "table_inv ext C rows K files order S (L, ps)"
  using assms by (simp add: table_inv_def split: option.splits)

lemma table_invD:
  assumes "table_inv ext C rows K files order S (L, ps)"
  shows "distinct order" "set order = {i. i < length ps \<and> asked_already (ps ! i)}"
    and "(cid, fn) \<in> K \<Longrightarrow> claimed order files ps (cid, fn) = None \<Longrightarrow> rows (m_db (m_server L)) (sint cid) fn = 0"
    and "(cid, fn) \<in> K \<Longrightarrow> claimed order files ps (cid, fn) = Some bs \<Longrightarrow> entry_inv ext C rows S (L, ps) cid fn bs"
    and "i < length ps \<Longrightarrow> writer L (ps ! i) \<Longrightarrow>
      claimed order files ps (job_cid (ps ! i), job_file (ps ! i)) = Some (job_bytes (ps ! i))"
    and "i < length ps \<Longrightarrow> j < length ps \<Longrightarrow> writer L (ps ! i) \<Longrightarrow> writer L (ps ! j) \<Longrightarrow>
      job_cid (ps ! i) = job_cid (ps ! j) \<Longrightarrow> job_file (ps ! i) = job_file (ps ! j) \<Longrightarrow> i = j"
  using assms by (fastforce simp: table_inv_def split: option.splits)+

lemma job_simps [simp]:
  "job_cid (p\<lparr>pt_phase := ph, pt_client := cl, pt_inbox := b\<rparr>) = job_cid p"
  "job_file (p\<lparr>pt_phase := ph, pt_client := cl, pt_inbox := b\<rparr>) = job_file p"
  "job_bytes (p\<lparr>pt_phase := ph, pt_client := cl, pt_inbox := b\<rparr>) = job_bytes p"
  "job_key ext (p\<lparr>pt_phase := ph, pt_client := cl, pt_inbox := b\<rparr>) = job_key ext p"
  by (simp_all add: job_cid_def job_file_def job_bytes_def job_key_def)

lemma claimed_jobs: "(\<And>i. i \<in> set order \<Longrightarrow> pt_job (ps' ! i) = pt_job (ps ! i)) \<Longrightarrow> claimed order files ps' = claimed order files ps"
  unfolding claimed_def by (metis (no_types, lifting) map_cong)

lemma spec_run_snoc: "fst (spec_run (cmds @ [cmd]) files) = fst (spec_command cmd (fst (spec_run cmds files)))"
  by (induction cmds arbitrary: files) (simp_all add: Let_def split_beta)

lemma claimed_snoc:
  "claimed (order @ [i]) files ps =
   (let tab = claimed order files ps; p = ps ! i
    in if tab (job_cid p, job_file p) = None then tab((job_cid p, job_file p) \<mapsto> job_bytes p) else tab)"
  by (cases "pt_job (ps ! i)")
     (simp add: claimed_def spec_run_snoc job_command_def job_cid_def job_file_def job_bytes_def Let_def)

lemma names_key_inj:
  assumes "names_ok ext malloc same K" "(cid, fn) \<in> K" "(cid', fn') \<in> K" "recipe_key ext cid fn = recipe_key ext cid' fn'"
  shows "cid = cid' \<and> fn = fn'"
  using assms inj_onD [of "\<lambda>(cid, fn). recipe_key ext cid fn" K "(cid, fn)" "(cid', fn')"] by (auto simp: names_ok_def)

lemma insert_rows:
  assumes "db_ready ext rows same srv" "names_ok ext malloc same K" "(cid, fn) \<in> K" "(cid', fn') \<in> K"
  shows "rows (fst (x_exec ext db (insert_query cid fn))) (sint cid') fn' =
    rows db (sint cid') fn' + (if (cid', fn') = (cid, fn) then 1 else 0)"
proof -
  have "mysql_files (x_exec ext) rows same" "plain_name fn"
    using assms(1-3) by (auto simp: db_ready_def names_ok_def sendable_def name_ok_def)
  then have "rows (fst (x_exec ext db (insert_query cid fn))) (sint cid') fn' =
      rows db (sint cid') fn' + (if sint cid' = sint cid \<and> same fn' fn then 1 else 0)" "same fn fn"
    by (simp_all add: mysql_files_def)
  moreover have "(sint cid' = sint cid \<and> same fn' fn) \<longleftrightarrow> (cid', fn') = (cid, fn)"
    using assms(2-4) \<open>same fn fn\<close> by (auto simp: names_ok_def dest: signed_word_eqI)
  ultimately show ?thesis by simp
qed

lemma job_key_in: "job_ok C K (pt_job p) \<Longrightarrow> (job_cid p, job_file p) \<in> K \<and> set (chunks_of (job_bytes p)) \<subseteq> C"
  by (cases "pt_job p") (simp add: job_ok_def job_cid_def job_file_def job_bytes_def)

text \<open>The other clients.\<close>

lemma party_inv_other:
  assumes p: "party_inv ext C K S L p" and env: "env_ok ext N C" and cov: "covers ext (m_server L) (heap L) S"
    and cov': "covers ext (m_server L') (heap L') S'" and same: "heap L' (pt_obj p) = heap L (pt_obj p)"
    and step: "shared_step ext C W (m_server L, S) (m_server L', S')" and W: "writer L p \<Longrightarrow> job_key ext p \<notin> W"
  shows "party_inv ext C K S' L' p"
proof -
  obtain c m where c: "heap L (pt_obj p) = Some (c, m)"
    "party_at ext C S (job_cid p) (job_file p) (job_bytes p) (m_server L, c, m) (pt_phase p, pt_client p, pt_inbox p)"
    using p by (auto simp: party_inv_def)
  have "gstore S (m_server L) c = S" "gstore S' (m_server L') c = S'"
    using covers_gstore [OF cov c(1)] covers_gstore [OF cov'] c(1) same by auto
  then have "party_at ext C S' (job_cid p) (job_file p) (job_bytes p) (m_server L', c, m) (pt_phase p, pt_client p, pt_inbox p)"
    using party_other [OF env c(2) _ _ step] W c(1) by (auto simp: writer_def job_key_def)
  then show ?thesis using p c(1) same by (auto simp: party_inv_def)
qed

lemma entry_inv_other:
  assumes e: "entry_inv ext C rows S (L, ps) cid fn bs" and step: "shared_step ext C W (m_server L, S) (m_server L', S')"
    and W: "recipe_key ext cid fn \<notin> W"
    and rows: "rows (m_db (m_server L')) (sint cid) fn = rows (m_db (m_server L)) (sint cid) fn"
    and ps: "\<And>i. i < length ps \<Longrightarrow> writer L (ps ! i) \<Longrightarrow> job_cid (ps ! i) = cid \<Longrightarrow> job_file (ps ! i) = fn \<Longrightarrow>
      i < length ps' \<and> writer L' (ps' ! i) \<and> pt_job (ps' ! i) = pt_job (ps ! i)"
  shows "entry_inv ext C rows S' (L', ps') cid fn bs"
proof -
  have "stored_in S' (m_server L') (recipe_key ext cid fn) (chunks_of bs)"
    if "stored_in S (m_server L) (recipe_key ext cid fn) (chunks_of bs)"
    using stored_in_other [OF that chunks_of_facts(3) step W] .
  moreover have "\<exists>i < length ps'. writer L' (ps' ! i) \<and> job_cid (ps' ! i) = cid \<and> job_file (ps' ! i) = fn"
    if "i < length ps" "writer L (ps ! i)" "job_cid (ps ! i) = cid" "job_file (ps ! i) = fn" for i
    using ps [OF that] that by (auto simp: job_cid_def job_file_def intro!: exI [of _ i])
  ultimately show ?thesis using e rows by (auto simp: entry_inv_def)
qed

section \<open>The events\<close>

fun job_cost :: "u32 \<times> string \<times> byte list \<Rightarrow> nat" where
  "job_cost (cid, path, bs) = cost (Upload cid path bs)"

lemma new_party_simps [simp]:
  "pt_obj (new_party malloc p job) = p" "pt_job (new_party malloc p job) = job" "pt_phase (new_party malloc p job) = Starting"
  "pt_client (new_party malloc p job) = client_of malloc (fst job) CHR ''u'' (fst (snd job))" "pt_inbox (new_party malloc p job) = []"
  by (simp_all add: new_party_def)

lemma shared_step_accept:
  assumes "store_keeps S S'" "index_sound ext C S' (m_all_chunks srv')" "dom S' \<subseteq> x_uuid ext ` {..<uuid_count srv'}"
    and "m_all_chunks srv' = m_all_chunks srv" "recipes_dir srv' = recipes_dir srv"
  shows "shared_step ext C {} (srv, S) (srv', S')"
  using assms by (simp add: shared_step_def)

lemma arrive_inv:
  assumes inv: "system_inv ext malloc N C rows same K files order (k + job_cost job) (Suc n) (L, ps)" and job: "job_ok C K job"
  shows "\<exists>L'. sys_step ext malloc (Arrive fd info job) (L, ps) = Inr (L', ps @ [new_party malloc (next_obj L) job]) \<and>
           system_inv ext malloc N C rows same K files order k n (L', ps @ [new_party malloc (next_obj L) job])"
proof -
  let ?p = "new_party malloc (next_obj L) job" and ?srv = "(m_server L)\<lparr>uuid_count := uuid_count (m_server L) + 1\<rparr>"
  obtain S where wk: "workers_inv (Suc n) (L, ps)" and names: "names_ok ext malloc same K" and kept: "kept_inv ext K files (L, ps)"
    and sh: "shared_inv ext N C rows same (k + job_cost job) S (L, ps)"
    and parties: "\<forall>p \<in> set ps. party_inv ext C K S L p" and tab: "table_inv ext C rows K files order S (L, ps)"
    using inv by (auto simp: system_inv_def)
  obtain cid path bs where j: "job = (cid, path, bs)" by (cases job)
  have env: "env_ok ext N C" and cov: "covers ext (m_server L) (heap L) S" and sound: "index_sound ext C S (m_all_chunks (m_server L))"
    and uuid: "uuid_count (m_server L) < N" using sh by (simp_all add: shared_inv_def j)
  have "heap L (next_obj L) = None" using wk by (cases "heap L (next_obj L)") (auto simp: workers_inv_def)
  then have objs: "next_obj L \<notin> pt_obj ` set ps" "heap L (next_obj L) = None" using wk by (auto simp: workers_inv_def)
  note this(2)
  from covers_accept [OF env cov sound uuid this, of fd info AwaitLogin] obtain c where
    c: "ClientConn_new ext fd info (m_server L) = Inr (?srv, c)" "idle ext C S (?srv, c)" "store_keeps S (gstore S ?srv c)"
      "covers ext ?srv ((heap L)(next_obj L \<mapsto> (c, AwaitLogin))) (gstore S ?srv c)" by blast
  define S' where "S' = gstore S ?srv c"
  obtain L' where L': "sys_step ext malloc (Arrive fd info job) (L, ps) = Inr (L', ps @ [?p])" "workers_inv n (L', ps @ [?p])"
    "m_server L' = ?srv" "heap L' = (heap L)(next_obj L \<mapsto> (c, AwaitLogin))"
    using arrive_workers [OF wk c(1)] by blast
  have facts: "index_sound ext C S' (m_all_chunks ?srv)" "dom S' \<subseteq> x_uuid ext ` {..<uuid_count ?srv}"
    using idle_facts [OF c(2)] by (simp_all add: S'_def)
  have step: "shared_step ext C {} (m_server L, S) (m_server L', S')"
    using c(3) facts by (intro shared_step_accept) (simp_all add: L'(3) S'_def)
  have cov': "covers ext (m_server L') (heap L') S'" using c(4) by (simp add: L'(3,4) S'_def)
  have sh': "shared_inv ext N C rows same k S' (L', ps @ [?p])"
    using sh cov' facts by (simp add: shared_inv_def L'(3,4) db_ready_def j job_bytes_def)
  have same: "heap L' (pt_obj p) = heap L (pt_obj p)" if "p \<in> set ps" for p
    using that objs(1) by (simp add: L'(4)) (metis imageI)
  have old: "party_inv ext C K S' L' p" if "p \<in> set ps" for p
    using that parties by (intro party_inv_other [OF _ env cov cov' same step]) simp_all
  have "idle ext C S' (?srv, c)" unfolding S'_def by (rule idle_here [OF c(2)])
  then have new: "party_inv ext C K S' L' ?p"
    using job by (simp add: party_inv_def L'(3,4) j job_cid_def job_file_def)
  have at: "(ps @ [?p]) ! i = ps ! i" if "i < length ps" for i using that by (simp add: nth_append)
  have wr: "i < length ps \<and> writer L (ps ! i)" if "i < length (ps @ [?p])" "writer L' ((ps @ [?p]) ! i)" for i
  proof (cases "i < length ps")
    case True
    then show ?thesis using that same by (simp add: writer_def at)
  next
    case False
    then have "i = length ps" using that(1) by simp
    then show ?thesis using that(2) by (simp add: writer_def L'(4))
  qed
  have wr': "writer L' (ps ! i)" if "i < length ps" "writer L (ps ! i)" for i using that same by (simp add: writer_def)
  note order = table_invD(2) [OF tab]
  have cl: "claimed order files (ps @ [?p]) = claimed order files ps" using order by (intro claimed_jobs) (simp add: at)
  have "table_inv ext C rows K files order S' (L', ps @ [?p])"
  proof (rule table_invI, unfold cl)
    show "distinct order" by (rule table_invD(1) [OF tab])
    show "set order = {i. i < length (ps @ [?p]) \<and> asked_already ((ps @ [?p]) ! i)}"
      unfolding order by (auto simp: at asked_already_def less_Suc_eq)
    show "rows (m_db (m_server L')) (sint cid) fn = 0" if "(cid, fn) \<in> K" "claimed order files ps (cid, fn) = None" for cid fn
      using table_invD(3) [OF tab that] by (simp add: L'(3))
    show "entry_inv ext C rows S' (L', ps @ [?p]) cid fn bs" if "(cid, fn) \<in> K" "claimed order files ps (cid, fn) = Some bs" for cid fn bs
      by (rule entry_inv_other [OF table_invD(4) [OF tab that] step]) (simp_all add: L'(3) at wr')
    show "claimed order files ps (job_cid ((ps @ [?p]) ! i), job_file ((ps @ [?p]) ! i)) = Some (job_bytes ((ps @ [?p]) ! i))"
      if "i < length (ps @ [?p])" "writer L' ((ps @ [?p]) ! i)" for i
      using table_invD(5) [OF tab] wr [OF that] by (simp add: at)
    show "i = j" if "i < length (ps @ [?p])" "j < length (ps @ [?p])" "writer L' ((ps @ [?p]) ! i)" "writer L' ((ps @ [?p]) ! j)"
      "job_cid ((ps @ [?p]) ! i) = job_cid ((ps @ [?p]) ! j)" "job_file ((ps @ [?p]) ! i) = job_file ((ps @ [?p]) ! j)" for i j
      using table_invD(6) [OF tab, of i j] wr [OF that(1,3)] wr [OF that(2,4)] that(5,6) by (simp add: at)
  qed
  moreover have same_writer: "writer L' p = writer L p" if "p \<in> set ps" for p using same [OF that] by (simp add: writer_def)
  have new_reads: "\<not> writer L' ?p" by (simp add: writer_def L'(4))
  have "kept_inv ext K files (L', ps @ [?p])"
    using kept same_writer new_reads by (fastforce simp: kept_inv_def L'(3) on_disk_def)
  ultimately show ?thesis
    using L'(1,2) names sh' old new by (auto simp: system_inv_def)
qed

lemma fetch_inv:
  assumes inv: "system_inv ext malloc N C rows same K files order k n (L, ps)"
  shows "\<exists>L'. sys_step ext malloc (Fetch w) (L, ps) = Inr (L', ps) \<and> system_inv ext malloc N C rows same K files order k n (L', ps)"
proof -
  obtain L' where L': "sys_step ext malloc (Fetch w) (L, ps) = Inr (L', ps)" "workers_inv n (L', ps)"
    "m_server L' = m_server L" "heap L' = heap L"
    using fetch_workers inv unfolding system_inv_def by blast
  have wr: "writer L' = writer L" by (simp add: writer_def fun_eq_iff L')
  have "party_inv ext C K S L' = party_inv ext C K S L" for S by (simp add: party_inv_def fun_eq_iff L')
  moreover have "table_inv ext C rows K files order S (L', ps) = table_inv ext C rows K files order S (L, ps)" for S
    by (simp add: table_inv_def entry_inv_def L' wr cong: option.case_cong)
  moreover have "shared_inv ext N C rows same k S (L', ps) = shared_inv ext N C rows same k S (L, ps)" for S
    by (simp add: shared_inv_def L')
  moreover have "kept_inv ext K files (L', ps) = kept_inv ext K files (L, ps)" by (simp add: kept_inv_def L' wr)
  ultimately show ?thesis using inv L'(1,2) by (simp add: system_inv_def)
qed

lemma party_closed: "party_at ext C S cid fn bs (srv, c, m) (ph, cl, inbox) \<Longrightarrow> m = Closed \<longleftrightarrow> \<not> needs_server ph"
  by (cases ph) (auto split: mode.splits)

lemma need_update:
  assumes "i < length ps"
  shows "sum_list (map f (ps[i := p'])) + f (ps ! i) = sum_list (map f ps) + (f p' :: nat)"
proof -
  have "sum_list (map f (take i ps @ ps ! i # drop (Suc i) ps)) = sum_list (map f ps)" using id_take_nth_drop [OF assms] by simp
  then show ?thesis by (simp add: upd_conv_take_nth_drop [OF assms])
qed

text \<open>The table after a turn of client \<open>i\<close>: only its own entry can change, and only while it writes.\<close>

lemma turn_table:
  assumes tab: "table_inv ext C rows K files order S (L, ps)" and i: "i < length ps" and names: "names_ok ext malloc same K"
    and jobs: "\<And>j. j < length ps \<Longrightarrow> (job_cid (ps ! j), job_file (ps ! j)) \<in> K \<and> set (chunks_of (job_bytes (ps ! j))) \<subseteq> C"
    and conn: "heap L (pt_obj (ps ! i)) = Some (c, m)" and db: "db_ready ext rows same (m_server L)"
    and rel: "turn_rel ext N C rows same (job_cid (ps ! i)) (job_file (ps ! i)) (job_bytes (ps ! i))
      (pt_phase (ps ! i), m_server L, S, c, m) (ph', m_server L', S', c', m')"
    and p': "pt_obj p' = pt_obj (ps ! i)" "pt_job p' = pt_job (ps ! i)" "pt_phase p' = ph'"
    and heap: "heap L' = (heap L)(pt_obj (ps ! i) \<mapsto> (c', m'))" and objs: "distinct (map pt_obj ps)"
  shows "table_inv ext C rows K files (if pt_phase (ps ! i) = Operating then order @ [i] else order) S' (L', ps[i := p'])"
proof -
  let ?p = "ps ! i" and ?tab = "claimed order files ps"
  define nm where "nm = (job_cid ?p, job_file ?p)"
  define order' where "order' = (if pt_phase ?p = Operating then order @ [i] else order)"
  define W where "W = (if is_receiving m \<or> is_receiving m' then {job_key ext ?p} else {})"
  note t = table_invD [OF tab]
  note r = rel [unfolded turn_rel_def prod.case]
  have step: "shared_step ext C W (m_server L, S) (m_server L', S')" using r unfolding W_def job_key_def by (elim conjE)
  note r = r [THEN conjunct2, THEN conjunct2, THEN conjunct2, THEN conjunct2]
  have job_at: "pt_job (ps[i := p'] ! j) = pt_job (ps ! j)" for j using p'(2) i by (cases "j = i") simp_all
  then have jobs_at: "job_cid (ps[i := p'] ! j) = job_cid (ps ! j)" "job_file (ps[i := p'] ! j) = job_file (ps ! j)"
    "job_bytes (ps[i := p'] ! j) = job_bytes (ps ! j)" for j
    by (simp_all add: job_cid_def job_file_def job_bytes_def)
  have nmK: "nm \<in> K" using jobs [OF i] by (simp add: nm_def)
  have asks: "asks_new rows (job_cid ?p) (job_file ?p) (pt_phase ?p) (m_server L) \<longleftrightarrow> pt_phase ?p = Operating \<and> ?tab nm = None"
    using t(3,4) nmK by (cases "?tab nm") (auto simp: asks_new_def nm_def entry_inv_def)
  have tab': "claimed order' files (ps[i := p']) =
      (if pt_phase ?p = Operating \<and> ?tab nm = None then ?tab(nm \<mapsto> job_bytes ?p) else ?tab)"
  proof -
    have "claimed order' files (ps[i := p']) = claimed order' files ps" by (rule claimed_jobs) (rule job_at)
    then show ?thesis by (simp add: order'_def claimed_snoc Let_def nm_def)
  qed
  have rows': "rows (m_db (m_server L')) (sint cid) fn = rows (m_db (m_server L)) (sint cid) fn +
      (if pt_phase ?p = Operating \<and> ?tab nm = None \<and> (cid, fn) = nm then 1 else 0)" if "(cid, fn) \<in> K" for cid fn
    using insert_rows [OF db names _ that, of "job_cid ?p" "job_file ?p" "m_db (m_server L)"] nmK r asks by (auto simp: nm_def)
  have wr_i: "writer L ?p \<longleftrightarrow> is_receiving m" by (simp add: writer_def conn)
  have wr: "writer L' (ps[i := p'] ! j) \<longleftrightarrow> (if j = i then is_receiving m' else writer L (ps ! j))" if "j < length ps" for j
  proof (cases "j = i")
    case True
    then show ?thesis using i by (simp add: writer_def heap p'(1))
  next
    case False
    then have "pt_obj (ps ! j) \<noteq> pt_obj ?p" using that i objs nth_eq_iff_index_eq [of "map pt_obj ps" j i] by simp
    then show ?thesis using False by (simp add: writer_def heap)
  qed
  have m': "is_receiving m' \<longleftrightarrow> pt_phase ?p = Operating \<and> ?tab nm = None \<or> is_receiving m \<and> pt_phase ?p \<noteq> EndingFile"
    using r asks by simp
  have own_entry: "claimed order' files (ps[i := p']) nm = Some (job_bytes ?p)" if "is_receiving m \<or> is_receiving m'"
  proof (cases "pt_phase ?p = Operating \<and> ?tab nm = None")
    case True
    then show ?thesis by (simp add: tab')
  next
    case False
    then have "is_receiving m" using m' that by blast
    then show ?thesis using False t(5) [OF i] wr_i by (auto simp: tab' nm_def)
  qed
  have entry: "entry_inv ext C rows S' (L', ps[i := p']) cid fn bs"
    if K: "(cid, fn) \<in> K" and e: "claimed order' files (ps[i := p']) (cid, fn) = Some bs" for cid fn bs
  proof (cases "(cid, fn) = nm \<and> (is_receiving m \<or> is_receiving m')")
    case True
    then have bs: "bs = job_bytes ?p" using own_entry e by simp
    have "rows (m_db (m_server L)) (sint cid) fn = (if pt_phase ?p = Operating \<and> ?tab nm = None then 0 else 1)"
      using True t(3) [OF K] t(4) [OF K] own_entry by (auto simp: entry_inv_def tab' split: if_splits)
    then have one: "rows (m_db (m_server L')) (sint cid) fn = 1" using rows' [OF K] True by auto
    show ?thesis
    proof (cases "is_receiving m'")
      case rc: True
      then have "\<exists>j < length (ps[i := p']). writer L' (ps[i := p'] ! j) \<and> job_cid (ps[i := p'] ! j) = cid \<and> job_file (ps[i := p'] ! j) = fn"
        using i wr [OF i] True jobs_at [of i] by (intro exI [of _ i]) (simp add: nm_def)
      then show ?thesis using one jobs [OF i] bs by (simp add: entry_inv_def)
    next
      case False
      then have "pt_phase ?p = EndingFile" using True m' by auto
      then have "stored_in S' (m_server L') (recipe_key ext cid fn) (chunks_of bs)" using r True bs by (simp add: nm_def)
      then show ?thesis using one jobs [OF i] bs by (simp add: entry_inv_def)
    qed
  next
    case False
    have tb: "?tab (cid, fn) = Some bs"
    proof (cases "pt_phase ?p = Operating \<and> ?tab nm = None")
      case True
      then have "is_receiving m'" using m' by simp
      then show ?thesis using e False True by (auto simp: tab')
    next
      case False
      then show ?thesis using e by (simp only: tab' if_False)
    qed
    have key: "recipe_key ext cid fn \<notin> W"
      using False names_key_inj [OF names K, of "job_cid ?p" "job_file ?p"] jobs [OF i] by (auto simp: W_def nm_def job_key_def)
    show ?thesis
    proof (rule entry_inv_other [OF t(4) [OF K tb] step key])
      show "rows (m_db (m_server L')) (sint cid) fn = rows (m_db (m_server L)) (sint cid) fn"
        using rows' [OF K] False m' by auto
      show "j < length (ps[i := p']) \<and> writer L' (ps[i := p'] ! j) \<and> pt_job (ps[i := p'] ! j) = pt_job (ps ! j)"
        if "j < length ps" "writer L (ps ! j)" "job_cid (ps ! j) = cid" "job_file (ps ! j) = fn" for j
        using that wr [OF that(1)] job_at False wr_i by (auto simp: nm_def)
    qed
  qed
  show ?thesis
  proof (rule table_invI, fold order'_def)
    have "asked_already p' \<longleftrightarrow> pt_phase ?p \<noteq> Starting" using r p'(3) by (auto simp: asked_already_def)
    then have "{j. j < length (ps[i := p']) \<and> asked_already (ps[i := p'] ! j)} =
        {j. j < length ps \<and> asked_already (ps ! j)} \<union> (if pt_phase ?p = Operating then {i} else {})"
      using i by (auto simp: nth_list_update asked_already_def)
    then show "set order' = {j. j < length (ps[i := p']) \<and> asked_already (ps[i := p'] ! j)}" using t(2) by (simp add: order'_def)
    show "distinct order'" using t(1,2) by (auto simp: order'_def asked_already_def)
    show "rows (m_db (m_server L')) (sint cid) fn = 0" if "(cid, fn) \<in> K" "claimed order' files (ps[i := p']) (cid, fn) = None" for cid fn
    proof -
      have "?tab (cid, fn) = None" "\<not> (pt_phase ?p = Operating \<and> ?tab nm = None \<and> (cid, fn) = nm)"
        using that(2) by (auto simp: tab' split: if_splits)
      then show ?thesis using t(3) [OF that(1)] rows' [OF that(1)] by simp
    qed
    show "claimed order' files (ps[i := p']) (job_cid (ps[i := p'] ! j), job_file (ps[i := p'] ! j)) = Some (job_bytes (ps[i := p'] ! j))"
      if j: "j < length (ps[i := p'])" "writer L' (ps[i := p'] ! j)" for j
    proof (cases "j = i")
      case True
      then have "is_receiving m'" using wr [OF i] j(2) by simp
      then have "claimed order' files (ps[i := p']) nm = Some (job_bytes ?p)" using own_entry by blast
      then show ?thesis unfolding jobs_at True nm_def .
    next
      case False
      then have "?tab (job_cid (ps ! j), job_file (ps ! j)) = Some (job_bytes (ps ! j))"
        using t(5) [of j] wr [of j] j by simp
      then show ?thesis unfolding jobs_at by (auto simp: tab')
    qed
    show "j = l" if jl: "j < length (ps[i := p'])" "l < length (ps[i := p'])" "writer L' (ps[i := p'] ! j)" "writer L' (ps[i := p'] ! l)"
      "job_cid (ps[i := p'] ! j) = job_cid (ps[i := p'] ! l)" "job_file (ps[i := p'] ! j) = job_file (ps[i := p'] ! l)" for j l
    proof -
      have same_file: "job_cid (ps ! j) = job_cid (ps ! l)" "job_file (ps ! j) = job_file (ps ! l)" using jl(5,6) unfolding jobs_at .
      have clash: "\<not> (writer L (ps ! h) \<and> is_receiving m')"
        if h: "h < length ps" "h \<noteq> i" "job_cid (ps ! h) = job_cid ?p" "job_file (ps ! h) = job_file ?p" for h
      proof
        assume w: "writer L (ps ! h) \<and> is_receiving m'"
        then have "?tab nm \<noteq> None" using t(5) [OF h(1)] h(3,4) by (simp add: nm_def)
        then have "writer L ?p" using m' wr_i w by (cases "?tab nm") auto
        then show False using t(6) [OF h(1) i] w h by blast
      qed
      show ?thesis
        using jl(1-4) same_file wr [of j] wr [of l] t(6) [of j l] clash [of j] clash [of l] by (cases "j = i"; cases "l = i") auto
    qed
  qed (rule entry)
qed

lemma turn_kept:
  assumes kept: "kept_inv ext K files (L, ps)" and i: "i < length ps" and names: "names_ok ext malloc same K"
    and K: "(job_cid (ps ! i), job_file (ps ! i)) \<in> K" and conn: "heap L (pt_obj (ps ! i)) = Some (c, m)"
    and rows: "\<And>bs. files (job_cid (ps ! i), job_file (ps ! i)) = Some bs \<Longrightarrow>
      rows (m_db (m_server L)) (sint (job_cid (ps ! i))) (job_file (ps ! i)) = 1"
    and rel: "turn_rel ext N C rows same (job_cid (ps ! i)) (job_file (ps ! i)) (job_bytes (ps ! i))
      (pt_phase (ps ! i), m_server L, S, c, m) (ph', m_server L', S', c', m')"
    and dir: "containers_dir (m_server L) \<subseteq>\<^sub>m containers_dir (m_server L')"
    and p': "pt_obj p' = pt_obj (ps ! i)" "pt_job p' = pt_job (ps ! i)"
    and heap: "heap L' = (heap L)(pt_obj (ps ! i) \<mapsto> (c', m'))" and objs: "distinct (map pt_obj ps)"
  shows "kept_inv ext K files (L', ps[i := p'])"
proof -
  let ?p = "ps ! i"
  have step: "shared_step ext C (if is_receiving m \<or> is_receiving m' then {job_key ext ?p} else {}) (m_server L, S) (m_server L', S')"
    using rel unfolding turn_rel_def prod.case job_key_def by (elim conjE)
  have m': "is_receiving m' \<longleftrightarrow> asks_new rows (job_cid ?p) (job_file ?p) (pt_phase ?p) (m_server L) \<or> is_receiving m \<and> pt_phase ?p \<noteq> EndingFile"
    using rel unfolding turn_rel_def prod.case by (elim conjE)
  have "on_disk (recipe_key ext cid fn) (chunks_of bs) (m_server L') \<and>
      (\<forall>p \<in> set (ps[i := p']). writer L' p \<longrightarrow> (job_cid p, job_file p) \<noteq> (cid, fn))"
    if f: "(cid, fn) \<in> K" "files (cid, fn) = Some bs" for cid fn bs
  proof -
    have old: "on_disk (recipe_key ext cid fn) (chunks_of bs) (m_server L)"
      "\<And>p. p \<in> set ps \<Longrightarrow> writer L p \<Longrightarrow> (job_cid p, job_file p) \<noteq> (cid, fn)" using kept f by (auto simp: kept_inv_def)
    have quiet: "\<not> is_receiving m \<and> \<not> is_receiving m'" if own: "(job_cid ?p, job_file ?p) = (cid, fn)"
    proof -
      have "\<not> is_receiving m" using old(2) [of ?p] i conn own by (auto simp: writer_def)
      then show ?thesis using m' rows f(2) own by (auto simp: asks_new_def)
    qed
    have "recipe_key ext cid fn \<notin> (if is_receiving m \<or> is_receiving m' then {job_key ext ?p} else {})"
      using quiet names_key_inj [OF names f(1) K] by (auto simp: job_key_def)
    then have "on_disk (recipe_key ext cid fn) (chunks_of bs) (m_server L')"
      using step by (intro on_disk_kept [OF old(1) dir]) (simp add: shared_step_def)
    moreover have "(job_cid q, job_file q) \<noteq> (cid, fn)" if q: "q \<in> set (ps[i := p'])" "writer L' q" for q
    proof -
      obtain j where j: "j < length ps" "q = ps[i := p'] ! j" using q(1) by (auto simp: in_set_conv_nth)
      show ?thesis
      proof (cases "j = i")
        case True
        then have q': "q = p'" using i j by simp
        then have "is_receiving m'" using q(2) by (simp add: writer_def p'(1) heap)
        then show ?thesis using quiet unfolding q' job_cid_def job_file_def p'(2) by blast
      next
        case False
        then have "q = ps ! j" "pt_obj (ps ! j) \<noteq> pt_obj ?p" using i j objs nth_eq_iff_index_eq [of "map pt_obj ps" j i] by simp_all
        then show ?thesis using old(2) [of q] j q(2) by (auto simp: writer_def heap)
      qed
    qed
    ultimately show ?thesis by blast
  qed
  then show ?thesis unfolding kept_inv_def prod.case by blast
qed

text \<open>The files of the table before the first client have their rows.\<close>

lemma spec_run_keeps: "files nm = Some bs \<Longrightarrow> fst (spec_run cmds files) nm = Some bs"
proof (induction cmds arbitrary: files)
  case (Cons cmd cmds)
  have "fst (spec_command cmd files) nm = Some bs" using Cons.prems by (cases cmd) (auto simp: Let_def)
  then show ?case using Cons.IH by (simp add: Let_def split_beta)
qed simp

lemma claimed_keeps: "files nm = Some bs \<Longrightarrow> claimed order files ps nm = Some bs"
  unfolding claimed_def by (rule spec_run_keeps)

lemma kept_row:
  assumes "table_inv ext C rows K files order S (L, ps)" "(cid, fn) \<in> K" "files (cid, fn) = Some bs"
  shows "rows (m_db (m_server L)) (sint cid) fn = 1 \<and> set (chunks_of bs) \<subseteq> C"
  using table_invD(4) [OF assms(1,2)] claimed_keeps [where files = files] assms(3) by (fastforce simp: entry_inv_def)

lemma party_can_turn:
  assumes sh: "shared_inv ext N C rows same k S (L, ps)" and i: "i < length ps" and p: "party_inv ext C K S L (ps ! i)"
    and names: "names_ok ext malloc same K" and tab: "table_inv ext C rows K files order S (L, ps)"
    and conn: "heap L (pt_obj (ps ! i)) = Some (c, m)"
  shows "can_turn ext malloc N C rows same (job_cid (ps ! i)) (job_file (ps ! i)) (job_bytes (ps ! i)) (m_server L, S, c, m)
    (pt_phase (ps ! i), pt_client (ps ! i), pt_inbox (ps ! i))"
proof -
  let ?p = "ps ! i"
  have K: "(job_cid ?p, job_file ?p) \<in> K" "set (chunks_of (job_bytes ?p)) \<subseteq> C" using p job_key_in by (auto simp: party_inv_def)
  have cov: "covers ext (m_server L) (heap L) S" using sh by (simp add: shared_inv_def)
  have "rows (m_db (m_server L)) (sint (job_cid ?p)) (job_file ?p) \<le> 1"
  proof (cases "claimed order files ps (job_cid ?p, job_file ?p)")
    case None
    then show ?thesis using table_invD(3) [OF tab K(1)] by simp
  next
    case (Some b)
    then show ?thesis using table_invD(4) [OF tab K(1)] by (simp add: entry_inv_def)
  qed
  moreover have "need (job_bytes ?p) (pt_phase ?p) \<le> sum_list (map (\<lambda>p. need (job_bytes p) (pt_phase p)) ps)"
    using i by (intro member_le_sum_list) auto
  then have "uuid_count (m_server L) + need (job_bytes ?p) (pt_phase ?p) \<le> N" using sh by (simp add: shared_inv_def)
  moreover have "sendable malloc (job_file ?p)" using names K(1) by (auto simp: names_ok_def)
  ultimately show ?thesis
    using sh p K(2) conn covers_gstore [OF cov conn] by (auto simp: can_turn_def shared_inv_def party_inv_def)
qed

lemma turn_inv:
  assumes inv: "system_inv ext malloc N C rows same K files order k n (L, ps)" and i: "i < length ps"
  shows "sys_step ext malloc (Turn i) (L, ps) = Inr (L, ps) \<and>
       pt_obj (ps ! i) \<notin> set (concat (map executing (m_threads (m_threadPool L)))) \<and> needs_server (pt_phase (ps ! i)) \<or>
     (\<exists>L' p' order'. sys_step ext malloc (Turn i) (L, ps) = Inr (L', ps[i := p']) \<and> pt_job p' = pt_job (ps ! i) \<and>
        (turns_left (Some (job_bytes (ps ! i))) (pt_phase (ps ! i)) \<noteq> 0 \<longrightarrow>
           turns_left (Some (job_bytes (ps ! i))) (pt_phase p') < turns_left (Some (job_bytes (ps ! i))) (pt_phase (ps ! i))) \<and>
        system_inv ext malloc N C rows same K files order' k n (L', ps[i := p']))"
proof -
  let ?p = "ps ! i"
  obtain S where wk: "workers_inv n (L, ps)" and names: "names_ok ext malloc same K" and sh: "shared_inv ext N C rows same k S (L, ps)"
    and kept: "kept_inv ext K files (L, ps)"
    and parties: "\<And>p. p \<in> set ps \<Longrightarrow> party_inv ext C K S L p" and tab: "table_inv ext C rows K files order S (L, ps)"
    using inv by (auto simp: system_inv_def)
  have pi: "party_inv ext C K S L ?p" using parties i by simp
  then obtain c m where conn: "heap L (pt_obj ?p) = Some (c, m)" and at: "party_at ext C S (job_cid ?p) (job_file ?p) (job_bytes ?p)
      (m_server L, c, m) (pt_phase ?p, pt_client ?p, pt_inbox ?p)" by (auto simp: party_inv_def)
  have env: "env_ok ext N C" and cov: "covers ext (m_server L) (heap L) S" and db: "db_ready ext rows same (m_server L)"
    using sh by (simp_all add: shared_inv_def)
  obtain ph' cl' srv' S' c' m' inbox' where
    turn: "client_turn (x_evp ext) malloc (conn_receive ext) (Some (job_bytes ?p)) (pt_phase ?p, pt_client ?p, (m_server L, c, m), pt_inbox ?p) =
        Inr (ph', cl', (srv', c', m'), inbox')"
    and at': "party_at ext C S' (job_cid ?p) (job_file ?p) (job_bytes ?p) (srv', c', m') (ph', cl', inbox')"
    and rel: "turn_rel ext N C rows same (job_cid ?p) (job_file ?p) (job_bytes ?p) (pt_phase ?p, m_server L, S, c, m) (ph', srv', S', c', m')"
    using upload_turn [OF party_can_turn [OF sh i pi names tab conn]] unfolding turns_well_def prod.case by blast
  define p' where "p' = ?p\<lparr>pt_phase := ph', pt_client := cl', pt_inbox := inbox'\<rparr>"
  note workers = turn_workers [OF wk i conn party_closed [OF at] party_closed [OF at'] turn [unfolded job_bytes_def], folded p'_def]
  show ?thesis
  proof (cases "sys_step ext malloc (Turn i) (L, ps) = Inr (L, ps) \<and>
      pt_obj ?p \<notin> set (concat (map executing (m_threads (m_threadPool L)))) \<and> needs_server (pt_phase ?p)")
    case True
    then show ?thesis by blast
  next
    case False
    then obtain L' where L': "sys_step ext malloc (Turn i) (L, ps) = Inr (L', ps[i := p'])" "workers_inv n (L', ps[i := p'])"
      "m_server L' = srv'" "heap L' = (heap L)(pt_obj ?p \<mapsto> (c', m'))" using workers by blast
    note r = rel [folded L'(3), unfolded turn_rel_def prod.case]
    define W where "W = (if is_receiving m \<or> is_receiving m' then {job_key ext ?p} else {})"
    have step: "shared_step ext C W (m_server L, S) (m_server L', S')" using r unfolding W_def job_key_def by (elim conjE)
    have crel: "container_rel ext N (m_server L, c) (m_server L', c')" and S': "S' = gstore S (m_server L') c'"
      and budget: "uuid_count (m_server L') + need (job_bytes ?p) ph' \<le> uuid_count (m_server L) + need (job_bytes ?p) (pt_phase ?p)"
      and db': "db_ready ext rows same (m_server L')"
      using r by blast+
    have need: "sum_list (map (\<lambda>p. need (job_bytes p) (pt_phase p)) (ps[i := p'])) + need (job_bytes ?p) (pt_phase ?p) =
        sum_list (map (\<lambda>p. need (job_bytes p) (pt_phase p)) ps) + need (job_bytes ?p) ph'"
      using need_update [OF i, of "\<lambda>p. need (job_bytes p) (pt_phase p)" p'] by (simp add: p'_def)
    then have uuid: "uuid_count (m_server L') + sum_list (map (\<lambda>p. need (job_bytes p) (pt_phase p)) (ps[i := p'])) + k \<le> N"
      using budget sh by (simp add: shared_inv_def)
    have dom: "dom S' \<subseteq> x_uuid ext ` {..<uuid_count (m_server L')}" and sound: "index_sound ext C S' (m_all_chunks (m_server L'))"
      using step by (simp_all add: shared_step_def)
    have cov': "covers ext (m_server L') (heap L') S'"
      unfolding L'(4) using uuid by (intro covers_step [OF env cov conn crel party_drained [OF at'] _ S' dom]) simp
    have "map pt_obj (ps[i := p']) = map pt_obj ps" by (rule map_obj_update) (simp add: p'_def)
    then have "pt_obj ` set (ps[i := p']) = pt_obj ` set ps" by (metis set_map)
    then have "\<forall>q c m. heap L' q = Some (c, m) \<longrightarrow> q \<notin> pt_obj ` set (ps[i := p']) \<longrightarrow> occupied (m_containerBuffer c) = 0"
      using sh i by (auto simp: shared_inv_def L'(4))
    then have sh': "shared_inv ext N C rows same k S' (L', ps[i := p'])"
      using env db' cov' sound uuid by (simp add: shared_inv_def)
    have objs: "distinct (map pt_obj ps)" using wk by (simp add: workers_inv_def)
    have jobs: "(job_cid (ps ! j), job_file (ps ! j)) \<in> K \<and> set (chunks_of (job_bytes (ps ! j))) \<subseteq> C" if "j < length ps" for j
      using parties [of "ps ! j"] that job_key_in by (auto simp: party_inv_def)
    have tab': "table_inv ext C rows K files (if pt_phase ?p = Operating then order @ [i] else order) S' (L', ps[i := p'])"
      by (rule turn_table [OF tab i names jobs conn db rel [folded L'(3)] _ _ _ L'(4) objs]) (simp_all add: p'_def)
    have "containers_dir (m_server L) \<subseteq>\<^sub>m containers_dir (m_server L')"
      using uuid by (intro containers_kept [OF env cov conn crel]) simp
    then have kept': "kept_inv ext K files (L', ps[i := p'])"
      using jobs [OF i] kept_row [OF tab, of "job_cid ?p" "job_file ?p"]
      by (intro turn_kept [OF kept i names _ conn _ rel [folded L'(3)] _ _ _ L'(4) objs]) (simp_all add: p'_def)
    have other: "party_inv ext C K S' L' (ps ! j)" if j: "j < length ps" "j \<noteq> i" for j
    proof (rule party_inv_other [OF parties env cov cov' _ step])
      show "ps ! j \<in> set ps" using j(1) by simp
      have "pt_obj (ps ! j) \<noteq> pt_obj ?p" using j i objs nth_eq_iff_index_eq [of "map pt_obj ps" j i] by simp
      then show "heap L' (pt_obj (ps ! j)) = heap L (pt_obj (ps ! j))" by (simp add: L'(4))
      show "job_key ext (ps ! j) \<notin> W" if w: "writer L (ps ! j)"
      proof
        assume "job_key ext (ps ! j) \<in> W"
        then have "job_key ext (ps ! j) = job_key ext ?p" "is_receiving m \<or> is_receiving m'" by (auto simp: W_def split: if_splits)
        then have same_file: "job_cid (ps ! j) = job_cid ?p" "job_file (ps ! j) = job_file ?p"
          using names_key_inj [OF names] jobs [OF j(1)] jobs [OF i] by (auto simp: job_key_def)
        then have "claimed order files ps (job_cid ?p, job_file ?p) = Some (job_bytes (ps ! j))"
          using table_invD(5) [OF tab j(1) w] by simp
        then have "rows (m_db (m_server L)) (sint (job_cid ?p)) (job_file ?p) = 1"
          using table_invD(4) [OF tab] jobs [OF i] by (auto simp: entry_inv_def)
        then have "\<not> asks_new rows (job_cid ?p) (job_file ?p) (pt_phase ?p) (m_server L)" by (simp add: asks_new_def)
        then have "is_receiving m" using r \<open>is_receiving m \<or> is_receiving m'\<close> by blast
        then have "writer L ?p" using conn by (simp add: writer_def)
        then show False using table_invD(6) [OF tab j(1) i w] same_file j(2) by simp
      qed
    qed
    have own: "party_inv ext C K S' L' p'"
      using pi at' unfolding p'_def by (simp add: party_inv_def L'(3,4))
    have "party_inv ext C K S' L' p" if "p \<in> set (ps[i := p'])" for p
      using that other own i by (auto simp: in_set_conv_nth nth_list_update split: if_splits)
    then have "system_inv ext malloc N C rows same K files (if pt_phase ?p = Operating then order @ [i] else order) k n (L', ps[i := p'])"
      using names L'(2) sh' tab' kept' by (auto simp: system_inv_def)
    moreover have "turns_left (Some (job_bytes ?p)) (pt_phase p') < turns_left (Some (job_bytes ?p)) (pt_phase ?p)"
      if "turns_left (Some (job_bytes ?p)) (pt_phase ?p) \<noteq> 0"
      using turn_progress [OF turn that] by (simp add: p'_def)
    ultimately show ?thesis using L'(1) by (auto simp: p'_def)
  qed
qed

section \<open>Schedules\<close>

fun arrival :: "sys_event \<Rightarrow> (u32 \<times> string \<times> byte list) list" where
  "arrival (Arrive fd info job) = [job]"
| "arrival ev = []"

definition arrivals :: "sys_event list \<Rightarrow> (u32 \<times> string \<times> byte list) list" where
  "arrivals evs = concat (map arrival evs)"

lemma step_inv:
  assumes "system_inv ext malloc N C rows same K files order (k + sum_list (map job_cost (arrival ev))) (n + length (arrival ev)) (L, ps)"
    and "\<forall>job \<in> set (arrival ev). job_ok C K job"
  shows "\<exists>L' ps' order'. sys_step ext malloc ev (L, ps) = Inr (L', ps') \<and> map pt_job ps' = map pt_job ps @ arrival ev \<and>
           system_inv ext malloc N C rows same K files order' k n (L', ps')"
proof (cases ev)
  case (Arrive fd info job)
  have "system_inv ext malloc N C rows same K files order (k + job_cost job) (Suc n) (L, ps)" "job_ok C K job"
    using assms by (simp_all add: Arrive)
  from arrive_inv [OF this, of fd info] obtain L' where
    "sys_step ext malloc ev (L, ps) = Inr (L', ps @ [new_party malloc (next_obj L) job])"
    "system_inv ext malloc N C rows same K files order k n (L', ps @ [new_party malloc (next_obj L) job])" unfolding Arrive by blast
  then show ?thesis by (intro exI conjI) (assumption, simp add: Arrive, assumption)
next
  case (Fetch w)
  then show ?thesis using fetch_inv assms(1) by fastforce
next
  case (Turn i)
  have inv: "system_inv ext malloc N C rows same K files order k n (L, ps)" using assms(1) by (simp add: Turn)
  show ?thesis
  proof (cases "i < length ps")
    case False
    then show ?thesis using inv by (auto simp: Turn)
  next
    case True
    then have "map pt_job (ps[i := p']) = map pt_job ps" if "pt_job p' = pt_job (ps ! i)" for p'
      using that by (metis list_update_id map_update)
    then show ?thesis using turn_inv [OF inv True] inv by (auto simp: Turn simp del: sys_step.simps)
  qed
qed

lemma run_inv:
  assumes "system_inv ext malloc N C rows same K files order (k + sum_list (map job_cost (arrivals evs))) (n + length (arrivals evs)) (L, ps)"
    and "\<forall>job \<in> set (arrivals evs). job_ok C K job"
  shows "\<exists>L' ps' order'. sys_run ext malloc evs (L, ps) = Inr (L', ps') \<and> map pt_job ps' = map pt_job ps @ arrivals evs \<and>
           system_inv ext malloc N C rows same K files order' k n (L', ps')"
  using assms
proof (induction evs arbitrary: L ps order)
  case Nil
  then show ?case by (auto simp: arrivals_def)
next
  case (Cons ev evs)
  have inv: "system_inv ext malloc N C rows same K files order
      ((k + sum_list (map job_cost (arrivals evs))) + sum_list (map job_cost (arrival ev)))
      ((n + length (arrivals evs)) + length (arrival ev)) (L, ps)"
    using Cons.prems(1) by (simp add: arrivals_def add.assoc add.commute add.left_commute)
  have jobs: "\<forall>job \<in> set (arrival ev). job_ok C K job" "\<forall>job \<in> set (arrivals evs). job_ok C K job"
    using Cons.prems(2) by (simp_all add: arrivals_def)
  obtain L1 ps1 order1 where one: "sys_step ext malloc ev (L, ps) = Inr (L1, ps1)" "map pt_job ps1 = map pt_job ps @ arrival ev"
    "system_inv ext malloc N C rows same K files order1 (k + sum_list (map job_cost (arrivals evs))) (n + length (arrivals evs)) (L1, ps1)"
    using step_inv [OF inv jobs(1)] by blast
  from Cons.IH [OF one(3) jobs(2)] one(1,2) show ?case
    by (auto simp: arrivals_def simp del: sys_step.simps)
qed

text \<open>The server before the first client, with room for \<open>n\<close> requests.\<close>

definition ready_loop :: "nat \<Rightarrow> 'db loop \<Rightarrow> bool" where
  "ready_loop n L \<longleftrightarrow> heap L = Map.empty \<and> m_queue (m_requests (m_threadPool L)) = [] \<and>
     bq_inv (m_requests (m_threadPool L)) \<and> \<not> m_done (m_requests (m_threadPool L)) \<and> n \<le> m_size (m_requests (m_threadPool L)) \<and>
     m_threads (m_threadPool L) \<noteq> [] \<and> set (m_threads (m_threadPool L)) = {Fetching}"

lemma ready_inv:
  assumes "represents ext N C rows same K k (m_server L) files" "names_ok ext malloc same K" "ready_loop n L"
  shows "system_inv ext malloc N C rows same K files [] k n (L, [])"
proof -
  have srv: "server_ok ext N C rows same k (m_server L)" using assms(1) by (simp add: represents_def)
  have "in_pool L = []" using assms(3) by (auto simp: in_pool_def ready_loop_def executing_def)
  then have "workers_inv n (L, [])"
    using assms(3) by (simp add: workers_inv_def ready_loop_def waiting_parties_def)
  moreover have "shared_inv ext N C rows same k (containers_dir (m_server L)) (L, [])"
    using srv assms(3) by (simp add: shared_inv_def server_ok_def covers_def ready_loop_def)
  moreover have "kept_inv ext K files (L, [])"
    using represents_entry(2) [OF assms(1)] by (auto simp: kept_inv_def)
  moreover have "table_inv ext C rows K files [] (containers_dir (m_server L)) (L, [])"
    using represents_entry [OF assms(1)] by (intro table_invI) (auto simp: claimed_def entry_inv_def disk_stored_in)
  ultimately show ?thesis using assms(2) by (auto simp: system_inv_def)
qed

lemma finished_inv:
  assumes inv: "system_inv ext malloc N C rows same K files order k n (L, ps)" and fin: "\<forall>p \<in> set ps. \<exists>w. pt_phase p = Finished w"
  shows "distinct order \<and> set order = {..<length ps} \<and> represents ext N C rows same K k (m_server L) (claimed order files ps)"
proof -
  obtain S where wk: "workers_inv n (L, ps)" and sh: "shared_inv ext N C rows same k S (L, ps)"
    and parties: "\<And>p. p \<in> set ps \<Longrightarrow> party_inv ext C K S L p" and tab: "table_inv ext C rows K files order S (L, ps)"
    using inv by (auto simp: system_inv_def)
  have env: "env_ok ext N C" and cov: "covers ext (m_server L) (heap L) S" using sh by (simp_all add: shared_inv_def)
  have closed: "m = Closed \<and> idle ext C S (m_server L, c)" if h: "heap L (pt_obj p) = Some (c, m)" "p \<in> set ps" for p c m
  proof -
    obtain w where "pt_phase p = Finished w" using fin h(2) by blast
    then show ?thesis using parties [OF h(2)] h by (auto simp: party_inv_def)
  qed
  have empty: "occupied (m_containerBuffer c) = 0" if h: "heap L q = Some (c, m)" for q c m
  proof (cases "q \<in> pt_obj ` set ps")
    case True
    then show ?thesis using closed h by (auto simp: idle_def)
  next
    case False
    then show ?thesis using sh h by (auto simp: shared_inv_def)
  qed
  have "set order = {..<length ps}"
    unfolding table_invD(2) [OF tab] using fin by (auto simp: asked_already_def) (metis nth_mem phase.distinct(15) phase.distinct(29))+
  moreover have flush: "store_keeps S (containers_dir (m_server L))"
    using empty by (intro covers_flushed [OF cov]) blast
  then have "index_sound ext C (containers_dir (m_server L)) (m_all_chunks (m_server L))"
    using sh env by (intro index_sound_keeps [OF flush]) (simp_all add: shared_inv_def env_ok_def)
  then have "server_ok ext N C rows same k (m_server L)"
    using sh env coversD(1,2) [OF cov] by (simp add: server_ok_def shared_inv_def) (metis map_le_implies_dom_le order_trans)
  moreover have no_writer: "\<not> writer L (ps ! i)" if "i < length ps" for i
    using closed [of "ps ! i"] that by (auto simp: writer_def)
  have "on_disk (recipe_key ext cid fn) (chunks_of bs) (m_server L)"
    if "entry_inv ext C rows S (L, ps) cid fn bs" for cid fn bs
    using that stored_in_keeps [OF flush chunks_of_facts(3)] no_writer by (auto simp: entry_inv_def disk_stored_in)
  then have "represents ext N C rows same K k (m_server L) (claimed order files ps)"
    using calculation(2) table_invD(3,4) [OF tab] by (auto simp: represents_def entry_inv_def split: option.splits)
  ultimately show ?thesis using table_invD(1) [OF tab] by blast
qed

section \<open>Progress\<close>

text \<open>How many turns the clients have left.\<close>

definition work_left :: "party list \<Rightarrow> nat" where
  "work_left ps = sum_list (map (\<lambda>p. turns_left (Some (job_bytes p)) (pt_phase p)) ps)"

lemma work_left_update:
  assumes "i < length ps" "pt_job p' = pt_job (ps ! i)"
    and "turns_left (Some (job_bytes (ps ! i))) (pt_phase p') < turns_left (Some (job_bytes (ps ! i))) (pt_phase (ps ! i))"
  shows "work_left (ps[i := p']) < work_left ps"
proof -
  let ?f = "\<lambda>p. turns_left (Some (job_bytes p)) (pt_phase p)"
  have "work_left (ps[i := p']) + ?f (ps ! i) = work_left ps + ?f p'"
    using assms(1) elem_le_sum_list [of i "map ?f ps"] by (simp add: work_left_def map_update sum_list_update)
  moreover have "?f p' < ?f (ps ! i)" using assms(2,3) by (simp add: job_bytes_def)
  ultimately show ?thesis by linarith
qed

lemma work_left_zero: "work_left ps = 0 \<longleftrightarrow> (\<forall>p \<in> set ps. \<exists>w. pt_phase p = Finished w)"
  by (auto simp: work_left_def turns_left_zero)

lemma needs_server_turns: "needs_server ph \<Longrightarrow> turns_left content ph \<noteq> 0"
  by (cases ph) auto

text \<open>A client with a worker, or one that leaves, takes its turn.\<close>

lemma served_turn:
  assumes inv: "system_inv ext malloc N C rows same K files order k n (L, ps)" and i: "i < length ps"
    and left: "turns_left (Some (job_bytes (ps ! i))) (pt_phase (ps ! i)) \<noteq> 0"
    and served: "needs_server (pt_phase (ps ! i)) \<Longrightarrow> pt_obj (ps ! i) \<in> set (concat (map executing (m_threads (m_threadPool L))))"
  shows "\<exists>L' ps' order'. sys_step ext malloc (Turn i) (L, ps) = Inr (L', ps') \<and> work_left ps' < work_left ps \<and>
           system_inv ext malloc N C rows same K files order' k n (L', ps')"
proof -
  obtain L' p' order' where "sys_step ext malloc (Turn i) (L, ps) = Inr (L', ps[i := p'])" "pt_job p' = pt_job (ps ! i)"
    "turns_left (Some (job_bytes (ps ! i))) (pt_phase p') < turns_left (Some (job_bytes (ps ! i))) (pt_phase (ps ! i))"
    "system_inv ext malloc N C rows same K files order' k n (L', ps[i := p'])"
    using turn_inv [OF inv i] left served by blast
  then show ?thesis using work_left_update [OF i] by blast
qed

text \<open>When no worker executes a request, one can fetch a client that waits.\<close>

lemma fetch_executes:
  assumes wk: "workers_inv n (L, ps)" and i: "i < length ps" "needs_server (pt_phase (ps ! i))"
    and free: "concat (map executing (m_threads (m_threadPool L))) = []"
  shows "\<exists>L'. sys_step ext malloc (Fetch 0) (L, ps) = Inr (L', ps) \<and>
    concat (map executing (m_threads (m_threadPool L'))) \<noteq> []"
proof -
  have "pt_obj (ps ! i) \<in> waiting_parties ps" using i by (auto simp: waiting_parties_def)
  then have queue: "m_queue (m_requests (m_threadPool L)) \<noteq> []" using wk free by (auto simp: workers_inv_def in_pool_def)
  moreover have "bq_inv (m_requests (m_threadPool L))" using wk by (simp add: workers_inv_def)
  ultimately obtain r q' where pop: "pop (m_requests (m_threadPool L)) = Popped r q'"
    by (cases "m_queue (m_requests (m_threadPool L))") (auto simp: pop_def bq_inv_def Let_def)
  obtain th ths where ths: "m_threads (m_threadPool L) = th # ths" "th \<noteq> Returned"
    using wk by (cases "m_threads (m_threadPool L)") (auto simp: workers_inv_def)
  then have "th = Fetching" using free by (cases th) (simp_all add: executing_def)
  then show ?thesis
    using pop ths by (simp add: worker_fetch_def tp_fetch_def Let_def executing_def)
qed

lemma some_turn:
  assumes inv: "system_inv ext malloc N C rows same K files order k n (L, ps)" and left: "work_left ps \<noteq> 0"
  shows "\<exists>evs L' ps' order'. sys_run ext malloc evs (L, ps) = Inr (L', ps') \<and> arrivals evs = [] \<and> length evs \<le> 2 \<and>
           work_left ps' < work_left ps \<and> system_inv ext malloc N C rows same K files order' k n (L', ps')"
proof -
  have turn: "?thesis" if evs: "evs \<in> {[], [Fetch 0]}" "sys_run ext malloc evs (L, ps) = Inr (L1, ps)" "i < length ps"
    "system_inv ext malloc N C rows same K files order1 k n (L1, ps)" "turns_left (Some (job_bytes (ps ! i))) (pt_phase (ps ! i)) \<noteq> 0"
    "needs_server (pt_phase (ps ! i)) \<Longrightarrow> pt_obj (ps ! i) \<in> set (concat (map executing (m_threads (m_threadPool L1))))" for evs L1 i order1
  proof -
    obtain L' ps' order' where "sys_step ext malloc (Turn i) (L1, ps) = Inr (L', ps')" "work_left ps' < work_left ps"
      "system_inv ext malloc N C rows same K files order' k n (L', ps')" using served_turn [OF evs(4,3,5,6)] by blast
    moreover from this(1) have "sys_run ext malloc (evs @ [Turn i]) (L, ps) = Inr (L', ps')"
      using evs(1,2) by (auto simp: bindR_eq_Inr_iff simp del: sys_step.simps)
    moreover have "arrivals (evs @ [Turn i]) = []" "length (evs @ [Turn i]) \<le> 2" using evs(1) by (auto simp: arrivals_def)
    ultimately show ?thesis by blast
  qed
  have executed: "\<exists>j < length ps. pt_obj (ps ! j) \<in> set (concat (map executing (m_threads (m_threadPool L1)))) \<and>
      turns_left (Some (job_bytes (ps ! j))) (pt_phase (ps ! j)) \<noteq> 0"
    if "system_inv ext malloc N C rows same K files order1 k n (L1, ps)" "concat (map executing (m_threads (m_threadPool L1))) \<noteq> []"
    for order1 L1
  proof -
    note inv1 = that(1) and busy = that(2)
    obtain o1 where "o1 \<in> set (concat (map executing (m_threads (m_threadPool L1))))"
      using busy list.set_intros(1) neq_Nil_conv by metis
    moreover from this have "o1 \<in> waiting_parties ps" using inv1 by (auto simp: system_inv_def workers_inv_def in_pool_def)
    ultimately show ?thesis using needs_server_turns by (auto simp: waiting_parties_def in_set_conv_nth)
  qed
  obtain i where i: "i < length ps" "turns_left (Some (job_bytes (ps ! i))) (pt_phase (ps ! i)) \<noteq> 0"
    using left by (auto simp: work_left_def in_set_conv_nth)
  show ?thesis
  proof (cases "needs_server (pt_phase (ps ! i))")
    case False
    then show ?thesis using turn [of "[]" L i order] i inv by simp
  next
    case True
    show ?thesis
    proof (cases "concat (map executing (m_threads (m_threadPool L))) = []")
      case False
      then show ?thesis using executed [OF inv] turn [of "[]" L _ order] inv by fastforce
    next
      case free: True
      have wk: "workers_inv n (L, ps)" using inv by (simp add: system_inv_def)
      obtain L1 where L1: "sys_step ext malloc (Fetch 0) (L, ps) = Inr (L1, ps)" "concat (map executing (m_threads (m_threadPool L1))) \<noteq> []"
        using fetch_executes [OF wk i(1) True free] by blast
      have inv1: "system_inv ext malloc N C rows same K files order k n (L1, ps)" using fetch_inv [OF inv, of 0] L1(1) by simp
      have run1: "sys_run ext malloc [Fetch 0] (L, ps) = Inr (L1, ps)" using L1(1) by (simp del: sys_step.simps)
      obtain j where j: "j < length ps" "pt_obj (ps ! j) \<in> set (concat (map executing (m_threads (m_threadPool L1))))"
        "turns_left (Some (job_bytes (ps ! j))) (pt_phase (ps ! j)) \<noteq> 0" using executed [OF inv1 L1(2)] by blast
      show ?thesis using turn [OF _ run1 j(1) inv1 j(3)] j(2) by blast
    qed
  qed
qed

lemma sys_run_append:
  "sys_run ext malloc (evs @ evs') s = bindR (sys_run ext malloc evs s) (sys_run ext malloc evs')"
  proof (induction evs arbitrary: s)
  case (Cons ev evs)
  have "sys_run ext malloc (evs @ evs') = (\<lambda>s. bindR (sys_run ext malloc evs s) (sys_run ext malloc evs'))" using Cons.IH by blast
  then show ?case by (simp add: bindR_assoc del: sys_step.simps)
qed simp

lemma runs_to_the_end:
  assumes "system_inv ext malloc N C rows same K files order k n (L, ps)"
  shows "\<exists>evs L' ps'. sys_run ext malloc evs (L, ps) = Inr (L', ps') \<and> arrivals evs = [] \<and> length evs \<le> 2 * work_left ps \<and>
           (\<forall>p \<in> set ps'. \<exists>w. pt_phase p = Finished w)"
  using assms
proof (induction "work_left ps" arbitrary: L ps order rule: less_induct)
  case less
  show ?case
  proof (cases "work_left ps = 0")
    case True
    then show ?thesis by (intro exI [of _ "[]"] exI [of _ L] exI [of _ ps]) (simp add: arrivals_def work_left_zero)
  next
    case False
    obtain evs1 L1 ps1 order1 where one: "sys_run ext malloc evs1 (L, ps) = Inr (L1, ps1)" "arrivals evs1 = []" "length evs1 \<le> 2"
      "work_left ps1 < work_left ps" "system_inv ext malloc N C rows same K files order1 k n (L1, ps1)"
      using some_turn [OF less.prems False] by blast
    obtain evs2 L2 ps2 where two: "sys_run ext malloc evs2 (L1, ps1) = Inr (L2, ps2)" "arrivals evs2 = []"
      "length evs2 \<le> 2 * work_left ps1" "\<forall>p \<in> set ps2. \<exists>w. pt_phase p = Finished w"
      using less.hyps [OF one(4,5)] by blast
    have "sys_run ext malloc (evs1 @ evs2) (L, ps) = Inr (L2, ps2)" using one(1) two(1) by (simp add: sys_run_append)
    moreover have "arrivals (evs1 @ evs2) = []" using one(2) two(2) by (simp add: arrivals_def)
    moreover have "length (evs1 @ evs2) \<le> 2 * work_left ps" using one(3,4) two(3) by simp
    ultimately show ?thesis using two(4) by blast
  qed
qed

section \<open>The properties\<close>

lemma demo_ready_loop: "n \<le> 20 \<Longrightarrow> ready_loop n demo_loop"
  by (simp add: ready_loop_def demo_loop_def ThreadPool_new_def BlockQueue_new_def start_threads_eq bq_inv_def)

definition demo_jobs :: "(u32 \<times> string \<times> byte list) list" where
  "demo_jobs = [(1, ''a'', [1, 2, 3]), (2, ''a'', [9]), (1, ''a'', [9])]"

text \<open>Three clients, of which two send the same file, with their turns interleaved.\<close>

definition demo_schedule :: "sys_event list" where
  "demo_schedule =
     [Arrive 7 (ClientInfo_new 0 ''10.0.0.1'' 5) (1, ''a'', [1, 2, 3]), Arrive 8 (ClientInfo_new 0 ''10.0.0.2'' 5) (2, ''a'', [9]),
      Fetch 0, Turn 0, Fetch 1, Turn 1, Turn 1, Turn 0, Arrive 9 (ClientInfo_new 0 ''10.0.0.3'' 5) (1, ''a'', [9]),
      Fetch 2, Turn 2, Turn 2, Turn 0, Turn 1, Turn 2, Turn 0]"

lemma demo_schedule_arrivals: "arrivals demo_schedule = demo_jobs"
  by (simp add: demo_schedule_def arrivals_def demo_jobs_def)

lemma demo_jobs_length: "length demo_jobs = 3"
  by (simp add: demo_jobs_def)

lemma demo_schedule_ready:
  assumes "arrivals evs = demo_jobs"
  shows "represents demo_ext 60 demo_chunks sql_demo_rows (=) demo_names (0 + sum_list (map job_cost (arrivals evs))) (m_server demo_loop) Map.empty"
    and "ready_loop (length (arrivals evs)) demo_loop" and "\<forall>job \<in> set (arrivals evs). job_ok demo_chunks demo_names job"
proof -
  have gfn: "get_file_name ''a'' = ''a''" by code_simp
  have ch: "chunks_of [1, 2, 3 :: byte] = [[1, 2, 3]]" "chunks_of [9 :: byte] = [[9]]"
    by (simp_all add: chunks_of_short config_values)
  have "m_server demo_loop = demo_server" by (simp add: demo_loop_def)
  then show "represents demo_ext 60 demo_chunks sql_demo_rows (=) demo_names (0 + sum_list (map job_cost (arrivals evs))) (m_server demo_loop) Map.empty"
    by (simp add: assms demo_jobs_def ch demo_represents)
  show "ready_loop (length (arrivals evs)) demo_loop" by (rule demo_ready_loop) (simp add: assms demo_jobs_def)
  show "\<forall>job \<in> set (arrivals evs). job_ok demo_chunks demo_names job"
    by (auto simp: assms demo_jobs_def job_ok_def gfn ch demo_names_def demo_chunks_def)
qed

text \<open>Every schedule can be continued until all clients have finished.\<close>

lemma schedule_inv:
  assumes "represents ext N C rows same K (k + sum_list (map job_cost (arrivals evs))) (m_server L) files"
    and "names_ok ext malloc same K" and "ready_loop (length (arrivals evs)) L" and "\<forall>job \<in> set (arrivals evs). job_ok C K job"
  shows "\<exists>L' ps order. sys_run ext malloc evs (L, []) = Inr (L', ps) \<and> map pt_job ps = arrivals evs \<and>
    system_inv ext malloc N C rows same K files order k 0 (L', ps)"
proof -
  have "system_inv ext malloc N C rows same K files [] (k + sum_list (map job_cost (arrivals evs))) (0 + length (arrivals evs)) (L, [])"
    using ready_inv [OF assms(1-3)] by simp
  from run_inv [OF this assms(4)] show ?thesis by auto
qed

lemma schedule_completes:
  assumes "represents ext N C rows same K (k + sum_list (map job_cost (arrivals evs))) (m_server L) files"
    and "names_ok ext malloc same K" and "ready_loop (length (arrivals evs)) L" and "\<forall>job \<in> set (arrivals evs). job_ok C K job"
  shows "\<exists>L1 ps1 evs' L2 ps2. sys_run ext malloc evs (L, []) = Inr (L1, ps1) \<and> arrivals evs' = [] \<and> length evs' \<le> 2 * work_left ps1 \<and>
    sys_run ext malloc (evs @ evs') (L, []) = Inr (L2, ps2) \<and> map pt_job ps2 = arrivals evs \<and>
    (\<forall>p \<in> set ps2. \<exists>w. pt_phase p = Finished w)"
proof -
  obtain L1 ps1 order where run: "sys_run ext malloc evs (L, []) = Inr (L1, ps1)"
    and inv: "system_inv ext malloc N C rows same K files order k 0 (L1, ps1)"
    using schedule_inv [OF assms] by blast
  obtain evs' L2 ps2 where more: "sys_run ext malloc evs' (L1, ps1) = Inr (L2, ps2)" "arrivals evs' = []" "length evs' \<le> 2 * work_left ps1"
    "\<forall>p \<in> set ps2. \<exists>w. pt_phase p = Finished w" using runs_to_the_end [OF inv] by blast
  have both: "sys_run ext malloc (evs @ evs') (L, []) = Inr (L2, ps2)" using run more(1) by (simp add: sys_run_append)
  have all: "arrivals (evs @ evs') = arrivals evs" using more(2) by (simp add: arrivals_def)
  have "map pt_job ps2 = arrivals evs"
    using schedule_inv [of ext N C rows same K k "evs @ evs'", unfolded all, OF assms] both by auto
  then show ?thesis using run more both by blast
qed

text \<open>The table in the order of the requests, from the jobs as they arrived.\<close>

lemma table_order:
  assumes "set order = {..<length ps}" "map pt_job ps = jobs"
  shows "claimed order files ps = fst (spec_run (map (\<lambda>i. job_command (jobs ! i)) order) files)"
proof -
  have "map (\<lambda>i. job_command (pt_job (ps ! i))) order = map (\<lambda>i. job_command (jobs ! i)) order"
    unfolding assms(2) [symmetric] using assms(1) by simp
  then show ?thesis unfolding claimed_def by (rule arg_cong)
qed



text \<open>
  C5: overlapping uploads can always finish. After any schedule the workers and clients can continue without further arrivals
  until every client has finished: no client waits for a worker, a message or another client for ever. At most
  two events are needed for each turn the clients have left.
\<close>

theorem uploads_complete:
  assumes "represents ext N C rows same K (k + sum_list (map job_cost (arrivals evs))) (m_server L) files"
    and "names_ok ext malloc same K" and "ready_loop (length (arrivals evs)) L" and "\<forall>job \<in> set (arrivals evs). job_ok C K job"
  shows "\<exists>L1 ps1 evs' L2 ps2. sys_run ext malloc evs (L, []) = Inr (L1, ps1) \<and> arrivals evs' = [] \<and> length evs' \<le> 2 * work_left ps1 \<and>
    sys_run ext malloc (evs @ evs') (L, []) = Inr (L2, ps2) \<and> map pt_job ps2 = arrivals evs \<and>
    (\<forall>p \<in> set ps2. \<exists>w. pt_phase p = Finished w)"
  using assms by (rule schedule_completes)

theorem uploads_complete_witness:
  "\<exists>evs' L' ps. sys_run demo_ext (\<lambda>_. 0) (demo_schedule @ evs') (demo_loop, []) = Inr (L', ps) \<and> map pt_job ps = demo_jobs \<and>
     (\<forall>p \<in> set ps. \<exists>w. pt_phase p = Finished w)"
  using uploads_complete [OF demo_schedule_ready(1) demo_names_ok demo_schedule_ready(2,3)] demo_schedule_arrivals by metis

end
