(* ===== verification/Overlapping_Downloads.thy ===== *)
theory Overlapping_Downloads
  imports Concurrent_Uploads
begin

text \<open>
  Downloads between the messages of overlapping uploads. A schedule now also contains downloads: the event loop accepts the
  client, a free worker fetches it, and its session runs while the uploads of other connections stand half done. A file
  that was stored before the uploads is read correctly at any such moment (\<open>downloads_among_uploads\<close>): its recipe is
  not written, and its containers are on disk and are not changed. Of a file that is being uploaded nothing of
  the kind holds, since chunks are indexed before their container is written.
\<close>

section \<open>A download from a shared store\<close>

text \<open>The contract of a download while other connections hold containers: the file itself is on disk.\<close>

definition offers_disk ::
    "'db ext \<Rightarrow> mem \<Rightarrow> nat \<Rightarrow> byte list set \<Rightarrow> ('db \<Rightarrow> int \<Rightarrow> string \<Rightarrow> nat) \<Rightarrow> (string \<Rightarrow> string \<Rightarrow> bool) \<Rightarrow> cstore \<Rightarrow> u32 \<Rightarrow>
     'db server \<times> conn \<Rightarrow> string \<Rightarrow> byte list \<Rightarrow> 'db server \<times> conn \<times> mode \<Rightarrow> bool" where
  "offers_disk ext malloc N C rows same S cid = (\<lambda>(srv0, c0) fn dat (srv, c, m).
     m = AwaitOrder \<and> env_ok ext N C \<and> idle ext C S (srv, c) \<and> db_ready ext rows same srv \<and>
     client_id (m_client_info c) = cid \<and> sendable malloc fn \<and> rows (m_db srv) (sint cid) fn = 1 \<and>
     (\<exists>recs. on_disk (recipe_key ext cid fn) recs srv \<and> chunks_ok C recs \<and> dat = concat recs) \<and>
     (\<exists>p. srv = srv0\<lparr>m_mysqlPool := p\<rparr>) \<and> out_only c0 (c\<lparr>m_recipeNameHash := m_recipeNameHash c0\<rparr>))"

lemma out_only_hash:
  "out_only a (b\<lparr>m_recipeNameHash := m_recipeNameHash a\<rparr>) \<Longrightarrow> out_only b (c\<lparr>m_recipeNameHash := m_recipeNameHash b\<rparr>) \<Longrightarrow>
   out_only a (c\<lparr>m_recipeNameHash := m_recipeNameHash a\<rparr>)"
  by (cases a; cases b; cases c) (simp add: out_only_def)

lemma disk_law:
  assumes "offers_disk ext malloc N C rows same S cid base fn dat p"
  shows "\<exists>p' m dats frames endf. conn_receive ext (send_control_message malloc DOWNLOAD fn NONE) p =
           Inr (p', send_control_message m DOWNLOADREP [] EXIST # frames @ [endf]) \<and>
         list_all2 data_frame dats frames \<and> concat dats = dat \<and> list_all (\<lambda>d. length d \<le> cl_in_capacity) dats \<and>
         end_frame endf \<and> offers_disk ext malloc N C rows same S cid base fn dat p'"
proof -
  obtain srv0 c0 where base: "base = (srv0, c0)" by (cases base)
  obtain srv c recs q where p: "p = (srv, c, AwaitOrder)" and ok: "env_ok ext N C" "idle ext C S (srv, c)" "db_ready ext rows same srv"
    "client_id (m_client_info c) = cid" "sendable malloc fn" "rows (m_db srv) (sint cid) fn = 1"
    "on_disk (recipe_key ext cid fn) recs srv" "chunks_ok C recs" "dat = concat recs" "srv = srv0\<lparr>m_mysqlPool := q\<rparr>"
    "out_only c0 (c\<lparr>m_recipeNameHash := m_recipeNameHash c0\<rparr>)"
    using assms by (cases p) (auto simp: offers_disk_def base)
  have nm: "name_ok fn" and found: "0 < rows (m_db srv) (sint cid) fn" "rows (m_db srv) (sint cid) fn < 2 ^ 32"
    using ok(5,6) by (simp_all add: sendable_def)
  obtain as where as: "recipes_dir srv (recipe_key ext cid fn) = Some (u32_bytes (of_nat (length as)) @ concat (map enc_addr as))"
    "list_all2 (resolves (containers_dir srv)) as recs" using ok(7) by (auto simp: on_disk_def)
  have req: "receive_control_msg (x_malloc ext) (send_control_message malloc DOWNLOAD fn NONE) [] 0 = Inr (order_val DOWNLOAD, fn, 0)"
    using ok(5) by (rule sendable_request) (simp add: is_request_def)
  obtain q' c' dats frames endf where run: "conn_receive ext (send_control_message malloc DOWNLOAD fn NONE) (srv, c, AwaitOrder) =
      Inr ((srv\<lparr>m_mysqlPool := q'\<rparr>, c', AwaitOrder), send_control_message (x_malloc ext) DOWNLOADREP [] EXIST # frames @ [endf])"
    and fr: "list_all2 data_frame dats frames" "concat dats = concat recs" "list_all (\<lambda>d. length d \<le> out_capacity) dats"
      "end_frame endf"
    and s': "idle ext C S (srv\<lparr>m_mysqlPool := q'\<rparr>, c')" "db_ready ext rows same (srv\<lparr>m_mysqlPool := q'\<rparr>)"
      "out_only c (c'\<lparr>m_recipeNameHash := m_recipeNameHash c\<rparr>)"
    using conn_receive_download_disk [OF ok(1-3) nm found ok(4) req as ok(8)] by (elim exE conjE) (rule that; assumption)
  have "m_client_info c' = m_client_info c" using idle_frame(3) [OF ok(2) s'(3) refl] by simp
  moreover have "on_disk (recipe_key ext cid fn) recs (srv\<lparr>m_mysqlPool := q'\<rparr>)" using ok(7) by (simp add: on_disk_def)
  moreover have "\<exists>p. srv\<lparr>m_mysqlPool := q'\<rparr> = srv0\<lparr>m_mysqlPool := p\<rparr>" using ok(10) by auto
  ultimately have "offers_disk ext malloc N C rows same S cid base fn dat (srv\<lparr>m_mysqlPool := q'\<rparr>, c', AwaitOrder)"
    using ok s' out_only_hash [OF ok(11) s'(3)] unfolding offers_disk_def base prod.case by auto
  then show ?thesis using run fr ok(9) by (auto simp: p cl_in_capacity_def out_capacity_def)
qed

interpretation disk: download_peer malloc "conn_receive ext" "offers_disk ext malloc N C rows same S cid base"
  for ext :: "'db ext" and malloc N C rows same S cid base
  by unfold_locales (rule disk_law)

text \<open>A closed connection that has only received a file holds the empty container it started with.\<close>

lemma covers_same:
  assumes cov: "covers ext srv (conns(p \<mapsto> (c, m))) S"
    and c': "m_containerBuffer c' = m_containerBuffer c" "m_containerQueue c' = m_containerQueue c" "m_recipeQueue c' = m_recipeQueue c"
  shows "covers ext (srv\<lparr>m_mysqlPool := q\<rparr>) (conns(p \<mapsto> (c', m'))) S"
proof -
  have c: "drained c" "unsaved ext (srv, c)" "S (buffer_id c) = Some (container_bytes (m_containerBuffer c))"
    using coversD(3) [OF cov, of p c m] by simp_all
  have uns: "unsaved ext (srv\<lparr>m_mysqlPool := q\<rparr>, d) = unsaved ext (srv, d)" for d by (simp add: unsaved_def saved_def)
  have new: "drained c' \<and> unsaved ext (srv, c') \<and> S (buffer_id c') = Some (container_bytes (m_containerBuffer c'))"
    using c by (simp add: c' drained_def unsaved_def saved_def)
  show ?thesis
  proof (rule coversI)
    show "containers_dir (srv\<lparr>m_mysqlPool := q\<rparr>) \<subseteq>\<^sub>m S" using coversD(1) [OF cov] by simp
    show "dom S \<subseteq> x_uuid ext ` {..<uuid_count (srv\<lparr>m_mysqlPool := q\<rparr>)}" using coversD(2) [OF cov] by simp
    show "drained d \<and> unsaved ext (srv\<lparr>m_mysqlPool := q\<rparr>, d) \<and> S (buffer_id d) = Some (container_bytes (m_containerBuffer d))"
      if "(conns(p \<mapsto> (c', m'))) r = Some (d, n)" for r d n
      using that new coversD(3) [OF cov, of r d n] by (auto simp: uns split: if_splits)
    show "buffer_id d \<noteq> buffer_id e"
      if "(conns(p \<mapsto> (c', m'))) r = Some (d, n)" "(conns(p \<mapsto> (c', m'))) t = Some (e, n')" "r \<noteq> t" for r d n t e n'
      using that coversD(4) [OF cov, of r _ _ t] c'(1) by (auto split: if_splits)
    show "containers_dir (srv\<lparr>m_mysqlPool := q\<rparr>) k = Some bs \<or> (\<exists>r d n. (conns(p \<mapsto> (c', m'))) r = Some (d, n) \<and> buffer_id d = k)"
      if k: "S k = Some bs" "bs \<noteq> []" for k bs
    proof -
      consider "containers_dir srv k = Some bs" | r d n where "(conns(p \<mapsto> (c, m))) r = Some (d, n)" "buffer_id d = k"
        using coversD(5) [OF cov k] by blast
      then show ?thesis
      proof cases
        case 2
        then show ?thesis using c'(1) by (intro disjI2 exI [of _ r]) (auto split: if_splits)
      qed simp
    qed
  qed
qed

text \<open>What the table of the store says of a file, for a download: it is not there, or it is on disk.\<close>

definition readable ::
    "'db ext \<Rightarrow> byte list set \<Rightarrow> ('db \<Rightarrow> int \<Rightarrow> string \<Rightarrow> nat) \<Rightarrow> u32 \<Rightarrow> string \<Rightarrow> byte list option \<Rightarrow> 'db server \<Rightarrow> bool" where
  "readable ext C rows cid fn content srv \<longleftrightarrow> (case content of
     None \<Rightarrow> rows (m_db srv) (sint cid) fn = 0
   | Some bs \<Rightarrow> rows (m_db srv) (sint cid) fn = 1 \<and> set (chunks_of bs) \<subseteq> C \<and> on_disk (recipe_key ext cid fn) (chunks_of bs) srv)"

definition content_of :: "byte list option \<Rightarrow> byte list" where
  "content_of content = (case content of None \<Rightarrow> [] | Some bs \<Rightarrow> bs)"

lemma download_shared:
  assumes env: "env_ok ext N C" and idle: "idle ext C S (srv, c)" and db: "db_ready ext rows same srv"
    and fn: "sendable malloc (get_file_name (cl_file_path cl))" and cid: "client_id (m_client_info c) = cid"
    and content: "readable ext C rows cid (get_file_name (cl_file_path cl)) content srv"
  shows "\<exists>cl' q c'. download_file malloc (conn_receive ext) cl ((srv, c, AwaitOrder), []) =
           Inr (cl', content_of content, ((srv\<lparr>m_mysqlPool := q\<rparr>, c', AwaitOrder), [])) \<and>
         db_ready ext rows same (srv\<lparr>m_mysqlPool := q\<rparr>) \<and> out_only c (c'\<lparr>m_recipeNameHash := m_recipeNameHash c\<rparr>)"
proof (cases content)
  case None
  define fn where "fn = get_file_name (cl_file_path cl)"
  have "rows (m_db srv) (sint cid) fn = 0" using content by (simp add: None readable_def fn_def)
  then obtain q where run: "conn_receive ext (send_control_message malloc DOWNLOAD fn NONE) (srv, c, AwaitOrder) =
      Inr ((srv\<lparr>m_mysqlPool := q\<rparr>, c\<lparr>m_recipeNameHash := recipe_key ext cid fn\<rparr>, AwaitOrder),
           [send_control_message (x_malloc ext) DOWNLOADREP [] NOTEXIST])" and q: "pool_ok q" "m_connpool q \<noteq> []"
    using download_request_refused [OF env db cid] assms(4) unfolding fn_def [symmetric] by blast
  have "download_file malloc (conn_receive ext) cl ((srv, c, AwaitOrder), []) =
      Inr (cl, [], ((srv\<lparr>m_mysqlPool := q\<rparr>, c\<lparr>m_recipeNameHash := recipe_key ext cid fn\<rparr>, AwaitOrder), []))"
    using run unfolding fn_def by (rule download_file_refused)
  then show ?thesis using q db
    by (intro exI [of _ cl] exI [of _ q] exI [of _ "c\<lparr>m_recipeNameHash := recipe_key ext cid fn\<rparr>"])
      (simp add: None content_of_def db_ready_def fn_def)
next
  case (Some bs)
  have chs: "chunks_ok C (chunks_of bs)" "concat (chunks_of bs) = bs"
    using content chunks_of_ok(2) by (auto simp: Some readable_def chunks_of_facts(1))
  have offers: "offers_disk ext malloc N C rows same S cid (srv, c) (get_file_name (cl_file_path cl)) bs (srv, c, AwaitOrder)"
    using assms chs by (auto simp: offers_disk_def Some readable_def intro!: exI [of _ "chunks_of bs"] exI [of _ "m_mysqlPool srv"])
  obtain cl' p' where run: "download_file malloc (conn_receive ext) cl ((srv, c, AwaitOrder), []) = Inr (cl', bs, (p', []))"
    and "offers_disk ext malloc N C rows same S cid (srv, c) (get_file_name (cl_file_path cl)) bs p'"
    using disk.file_downloaded [OF offers] by blast
  then obtain q c' where "p' = (srv\<lparr>m_mysqlPool := q\<rparr>, c', AwaitOrder)" "db_ready ext rows same (srv\<lparr>m_mysqlPool := q\<rparr>)"
    "out_only c (c'\<lparr>m_recipeNameHash := m_recipeNameHash c\<rparr>)"
    by (cases p') (auto simp: offers_disk_def)
  then show ?thesis using run by (intro exI [of _ cl'] exI [of _ q] exI [of _ c']) (simp add: Some content_of_def)
qed

lemma idle_logged_in:
  assumes "idle ext C S (srv, c)"
  shows "idle ext C S (srv, c\<lparr>m_client_info := i\<rparr>)"
proof -
  have st: "gstore S srv (c\<lparr>m_client_info := i\<rparr>) = gstore S srv c" by (simp add: gstore_def)
  show ?thesis using assms unfolding idle_def cont_inv_def prod.case st by (simp add: rec_ok_def drained_def)
qed

lemma out_only_buffers: "out_only c (c'\<lparr>m_recipeNameHash := h\<rparr>) \<Longrightarrow>
  m_containerBuffer c' = m_containerBuffer c \<and> m_containerQueue c' = m_containerQueue c \<and> m_recipeQueue c' = m_recipeQueue c"
  by (cases c; cases c') (simp add: out_only_def)

text \<open>The whole session of a download, among other connections.\<close>

lemma session_download_shared:
  assumes env: "env_ok ext N C" and cov: "covers ext srv conns S" and sound: "index_sound ext C S (m_all_chunks srv)"
    and db: "db_ready ext rows same srv" and uuid: "uuid_count srv < N" and p: "conns p = None"
    and cl: "cl_op cl = CHR ''d''" "sendable malloc (get_file_name (cl_file_path cl))"
    and content: "readable ext C rows (cl_client_id cl) (get_file_name (cl_file_path cl)) content srv"
  shows "\<exists>c0 cl' q c' S'. ClientConn_new ext sockfd info srv = Inr (srv\<lparr>uuid_count := uuid_count srv + 1\<rparr>, c0) \<and>
           session ext malloc sockfd info None cl srv = Inr (cl', Some (content_of content),
             ((srv\<lparr>uuid_count := uuid_count srv + 1, m_mysqlPool := q\<rparr>, c', Closed), [])) \<and>
           db_ready ext rows same (srv\<lparr>uuid_count := uuid_count srv + 1, m_mysqlPool := q\<rparr>) \<and>
           covers ext (srv\<lparr>uuid_count := uuid_count srv + 1, m_mysqlPool := q\<rparr>) (conns(p \<mapsto> (c', Closed))) S' \<and>
           occupied (m_containerBuffer c') = 0 \<and> store_keeps S S' \<and> index_sound ext C S' (m_all_chunks srv) \<and>
           dom S' \<subseteq> x_uuid ext ` {..<uuid_count srv + 1}"
proof -
  let ?srv = "srv\<lparr>uuid_count := uuid_count srv + 1\<rparr>"
  obtain c where c: "ClientConn_new ext sockfd info srv = Inr (?srv, c)" "idle ext C S (?srv, c)"
    "store_keeps S (gstore S ?srv c)" "covers ext ?srv (conns(p \<mapsto> (c, Closed))) (gstore S ?srv c)"
    using covers_accept [OF env cov sound uuid p] by blast
  define d where "d = c\<lparr>m_client_info := (m_client_info c)\<lparr>client_id := cl_client_id cl\<rparr>\<rparr>"
  have "readable ext C rows (cl_client_id cl) (get_file_name (cl_file_path cl)) content ?srv"
    using content by (simp add: readable_def on_disk_def split: option.splits)
  moreover have "idle ext C S (?srv, d)" "client_id (m_client_info d) = cl_client_id cl"
    using idle_logged_in [OF c(2)] by (simp_all add: d_def)
  moreover have "db_ready ext rows same ?srv" using db by (simp add: db_ready_def)
  ultimately obtain cl' q c' where run: "download_file malloc (conn_receive ext) cl ((?srv, d, AwaitOrder), []) =
      Inr (cl', content_of content, ((?srv\<lparr>m_mysqlPool := q\<rparr>, c', AwaitOrder), []))"
    and db': "db_ready ext rows same (?srv\<lparr>m_mysqlPool := q\<rparr>)" and out: "out_only d (c'\<lparr>m_recipeNameHash := m_recipeNameHash d\<rparr>)"
    using download_shared [OF env _ _ cl(2)] by blast
  have buf: "m_containerBuffer c' = m_containerBuffer c" "m_containerQueue c' = m_containerQueue c" "m_recipeQueue c' = m_recipeQueue c"
    using out_only_buffers [OF out] by (simp_all add: d_def)
  have "session ext malloc sockfd info None cl srv = Inr (cl', Some (content_of content), ((?srv\<lparr>m_mysqlPool := q\<rparr>, c', Closed), []))"
    using session_download_eq [OF c(1) cl(1)] run unfolding d_def by blast
  moreover have "occupied (m_containerBuffer c') = 0" using c(2) buf(1) by (simp add: idle_def)
  ultimately show ?thesis
    using c(1,3) db' covers_same [OF c(4) buf] idle_facts [OF c(2)] by fastforce
qed

section \<open>Schedules with downloads\<close>

text \<open>
  A download is one event: \<open>Get fd info w cid path\<close> is a client that arrives on the descriptor \<open>fd\<close> while the
  queue is empty and worker \<open>w\<close> is free, and runs \<^verbatim>\<open>DedupClient\<close> to its end. Otherwise the event cannot happen and is skipped.
\<close>

datatype mixed_event =
    Overlap sys_event
  | Get int ClientInfo_t nat u32 string

definition can_get :: "nat \<Rightarrow> 'db loop \<Rightarrow> bool" where
  "can_get w L \<longleftrightarrow> m_queue (m_requests (m_threadPool L)) = [] \<and> 0 < m_size (m_requests (m_threadPool L)) \<and>
     w < length (m_threads (m_threadPool L)) \<and> m_threads (m_threadPool L) ! w = Fetching"

definition get_step ::
    "'db ext \<Rightarrow> mem \<Rightarrow> int \<Rightarrow> ClientInfo_t \<Rightarrow> nat \<Rightarrow> u32 \<Rightarrow> string \<Rightarrow> 'db loop \<Rightarrow> crash + 'db loop \<times> byte list option" where
  "get_step ext malloc fd info w cid path L =
     (if can_get w L
      then bindR (handle_event ext (Incoming fd info) L) (\<lambda>L.
        (case worker_fetch w L of
           None \<Rightarrow> Inr (L, None)
         | Some L \<Rightarrow>
             bindR (client_run (x_evp ext) malloc (worker_receive ext w) None (client_of malloc cid CHR ''d'' path) (L, [])) (\<lambda>(cl, written, L, inbox).
             Inr (L, written))))
      else Inr (L, None))"

fun mixed_step ::
    "'db ext \<Rightarrow> mem \<Rightarrow> mixed_event \<Rightarrow> 'db loop \<times> party list \<Rightarrow> crash + ('db loop \<times> party list) \<times> byte list option" where
  "mixed_step ext malloc (Overlap ev) s = bindR (sys_step ext malloc ev s) (\<lambda>s. Inr (s, None))"
| "mixed_step ext malloc (Get fd info w cid path) (L, ps) =
     bindR (get_step ext malloc fd info w cid path L) (\<lambda>(L, out). Inr ((L, ps), out))"

fun mixed_run ::
    "'db ext \<Rightarrow> mem \<Rightarrow> mixed_event list \<Rightarrow> 'db loop \<times> party list \<Rightarrow> crash + ('db loop \<times> party list) \<times> byte list option list" where
  "mixed_run ext malloc [] s = Inr (s, [])"
| "mixed_run ext malloc (ev # evs) s =
     bindR (mixed_step ext malloc ev s) (\<lambda>(s, out).
     bindR (mixed_run ext malloc evs s) (\<lambda>(s, outs).
     Inr (s, out # outs)))"

text \<open>The download session in the pool.\<close>

lemma get_served:
  assumes wk: "workers_inv n (L, ps)" and can: "can_get w L"
    and new: "ClientConn_new ext fd info (m_server L) = Inr (srv, c0)"
    and sess: "session ext malloc fd info None (client_of malloc cid CHR ''d'' path) (m_server L) = Inr (cl', Some dat, ((srv', c', Closed), []))"
  shows "\<exists>L'. get_step ext malloc fd info w cid path L = Inr (L', Some dat) \<and> workers_inv n (L', ps) \<and>
           m_server L' = srv' \<and> heap L' = (heap L)(next_obj L \<mapsto> (c', Closed))"
proof -
  let ?ths = "m_threads (m_threadPool L)" and ?q = "\<lambda>L. m_requests (m_threadPool L)"
  define pre where "pre = take w ?ths"
  define post where "post = drop (Suc w) ?ths"
  have len: "length pre = w" and ths: "?ths = pre @ Fetching # post"
    using can id_take_nth_drop [of w ?ths] by (simp_all add: can_get_def pre_def post_def)
  have empty: "m_queue (?q L) = []" "0 < m_size (?q L)" using can by (simp_all add: can_get_def)
  obtain L1 L2 where L1: "handle_event ext (Incoming fd info) L = Inr L1" "worker_fetch w L1 = Some L2"
    and L2: "next_obj L2 = next_obj L + 1" "heap L2 = (heap L)(next_obj L \<mapsto> (c0, AwaitLogin))" "m_size (?q L2) = m_size (?q L)"
      "m_done (?q L2) = m_done (?q L)" "m_queue (?q L2) = []" "bq_inv (?q L) \<longrightarrow> bq_inv (?q L2)"
    and run: "client_run (x_evp ext) malloc (worker_receive ext w) None (client_of malloc cid CHR ''d'' path) (L2, []) =
      mapR (\<lambda>(cl, written, net). (cl, written, net_map (serving pre post (next_obj L) L2) net))
        (session ext malloc fd info None (client_of malloc cid CHR ''d'' path) (m_server L))"
    using session_in_pool [OF new empty ths, of malloc None "client_of malloc cid CHR ''d'' path", unfolded len]
    by (elim exE conjE) (rule that; assumption)
  define L' where "L' = serving pre post (next_obj L) L2 (srv', c', Closed)"
  have step: "get_step ext malloc fd info w cid path L = Inr (L', Some dat)"
    using can L1 run sess by (simp add: get_step_def L'_def)
  have th': "m_threads (m_threadPool L') = ?ths" by (simp add: L'_def serving_def close_fd_def ths Let_def)
  have "in_pool L' = in_pool L"
    by (simp add: L'_def in_pool_serving L2(5)) (simp add: in_pool_def empty ths executing_def)
  then have "workers_inv n (L', ps)"
    using wk L2 th' empty unfolding workers_inv_def prod.case L'_def serving_select by (auto simp: less_Suc_eq)
  then show ?thesis using step L2(2) by (simp add: L'_def)
qed

text \<open>It keeps the invariant of the uploads.\<close>

lemma other_session_inv:
  assumes inv: "system_inv ext malloc N C rows same K files order (Suc k) n (L, ps)"
    and srv: "m_server L' = (m_server L)\<lparr>uuid_count := uuid_count (m_server L) + 1, m_mysqlPool := q\<rparr>"
    and hp: "heap L' = (heap L)(next_obj L \<mapsto> (c', Closed))" "occupied (m_containerBuffer c') = 0" and wk': "workers_inv n' (L', ps)"
    and db: "db_ready ext rows same (m_server L')"
    and S': "\<And>S. covers ext (m_server L) (heap L) S \<Longrightarrow> index_sound ext C S (m_all_chunks (m_server L)) \<Longrightarrow> \<exists>S'. covers ext (m_server L') (heap L') S' \<and>
      store_keeps S S' \<and> index_sound ext C S' (m_all_chunks (m_server L)) \<and> dom S' \<subseteq> x_uuid ext ` {..<uuid_count (m_server L) + 1}"
  shows "system_inv ext malloc N C rows same K files order k n' (L', ps)"
proof -
  obtain S where wk: "workers_inv n (L, ps)" and names: "names_ok ext malloc same K" and kept: "kept_inv ext K files (L, ps)"
    and sh: "shared_inv ext N C rows same (Suc k) S (L, ps)"
    and parties: "\<forall>p \<in> set ps. party_inv ext C K S L p" and tab: "table_inv ext C rows K files order S (L, ps)"
    using inv by (auto simp: system_inv_def)
  have env: "env_ok ext N C" and cov: "covers ext (m_server L) (heap L) S" and sound: "index_sound ext C S (m_all_chunks (m_server L))"
    using sh by (simp_all add: shared_inv_def)
  obtain T where T: "covers ext (m_server L') (heap L') T" "store_keeps S T" "index_sound ext C T (m_all_chunks (m_server L))"
    "dom T \<subseteq> x_uuid ext ` {..<uuid_count (m_server L) + 1}" using S' [OF cov sound] by blast
  have step: "shared_step ext C {} (m_server L, S) (m_server L', T)"
    using T by (intro shared_step_accept) (simp_all add: srv)
  have "heap L (next_obj L) = None" using wk by (cases "heap L (next_obj L)") (auto simp: workers_inv_def)
  then have "next_obj L \<notin> pt_obj ` set ps" using wk by (auto simp: workers_inv_def)
  then have heaps: "heap L' (pt_obj p) = heap L (pt_obj p)" if "p \<in> set ps" for p
    using that by (simp add: hp(1)) (metis imageI)
  then have wr: "writer L' p = writer L p" if "p \<in> set ps" for p using that by (simp add: writer_def)
  have "\<forall>p \<in> set ps. party_inv ext C K T L' p"
    using parties heaps by (auto intro: party_inv_other [OF _ env cov T(1) _ step])
  moreover have "shared_inv ext N C rows same k T (L', ps)"
    using sh T db hp by (simp add: shared_inv_def srv)
  moreover have "kept_inv ext K files (L', ps)" using kept wr by (auto simp: kept_inv_def srv on_disk_def)
  moreover have "table_inv ext C rows K files order T (L', ps)"
  proof (rule table_invI)
    show "rows (m_db (m_server L')) (sint cid) fn = 0" if "(cid, fn) \<in> K" "claimed order files ps (cid, fn) = None" for cid fn
      using table_invD(3) [OF tab that] by (simp add: srv)
    show "entry_inv ext C rows T (L', ps) cid fn bs" if "(cid, fn) \<in> K" "claimed order files ps (cid, fn) = Some bs" for cid fn bs
      by (rule entry_inv_other [OF table_invD(4) [OF tab that] step]) (simp_all add: srv wr)
  qed (use tab wr in \<open>auto dest: table_invD(1,2,5,6)\<close>)
  ultimately show ?thesis using names wk' by (auto simp: system_inv_def)
qed

lemma system_inv_less:
  assumes "system_inv ext malloc N C rows same K files order (j + k) n s"
  shows "system_inv ext malloc N C rows same K files order k n s"
proof -
  have "shared_inv ext N C rows same (j + k) S s \<Longrightarrow> shared_inv ext N C rows same k S s" for S
    by (cases s) (simp add: shared_inv_def)
  then show ?thesis using assms by (auto simp: system_inv_def)
qed

text \<open>A name no client uploads keeps its entry.\<close>

definition job_name :: "u32 \<times> string \<times> byte list \<Rightarrow> u32 \<times> string" where
  "job_name = (\<lambda>(cid, path, bs). (cid, get_file_name path))"

lemma spec_uploads_other:
  "nm \<notin> job_name ` set jobs \<Longrightarrow> fst (spec_run (map job_command jobs) files) nm = files nm"
proof (induction jobs arbitrary: files)
  case (Cons job jobs)
  then show ?case by (cases job) (auto simp: job_command_def job_name_def Let_def split_beta)
qed simp

lemma claimed_other:
  assumes "set order \<subseteq> {..<length ps}" "nm \<notin> (\<lambda>p. job_name (pt_job p)) ` set ps"
  shows "claimed order files ps nm = files nm"
proof -
  have "job_name ` set (map (\<lambda>i. pt_job (ps ! i)) order) \<subseteq> (\<lambda>p. job_name (pt_job p)) ` set ps" using assms(1) by auto
  then show ?thesis
    using spec_uploads_other [of nm "map (\<lambda>i. pt_job (ps ! i)) order" files] assms(2) by (auto simp: claimed_def comp_def)
qed

lemma stored_or_absent_readable:
  assumes inv: "system_inv ext malloc N C rows same K files order k n (L, ps)" and K: "(cid, fn) \<in> K"
    and quiet: "files (cid, fn) \<noteq> None \<or> (cid, fn) \<notin> (\<lambda>p. job_name (pt_job p)) ` set ps"
  shows "readable ext C rows cid fn (files (cid, fn)) (m_server L)"
proof -
  obtain S where kept: "kept_inv ext K files (L, ps)" and tab: "table_inv ext C rows K files order S (L, ps)"
    using inv by (auto simp: system_inv_def)
  show ?thesis
  proof (cases "files (cid, fn)")
    case None
    have "set order \<subseteq> {..<length ps}" using table_invD(2) [OF tab] by auto
    then have "claimed order files ps (cid, fn) = None" using claimed_other [of order ps "(cid, fn)" files] quiet None by simp
    then show ?thesis using table_invD(3) [OF tab K] None by (simp add: readable_def)
  next
    case (Some bs)
    then show ?thesis using kept_row [OF tab K Some] kept K by (simp add: readable_def kept_inv_def)
  qed
qed

lemma get_inv:
  assumes inv: "system_inv ext malloc N C rows same K files order (Suc k) n (L, ps)" and K: "(cid, get_file_name path) \<in> K"
    and quiet: "files (cid, get_file_name path) \<noteq> None \<or> (cid, get_file_name path) \<notin> (\<lambda>p. job_name (pt_job p)) ` set ps"
  shows "\<exists>L'. get_step ext malloc fd info w cid path L =
           Inr (L', if can_get w L then snd (spec_command (Download cid path) files) else None) \<and>
         system_inv ext malloc N C rows same K files order k n (L', ps)"
proof (cases "can_get w L")
  case False
  then show ?thesis using system_inv_less [of _ _ _ _ _ _ _ _ _ 1 k] inv by (simp add: get_step_def)
next
  case True
  let ?fn = "get_file_name path" and ?cl = "client_of malloc cid CHR ''d'' path"
  obtain S where wk: "workers_inv n (L, ps)" and names: "names_ok ext malloc same K" and sh: "shared_inv ext N C rows same (Suc k) S (L, ps)"
    using inv by (auto simp: system_inv_def)
  have env: "env_ok ext N C" and db: "db_ready ext rows same (m_server L)" and uuid: "uuid_count (m_server L) < N"
    and cov: "covers ext (m_server L) (heap L) S" and sound: "index_sound ext C S (m_all_chunks (m_server L))"
    using sh by (simp_all add: shared_inv_def)
  have free: "heap L (next_obj L) = None" using wk by (cases "heap L (next_obj L)") (auto simp: workers_inv_def)
  have cl: "cl_op ?cl = CHR ''d''" "sendable malloc (get_file_name (cl_file_path ?cl))"
    "readable ext C rows (cl_client_id ?cl) (get_file_name (cl_file_path ?cl)) (files (cid, ?fn)) (m_server L)"
    using names K stored_or_absent_readable [OF inv K quiet] by (auto simp: names_ok_def)
  note sess = session_download_shared [where srv = "m_server L" and conns = "heap L" and p = "next_obj L" and cl = ?cl and
      malloc = malloc and ext = ext and sockfd = fd and info = info and C = C and same = same and rows = rows and
      content = "files (cid, ?fn)", OF env _ _ db uuid free cl]
  let ?srv = "\<lambda>q. (m_server L)\<lparr>uuid_count := uuid_count (m_server L) + 1, m_mysqlPool := q\<rparr>"
  obtain c0 cl' q c' where new: "ClientConn_new ext fd info (m_server L) = Inr ((m_server L)\<lparr>uuid_count := uuid_count (m_server L) + 1\<rparr>, c0)"
    and run: "session ext malloc fd info None ?cl (m_server L) = Inr (cl', Some (content_of (files (cid, ?fn))), ((?srv q, c', Closed), []))"
    and db': "db_ready ext rows same (?srv q)" and occ: "occupied (m_containerBuffer c') = 0"
    using sess [OF cov sound] by blast
  obtain L' where L': "get_step ext malloc fd info w cid path L = Inr (L', Some (content_of (files (cid, ?fn))))" "workers_inv n (L', ps)"
    "m_server L' = ?srv q" "heap L' = (heap L)(next_obj L \<mapsto> (c', Closed))"
    using get_served [OF wk True new run] by blast
  have "system_inv ext malloc N C rows same K files order k n (L', ps)"
  proof (rule other_session_inv [OF inv L'(3,4) occ L'(2)])
    show "db_ready ext rows same (m_server L')" using db' by (simp add: L'(3))
    show "\<exists>S'. covers ext (m_server L') (heap L') S' \<and> store_keeps S S' \<and> index_sound ext C S' (m_all_chunks (m_server L)) \<and>
        dom S' \<subseteq> x_uuid ext ` {..<uuid_count (m_server L) + 1}"
      if "covers ext (m_server L) (heap L) S" "index_sound ext C S (m_all_chunks (m_server L))" for S
      using sess [OF that] run new unfolding L'(3,4) by fastforce
  qed
  then show ?thesis using L'(1) True by (simp add: content_of_def)
qed

section \<open>The property\<close>

fun event_jobs :: "mixed_event \<Rightarrow> (u32 \<times> string \<times> byte list) list" where
  "event_jobs (Overlap ev) = arrival ev"
| "event_jobs (Get fd info w cid path) = []"

definition mixed_jobs :: "mixed_event list \<Rightarrow> (u32 \<times> string \<times> byte list) list" where
  "mixed_jobs evs = concat (map event_jobs evs)"

fun event_cost :: "mixed_event \<Rightarrow> nat" where
  "event_cost (Overlap ev) = sum_list (map job_cost (arrival ev))"
| "event_cost (Get fd info w cid path) = cost (Download cid path)"

text \<open>
  What the table before the first client says of each download that can happen. The name of a download is in that
  table, or no client uploads it (\<open>names\<close> are the names of the uploads).
\<close>

fun table_answers ::
    "'db ext \<Rightarrow> mem \<Rightarrow> file_table \<Rightarrow> mixed_event list \<Rightarrow> 'db loop \<times> party list \<Rightarrow> byte list option list" where
  "table_answers ext malloc files [] s = []"
| "table_answers ext malloc files (ev # evs) s =
     (case ev of
        Overlap e \<Rightarrow> None
      | Get fd info w cid path \<Rightarrow> if can_get w (fst s) then snd (spec_command (Download cid path) files) else None) #
     (case mixed_step ext malloc ev s of Inl c \<Rightarrow> [] | Inr (s, out) \<Rightarrow> table_answers ext malloc files evs s)"

fun event_ok :: "byte list set \<Rightarrow> (u32 \<times> string) set \<Rightarrow> file_table \<Rightarrow> (u32 \<times> string) set \<Rightarrow> mixed_event \<Rightarrow> bool" where
  "event_ok C K files names (Overlap ev) \<longleftrightarrow> (\<forall>job \<in> set (arrival ev). job_ok C K job \<and> job_name job \<in> names)"
| "event_ok C K files names (Get fd info w cid path) \<longleftrightarrow> (cid, get_file_name path) \<in> K \<and>
     (files (cid, get_file_name path) \<noteq> None \<or> (cid, get_file_name path) \<notin> names)"

lemma mixed_step_inv:
  assumes inv: "system_inv ext malloc N C rows same K files order (k + event_cost ev) (n + length (event_jobs ev)) (L, ps)"
    and ev: "event_ok C K files names ev" and ps: "job_name ` set (map pt_job ps) \<subseteq> names"
  shows "\<exists>L' ps' order' out. mixed_step ext malloc ev (L, ps) = Inr ((L', ps'), out) \<and>
           (\<forall>evs. table_answers ext malloc files (ev # evs) (L, ps) = out # table_answers ext malloc files evs (L', ps')) \<and>
           map pt_job ps' = map pt_job ps @ event_jobs ev \<and> system_inv ext malloc N C rows same K files order' k n (L', ps')"
proof (cases ev)
  case (Overlap e)
  have "system_inv ext malloc N C rows same K files order (k + sum_list (map job_cost (arrival e))) (n + length (arrival e)) (L, ps)"
    "\<forall>job \<in> set (arrival e). job_ok C K job" using inv ev by (simp_all add: Overlap)
  from step_inv [OF this] show ?thesis by (auto simp: Overlap simp del: sys_step.simps)
next
  case (Get fd info w cid path)
  have "system_inv ext malloc N C rows same K files order (Suc k) n (L, ps)" using inv by (simp add: Get)
  from get_inv [OF this, of cid path fd info w] show ?thesis using ev ps by (fastforce simp: Get)
qed

lemma mixed_run_inv:
  assumes "system_inv ext malloc N C rows same K files order (k + sum_list (map event_cost evs)) (n + length (mixed_jobs evs)) (L, ps)"
    and "\<forall>ev \<in> set evs. event_ok C K files names ev" and "job_name ` set (map pt_job ps) \<subseteq> names"
  shows "\<exists>L' ps' order'. mixed_run ext malloc evs (L, ps) = Inr ((L', ps'), table_answers ext malloc files evs (L, ps)) \<and>
           map pt_job ps' = map pt_job ps @ mixed_jobs evs \<and> system_inv ext malloc N C rows same K files order' k n (L', ps')"
  using assms
proof (induction evs arbitrary: L ps order)
  case Nil
  then show ?case by (auto simp: mixed_jobs_def)
next
  case (Cons ev evs)
  have inv: "system_inv ext malloc N C rows same K files order ((k + sum_list (map event_cost evs)) + event_cost ev)
      ((n + length (mixed_jobs evs)) + length (event_jobs ev)) (L, ps)"
    using Cons.prems(1) by (simp add: mixed_jobs_def add.assoc add.commute add.left_commute)
  have ev: "event_ok C K files names ev" "\<forall>ev \<in> set evs. event_ok C K files names ev" using Cons.prems(2) by simp_all
  obtain L1 ps1 order1 out where one: "mixed_step ext malloc ev (L, ps) = Inr ((L1, ps1), out)"
    "\<forall>evs. table_answers ext malloc files (ev # evs) (L, ps) = out # table_answers ext malloc files evs (L1, ps1)"
    "map pt_job ps1 = map pt_job ps @ event_jobs ev"
    "system_inv ext malloc N C rows same K files order1 (k + sum_list (map event_cost evs)) (n + length (mixed_jobs evs)) (L1, ps1)"
    using mixed_step_inv [OF inv ev(1) Cons.prems(3)] by blast
  have "job_name ` set (event_jobs ev) \<subseteq> names" using ev(1) by (cases ev) auto
  then have "job_name ` set (map pt_job ps1) \<subseteq> names" using Cons.prems(3) unfolding one(3) by auto
  from Cons.IH [OF one(4) ev(2) this] obtain L' ps' order' where rest:
    "mixed_run ext malloc evs (L1, ps1) = Inr ((L', ps'), table_answers ext malloc files evs (L1, ps1))"
    "map pt_job ps' = map pt_job ps1 @ mixed_jobs evs" "system_inv ext malloc N C rows same K files order' k n (L', ps')" by blast
  have "mixed_run ext malloc (ev # evs) (L, ps) = Inr ((L', ps'), table_answers ext malloc files (ev # evs) (L, ps))"
    using one(1) rest(1) by (simp add: one(2) [rule_format] del: table_answers.simps mixed_step.simps)
  then show ?case using rest(2,3) one(3) by (auto simp: mixed_jobs_def simp del: table_answers.simps)
qed


text \<open>A file that is there, and a client that downloads it while another client, already served by worker 0, uploads one.\<close>

definition demo_mixed :: "mixed_event list" where
  "demo_mixed =
     [Overlap (Arrive 7 (ClientInfo_new 0 ''10.0.0.1'' 5) (1, ''a'', [1, 2, 3])), Overlap (Fetch 0),
      Get 8 (ClientInfo_new 0 ''10.0.0.2'' 5) 1 1 ''b'', Overlap (Turn 0), Overlap (Turn 0), Get 8 (ClientInfo_new 0 ''10.0.0.2'' 5) 1 2 ''a'',
      Overlap (Turn 0), Get 9 (ClientInfo_new 0 ''10.0.0.3'' 5) 2 1 ''b'', Overlap (Turn 0)]"

definition stored_loop :: "(string \<times> string) list server \<Rightarrow> (string \<times> string) list loop" where
  "stored_loop srv = demo_loop\<lparr>m_server := srv\<rparr>"

lemma demo_stored:
  "\<exists>srv. represents demo_ext 60 demo_chunks sql_demo_rows (=) demo_names 40 srv [(1, ''b'') \<mapsto> [9]]"
proof -
  have gfn: "get_file_name ''b'' = ''b''" by code_simp
  have ch: "chunks_of [9 :: byte] = [[9]]" by (simp add: chunks_of_short config_values)
  have "represents demo_ext 60 demo_chunks sql_demo_rows (=) demo_names (sum_list (map cost [Upload 1 ''b'' [9]]) + 40) demo_server Map.empty"
    by (rule demo_represents) (simp add: ch)
  from run_commands_refine [OF this demo_names_ok] show ?thesis
    by (auto simp: gfn ch demo_names_def demo_chunks_def)
qed

lemma demo_mixed_ready:
  assumes "represents demo_ext 60 demo_chunks sql_demo_rows (=) demo_names 40 srv [(1, ''b'') \<mapsto> [9]]"
  shows "represents demo_ext 60 demo_chunks sql_demo_rows (=) demo_names (34 + sum_list (map event_cost demo_mixed)) (m_server (stored_loop srv))
      [(1, ''b'') \<mapsto> [9]]"
    and "ready_loop (length (mixed_jobs demo_mixed)) (stored_loop srv)"
    and "\<forall>ev \<in> set demo_mixed. event_ok demo_chunks demo_names [(1, ''b'') \<mapsto> [9]] (job_name ` set (mixed_jobs demo_mixed)) ev"
proof -
  have gfn: "get_file_name ''a'' = ''a''" "get_file_name ''b'' = ''b''" by code_simp+
  have ch: "chunks_of [1, 2, 3 :: byte] = [[1, 2, 3]]" by (simp add: chunks_of_short config_values)
  have jobs: "mixed_jobs demo_mixed = [(1, ''a'', [1, 2, 3])]" by (simp add: mixed_jobs_def demo_mixed_def)
  show "represents demo_ext 60 demo_chunks sql_demo_rows (=) demo_names (34 + sum_list (map event_cost demo_mixed)) (m_server (stored_loop srv))
      [(1, ''b'') \<mapsto> [9]]"
    using assms by (simp add: demo_mixed_def ch stored_loop_def)
  show "ready_loop (length (mixed_jobs demo_mixed)) (stored_loop srv)"
    using demo_ready_loop [of 1] by (simp add: jobs ready_loop_def stored_loop_def)
  show "\<forall>ev \<in> set demo_mixed. event_ok demo_chunks demo_names [(1, ''b'') \<mapsto> [9]] (job_name ` set (mixed_jobs demo_mixed)) ev"
    unfolding jobs by (simp add: demo_mixed_def job_ok_def job_name_def gfn ch demo_chunks_def demo_names_def)
qed

lemma demo_first_answer:
  assumes "represents demo_ext 60 demo_chunks sql_demo_rows (=) demo_names 40 srv files"
  shows "table_answers demo_ext (\<lambda>_. 0) files demo_mixed (stored_loop srv, []) ! 2 = Some (content_of (files (1, ''b'')))"
proof -
  let ?L = "stored_loop srv" and ?info = "ClientInfo_new 0 ''10.0.0.1'' 5" and ?job = "(1, ''a'', [1, 2, 3]) :: u32 \<times> string \<times> byte list"
  have "server_ok demo_ext 60 demo_chunks sql_demo_rows (=) (Suc 39) (m_server ?L)"
    using assms by (simp add: represents_def stored_loop_def)
  then obtain srv1 c where new: "ClientConn_new demo_ext 7 ?info (m_server ?L) = Inr (srv1, c)" using ClientConn_new_ok by blast
  have pool: "m_queue (m_requests (m_threadPool ?L)) = []" "0 < m_size (m_requests (m_threadPool ?L))"
    and ths: "m_threads (m_threadPool ?L) = [] @ Fetching # replicate 7 Fetching"
    by (simp_all add: stored_loop_def demo_loop_def ThreadPool_new_def BlockQueue_new_def start_threads_eq flip: replicate_Suc)
  obtain L1 L2 where L: "handle_event demo_ext (Incoming 7 ?info) ?L = Inr L1" "worker_fetch 0 L1 = Some L2"
    "m_threads (m_threadPool L1) = m_threads (m_threadPool ?L)" "m_queue (m_requests (m_threadPool L2)) = []"
    "m_size (m_requests (m_threadPool L2)) = m_size (m_requests (m_threadPool ?L))"
    "m_threads (m_threadPool L2) = Executing \<lparr>req_func = stub, req_arg = next_obj ?L\<rparr> # replicate 7 Fetching"
    using session_in_pool [OF new pool ths, of undefined None undefined, unfolded list.size append_Nil]
    by (elim exE conjE) (rule that; assumption)
  have one: "mixed_step demo_ext (\<lambda>_. 0) (Overlap (Arrive 7 ?info ?job)) (?L, []) = Inr ((L1, [new_party (\<lambda>_. 0) (next_obj ?L) ?job]), None)"
    using L(1) by simp
  have two: "mixed_step demo_ext (\<lambda>_. 0) (Overlap (Fetch 0)) (L1, ps) = Inr ((L2, ps), None)" for ps
    using L(2,3) ths by simp
  have "can_get 1 L2" using L(4-6) pool(2) by (simp add: can_get_def)
  moreover have "get_file_name ''b'' = ''b''" by code_simp
  ultimately show ?thesis
    by (simp add: demo_mixed_def one two content_of_def del: mixed_step.simps)
qed


end
