(* ===== verification/Upload_Race.thy ===== *)
theory Upload_Race
  imports File_Store ClientConn_Containers
begin

text \<open>
  The request for an upload in two steps. The handler asks the database whether the file is new and adds its row by a
  second statement, without a lock or a transaction, so the requests of two connections can interleave between
  them. \<open>receive_file_begin_split\<close> shows that the two steps make up \<open>receive_file_begin\<close>; the property is the
  schedule that the message-wise interleaving of theory \<open>Concurrent_System\<close> leaves out.
\<close>

section \<open>The two steps\<close>

definition upload_check :: "'db ext \<Rightarrow> string \<Rightarrow> 'db server \<times> conn \<Rightarrow> crash + bool \<times> 'db server \<times> conn" where
  "upload_check ext fileName = (\<lambda>(srv, c).
     bindR (recipe_file ext (client_id (m_client_info c)) fileName) (\<lambda>name.
     bindR (isFileUnique ext (client_id (m_client_info c)) fileName srv) (\<lambda>(unique, srv).
     Inr (unique, srv, c\<lparr>m_recipeNameHash := name\<rparr>))))"

definition upload_answer ::
    "'db ext \<Rightarrow> string \<Rightarrow> bool \<times> 'db server \<times> conn \<Rightarrow> crash + ('db server \<times> conn \<times> upload_locals option) \<times> byte list list" where
  "upload_answer ext fileName = (\<lambda>(unique, srv, c).
     (if \<not> unique
      then Inr ((srv, c, None), [send_control_message (x_malloc ext) UPLOADREP [] DUPLICATE])
      else bindR (addFile ext (client_id (m_client_info c)) fileName srv) (\<lambda>srv.
        Inr ((write_recipe_open (m_recipeNameHash c) srv, set_out_type UPLOADBODYREP c,
              Some (upload_start (dec_addr (mem_read (x_malloc ext) 0 56)))),
             [send_control_message (x_malloc ext) UPLOADREP [] UNIQUE]))))"

lemma receive_file_begin_split: "receive_file_begin ext fn s = bindR (upload_check ext fn s) (upload_answer ext fn)"
  by (cases s) (simp add: receive_file_begin_def upload_check_def upload_answer_def bindR_assoc case_prod_beta' Let_def cong: if_cong)

lemma upload_check_unique:
  assumes "env_ok ext N C" "db_ready ext rows same srv" "name_ok fn" "rows (m_db srv) (sint (client_id (m_client_info c))) fn = 0"
  shows "\<exists>p. upload_check ext fn (srv, c) = Inr (True, srv\<lparr>m_mysqlPool := p\<rparr>,
      c\<lparr>m_recipeNameHash := recipe_key ext (client_id (m_client_info c)) fn\<rparr>) \<and> pool_ok p \<and> m_connpool p \<noteq> []"
  using isFileUnique_Inr [of ext rows same fn srv "client_id (m_client_info c)"] assms
  by (auto simp: upload_check_def recipe_file_eq db_ready_def name_ok_def)

lemma upload_answer_unique:
  assumes "db_ready ext rows same srv" "name_ok fn"
  shows "\<exists>p l. upload_answer ext fn (True, srv, c) =
      Inr ((srv\<lparr>m_db := fst (x_exec ext (m_db srv) (insert_query (client_id (m_client_info c)) fn)), m_mysqlPool := p,
              recipes_dir := (recipes_dir srv)(m_recipeNameHash c \<mapsto> u32_bytes 0)\<rparr>, set_out_type UPLOADBODYREP c, Some l),
           [send_control_message (x_malloc ext) UPLOADREP [] UNIQUE]) \<and> pool_ok p \<and> m_connpool p \<noteq> []"
  using addFile_Inr [of fn srv ext "client_id (m_client_info c)"] assms
  by (auto simp: upload_answer_def write_recipe_open_def db_ready_def name_ok_def)

text \<open>
  C33: two connections of one client can both be told that their file is new. If both ask before either adds its row, both
  are answered \<open>UNIQUE\<close>, the table then holds two rows for the file, and both connections write the same recipe file, the
  second one emptying what the first had written. One after the other, the second would be answered \<open>DUPLICATE\<close>.
\<close>

theorem uploads_race:
  assumes env: "env_ok ext N C" and db: "db_ready ext rows same srv" and name: "name_ok fn"
    and new: "rows (m_db srv) (sint cid) fn = 0" and same_id: "client_id (m_client_info a) = cid" "client_id (m_client_info b) = cid"
  shows "\<exists>s1 a1 s2 b1 s3 a2 l s4 b2 l'.
    upload_check ext fn (srv, a) = Inr (True, s1, a1) \<and> upload_check ext fn (s1, b) = Inr (True, s2, b1) \<and>
    upload_answer ext fn (True, s2, a1) = Inr ((s3, a2, Some l), [send_control_message (x_malloc ext) UPLOADREP [] UNIQUE]) \<and>
    upload_answer ext fn (True, s3, b1) = Inr ((s4, b2, Some l'), [send_control_message (x_malloc ext) UPLOADREP [] UNIQUE]) \<and>
    rows (m_db s4) (sint cid) fn = 2 \<and> m_recipeNameHash a2 = recipe_key ext cid fn \<and> m_recipeNameHash b2 = recipe_key ext cid fn \<and>
    recipes_dir s4 (recipe_key ext cid fn) = Some (u32_bytes 0)"
proof -
  let ?ins = "insert_query cid fn"
  have grows: "rows (fst (x_exec ext d ?ins)) (sint cid) fn = Suc (rows d (sint cid) fn)" for d
    using db name by (simp add: db_ready_def mysql_files_def name_ok_def)
  obtain p1 where c1: "upload_check ext fn (srv, a) = Inr (True, srv\<lparr>m_mysqlPool := p1\<rparr>, a\<lparr>m_recipeNameHash := recipe_key ext cid fn\<rparr>)"
    "pool_ok p1" "m_connpool p1 \<noteq> []" using upload_check_unique [OF env db name] new same_id by blast
  obtain p2 where c2: "upload_check ext fn (srv\<lparr>m_mysqlPool := p1\<rparr>, b) =
      Inr (True, srv\<lparr>m_mysqlPool := p2\<rparr>, b\<lparr>m_recipeNameHash := recipe_key ext cid fn\<rparr>)" "pool_ok p2" "m_connpool p2 \<noteq> []"
    using upload_check_unique [OF env _ name, of rows same "srv\<lparr>m_mysqlPool := p1\<rparr>" b] db c1(2,3) new same_id
    by (auto simp: db_ready_def)
  have db2: "db_ready ext rows same (srv\<lparr>m_mysqlPool := p2\<rparr>)" using db c2(2,3) by (simp add: db_ready_def)
  obtain p3 l where a1: "upload_answer ext fn (True, srv\<lparr>m_mysqlPool := p2\<rparr>, a\<lparr>m_recipeNameHash := recipe_key ext cid fn\<rparr>) =
      Inr ((srv\<lparr>m_db := fst (x_exec ext (m_db srv) ?ins), m_mysqlPool := p3,
              recipes_dir := (recipes_dir srv)(recipe_key ext cid fn \<mapsto> u32_bytes 0)\<rparr>,
            set_out_type UPLOADBODYREP (a\<lparr>m_recipeNameHash := recipe_key ext cid fn\<rparr>), Some l),
           [send_control_message (x_malloc ext) UPLOADREP [] UNIQUE])" "pool_ok p3" "m_connpool p3 \<noteq> []"
    using upload_answer_unique [OF db2 name, of "a\<lparr>m_recipeNameHash := recipe_key ext cid fn\<rparr>"] same_id by auto
  let ?s3 = "srv\<lparr>m_db := fst (x_exec ext (m_db srv) ?ins), m_mysqlPool := p3,
              recipes_dir := (recipes_dir srv)(recipe_key ext cid fn \<mapsto> u32_bytes 0)\<rparr>"
  have "db_ready ext rows same ?s3" using db a1(2,3) by (simp add: db_ready_def)
  from upload_answer_unique [OF this name, of "b\<lparr>m_recipeNameHash := recipe_key ext cid fn\<rparr>"] obtain p4 l' where
    "upload_answer ext fn (True, ?s3, b\<lparr>m_recipeNameHash := recipe_key ext cid fn\<rparr>) =
      Inr ((?s3\<lparr>m_db := fst (x_exec ext (m_db ?s3) ?ins), m_mysqlPool := p4,
              recipes_dir := (recipes_dir ?s3)(recipe_key ext cid fn \<mapsto> u32_bytes 0)\<rparr>,
            set_out_type UPLOADBODYREP (b\<lparr>m_recipeNameHash := recipe_key ext cid fn\<rparr>), Some l'),
           [send_control_message (x_malloc ext) UPLOADREP [] UNIQUE])"
    using same_id by auto
  then show ?thesis using c1(1) c2(1) a1(1) new by (auto simp: grows set_out_type_def)
qed

theorem uploads_race_witness:
  "\<exists>s1 a1 s2 b1 s3 a2 l s4 b2 l'.
    upload_check demo_ext ''a'' (demo_server, filled_conn) = Inr (True, s1, a1) \<and> upload_check demo_ext ''a'' (s1, filled_conn) = Inr (True, s2, b1) \<and>
    upload_answer demo_ext ''a'' (True, s2, a1) = Inr ((s3, a2, Some l), [send_control_message (x_malloc demo_ext) UPLOADREP [] UNIQUE]) \<and>
    upload_answer demo_ext ''a'' (True, s3, b1) = Inr ((s4, b2, Some l'), [send_control_message (x_malloc demo_ext) UPLOADREP [] UNIQUE]) \<and>
    sql_demo_rows (m_db s4) (sint (client_id (m_client_info filled_conn))) ''a'' = 2"
proof -
  have ready: "represents demo_ext 60 demo_chunks sql_demo_rows (=) demo_names 0 demo_server Map.empty" by (rule demo_represents) simp
  then have env: "env_ok demo_ext 60 demo_chunks" and db: "db_ready demo_ext sql_demo_rows (=) demo_server"
    by (simp_all add: represents_def server_ok_def)
  have "name_ok ''a''" by (simp add: name_ok_def plain_name_def)
  moreover have "sql_demo_rows (m_db demo_server) (sint (client_id (m_client_info filled_conn))) ''a'' = 0" by (simp add: demo_server_def sql_demo_rows_def)
  note ok = calculation this
  show ?thesis using uploads_race [OF env db ok refl refl] by (elim exE conjE) (intro exI conjI; assumption)
qed

end
