(* ===== verification/Producer_Consumer.thy ===== *)
theory Producer_Consumer
  imports Dedup_Prelude
begin

text \<open>
  The two experiments in which a producer hands the numbers 1 to 100 to a consumer through a bounded buffer:
  \<^verbatim>\<open>testProducerConsumer.cc\<close>, which signals after it has released the mutex, and \<^verbatim>\<open>testCPP11sync.cc\<close>, which notifies while
  it holds it. A thread's step is what it does between two points at which the other one can run; \<open>pc_reach\<close> adds
  spurious wake-ups. The contract of the two threads is the locale \<open>handoff\<close>, which both programs meet.
\<close>

section \<open>State\<close>

definition MAXITEMNUM :: nat where "MAXITEMNUM = 100"
definition QUEUESIZE :: nat where "QUEUESIZE = 5"

text \<open>
  Where the threads are: at the head of the loop, with the mutex at the test of the inner \<^verbatim>\<open>while\<close>, asleep on the condition
  variable, after the unlock and before the signal, or returned.
\<close>

datatype producer_pc = P_Loop | P_Checking | P_Asleep | P_Signal | P_Returned
datatype consumer_pc = C_Checking | C_Asleep | C_Signal nat | C_Returned

record handoff_state =
  item_count :: nat      \<comment> \<open>the global \<open>count\<close>\<close>
  buffer :: "nat list"
  producer_at :: producer_pc
  consumer_at :: consumer_pc
  printed :: "nat list"  \<comment> \<open>the items the consumer has printed\<close>

definition handoff_start :: handoff_state where
  "handoff_start = \<lparr>item_count = 0, buffer = [], producer_at = P_Loop, consumer_at = C_Checking, printed = []\<rparr>"

definition signal_noempty :: "handoff_state \<Rightarrow> handoff_state" where
  "signal_noempty s = (if consumer_at s = C_Asleep then s\<lparr>consumer_at := C_Checking\<rparr> else s)"

definition signal_nofull :: "handoff_state \<Rightarrow> handoff_state" where
  "signal_nofull s = (if producer_at s = P_Asleep then s\<lparr>producer_at := P_Checking\<rparr> else s)"

section \<open>The threads\<close>

text \<open>\<^verbatim>\<open>testProducerConsumer.cc\<close>; \<open>None\<close> when the thread sleeps or has returned.\<close>

definition func_producer :: "handoff_state \<Rightarrow> handoff_state option" where
  "func_producer s =
     (case producer_at s of
        P_Loop \<Rightarrow>
          if item_count s = MAXITEMNUM then Some (s\<lparr>producer_at := P_Returned\<rparr>)
          else Some (s\<lparr>item_count := item_count s + 1, producer_at := P_Checking\<rparr>)
      | P_Checking \<Rightarrow>
          if length (buffer s) = QUEUESIZE then Some (s\<lparr>producer_at := P_Asleep\<rparr>)
          else Some (s\<lparr>buffer := buffer s @ [item_count s], producer_at := P_Signal\<rparr>)
      | P_Signal \<Rightarrow> Some (signal_noempty (s\<lparr>producer_at := P_Loop\<rparr>))
      | P_Asleep \<Rightarrow> None
      | P_Returned \<Rightarrow> None)"

definition func_consumer :: "handoff_state \<Rightarrow> handoff_state option" where
  "func_consumer s =
     (case consumer_at s of
        C_Checking \<Rightarrow>
          (case buffer s of
             [] \<Rightarrow> Some (s\<lparr>consumer_at := C_Asleep\<rparr>)
           | item # rest \<Rightarrow> Some (s\<lparr>buffer := rest, printed := printed s @ [item], consumer_at := C_Signal item\<rparr>))
      | C_Signal item \<Rightarrow>
          Some (signal_nofull (s\<lparr>consumer_at := (if item = MAXITEMNUM then C_Returned else C_Checking)\<rparr>))
      | C_Asleep \<Rightarrow> None
      | C_Returned \<Rightarrow> None)"

text \<open>\<^verbatim>\<open>testCPP11sync.cc\<close>: the \<open>unique_lock\<close> is released at the end of the loop body, after the notification.\<close>

definition func_producer11 :: "handoff_state \<Rightarrow> handoff_state option" where
  "func_producer11 s =
     (case producer_at s of
        P_Loop \<Rightarrow>
          if item_count s = MAXITEMNUM then Some (s\<lparr>producer_at := P_Returned\<rparr>)
          else Some (s\<lparr>item_count := item_count s + 1, producer_at := P_Checking\<rparr>)
      | P_Checking \<Rightarrow>
          if length (buffer s) = QUEUESIZE then Some (s\<lparr>producer_at := P_Asleep\<rparr>)
          else Some (signal_noempty (s\<lparr>buffer := buffer s @ [item_count s], producer_at := P_Loop\<rparr>))
      | _ \<Rightarrow> None)"

definition func_consumer11 :: "handoff_state \<Rightarrow> handoff_state option" where
  "func_consumer11 s =
     (case consumer_at s of
        C_Checking \<Rightarrow>
          (case buffer s of
             [] \<Rightarrow> Some (s\<lparr>consumer_at := C_Asleep\<rparr>)
           | item # rest \<Rightarrow> Some (signal_nofull (s\<lparr>buffer := rest, printed := printed s @ [item],
               consumer_at := (if item = MAXITEMNUM then C_Returned else C_Checking)\<rparr>)))
      | _ \<Rightarrow> None)"

text \<open>The states reached with \<open>n\<close> steps of the threads and \<open>k\<close> spurious wake-ups.\<close>

inductive pc_reach ::
    "(handoff_state \<Rightarrow> handoff_state option) \<Rightarrow> (handoff_state \<Rightarrow> handoff_state option) \<Rightarrow> nat \<Rightarrow> nat \<Rightarrow> handoff_state \<Rightarrow> bool"
  for prod cons where
  pc_start: "pc_reach prod cons 0 0 handoff_start"
| pc_produce: "pc_reach prod cons n k s \<Longrightarrow> prod s = Some s' \<Longrightarrow> pc_reach prod cons (Suc n) k s'"
| pc_consume: "pc_reach prod cons n k s \<Longrightarrow> cons s = Some s' \<Longrightarrow> pc_reach prod cons (Suc n) k s'"
| pc_wake_producer: "pc_reach prod cons n k s \<Longrightarrow> producer_at s = P_Asleep \<Longrightarrow>
    pc_reach prod cons n (Suc k) (s\<lparr>producer_at := P_Checking\<rparr>)"
| pc_wake_consumer: "pc_reach prod cons n k s \<Longrightarrow> consumer_at s = C_Asleep \<Longrightarrow>
    pc_reach prod cons n (Suc k) (s\<lparr>consumer_at := C_Checking\<rparr>)"

section \<open>The invariant\<close>

text \<open>How many items have been put into the buffer.\<close>

definition items_put :: "handoff_state \<Rightarrow> nat" where
  "items_put s = (if producer_at s \<in> {P_Checking, P_Asleep} then item_count s - 1 else item_count s)"

definition handoff_inv :: "handoff_state \<Rightarrow> bool" where
  "handoff_inv s \<longleftrightarrow> printed s @ buffer s = [1..<Suc (items_put s)] \<and> length (buffer s) \<le> QUEUESIZE \<and> item_count s \<le> MAXITEMNUM \<and>
     (producer_at s \<in> {P_Checking, P_Asleep} \<longrightarrow> 0 < item_count s) \<and>
     (producer_at s = P_Returned \<longrightarrow> item_count s = MAXITEMNUM) \<and>
     (case consumer_at s of
        C_Signal item \<Rightarrow> printed s \<noteq> [] \<and> last (printed s) = item
      | C_Returned \<Rightarrow> length (printed s) = MAXITEMNUM
      | _ \<Rightarrow> length (printed s) < MAXITEMNUM) \<and>
     (producer_at s = P_Asleep \<longrightarrow> length (buffer s) = QUEUESIZE \<or> (\<exists>item. consumer_at s = C_Signal item)) \<and>
     (consumer_at s = C_Asleep \<longrightarrow> buffer s = [] \<or> producer_at s = P_Signal)"

text \<open>A bound on the steps that are left.\<close>

definition producer_weight :: "producer_pc \<Rightarrow> nat" where
  "producer_weight pc = (case pc of P_Loop \<Rightarrow> 2 | P_Checking \<Rightarrow> 1 | P_Asleep \<Rightarrow> 0 | P_Signal \<Rightarrow> 4 | P_Returned \<Rightarrow> 0)"

definition consumer_weight :: "consumer_pc \<Rightarrow> nat" where
  "consumer_weight pc = (case pc of C_Checking \<Rightarrow> 1 | C_Asleep \<Rightarrow> 0 | C_Signal _ \<Rightarrow> 3 | C_Returned \<Rightarrow> 0)"

definition handoff_work :: "handoff_state \<Rightarrow> nat" where
  "handoff_work s = 4 * (MAXITEMNUM - items_put s) + 4 * (MAXITEMNUM - length (printed s)) +
     producer_weight (producer_at s) + consumer_weight (consumer_at s)"

lemma producer_woken:
  assumes "handoff_inv s" "producer_at s = P_Asleep"
  shows "handoff_inv (s\<lparr>producer_at := P_Checking\<rparr>) \<and> handoff_work (s\<lparr>producer_at := P_Checking\<rparr>) = Suc (handoff_work s)"
  using assms
  by (cases "consumer_at s") (auto simp: handoff_inv_def items_put_def handoff_work_def producer_weight_def QUEUESIZE_def simp del: upt_Suc)

lemma consumer_woken:
  assumes "handoff_inv s" "consumer_at s = C_Asleep"
  shows "handoff_inv (s\<lparr>consumer_at := C_Checking\<rparr>) \<and> handoff_work (s\<lparr>consumer_at := C_Checking\<rparr>) = Suc (handoff_work s)"
  using assms
  by (cases "producer_at s") (auto simp: handoff_inv_def items_put_def handoff_work_def consumer_weight_def QUEUESIZE_def simp del: upt_Suc)

lemma handoff_counts:
  assumes "handoff_inv s"
  shows "length (printed s) + length (buffer s) = items_put s" "items_put s \<le> MAXITEMNUM"
proof -
  have items: "printed s @ buffer s = [1..<Suc (items_put s)]" using assms by (simp add: handoff_inv_def)
  show "length (printed s) + length (buffer s) = items_put s" using arg_cong [OF items, of length] by simp
  show "items_put s \<le> MAXITEMNUM" using assms by (auto simp: handoff_inv_def items_put_def)
qed

lemma printed_in_order:
  assumes inv: "handoff_inv s"
  shows "printed s = [1..<Suc (length (printed s))]"
proof -
  have "printed s = take (length (printed s)) (printed s @ buffer s)" by simp
  also have "\<dots> = take (length (printed s)) [1..<Suc (items_put s)]" using inv by (simp add: handoff_inv_def del: upt_Suc)
  also have "\<dots> = [1..<Suc (length (printed s))]" using handoff_counts(1) [OF inv] by (subst take_upt) simp_all
  finally show ?thesis .
qed

locale handoff =
  fixes prod cons :: "handoff_state \<Rightarrow> handoff_state option"
  assumes produce: "handoff_inv s \<Longrightarrow> prod s = Some s' \<Longrightarrow> handoff_inv s' \<and> handoff_work s' < handoff_work s"
    and consume: "handoff_inv s \<Longrightarrow> cons s = Some s' \<Longrightarrow> handoff_inv s' \<and> handoff_work s' < handoff_work s"
    and sleepers: "handoff_inv s \<Longrightarrow> prod s = None \<Longrightarrow> cons s = None \<Longrightarrow>
      producer_at s \<in> {P_Asleep, P_Returned} \<and> consumer_at s \<in> {C_Asleep, C_Returned}"
begin

lemma reach_inv: "pc_reach prod cons n k s \<Longrightarrow> handoff_inv s \<and> n + handoff_work s \<le> handoff_work handoff_start + k"
proof (induction rule: pc_reach.induct)
  case pc_start
  then show ?case by (simp add: handoff_inv_def handoff_start_def items_put_def MAXITEMNUM_def)
next
  case (pc_produce n k s s')
  then show ?case using produce [of s s'] by simp
next
  case (pc_consume n k s s')
  then show ?case using consume [of s s'] by simp
next
  case (pc_wake_producer n k s)
  then show ?case using producer_woken [of s] by simp
next
  case (pc_wake_consumer n k s)
  then show ?case using consumer_woken [of s] by simp
qed

text \<open>A state in which neither thread can step is the end: no wake-up is lost.\<close>

lemma stuck_finished:
  assumes "handoff_inv s" "prod s = None" "cons s = None"
  shows "producer_at s = P_Returned \<and> consumer_at s = C_Returned \<and> printed s = [1..<Suc MAXITEMNUM]"
proof -
  note at = sleepers [OF assms]
  have items: "printed s @ buffer s = [1..<Suc (items_put s)]" using assms(1) by (simp add: handoff_inv_def)
  note count = handoff_counts [OF assms(1)]
  have ret: "consumer_at s = C_Returned"
  proof (rule ccontr)
    assume "consumer_at s \<noteq> C_Returned"
    then have "consumer_at s = C_Asleep" using at by simp
    then have "buffer s = []" "length (printed s) < MAXITEMNUM" using assms(1) at by (auto simp: handoff_inv_def)
    then show False using at assms(1) \<open>consumer_at s = C_Asleep\<close> count
      by (auto simp: handoff_inv_def items_put_def QUEUESIZE_def split: if_splits)
  qed
  then have full: "length (printed s) = MAXITEMNUM" using assms(1) by (simp add: handoff_inv_def)
  then have "length (buffer s) = 0" "items_put s = MAXITEMNUM" using count by linarith+
  then have empty: "buffer s = []" "items_put s = MAXITEMNUM" by simp_all
  then have "producer_at s = P_Returned" using at assms(1) ret by (auto simp: handoff_inv_def QUEUESIZE_def)
  then show ?thesis using ret items empty by simp
qed

end


section \<open>The programs meet the contract\<close>

lemma handoff_inv_item:
  assumes "handoff_inv s" "buffer s = item # rest"
  shows "item = Suc (length (printed s))" "length (printed s) < items_put s" "items_put s \<le> MAXITEMNUM"
proof -
  have items: "printed s @ item # rest = [1..<Suc (items_put s)]" using assms by (simp add: handoff_inv_def)
  have len: "length (printed s) + Suc (length rest) = items_put s" using handoff_counts(1) [OF assms(1)] assms(2) by simp
  then show "length (printed s) < items_put s" by simp
  have "item = (printed s @ item # rest) ! length (printed s)" by simp
  also have "\<dots> = Suc (length (printed s))" unfolding items using len by (simp del: upt_Suc)
  finally show "item = Suc (length (printed s))" .
  show "items_put s \<le> MAXITEMNUM" by (rule handoff_counts(2) [OF assms(1)])
qed

lemma producer_steps:
  assumes inv: "handoff_inv s"
  shows "producer_at s = P_Loop \<Longrightarrow> func_producer s = Some s' \<Longrightarrow> handoff_inv s' \<and> handoff_work s' < handoff_work s"
    and "producer_at s = P_Checking \<Longrightarrow> func_producer s = Some s' \<Longrightarrow> handoff_inv s' \<and> handoff_work s' < handoff_work s"
    and "producer_at s = P_Signal \<Longrightarrow> func_producer s = Some s' \<Longrightarrow> handoff_inv s' \<and> handoff_work s' < handoff_work s"
proof -
  note defs = handoff_inv_def items_put_def handoff_work_def producer_weight_def consumer_weight_def func_producer_def signal_noempty_def
  show "handoff_inv s' \<and> handoff_work s' < handoff_work s" if at: "producer_at s = P_Loop" and step: "func_producer s = Some s'"
  proof (cases "item_count s = MAXITEMNUM")
    case True
    then have "s' = s\<lparr>producer_at := P_Returned\<rparr>" using at step by (simp add: func_producer_def)
    then show ?thesis using inv at True by (cases "consumer_at s") (auto simp: defs simp del: upt_Suc)
  next
    case False
    then have "s' = s\<lparr>item_count := item_count s + 1, producer_at := P_Checking\<rparr>" using at step by (simp add: func_producer_def)
    then show ?thesis using inv at False by (cases "consumer_at s") (auto simp: defs simp del: upt_Suc)
  qed
  show "handoff_inv s' \<and> handoff_work s' < handoff_work s" if at: "producer_at s = P_Signal" and step: "func_producer s = Some s'"
  proof (cases "consumer_at s = C_Asleep")
    case True
    then have "s' = s\<lparr>producer_at := P_Loop, consumer_at := C_Checking\<rparr>" using at step by (simp add: func_producer_def signal_noempty_def)
    then show ?thesis using inv at True by (simp add: defs del: upt_Suc)
  next
    case False
    then have "s' = s\<lparr>producer_at := P_Loop\<rparr>" using at step by (simp add: func_producer_def signal_noempty_def)
    then show ?thesis using inv at False by (cases "consumer_at s") (simp_all add: defs del: upt_Suc)
  qed
  show "handoff_inv s' \<and> handoff_work s' < handoff_work s" if at: "producer_at s = P_Checking" and step: "func_producer s = Some s'"
  proof (cases "length (buffer s) = QUEUESIZE")
    case True
    then show ?thesis using inv at step by (cases "consumer_at s") (auto simp: defs QUEUESIZE_def simp del: upt_Suc)
  next
    case False
    obtain n where n: "item_count s = Suc n" using inv at by (cases "item_count s") (auto simp: handoff_inv_def)
    have "printed s @ buffer s = [1..<Suc n]" using inv at by (simp add: defs n del: upt_Suc)
    then have "printed s @ buffer s @ [Suc n] = [1..<Suc (Suc n)]" by (simp flip: append_assoc)
    then show ?thesis using inv at step False n by (cases "consumer_at s") (auto simp: defs simp del: upt_Suc)
  qed
qed

lemma consumer_steps:
  assumes inv: "handoff_inv s" and step: "func_consumer s = Some s'"
  shows "handoff_inv s' \<and> handoff_work s' < handoff_work s"
proof -
  note defs = handoff_inv_def items_put_def handoff_work_def producer_weight_def consumer_weight_def func_consumer_def signal_nofull_def
  show ?thesis
  proof (cases "consumer_at s")
    case (C_Signal item)
    note items = printed_in_order [OF inv]
    have "item = last (printed s)" using inv C_Signal by (simp add: handoff_inv_def)
    also have "\<dots> = length (printed s)"
      using inv C_Signal by (subst items) (simp add: handoff_inv_def Suc_le_eq)
    finally have item: "item = length (printed s)" .
    have "length (printed s) \<le> MAXITEMNUM" using handoff_counts [OF inv] by linarith
    moreover have "s' = signal_nofull (s\<lparr>consumer_at := (if item = MAXITEMNUM then C_Returned else C_Checking)\<rparr>)"
      using step C_Signal by (simp add: func_consumer_def)
    ultimately show ?thesis
      using inv C_Signal item by (cases "producer_at s"; cases "item = MAXITEMNUM") (simp_all add: defs del: upt_Suc)
  next
    case C_Checking
    show ?thesis
    proof (cases "buffer s")
      case Nil
      then show ?thesis using inv step C_Checking by (cases "producer_at s") (auto simp: defs simp del: upt_Suc)
    next
      case (Cons item rest)
      note it = handoff_inv_item [OF inv Cons]
      moreover have "s' = s\<lparr>buffer := rest, printed := printed s @ [item], consumer_at := C_Signal item\<rparr>"
        using step C_Checking Cons by (simp add: func_consumer_def)
      moreover have "MAXITEMNUM - Suc (length (printed s)) < MAXITEMNUM - length (printed s)" using it by simp
      ultimately show ?thesis using inv C_Checking Cons by (cases "producer_at s") (simp_all add: defs del: upt_Suc)
    qed
  qed (use step in \<open>simp_all add: func_consumer_def\<close>)
qed


interpretation pthread: handoff func_producer func_consumer
proof unfold_locales
  fix s s' assume inv: "handoff_inv s"
  show "handoff_inv s' \<and> handoff_work s' < handoff_work s" if "func_producer s = Some s'"
    using that producer_steps [OF inv, of s'] by (cases "producer_at s") (auto simp: func_producer_def)
  show "handoff_inv s' \<and> handoff_work s' < handoff_work s" if "func_consumer s = Some s'"
    using consumer_steps [OF inv that] .
  show "producer_at s \<in> {P_Asleep, P_Returned} \<and> consumer_at s \<in> {C_Asleep, C_Returned}"
    if "func_producer s = None" "func_consumer s = None"
    using that by (auto simp: func_producer_def func_consumer_def split: producer_pc.splits consumer_pc.splits list.splits if_splits)
qed

text \<open>A step of \<^verbatim>\<open>testCPP11sync.cc\<close> is one or two steps of \<^verbatim>\<open>testProducerConsumer.cc\<close>.\<close>

definition no_signal :: "handoff_state \<Rightarrow> bool" where
  "no_signal s \<longleftrightarrow> producer_at s \<noteq> P_Signal \<and> (\<forall>item. consumer_at s \<noteq> C_Signal item)"

lemma producer11_steps:
  assumes "func_producer11 s = Some s'"
  shows "func_producer s = Some s' \<or> Option.bind (func_producer s) func_producer = Some s'"
  using assms by (auto simp: func_producer11_def func_producer_def signal_noempty_def split: producer_pc.splits if_splits)

lemma consumer11_steps:
  assumes "func_consumer11 s = Some s'"
  shows "func_consumer s = Some s' \<or> Option.bind (func_consumer s) func_consumer = Some s'"
  using assms by (auto simp: func_consumer11_def func_consumer_def signal_nofull_def split: consumer_pc.splits list.splits if_splits)

lemma no_signal11:
  assumes "no_signal s"
  shows "func_producer11 s = Some s' \<Longrightarrow> no_signal s'" "func_consumer11 s = Some s' \<Longrightarrow> no_signal s'"
  using assms
  by (auto simp: no_signal_def func_producer11_def func_consumer11_def signal_noempty_def signal_nofull_def
      split: producer_pc.splits consumer_pc.splits list.splits if_splits)

lemma cpp11_reaches:
  "pc_reach func_producer11 func_consumer11 n k s \<Longrightarrow>
   no_signal s \<and> (\<exists>m \<ge> n. pc_reach func_producer func_consumer m k s)"
proof (induction rule: pc_reach.induct)
  case pc_start
  have "no_signal handoff_start" by (simp add: no_signal_def handoff_start_def)
  then show ?case using pc_reach.pc_start by blast
next
  case (pc_produce n k s s')
  then obtain m where m: "n \<le> m" "pc_reach func_producer func_consumer m k s" by blast
  have "\<exists>m' > m. pc_reach func_producer func_consumer m' k s'"
    using producer11_steps [unfolded bind_eq_Some_conv, OF pc_produce.hyps(2)] pc_reach.pc_produce [of func_producer func_consumer] m(2) by (metis lessI less_SucI)
  then show ?case using no_signal11(1) pc_produce m(1) by (metis Suc_leI le_less_trans)
next
  case (pc_consume n k s s')
  then obtain m where m: "n \<le> m" "pc_reach func_producer func_consumer m k s" by blast
  have "\<exists>m' > m. pc_reach func_producer func_consumer m' k s'"
    using consumer11_steps [unfolded bind_eq_Some_conv, OF pc_consume.hyps(2)] pc_reach.pc_consume [of func_producer func_consumer] m(2) by (metis lessI less_SucI)
  then show ?case using no_signal11(2) pc_consume m(1) by (metis Suc_leI le_less_trans)
next
  case (pc_wake_producer n k s)
  then have "no_signal (s\<lparr>producer_at := P_Checking\<rparr>)" by (simp add: no_signal_def)
  then show ?case using pc_wake_producer pc_reach.pc_wake_producer [of func_producer func_consumer] by blast
next
  case (pc_wake_consumer n k s)
  then have "no_signal (s\<lparr>consumer_at := C_Checking\<rparr>)" by (simp add: no_signal_def)
  then show ?case using pc_wake_consumer pc_reach.pc_wake_consumer [of func_producer func_consumer] by blast
qed

text \<open>Neither thread of \<^verbatim>\<open>testCPP11sync.cc\<close> can step only when neither of the other program can.\<close>

lemma cpp11_stuck:
  assumes "no_signal s" "func_producer11 s = None" "func_consumer11 s = None"
  shows "func_producer s = None" "func_consumer s = None"
  using assms
  by (auto simp: no_signal_def func_producer11_def func_consumer11_def func_producer_def func_consumer_def
      split: producer_pc.splits consumer_pc.splits list.splits if_splits)

section \<open>The properties\<close>

text \<open>
  The producer and the consumer of \<^verbatim>\<open>testProducerConsumer.cc\<close> finish, in every interleaving and with spurious wake-ups: the
  consumer prints the numbers from 1 in order, the buffer never holds more than five, the threads take at most 803 steps
  more than there are spurious wake-ups, and when no thread can go on both have returned and all 100 are printed.
\<close>

theorem producer_consumer_finish:
  assumes "pc_reach func_producer func_consumer n k s"
  shows "printed s = [1..<Suc (length (printed s))] \<and> length (buffer s) \<le> QUEUESIZE \<and> n \<le> 803 + k \<and>
    (func_producer s = None \<longrightarrow> func_consumer s = None \<longrightarrow>
       producer_at s = P_Returned \<and> consumer_at s = C_Returned \<and> printed s = [1..<Suc MAXITEMNUM])"
proof -
  have inv: "handoff_inv s" and work: "n + handoff_work s \<le> handoff_work handoff_start + k"
    using pthread.reach_inv [OF assms] by simp_all
  have "handoff_work handoff_start = 803"
    by (simp add: handoff_work_def handoff_start_def items_put_def MAXITEMNUM_def producer_weight_def consumer_weight_def)
  moreover have "printed s = [1..<Suc (length (printed s))]" by (rule printed_in_order [OF inv])
  moreover have "length (buffer s) \<le> QUEUESIZE" using inv by (simp add: handoff_inv_def)
  ultimately show ?thesis using pthread.stuck_finished [OF inv] work by simp
qed

text \<open>
  \<^verbatim>\<open>testCPP11sync.cc\<close> does what \<^verbatim>\<open>testProducerConsumer.cc\<close> does: every state it reaches the other program reaches with as
  many spurious wake-ups, and when neither of its threads can go on all 100 numbers have been printed.
\<close>

theorem cpp11_refines_pthread:
  assumes "pc_reach func_producer11 func_consumer11 n k s"
  shows "(\<exists>m \<ge> n. pc_reach func_producer func_consumer m k s) \<and>
    (func_producer11 s = None \<longrightarrow> func_consumer11 s = None \<longrightarrow> consumer_at s = C_Returned \<and> printed s = [1..<Suc MAXITEMNUM])"
proof -
  obtain m where m: "n \<le> m" "pc_reach func_producer func_consumer m k s" and quiet: "no_signal s"
    using cpp11_reaches [OF assms] by blast
  then show ?thesis using pthread.reach_inv pthread.stuck_finished cpp11_stuck by blast
qed

text \<open>Three steps: the producer counts and puts 1, the consumer prints it.\<close>

definition handoff_three :: handoff_state where
  "handoff_three = \<lparr>item_count = 1, buffer = [], producer_at = P_Signal, consumer_at = C_Signal 1, printed = [1]\<rparr>"

definition handoff_three11 :: handoff_state where
  "handoff_three11 = \<lparr>item_count = 1, buffer = [], producer_at = P_Loop, consumer_at = C_Checking, printed = [1]\<rparr>"

lemma handoff_three_reached: "pc_reach func_producer func_consumer (Suc (Suc (Suc 0))) 0 handoff_three"
proof -
  have "pc_reach func_producer func_consumer (Suc 0) 0 (handoff_start\<lparr>item_count := 1, producer_at := P_Checking\<rparr>)"
    by (rule pc_produce [OF pc_start]) (simp add: func_producer_def handoff_start_def MAXITEMNUM_def)
  then have "pc_reach func_producer func_consumer (Suc (Suc 0)) 0 (handoff_start\<lparr>item_count := 1, buffer := [1], producer_at := P_Signal\<rparr>)"
    by (rule pc_produce) (simp add: func_producer_def handoff_start_def QUEUESIZE_def)
  then show ?thesis
    by (rule pc_consume) (simp add: func_consumer_def handoff_start_def handoff_three_def)
qed

lemma handoff_three11_reached: "pc_reach func_producer11 func_consumer11 (Suc (Suc (Suc 0))) 0 handoff_three11"
proof -
  have "pc_reach func_producer11 func_consumer11 (Suc 0) 0 (handoff_start\<lparr>item_count := 1, producer_at := P_Checking\<rparr>)"
    by (rule pc_produce [OF pc_start]) (simp add: func_producer11_def handoff_start_def MAXITEMNUM_def)
  then have "pc_reach func_producer11 func_consumer11 (Suc (Suc 0)) 0 (handoff_start\<lparr>item_count := 1, buffer := [1]\<rparr>)"
    by (rule pc_produce) (simp add: func_producer11_def handoff_start_def QUEUESIZE_def signal_noempty_def)
  then show ?thesis
    by (rule pc_consume) (simp add: func_consumer11_def handoff_start_def handoff_three11_def signal_nofull_def MAXITEMNUM_def)
qed

theorem producer_consumer_finish_witness:
  "pc_reach func_producer func_consumer (Suc (Suc (Suc 0))) 0 handoff_three \<and> printed handoff_three = [1..<Suc (length (printed handoff_three))]"
  using producer_consumer_finish [OF handoff_three_reached] handoff_three_reached by blast

theorem cpp11_refines_pthread_witness:
  "\<exists>m \<ge> 3. pc_reach func_producer func_consumer m 0 handoff_three11"
  using cpp11_refines_pthread [OF handoff_three11_reached] by (simp add: numeral_3_eq_3)

end
