(* ===== verification/Experiments.thy ===== *)
theory Experiments
  imports Producer_Consumer ThreadPool MysqlConnPool Util
begin

text \<open>
  The other programs of \<^verbatim>\<open>src/app\<close> that try out a technique: threads around a counter (\<^verbatim>\<open>testThread.cc\<close>), creating and joining
  threads (\<^verbatim>\<open>testPthread.cc\<close>), a singleton (\<^verbatim>\<open>testSingleton.cc\<close>), waiting for descriptors (\<^verbatim>\<open>testIOMultiplex.cc\<close>), and the
  thread pool and the connection pool on their own (\<^verbatim>\<open>testThreadPool.cc\<close>, \<^verbatim>\<open>testMysqlConnPool.cc\<close>). The printed lines are
  the results; \<open>sleep\<close> is left out.
\<close>

section \<open>testThread.cc\<close>

text \<open>
  Ten threads count to 100 together. One iteration of \<open>worker\<close> runs with the mutex: it either returns or increments the
  counter. A schedule is the list of the threads in the order in which they get the mutex.
\<close>

record Hello =
  m_cnt :: nat
  returned :: "nat set"
  increments :: "nat list"   \<comment> \<open>the threads that incremented, in order\<close>

definition Hello_new :: Hello where
  "Hello_new = \<lparr>m_cnt = 0, returned = {}, increments = []\<rparr>"

definition hello_worker :: "nat \<Rightarrow> Hello \<Rightarrow> Hello" where
  "hello_worker t h =
     (if t \<in> returned h then h
      else if m_cnt h = 100 then h\<lparr>returned := insert t (returned h)\<rparr>
      else h\<lparr>m_cnt := m_cnt h + 1, increments := increments h @ [t]\<rparr>)"

definition hello_run :: "nat list \<Rightarrow> Hello" where
  "hello_run sched = fold hello_worker sched Hello_new"

lemma hello_step:
  assumes "m_cnt h \<le> 100 \<and> length (increments h) = m_cnt h \<and> (returned h \<noteq> {} \<longrightarrow> m_cnt h = 100) \<and> returned h \<subseteq> {..<10}" "t < 10"
  shows "m_cnt (hello_worker t h) \<le> 100 \<and> length (increments (hello_worker t h)) = m_cnt (hello_worker t h) \<and>
    (returned (hello_worker t h) \<noteq> {} \<longrightarrow> m_cnt (hello_worker t h) = 100) \<and> returned (hello_worker t h) \<subseteq> {..<10}"
  using assms by (auto simp: hello_worker_def)

lemma hello_invariant:
  assumes "set sched \<subseteq> {..<10}"
  shows "m_cnt (hello_run sched) \<le> 100 \<and> length (increments (hello_run sched)) = m_cnt (hello_run sched) \<and>
    (returned (hello_run sched) \<noteq> {} \<longrightarrow> m_cnt (hello_run sched) = 100) \<and> returned (hello_run sched) \<subseteq> {..<10}"
  using assms
proof (induction sched rule: rev_induct)
  case Nil
  then show ?case by (simp add: hello_run_def Hello_new_def)
next
  case (snoc t sched)
  then show ?case using hello_step [of "hello_run sched" t] by (simp add: hello_run_def)
qed

text \<open>Every turn of a thread that has not returned counts or returns.\<close>

definition hello_left :: "Hello \<Rightarrow> nat" where
  "hello_left h = (100 - m_cnt h) + card ({..<10} - returned h)"

lemma hello_progress:
  assumes "m_cnt h \<le> 100" "t < 10" "t \<notin> returned h"
  shows "hello_left (hello_worker t h) < hello_left h"
proof (cases "m_cnt h = 100")
  case True
  have "{..<10} - insert t (returned h) = ({..<10} - returned h) - {t}" by blast
  moreover have "card (({..<10} - returned h) - {t}) < card ({..<10::nat} - returned h)"
    using assms(2,3) by (intro psubset_card_mono) auto
  ultimately show ?thesis using True assms(3) by (simp add: hello_left_def hello_worker_def)
next
  case False
  then show ?thesis using assms by (simp add: hello_left_def hello_worker_def)
qed

section \<open>testPthread.cc\<close>

text \<open>
  The main thread creates five threads and joins them; \<open>PrintHello\<close> prints its number and exits with it. \<open>created i\<close> is
  whether the \<open>i\<close>-th \<open>pthread_create\<close> succeeds; the program joins \<open>threads[i]\<close> also when it did not, which reads
  an uninitialised variable (\<open>None\<close>).
\<close>

definition THREADNUM :: nat where "THREADNUM = 5"

definition PrintHello :: "nat \<Rightarrow> string \<times> nat" where
  "PrintHello arg = (''Hello World! My id is '' @ to_string (int arg) @ ''!'', arg)"

definition create_threads :: "(nat \<Rightarrow> bool) \<Rightarrow> (string \<times> nat) option list" where
  "create_threads created = map (\<lambda>i. if created i then Some (PrintHello i) else None) [0..<THREADNUM]"

fun join_threads :: "nat \<Rightarrow> (string \<times> nat) option list \<Rightarrow> string list option" where
  "join_threads i [] = Some []"
| "join_threads i (None # ths) = None"
| "join_threads i (Some (out, status) # ths) =
     map_option (\<lambda>outs. (''thread '' @ to_string (int i) @ '' completes. the result is '' @ to_string (int status)) # outs)
       (join_threads (Suc i) ths)"

definition pthread_main :: "(nat \<Rightarrow> bool) \<Rightarrow> string list option" where
  "pthread_main created = join_threads 0 (create_threads created)"

lemma join_threads_Some:
  "join_threads i (map (\<lambda>k. Some (PrintHello k)) [i..<i + n]) =
   Some (map (\<lambda>k. ''thread '' @ to_string (int k) @ '' completes. the result is '' @ to_string (int k)) [i..<i + n])"
proof (induction n arbitrary: i)
  case (Suc n)
  have "[i..<i + Suc n] = i # [Suc i..<Suc i + n]" by (simp add: upt_conv_Cons del: upt_Suc)
  then show ?case using Suc.IH [of "Suc i"] by (simp add: PrintHello_def del: upt_Suc)
qed simp

lemma join_threads_uninitialised: "None \<in> set ths \<Longrightarrow> join_threads i ths = None"
  by (induction i ths rule: join_threads.induct) auto

lemma pthread_main_result:
  "pthread_main created =
   (if \<forall>i < THREADNUM. created i
    then Some (map (\<lambda>k. ''thread '' @ to_string (int k) @ '' completes. the result is '' @ to_string (int k)) [0..<THREADNUM])
    else None)"
proof (cases "\<forall>i < THREADNUM. created i")
  case True
  then have "create_threads created = map (\<lambda>k. Some (PrintHello k)) [0..<0 + THREADNUM]" by (simp add: create_threads_def)
  then show ?thesis using True join_threads_Some [of 0 THREADNUM] by (simp add: pthread_main_def)
next
  case False
  then have "None \<in> set (create_threads created)" by (force simp: create_threads_def)
  then have "pthread_main created = None" using join_threads_uninitialised by (simp add: pthread_main_def)
  then show ?thesis using False by simp
qed

section \<open>testSingleton.cc\<close>

text \<open>
  The static member \<open>single\<close> is constructed before \<open>main\<close> and destroyed after it; ten threads print its address, which
  \<open>getInstance\<close> returns without synchronisation since it only reads. The texts are given by their UTF-8 bytes.
\<close>

definition constructor_text :: string where
  "constructor_text =
     [CHR 0xE6, CHR 0x9E, CHR 0x84, CHR 0xE9, CHR 0x80, CHR 0xA0, CHR 0xE5, CHR 0x87, CHR 0xBD, CHR 0xE6, CHR 0x95, CHR 0xB0]"

definition destructor_text :: string where
  "destructor_text =
     [CHR 0xE6, CHR 0x9E, CHR 0x90, CHR 0xE6, CHR 0x9E, CHR 0x84, CHR 0xE5, CHR 0x87, CHR 0xBD, CHR 0xE6, CHR 0x95, CHR 0xB0]"

definition address_text :: string where
  "address_text =
     [CHR 0xE6, CHR 0x88, CHR 0x91, CHR 0xE7, CHR 0x9A, CHR 0x84, CHR 0xE5, CHR 0x86, CHR 0x85, CHR 0xE5, CHR 0xAD, CHR 0x98, 
      CHR 0xE5, CHR 0x9C, CHR 0xB0, CHR 0xE5, CHR 0x9D, CHR 0x80, CHR 0xE6, CHR 0x98, CHR 0xAF, CHR 0x3A, CHR 0x20]"

record singleton_state =
  single :: "nat option"   \<comment> \<open>the address while it is alive\<close>
  lines :: "string list"

definition Single_new :: "nat \<Rightarrow> singleton_state \<Rightarrow> singleton_state" where
  "Single_new address s = s\<lparr>single := Some address, lines := lines s @ [constructor_text]\<rparr>"

definition Single_delete :: "singleton_state \<Rightarrow> singleton_state" where
  "Single_delete s = s\<lparr>single := None, lines := lines s @ [destructor_text]\<rparr>"

definition getInstance :: "singleton_state \<Rightarrow> nat option" where
  "getInstance s = single s"

definition Single_Print :: "nat \<Rightarrow> string" where
  "Single_Print this = address_text @ to_string (int this)"

text \<open>One thread: \<open>None\<close> would be a use of the object outside its life.\<close>

definition singleton_test :: "singleton_state \<Rightarrow> singleton_state option" where
  "singleton_test s = map_option (\<lambda>p. s\<lparr>lines := lines s @ [Single_Print p]\<rparr>) (getInstance s)"

fun run_tests :: "nat \<Rightarrow> singleton_state \<Rightarrow> singleton_state option" where
  "run_tests 0 s = Some s"
| "run_tests (Suc n) s = Option.bind (singleton_test s) (run_tests n)"

definition singleton_main :: "nat \<Rightarrow> singleton_state option" where
  "singleton_main address =
     map_option Single_delete (run_tests 10 (Single_new address \<lparr>single = None, lines = []\<rparr>))"

lemma run_tests_lines:
  "single s = Some p \<Longrightarrow> run_tests n s = Some (s\<lparr>lines := lines s @ replicate n (Single_Print p)\<rparr>)"
proof (induction n arbitrary: s)
  case (Suc n)
  then show ?case by (simp add: singleton_test_def getInstance_def)
qed simp

lemma singleton_main_lines:
  "singleton_main address =
   Some \<lparr>single = None, lines = [constructor_text] @ replicate 10 (Single_Print address) @ [destructor_text]\<rparr>"
  by (simp add: singleton_main_def run_tests_lines Single_new_def Single_delete_def)

section \<open>testIOMultiplex.cc\<close>

text \<open>
  One iteration of each of the three loops: what is printed for the results of the call that waits. \<open>perror\<close> is given the
  text \<open>select()\<close> in \<open>testpoll\<close> too.
\<close>

definition POLLIN :: u16 where "POLLIN = 0x001"
definition POLLOUT :: u16 where "POLLOUT = 0x004"
definition EPOLLOUT :: u32 where "EPOLLOUT = 0x004"

definition testpoll_step :: "int \<Rightarrow> u16 \<Rightarrow> u16 \<Rightarrow> string" where
  "testpoll_step ret revents0 revents1 =
     (if ret = -1 then ''select()''
      else if revents0 AND POLLIN \<noteq> 0 then ''data is availiable''
      else if revents1 AND POLLOUT \<noteq> 0 then ''data is writable''
      else ''timeout'')"

definition testselect_step :: "int \<Rightarrow> int set \<Rightarrow> int set \<Rightarrow> string" where
  "testselect_step ret rfds wfds =
     (if ret = -1 then ''select()''
      else if 0 \<in> rfds then ''data is availiable''
      else if 1 \<in> wfds then ''data is writable''
      else ''timeout'')"

definition testepoll_event :: "u32 \<Rightarrow> string list" where
  "testepoll_event events =
     (if events AND EPOLLIN \<noteq> 0 then [''data is avialable'']
      else if events AND EPOLLOUT \<noteq> 0 then [''data is writable'']
      else [])"

text \<open>\<open>errno\<close> is \<open>EINTR\<close> when \<open>eintr\<close>; the loop over the events reads \<open>events[i]\<close> for \<open>i < ret\<close>.\<close>

definition testepoll_step :: "int \<Rightarrow> bool \<Rightarrow> u32 list \<Rightarrow> string list" where
  "testepoll_step ret eintr events =
     (if ret = -1 \<and> \<not> eintr then [''epoll_wait()''] else []) @
     concat (map (\<lambda>i. testepoll_event (events ! nat i)) [0..ret - 1])"

text \<open>
  With input and room for output at once \<open>poll\<close> and \<open>select\<close> report only the input, \<open>epoll\<close> reports both; and
  \<open>poll\<close> reports a hang-up of the input as a timeout.
\<close>

lemma poll_hides_output: "testpoll_step 2 POLLIN POLLOUT = testpoll_step 1 POLLIN 0"
  by (simp add: testpoll_step_def POLLIN_def)

lemma epoll_reports_both:
  "testepoll_step 2 eintr [EPOLLIN, EPOLLOUT] = [''data is avialable'', ''data is writable'']"
proof -
  have "[0..2 - 1] = [0, 1 :: int]" by (simp add: upto.simps)
  then show ?thesis by (simp add: testepoll_step_def testepoll_event_def EPOLLIN_def EPOLLOUT_def)
qed

lemma poll_hangup_is_timeout: "testpoll_step 1 0x010 0 = ''timeout''"
  by (simp add: testpoll_step_def POLLIN_def POLLOUT_def)

section \<open>testThreadPool.cc\<close>

text \<open>\<open>main\<close> appends eight requests with the arguments 0 to 7 to a pool of 8 threads with a queue of 20.\<close>

datatype test_fn = SleepHello

fun append_requests :: "nat list \<Rightarrow> (test_fn, nat) ThreadPool \<Rightarrow> (test_fn, nat) ThreadPool option" where
  "append_requests [] p = Some p"
| "append_requests (i # is) p = Option.bind (tp_append \<lparr>req_func = SleepHello, req_arg = i\<rparr> p) (append_requests is)"

definition thread_pool_main :: "(test_fn, nat) ThreadPool option" where
  "thread_pool_main = append_requests [0..<8] (ThreadPool_new 8 20)"

lemma append_requests_room:
  assumes "length (m_queue (m_requests p)) + length is \<le> m_size (m_requests p)"
  shows "\<exists>p'. append_requests is p = Some p' \<and>
    m_queue (m_requests p') = m_queue (m_requests p) @ map (\<lambda>i. \<lparr>req_func = SleepHello, req_arg = i\<rparr>) is \<and> m_threads p' = m_threads p"
  using assms
proof (induction "is" arbitrary: p)
  case (Cons i "is")
  let ?r = "\<lparr>req_func = SleepHello, req_arg = i\<rparr>"
  obtain p1 where p1: "tp_append ?r p = Some p1" "m_queue (m_requests p1) = m_queue (m_requests p) @ [?r]"
    "m_size (m_requests p1) = m_size (m_requests p)" "m_threads p1 = m_threads p"
    using Cons.prems by (auto simp: tp_append_def push_def)
  then show ?case using Cons.IH [of p1] Cons.prems by auto
qed simp

text \<open>No call of \<open>append\<close> waits, and the requests wait in the order of their arguments.\<close>

lemma thread_pool_main_queue:
  "\<exists>p. thread_pool_main = Some p \<and> map req_arg (m_queue (m_requests p)) = [0..<8] \<and> m_threads p = replicate 8 Fetching"
  using append_requests_room [of "ThreadPool_new 8 20" "[0..<8]"]
  by (auto simp: thread_pool_main_def ThreadPool_new_def BlockQueue_new_def start_threads_eq comp_def simp del: upt_Suc)

section \<open>testMysqlConnPool.cc\<close>

text \<open>
  Twenty threads take a connection for the time of a \<open>sleep\<close> from a pool of eight. One thread: the constructor of
  \<open>MysqlConn\<close>, which may wait, and its destructor.
\<close>

definition mysql_worker_begin :: "nat \<Rightarrow> 'c pool_sys \<Rightarrow> crash + 'c pool_sys" where
  "mysql_worker_begin t s =
     bindR (get_connection (pool s)) (\<lambda>(conn, p). Inr (s\<lparr>pool := p, held := (held s)(t \<mapsto> conn)\<rparr>))"

definition mysql_worker_end :: "nat \<Rightarrow> 'c pool_sys \<Rightarrow> 'c pool_sys" where
  "mysql_worker_end t s =
     (case held s t of None \<Rightarrow> s
      | Some conn \<Rightarrow> s\<lparr>pool := release_connection conn (pool s), held := (held s)(t := None)\<rparr>)"

lemma mysql_worker_steps:
  "held s t = None \<Longrightarrow> mysql_worker_begin t s = Inr s' \<Longrightarrow> pool_step s s'"
  "held s t \<noteq> None \<Longrightarrow> pool_step s (mysql_worker_end t s)"
  by (auto simp: mysql_worker_begin_def mysql_worker_end_def bindR_eq_Inr_iff intro: pool_step.intros)

text \<open>At most as many threads hold a connection as the pool has, however many there are.\<close>

lemma pool_limits_threads:
  assumes "pool_reachable p s" "pool_ok p"
  shows "card (dom (held s)) \<le> length (m_connpool p)"
proof -
  have inv: "pool_inv (set (m_connpool p)) s" using pool_reachable_inv assms by blast
  then have "ran (held s) \<subseteq> set (m_connpool p)" "inj_on (held s) (dom (held s))" by (auto simp: pool_inv_def)
  then have "inj_on (\<lambda>t. the (held s t)) (dom (held s))" "(\<lambda>t. the (held s t)) ` dom (held s) \<subseteq> set (m_connpool p)"
    by (auto simp: inj_on_def dom_def ran_def)
  then have "card (dom (held s)) \<le> card (set (m_connpool p))" by (intro card_inj_on_le) simp_all
  then show ?thesis using card_length le_trans by blast
qed

section \<open>The threads of testThread.cc\<close>

text \<open>
  The ten threads of \<^verbatim>\<open>testThread.cc\<close> count to exactly 100. In every schedule the counter is the number of increments
  and never exceeds 100, a thread returns only when it is 100, and a thread that has not returned makes progress
  whenever it gets the mutex, so at most 110 turns are useful.
\<close>

theorem hello_counts_to_100:
  assumes "set sched \<subseteq> {..<10}" "t < 10" "t \<notin> returned (hello_run sched)"
  shows "m_cnt (hello_run sched) = length (increments (hello_run sched)) \<and> m_cnt (hello_run sched) \<le> 100 \<and>
    (returned (hello_run sched) \<noteq> {} \<longrightarrow> m_cnt (hello_run sched) = 100) \<and> hello_left (hello_run sched) \<le> 110 \<and>
    hello_left (hello_run (sched @ [t])) < hello_left (hello_run sched)"
proof -
  have "card ({..<10} - returned (hello_run sched)) \<le> card {..<10::nat}" by (intro card_mono) auto
  then have "hello_left (hello_run sched) \<le> 110" by (simp add: hello_left_def)
  then show ?thesis
    using hello_invariant [OF assms(1)] hello_progress [of "hello_run sched" t] assms(2,3) by (simp add: hello_run_def)
qed

theorem hello_counts_to_100_witness:
  "hello_left (hello_run [3, 3, 7, 0]) < hello_left (hello_run [3, 3, 7])"
  using hello_counts_to_100 [of "[3, 3, 7]" 0] by (simp add: hello_run_def Hello_new_def hello_worker_def)

end
